(* ===== verification/Kortex_Prelude.thy ===== *)
theory Kortex_Prelude
  imports Complex_Main "HOL-Library.AList" "HOL-Library.Sublist" "HOL-Library.Multiset"
begin

text \<open>
  Shared vocabulary of the development.

  \<^item> The collections \<open>kortex_defs\<close> (unfolding of the small lookup tables and helpers) and
    \<open>kortex_inv\<close> (preservation lemmas), which the component theories extend.
  \<^item> The values the Python code computes with.  A Python \<open>str\<close> is a \<^typ>\<open>string\<close> of ASCII
    code points, a \<open>float\<close> is a \<^typ>\<open>real\<close> (no rounding), an \<open>int\<close> is an \<^typ>\<open>int\<close> (a \<^typ>\<open>nat\<close>
    where the source can only hold counts), an aware \<open>datetime\<close> is a number of microseconds
    (\<open>time\<close>), a \<open>dict\<close> is an association list in insertion order, decoded JSON is \<open>json\<close>.
  \<^item> The functions of the Python standard library the source calls on those values
    (\<open>strip\<close>, \<open>split\<close>, \<open>join\<close>, \<open>startswith\<close>, \<open>count\<close>, \<open>replace\<close>, stable \<open>sorted\<close>, \<dots>) and the
    generic lemmas about them.
  \<^item> Exceptions as values: \<open>'a result\<close> is \<open>py_error + 'a\<close>.
\<close>

named_theorems kortex_defs
named_theorems kortex_inv


section \<open>Values and errors\<close>

type_synonym time = int

text \<open>The exception classes the modelled code raises, with their message.\<close>

datatype py_error =
    AccessDeniedError string
  | QuotaExceededError string
  | TenantViolationError string
  | AuthError string
  | JwtError string
  | AccountError string
  | SignupError string
  | AttachmentError string
  | BillingError string
  | BillingUnavailableError string
  | StorageError string
  | ExtractionError string
  | LlmError string
  | EmbeddingError string
  | ValueError string
  | KeyError string
  | IndexError string
  | AttributeError string
  | RejectedError string
  | ProgrammingError string
  | IntegrityError string
  | DataError string
  | TypeError string
  | OverflowError string
  | ValidationError string
  | RuntimeError string
  | ConnectionError string
  | NotFoundError string
  | JSONDecodeError string
  | UnreadableExportError string

type_synonym 'a result = "py_error + 'a"

datatype json =
    JNull
  | JBool bool
  | JInt int
  | JFloat real
  | JStr string
  | JList "json list"
  | JObj "(string \<times> json) list"

text \<open>\<open>d.get(k)\<close> on a dict; Python's \<open>None\<close> is \<^const>\<open>JNull\<close> or the absence of the key.\<close>

definition dict_get :: "(string \<times> 'v) list \<Rightarrow> string \<Rightarrow> 'v option" where
  "dict_get d k = map_of d k"

text \<open>\<open>{**a, **b}\<close>: the keys of \<open>a\<close> keep their place, those of \<open>b\<close> win.\<close>

definition dict_merge :: "('k \<times> 'v) list \<Rightarrow> ('k \<times> 'v) list \<Rightarrow> ('k \<times> 'v) list" where
  "dict_merge a b = fold (\<lambda>(k, v) d. AList.update k v d) b a"

lemma map_of_dict_update [simp]:
  "map_of (AList.update k v d) = (map_of d)(k \<mapsto> v)"
  by (rule update_conv')

lemma keys_dict_update [simp]:
  "fst ` set (AList.update k v d) = insert k (fst ` set d)"
  by (simp add: dom_update)

lemma map_of_dict_merge:
  "distinct (map fst b) \<Longrightarrow>
     map_of (dict_merge a b) k = (case map_of b k of None \<Rightarrow> map_of a k | Some v \<Rightarrow> Some v)"
proof (induction b arbitrary: a)
  case Nil
  then show ?case by (simp add: dict_merge_def)
next
  case (Cons p b)
  obtain k' v' where p: "p = (k', v')" by force
  have "map_of (dict_merge a (p # b)) k = map_of (dict_merge (AList.update k' v' a) b) k"
    by (simp add: dict_merge_def p)
  also have "\<dots> = (case map_of b k of None \<Rightarrow> map_of (AList.update k' v' a) k | Some v \<Rightarrow> Some v)"
    using Cons by simp
  finally show ?case
    using Cons.prems p by (auto split: option.splits simp: map_of_eq_None_iff image_iff)
qed


section \<open>Characters and strings\<close>

definition code :: "char \<Rightarrow> nat" where
  "code c = of_char c"

text \<open>\<open>str.isspace\<close> on ASCII: tab to carriage return, the four separators, space.\<close>

definition py_isspace :: "char \<Rightarrow> bool" where
  "py_isspace c = ((9 \<le> code c \<and> code c \<le> 13) \<or> (28 \<le> code c \<and> code c \<le> 32))"

definition py_isdigit :: "char \<Rightarrow> bool" where
  "py_isdigit c = (48 \<le> code c \<and> code c \<le> 57)"

definition py_isupper :: "char \<Rightarrow> bool" where
  "py_isupper c = (65 \<le> code c \<and> code c \<le> 90)"

definition py_islower :: "char \<Rightarrow> bool" where
  "py_islower c = (97 \<le> code c \<and> code c \<le> 122)"

definition py_isalpha :: "char \<Rightarrow> bool" where
  "py_isalpha c = (py_isupper c \<or> py_islower c)"

definition py_isalnum :: "char \<Rightarrow> bool" where
  "py_isalnum c = (py_isalpha c \<or> py_isdigit c)"

definition lower_char :: "char \<Rightarrow> char" where
  "lower_char c = (if py_isupper c then char_of (code c + 32) else c)"

definition upper_char :: "char \<Rightarrow> char" where
  "upper_char c = (if py_islower c then char_of (code c - 32) else c)"

definition py_lower :: "string \<Rightarrow> string" where
  "py_lower s = map lower_char s"

definition py_upper :: "string \<Rightarrow> string" where
  "py_upper s = map upper_char s"

definition lstrip_by :: "(char \<Rightarrow> bool) \<Rightarrow> string \<Rightarrow> string" where
  "lstrip_by p s = dropWhile p s"

definition rstrip_by :: "(char \<Rightarrow> bool) \<Rightarrow> string \<Rightarrow> string" where
  "rstrip_by p s = rev (dropWhile p (rev s))"

definition py_strip :: "string \<Rightarrow> string" where
  "py_strip s = rstrip_by py_isspace (lstrip_by py_isspace s)"

definition startswith :: "string \<Rightarrow> string \<Rightarrow> bool" where
  "startswith s p = (take (length p) s = p)"

definition endswith :: "string \<Rightarrow> string \<Rightarrow> bool" where
  "endswith s p = (length p \<le> length s \<and> drop (length s - length p) s = p)"

text \<open>\<open>s.split(c)\<close> for a one-character separator, and \<open>s.split(c, n)\<close>.\<close>

fun split_on :: "char \<Rightarrow> string \<Rightarrow> string list" where
  "split_on c [] = [[]]"
| "split_on c (x # xs) =
     (if x = c then [] # split_on c xs
      else (case split_on c xs of [] \<Rightarrow> [[x]] | y # ys \<Rightarrow> (x # y) # ys))"

fun split_max :: "nat \<Rightarrow> char \<Rightarrow> string \<Rightarrow> string list" where
  "split_max 0 c s = [s]"
| "split_max (Suc n) c s =
     (let a = takeWhile (\<lambda>x. x \<noteq> c) s; r = dropWhile (\<lambda>x. x \<noteq> c) s
      in case r of [] \<Rightarrow> [a] | _ # r' \<Rightarrow> a # split_max n c r')"

text \<open>\<open>s.split()\<close>: maximal runs of non-space characters.\<close>

fun words_aux :: "string \<Rightarrow> string \<Rightarrow> string list" where
  "words_aux w [] = (if w = [] then [] else [rev w])"
| "words_aux w (x # xs) =
     (if py_isspace x then (if w = [] then words_aux [] xs else rev w # words_aux [] xs)
      else words_aux (x # w) xs)"

definition py_words :: "string \<Rightarrow> string list" where
  "py_words s = words_aux [] s"

fun py_join :: "string \<Rightarrow> string list \<Rightarrow> string" where
  "py_join sep [] = []"
| "py_join sep [x] = x"
| "py_join sep (x # y # zs) = x @ sep @ py_join sep (y # zs)"

text \<open>\<open>s.count(p)\<close> for a non-empty \<open>p\<close>: occurrences from the left that do not overlap.\<close>

function py_count :: "string \<Rightarrow> string \<Rightarrow> nat" where
  "py_count s p =
     (if p = [] \<or> s = [] then 0
      else if startswith s p then Suc (py_count (drop (length p) s) p)
      else py_count (tl s) p)"
  by pat_completeness auto
termination
  by (relation "measure (\<lambda>(s, p). length s)") (auto simp: neq_Nil_conv)

declare py_count.simps [simp del]

text \<open>\<open>s.replace(p, r, 1)\<close> for a non-empty \<open>p\<close>: the leftmost occurrence.\<close>

fun py_replace1 :: "string \<Rightarrow> string \<Rightarrow> string \<Rightarrow> string" where
  "py_replace1 [] p r = []"
| "py_replace1 (x # xs) p r =
     (if startswith (x # xs) p then r @ drop (length p) (x # xs)
      else x # py_replace1 xs p r)"

text \<open>\<open>s.replace(c, "")\<close> for one character.\<close>

definition remove_char :: "char \<Rightarrow> string \<Rightarrow> string" where
  "remove_char c s = filter (\<lambda>x. x \<noteq> c) s"

text \<open>\<open>s[-n:]\<close>: the last \<open>n\<close> characters, all of \<open>s\<close> when it is shorter.\<close>

definition last_n :: "nat \<Rightarrow> 'a list \<Rightarrow> 'a list" where
  "last_n n s = (if n = 0 then s else drop (length s - n) s)"

text \<open>\<open>s[:n]\<close> for any integer \<open>n\<close>: a negative bound counts from the end.\<close>

definition slice_to :: "int \<Rightarrow> 'a list \<Rightarrow> 'a list" where
  "slice_to n s = (if 0 \<le> n then take (nat n) s else take (length s - nat (- n)) s)"

definition digit_char :: "nat \<Rightarrow> char" where
  "digit_char d = char_of (48 + d)"

fun show_nat :: "nat \<Rightarrow> string" where
  "show_nat n = (if n < 10 then [digit_char n] else show_nat (n div 10) @ [digit_char (n mod 10)])"

declare show_nat.simps [simp del]

definition show_int :: "int \<Rightarrow> string" where
  "show_int i = (if i < 0 then CHR ''-'' # show_nat (nat (- i)) else show_nat (nat i))"

text \<open>\<open>repr\<close> of a string of Latin-1 characters.\<close>

definition hex_char :: "nat \<Rightarrow> char" where
  "hex_char n = (if n < 10 then digit_char n else char_of (87 + n))"

definition printable :: "char \<Rightarrow> bool" where
  "printable c = (let n = code c in (32 \<le> n \<and> n \<le> 126) \<or> (161 \<le> n \<and> n \<noteq> 173))"

definition repr_char :: "char \<Rightarrow> char \<Rightarrow> string" where
  "repr_char q c =
     (if c = q \<or> c = CHR 0x5C then [CHR 0x5C, c]
      else if c = CHR 0x0A then [CHR 0x5C, CHR ''n'']
      else if c = CHR 0x0D then [CHR 0x5C, CHR ''r'']
      else if c = CHR 0x09 then [CHR 0x5C, CHR ''t'']
      else if printable c then [c]
      else [CHR 0x5C, CHR ''x'', hex_char (code c div 16), hex_char (code c mod 16)])"

definition py_repr_str :: "string \<Rightarrow> string" where
  "py_repr_str s =
     (let q = (if CHR 0x27 \<in> set s \<and> CHR 0x22 \<notin> set s then CHR 0x22 else CHR 0x27)
      in [q] @ concat (map (repr_char q) s) @ [q])"

definition digit_val :: "char \<Rightarrow> nat" where
  "digit_val c = code c - 48"

definition parse_nat :: "string \<Rightarrow> nat" where
  "parse_nat s = fold (\<lambda>c n. 10 * n + digit_val c) s 0"

text \<open>\<open>int(x)\<close> on a JSON value; \<open>None\<close> where it raises \<open>TypeError\<close> or \<open>ValueError\<close>.\<close>

definition parse_digits :: "string \<Rightarrow> int option" where
  "parse_digits s =
     (let groups = split_on CHR ''_'' s
      in if list_all (\<lambda>g. g \<noteq> [] \<and> list_all py_isdigit g) groups
         then Some (int (parse_nat (concat groups))) else None)"

definition signed :: "(string \<Rightarrow> 'a option) \<Rightarrow> ('a \<Rightarrow> 'a) \<Rightarrow> string \<Rightarrow> 'a option" where
  "signed p neg s =
     (if s \<noteq> [] \<and> hd s = CHR ''-'' then map_option neg (p (tl s))
      else if s \<noteq> [] \<and> hd s = CHR ''+'' then p (tl s)
      else p s)"

definition py_int :: "json \<Rightarrow> int option" where
  "py_int v =
     (case v of
        JInt i \<Rightarrow> Some i
      | JBool b \<Rightarrow> Some (if b then 1 else 0)
      | JFloat x \<Rightarrow> Some (if x \<ge> 0 then \<lfloor>x\<rfloor> else - \<lfloor>- x\<rfloor>)
      | JStr s \<Rightarrow> signed parse_digits uminus (py_strip s)
      | _ \<Rightarrow> None)"

text \<open>
  \<open>float(s)\<close> on a string: an optional sign and a decimal literal, or one of the names of infinity and
  not-a-number.  Decimal literals denote their exact value.
\<close>

datatype py_float = Finite real | Infinite bool | NotANumber

definition mantissa :: "string \<Rightarrow> real option" where
  "mantissa s =
     (let frac = (\<lambda>f. map_option (\<lambda>n. real_of_int n / 10 ^ length (remove_char CHR ''_'' f)) (parse_digits f))
      in case split_on CHR ''.'' s of
           [i] \<Rightarrow> map_option real_of_int (parse_digits i)
         | [i, f] \<Rightarrow>
             if i = [] then frac f
             else if f = [] then map_option real_of_int (parse_digits i)
             else (case (parse_digits i, frac f) of (Some a, Some b) \<Rightarrow> Some (real_of_int a + b) | _ \<Rightarrow> None)
         | _ \<Rightarrow> None)"

definition unsigned_float :: "string \<Rightarrow> py_float option" where
  "unsigned_float s =
     (if s \<in> {''inf'', ''infinity''} then Some (Infinite False)
      else if s = ''nan'' then Some NotANumber
      else case split_on CHR ''e'' s of
             [m] \<Rightarrow> map_option Finite (mantissa m)
           | [m, e] \<Rightarrow>
               (case (mantissa m, signed parse_digits uminus e) of
                  (Some x, Some k) \<Rightarrow> Some (Finite (if k \<ge> 0 then x * 10 ^ nat k else x / 10 ^ nat (- k)))
                | _ \<Rightarrow> None)
           | _ \<Rightarrow> None)"

fun negate_float :: "py_float \<Rightarrow> py_float" where
  "negate_float (Finite x) = Finite (- x)"
| "negate_float (Infinite n) = Infinite (\<not> n)"
| "negate_float NotANumber = NotANumber"

text \<open>\<open>float(v)\<close> on a JSON value: an integer too large for a double overflows.\<close>

definition py_to_float :: "json \<Rightarrow> py_float result" where
  "py_to_float v =
     (case v of
        JInt i \<Rightarrow> if \<bar>i\<bar> \<ge> 2 ^ 1024 - 2 ^ 970 then Inl (OverflowError ''int too large to convert to float'')
                  else Inr (Finite (real_of_int i))
      | JBool b \<Rightarrow> Inr (Finite (if b then 1 else 0))
      | JFloat x \<Rightarrow> Inr (Finite x)
      | JStr s \<Rightarrow> (case signed unsigned_float negate_float (py_lower (py_strip s)) of
                    Some x \<Rightarrow> Inr x
                  | None \<Rightarrow> Inl (ValueError (''could not convert string to float: '' @ py_repr_str s)))
      | _ \<Rightarrow> Inl (TypeError ''float() argument must be a string or a real number''))"

text \<open>\<open>sorted(xs, key=k, reverse=True)\<close> is stable, as ascending sorting by the negated key is.\<close>

definition sorted_desc :: "('a \<Rightarrow> real) \<Rightarrow> 'a list \<Rightarrow> 'a list" where
  "sorted_desc k xs = sort_key (\<lambda>x. - k x) xs"

abbreviation newline :: char where
  "newline \<equiv> CHR 0x0A"


section \<open>Lemmas on strings and lists\<close>

lemma digit_val_range: "py_isdigit c \<Longrightarrow> digit_val c \<le> 9"
  unfolding py_isdigit_def digit_val_def by linarith

lemma digit_char_digit: "n < 10 \<Longrightarrow> py_isdigit (digit_char n) \<and> digit_val (digit_char n) = n"
  by (simp add: py_isdigit_def digit_val_def digit_char_def code_def)

lemma show_nat_digits: "show_nat n \<noteq> [] \<and> (\<forall>c \<in> set (show_nat n). py_isdigit c)"
proof (induction n rule: show_nat.induct)
  case (1 n)
  have eq: "show_nat n = (if n < 10 then [digit_char n] else show_nat (n div 10) @ [digit_char (n mod 10)])"
    by (rule show_nat.simps)
  show ?case unfolding eq using 1 by (auto simp: digit_char_digit)
qed

lemma parse_show_nat: "parse_nat (show_nat n) = n"
proof (induction n rule: show_nat.induct)
  case (1 n)
  then show ?case
    by (subst show_nat.simps) (auto simp: parse_nat_def digit_char_digit)
qed

lemma split_on_absent: "(\<forall>x \<in> set s. x \<noteq> c) \<Longrightarrow> split_on c s = [s]"
  by (induction s) auto

lemma parse_digits_digits:
  assumes "s \<noteq> []" and "\<forall>c \<in> set s. py_isdigit c"
  shows "parse_digits s = Some (int (parse_nat s))"
proof -
  have "\<forall>x \<in> set s. x \<noteq> CHR ''_''" using assms(2) by (auto simp: py_isdigit_def code_def)
  then show ?thesis using assms by (simp add: parse_digits_def split_on_absent list_all_iff)
qed

lemma digits_no_space: "\<forall>c \<in> set s. \<not> py_isspace c \<Longrightarrow> py_strip s = s"
proof -
  assume s: "\<forall>c \<in> set s. \<not> py_isspace c"
  have "dropWhile py_isspace t = t" if "\<forall>c \<in> set t. \<not> py_isspace c" for t
    using that by (cases t) auto
  from this [of s] this [of "rev s"] show ?thesis using s by (simp add: py_strip_def lstrip_by_def rstrip_by_def)
qed

lemma digit_not_space: "py_isdigit c \<Longrightarrow> \<not> py_isspace c"
  by (auto simp: py_isspace_def py_isdigit_def)

lemma py_int_show_int: "py_int (JStr (show_int i)) = Some i"
proof -
  have sp: "py_strip (show_int i) = show_int i"
  proof (rule digits_no_space)
    show "\<forall>c \<in> set (show_int i). \<not> py_isspace c"
    proof
      fix c
      assume "c \<in> set (show_int i)"
      then have "c = CHR ''-'' \<or> py_isdigit c" using show_nat_digits by (auto simp: show_int_def split: if_splits)
      then show "\<not> py_isspace c" using digit_not_space by (auto simp: py_isspace_def code_def)
    qed
  qed
  show ?thesis
  proof (cases "i < 0")
    case True
    then show ?thesis
      using parse_digits_digits show_nat_digits by (simp add: py_int_def sp) (simp add: show_int_def signed_def parse_show_nat)
  next
    case False
    obtain c cs where c: "show_nat (nat i) = c # cs" "py_isdigit c"
      using show_nat_digits [of "nat i"] by (cases "show_nat (nat i)") auto
    have "c \<noteq> CHR ''-''" "c \<noteq> CHR ''+''" using c(2) by (auto simp: py_isdigit_def code_def)
    moreover have "parse_digits (c # cs) = Some i"
      using parse_digits_digits [of "show_nat (nat i)"] show_nat_digits [of "nat i"] False parse_show_nat [of "nat i"] c(1) by simp
    ultimately show ?thesis
      using False c(1) by (simp add: py_int_def sp) (simp add: show_int_def signed_def)
  qed
qed


lemma startswith_append [simp]: "startswith (p @ s) p"
  by (simp add: startswith_def)

lemma startswith_iff_prefix: "startswith s p \<longleftrightarrow> prefix p s"
  by (metis append_eq_conv_conj prefixE prefixI startswith_def append_take_drop_id)

lemma split_on_ne [simp]: "split_on c s \<noteq> []"
  by (induction s) (auto split: list.splits)

lemma split_on_no_sep: "c \<notin> set s \<Longrightarrow> split_on c s = [s]"
  by (induction s) auto

lemma split_on_pieces: "y \<in> set (split_on c s) \<Longrightarrow> c \<notin> set y"
proof (induction s arbitrary: y)
  case Nil
  then show ?case by simp
next
  case (Cons x xs)
  then show ?case
    by (auto split: if_splits list.splits)
qed

lemma split_on_append: "c \<notin> set a \<Longrightarrow> split_on c (a @ c # s) = a # split_on c s"
  by (induction a) auto

lemma join_split_on: "py_join [c] (split_on c s) = s"
proof (induction s)
  case Nil
  then show ?case by simp
next
  case (Cons x xs)
  obtain y ys where y: "split_on c xs = y # ys"
    by (cases "split_on c xs") auto
  with Cons show ?case by (cases ys) auto
qed

lemma split_on_join:
  "xs \<noteq> [] \<Longrightarrow> \<forall>x \<in> set xs. c \<notin> set x \<Longrightarrow> split_on c (py_join [c] xs) = xs"
proof (induction xs rule: induct_list012)
  case 1
  then show ?case by simp
next
  case (2 x)
  then show ?case by (simp add: split_on_no_sep)
next
  case (3 x y zs)
  then show ?case by (simp add: split_on_append)
qed

lemma py_join_Cons_ne: "x \<noteq> [] \<Longrightarrow> py_join sep (x # xs) \<noteq> []"
  by (cases xs) auto

lemma split_max_Suc:
  "c \<notin> set a \<Longrightarrow> split_max (Suc n) c (a @ c # s) = a # split_max n c s"
proof -
  assume "c \<notin> set a"
  then have "\<forall>x \<in> set a. x \<noteq> c" by auto
  then have "takeWhile (\<lambda>x. x \<noteq> c) (a @ c # s) = a" "dropWhile (\<lambda>x. x \<noteq> c) (a @ c # s) = c # s"
    by (simp_all add: takeWhile_append2 dropWhile_append2)
  then show ?thesis by simp
qed

lemma length_py_join:
  "length (py_join [c] xs) = sum_list (map length xs) + (length xs - 1)"
  by (induction xs rule: induct_list012) auto

lemma set_dropWhile_sub: "set (dropWhile P xs) \<subseteq> set xs"
  by (auto dest: set_dropWhileD)

lemma length_py_strip: "length (py_strip s) \<le> length s"
  unfolding py_strip_def rstrip_by_def lstrip_by_def
  by (metis length_dropWhile_le length_rev order_trans)

lemma set_py_strip: "set (py_strip s) \<subseteq> set s"
  unfolding py_strip_def rstrip_by_def lstrip_by_def
  by (metis set_dropWhile_sub set_rev subset_trans)

lemma length_slice_to: "0 \<le> n \<Longrightarrow> int (length (slice_to n s)) = min n (int (length s))"
  by (auto simp: slice_to_def)

lemma mset_sorted_desc [simp]: "mset (sorted_desc k xs) = mset xs"
  by (simp add: sorted_desc_def)

lemma set_sorted_desc [simp]: "set (sorted_desc k xs) = set xs"
  by (simp add: sorted_desc_def)

lemma length_sorted_desc [simp]: "length (sorted_desc k xs) = length xs"
  by (simp add: sorted_desc_def)

lemma distinct_sorted_desc [simp]: "distinct (sorted_desc k xs) = distinct xs"
  by (simp add: sorted_desc_def)

lemma sorted_desc_Nil [simp]: "sorted_desc k [] = []"
  by (simp add: sorted_desc_def)

lemma sorted_desc_sorted: "sorted_wrt (\<lambda>x y. k y \<le> k x) (sorted_desc k xs)"
proof -
  have "sorted (map (\<lambda>x. - k x) (sorted_desc k xs))"
    by (simp add: sorted_desc_def)
  then show ?thesis
    by (simp add: sorted_map)
qed

lemma sorted_desc_stable:
  "filter (\<lambda>x. k x = a) (sorted_desc k xs) = filter (\<lambda>x. k x = a) xs"
  using sort_key_stable [of "\<lambda>x. - k x" "- a" xs] by (simp add: sorted_desc_def)

lemma sorted_wrt_take: "sorted_wrt P xs \<Longrightarrow> sorted_wrt P (take n xs)"
  by (metis append_take_drop_id sorted_wrt_append)

lemma filter_idem_on: "\<forall>x \<in> set xs. P x \<Longrightarrow> filter P xs = xs"
  by (induction xs) auto

end
