(* ===== verification/Kortex_Types.thy ===== *)
theory Kortex_Types
  imports Kortex_Prelude
begin

text \<open>
  The data every component shares: the enumerations of \<^verbatim>\<open>db/types.py\<close> with the column values
  they are stored under, the principal of \<^verbatim>\<open>security/principal.py\<close>, the plan limits of
  \<^verbatim>\<open>security/plan_limits.py\<close> and the part of \<^verbatim>\<open>settings/config.py\<close> the modelled code reads.
  Sensitivities and roles are instances of \<open>linorder\<close>, ordered by the rank tables of
  \<^verbatim>\<open>services/access_control.py\<close>.
\<close>

section \<open>Enumerations\<close>

datatype scope_type = ORG | WORKSPACE | PROJECT | SESSION

datatype role = OWNER | ADMIN | MEMBER | VIEWER

datatype sensitivity = PUBLIC | INTERNAL | CONFIDENTIAL | SECRET

datatype memory_tier = SHORT | MID | LONG

datatype memory_kind = FACT | PREFERENCE | DECISION | PROCEDURE | CODE_ARTIFACT | EVENT | SUMMARY

datatype memory_source = MESSAGE | DOCUMENT | DERIVED | MANUAL | TOOL_OUTPUT

datatype memory_trust = HIGH | MEDIUM | LOW

datatype review_status = APPROVED | PENDING | REJECTED

datatype review_mode = REVIEW_OFF | LOW_CONFIDENCE | REVIEW_ALL

datatype memory_link_type = RELATED | DERIVED_FROM | SUPERSEDES | CONTRADICTS | PART_OF

datatype attachment_status = ATT_PENDING | PROCESSING | READY | FAILED

datatype agent_kind = CLAUDE_CODE | CODEX | OPENCODE | WEB | API | OTHER

datatype message_role = MSG_USER | ASSISTANT | MSG_SYSTEM | TOOL

datatype actor_kind = USER | API_KEY | SYSTEM

fun scope_type_value :: "scope_type \<Rightarrow> string" where
  "scope_type_value ORG = ''org''"
| "scope_type_value WORKSPACE = ''workspace''"
| "scope_type_value PROJECT = ''project''"
| "scope_type_value SESSION = ''session''"

fun role_value :: "role \<Rightarrow> string" where
  "role_value OWNER = ''owner''"
| "role_value ADMIN = ''admin''"
| "role_value MEMBER = ''member''"
| "role_value VIEWER = ''viewer''"

fun sensitivity_value :: "sensitivity \<Rightarrow> string" where
  "sensitivity_value PUBLIC = ''public''"
| "sensitivity_value INTERNAL = ''internal''"
| "sensitivity_value CONFIDENTIAL = ''confidential''"
| "sensitivity_value SECRET = ''secret''"

fun link_type_value :: "memory_link_type \<Rightarrow> string" where
  "link_type_value RELATED = ''related''"
| "link_type_value DERIVED_FROM = ''derived_from''"
| "link_type_value SUPERSEDES = ''supersedes''"
| "link_type_value CONTRADICTS = ''contradicts''"
| "link_type_value PART_OF = ''part_of''"

text \<open>The parsing constructors \<open>ScopeType(s)\<close> and \<open>Role(s)\<close>; \<^const>\<open>None\<close> is the \<open>ValueError\<close>.\<close>

definition scope_type_parse :: "string \<Rightarrow> scope_type option" where
  "scope_type_parse s = find (\<lambda>t. scope_type_value t = s) [ORG, WORKSPACE, PROJECT, SESSION]"

definition role_parse :: "string \<Rightarrow> role option" where
  "role_parse s = find (\<lambda>r. role_value r = s) [OWNER, ADMIN, MEMBER, VIEWER]"


section \<open>Ranks\<close>

fun role_rank :: "role \<Rightarrow> nat" where
  "role_rank VIEWER = 1"
| "role_rank MEMBER = 2"
| "role_rank ADMIN = 3"
| "role_rank OWNER = 4"

fun sensitivity_rank :: "sensitivity \<Rightarrow> nat" where
  "sensitivity_rank PUBLIC = 1"
| "sensitivity_rank INTERNAL = 2"
| "sensitivity_rank CONFIDENTIAL = 3"
| "sensitivity_rank SECRET = 4"

lemma role_rank_inj: "role_rank a = role_rank b \<Longrightarrow> a = b"
  by (cases a; cases b) auto

lemma sensitivity_rank_inj: "sensitivity_rank a = sensitivity_rank b \<Longrightarrow> a = b"
  by (cases a; cases b) auto

instantiation role :: linorder
begin

definition less_eq_role :: "role \<Rightarrow> role \<Rightarrow> bool" where
  "less_eq_role a b = (role_rank a \<le> role_rank b)"

definition less_role :: "role \<Rightarrow> role \<Rightarrow> bool" where
  "less_role a b = (role_rank a < role_rank b)"

instance
  by standard (auto simp: less_eq_role_def less_role_def dest: role_rank_inj)

end

instantiation sensitivity :: linorder
begin

definition less_eq_sensitivity :: "sensitivity \<Rightarrow> sensitivity \<Rightarrow> bool" where
  "less_eq_sensitivity a b = (sensitivity_rank a \<le> sensitivity_rank b)"

definition less_sensitivity :: "sensitivity \<Rightarrow> sensitivity \<Rightarrow> bool" where
  "less_sensitivity a b = (sensitivity_rank a < sensitivity_rank b)"

instance
  by standard (auto simp: less_eq_sensitivity_def less_sensitivity_def dest: sensitivity_rank_inj)

end

lemmas rank_order_defs =
  less_eq_role_def less_role_def less_eq_sensitivity_def less_sensitivity_def

declare rank_order_defs [kortex_defs]

lemma sensitivity_le_SECRET [simp]: "(s :: sensitivity) \<le> SECRET"
  by (cases s) (auto simp: kortex_defs)

lemma PUBLIC_le [simp]: "PUBLIC \<le> (s :: sensitivity)"
  by (cases s) (auto simp: kortex_defs)


section \<open>Principals\<close>

record scope_ref =
  ref_type :: scope_type
  ref_id :: int

record principal =
  actor_id :: int
  actor_kind :: actor_kind
  p_org_id :: int
  p_scope :: "scope_ref option"
  roles :: "(scope_ref \<times> role) list"
  key_scopes :: "string set"
  max_sensitivity :: sensitivity
  is_superuser :: bool

definition principal_role_for :: "principal \<Rightarrow> scope_ref \<Rightarrow> role option" where
  "principal_role_for p sc = map_of (roles p) sc"

definition has_key_scope :: "principal \<Rightarrow> string \<Rightarrow> bool" where
  "has_key_scope p name = (key_scopes p = {} \<or> name \<in> key_scopes p)"

definition with_role_added :: "principal \<Rightarrow> scope_ref \<Rightarrow> role \<Rightarrow> principal" where
  "with_role_added p sc r = p\<lparr>roles := AList.update sc r (roles p)\<rparr>"

text \<open>\<open>f"{type.value}:{id}"\<close>.\<close>

definition show_scope_ref :: "scope_ref \<Rightarrow> string" where
  "show_scope_ref sc = scope_type_value (ref_type sc) @ '':'' @ show_int (ref_id sc)"

text \<open>The system principals the auth service and the workers build.\<close>

definition superuser_principal :: "int \<Rightarrow> principal" where
  "superuser_principal org = \<lparr>actor_id = 0, actor_kind = SYSTEM, p_org_id = org, p_scope = None,
     roles = [], key_scopes = {}, max_sensitivity = INTERNAL, is_superuser = True\<rparr>"


section \<open>Plan limits\<close>

record plan_limits =
  max_memories_limit :: int
  max_workspaces_limit :: int

definition limits_for :: "string \<Rightarrow> plan_limits" where
  "limits_for plan =
     (if plan = ''pro'' then \<lparr>max_memories_limit = 100000, max_workspaces_limit = -1\<rparr>
      else if plan = ''team'' then \<lparr>max_memories_limit = 1000000, max_workspaces_limit = -1\<rparr>
      else \<lparr>max_memories_limit = 25000, max_workspaces_limit = 1\<rparr>)"

definition max_memories :: "string \<Rightarrow> int" where
  "max_memories plan = max_memories_limit (limits_for plan)"

definition max_workspaces :: "string \<Rightarrow> int" where
  "max_workspaces plan = max_workspaces_limit (limits_for plan)"


section \<open>Settings\<close>

datatype pii_policy = TAG | REDACT | ESCALATE

record settings =
  stripe_secret_key :: "string option"
  stripe_price_pro :: "string option"
  stripe_price_team :: "string option"
  s3_bucket :: string
  attachment_max_bytes :: int
  attachment_chunk_tokens :: int
  attachment_chunk_overlap :: int
  jwt_access_ttl_seconds :: int
  jwt_refresh_ttl_seconds :: int
  api_key_prefix_length :: nat
  api_key_secret_length :: nat
  embedder_model :: string
  embedder_batch_size :: nat
  embed_max_attempts :: int
  embed_retry_base_seconds :: int
  llm_model_planner :: string
  llm_model_summarizer :: string
  agentic_retrieval :: bool
  retrieval_max_hops :: nat
  retrieval_max_candidates :: nat
  retrieval_top_k_vector :: nat
  retrieval_top_k_bm25 :: nat
  retrieval_rrf_k :: nat
  retrieval_default_max_tokens :: int
  retrieval_planner_min_budget_ms :: int
  retrieval_planner_min_budget_tokens :: int
  retrieval_hop_reserve_ms :: int
  llm_prices :: "(string \<times> real list) list"
  conflict_detection :: bool
  conflict_similarity_threshold :: real
  conflict_max_candidates :: nat
  conflict_min_confidence :: real
  conflict_batch_size :: nat
  conflict_daily_quota_per_org :: int
  dedup_on_write :: bool
  pii_detection :: bool
  pii_policy_setting :: pii_policy
  trust_filtering :: bool
  review_confidence_threshold :: real
  injection_quarantine :: bool
  decay_lambda_short :: real
  decay_lambda_mid :: real
  decay_lambda_long :: real
  decay_short_to_mid_age_hours :: int
  decay_short_delete_age_days :: int
  decay_short_delete_threshold :: real
  decay_mid_archive_age_days :: int
  decay_mid_archive_threshold :: real
  rate_limit_read_per_min :: int
  rate_limit_write_per_min :: int
  rate_limit_recall_per_min :: int
  recall_daily_quota_per_org :: int

definition default_settings :: settings where
  "default_settings = \<lparr>
     stripe_secret_key = None,
     stripe_price_pro = None,
     stripe_price_team = None,
     s3_bucket = ''kortex-attachments'',
     attachment_max_bytes = 64 * 1024 * 1024,
     attachment_chunk_tokens = 512,
     attachment_chunk_overlap = 64,
     jwt_access_ttl_seconds = 3600,
     jwt_refresh_ttl_seconds = 2592000,
     api_key_prefix_length = 8,
     api_key_secret_length = 43,
     embedder_model = ''BAAI/bge-large-en-v1.5'',
     embedder_batch_size = 64,
     embed_max_attempts = 5,
     embed_retry_base_seconds = 60,
     llm_model_planner = ''claude-sonnet-4-7'',
     llm_model_summarizer = ''claude-haiku-4-5'',
     agentic_retrieval = True,
     retrieval_max_hops = 3,
     retrieval_max_candidates = 200,
     retrieval_top_k_vector = 50,
     retrieval_top_k_bm25 = 50,
     retrieval_rrf_k = 60,
     retrieval_default_max_tokens = 4000,
     retrieval_planner_min_budget_ms = 1500,
     retrieval_planner_min_budget_tokens = 1024,
     retrieval_hop_reserve_ms = 250,
     llm_prices = [],
     conflict_detection = True,
     conflict_similarity_threshold = 0.82,
     conflict_max_candidates = 5,
     conflict_min_confidence = 0.6,
     conflict_batch_size = 32,
     conflict_daily_quota_per_org = 2000,
     dedup_on_write = True,
     pii_detection = True,
     pii_policy_setting = TAG,
     trust_filtering = True,
     review_confidence_threshold = 0.5,
     injection_quarantine = True,
     decay_lambda_short = 0.30,
     decay_lambda_mid = 0.05,
     decay_lambda_long = 0.005,
     decay_short_to_mid_age_hours = 24,
     decay_short_delete_age_days = 7,
     decay_short_delete_threshold = 0.05,
     decay_mid_archive_age_days = 180,
     decay_mid_archive_threshold = 0.10,
     rate_limit_read_per_min = 600,
     rate_limit_write_per_min = 120,
     rate_limit_recall_per_min = 30,
     recall_daily_quota_per_org = 5000\<rparr>"

end
