(* ===== verification/Access_Control.thy ===== *)
theory Access_Control
  imports Kortex_Types
begin

text \<open>
  The authorisation chokepoint: \<open>AccessControl\<close> of \<^verbatim>\<open>services/access_control.py\<close> (which
  \<^verbatim>\<open>skills/access_policy.py\<close> re-exports as \<open>RoleSensitivityPolicy\<close>) and the sensitivity ceiling
  \<open>AuthService._max_sensitivity\<close> derives from a principal's roles.

  The locale \<open>access_policy\<close> states what the services rely on when they ask a policy; the laws are
  discharged for the model of \<open>AccessControl\<close> by the interpretation \<open>rbac\<close>.
\<close>

section \<open>Definitions\<close>

record resource_ref =
  res_scope :: scope_ref
  res_sensitivity :: sensitivity

fun read_sensitivity_by_role :: "role \<Rightarrow> sensitivity option" where
  "read_sensitivity_by_role VIEWER = Some CONFIDENTIAL"
| "read_sensitivity_by_role MEMBER = Some CONFIDENTIAL"
| "read_sensitivity_by_role ADMIN = Some SECRET"
| "read_sensitivity_by_role OWNER = Some SECRET"

fun write_sensitivity_by_role :: "role \<Rightarrow> sensitivity option" where
  "write_sensitivity_by_role VIEWER = None"
| "write_sensitivity_by_role MEMBER = Some CONFIDENTIAL"
| "write_sensitivity_by_role ADMIN = Some SECRET"
| "write_sensitivity_by_role OWNER = Some SECRET"

definition ac_role_for :: "principal \<Rightarrow> scope_ref \<Rightarrow> role option" where
  "ac_role_for p sc = (if is_superuser p then Some OWNER else principal_role_for p sc)"

definition can_read :: "principal \<Rightarrow> resource_ref \<Rightarrow> bool" where
  "can_read p r =
     (if is_superuser p then True
      else case ac_role_for p (res_scope r) of
        None \<Rightarrow> False
      | Some role \<Rightarrow>
          (case read_sensitivity_by_role role of
             None \<Rightarrow> False
           | Some mx \<Rightarrow> sensitivity_rank (res_sensitivity r) \<le> sensitivity_rank mx))"

definition can_write :: "principal \<Rightarrow> resource_ref \<Rightarrow> bool" where
  "can_write p r =
     (if is_superuser p then True
      else case ac_role_for p (res_scope r) of
        None \<Rightarrow> False
      | Some role \<Rightarrow>
          (case write_sensitivity_by_role role of
             None \<Rightarrow> False
           | Some mx \<Rightarrow> sensitivity_rank (res_sensitivity r) \<le> sensitivity_rank mx))"

definition can_admin :: "principal \<Rightarrow> scope_ref \<Rightarrow> bool" where
  "can_admin p sc =
     (if is_superuser p then True
      else case ac_role_for p sc of
        None \<Rightarrow> False
      | Some role \<Rightarrow> role_rank role \<ge> role_rank ADMIN)"

definition can_own :: "principal \<Rightarrow> scope_ref \<Rightarrow> bool" where
  "can_own p sc = (if is_superuser p then True else ac_role_for p sc = Some OWNER)"

definition is_admin_anywhere :: "principal \<Rightarrow> bool" where
  "is_admin_anywhere p =
     (if is_superuser p then True
      else list_ex (\<lambda>(sc, role). role_rank role \<ge> role_rank ADMIN) (roles p))"

definition visible_scopes :: "principal \<Rightarrow> scope_type set option \<Rightarrow> scope_ref list" where
  "visible_scopes p types =
     (if is_superuser p then []
      else filter (\<lambda>sc. case types of None \<Rightarrow> True | Some ts \<Rightarrow> ref_type sc \<in> ts)
             (map fst (roles p)))"

definition require :: "bool \<Rightarrow> string \<Rightarrow> string option \<Rightarrow> unit result" where
  "require ok action resource =
     (if ok then Inr ()
      else Inl (AccessDeniedError (''access denied for action '' @ action @
             (case resource of None \<Rightarrow> [] | Some r \<Rightarrow> '' on '' @ r))))"

text \<open>The ceiling a principal carries: the highest sensitivity any of its roles may read.\<close>

fun key_role_to_sensitivity :: "role \<Rightarrow> sensitivity" where
  "key_role_to_sensitivity VIEWER = CONFIDENTIAL"
| "key_role_to_sensitivity MEMBER = CONFIDENTIAL"
| "key_role_to_sensitivity ADMIN = SECRET"
| "key_role_to_sensitivity OWNER = SECRET"

definition max_sensitivity_of :: "role list \<Rightarrow> sensitivity" where
  "max_sensitivity_of rs =
     fold (\<lambda>role best. let cap = key_role_to_sensitivity role
                       in if sensitivity_rank cap > sensitivity_rank best then cap else best)
       rs PUBLIC"


section \<open>What a policy promises its clients\<close>

locale access_policy =
  fixes rd :: "principal \<Rightarrow> resource_ref \<Rightarrow> bool"
    and wr :: "principal \<Rightarrow> resource_ref \<Rightarrow> bool"
    and adm :: "principal \<Rightarrow> scope_ref \<Rightarrow> bool"
    and own :: "principal \<Rightarrow> scope_ref \<Rightarrow> bool"
  assumes write_read: "wr p r \<Longrightarrow> rd p r"
    and read_down: "rd p r \<Longrightarrow> s \<le> res_sensitivity r \<Longrightarrow> rd p (r\<lparr>res_sensitivity := s\<rparr>)"
    and write_down: "wr p r \<Longrightarrow> s \<le> res_sensitivity r \<Longrightarrow> wr p (r\<lparr>res_sensitivity := s\<rparr>)"
    and admin_write: "adm p (res_scope r) \<Longrightarrow> wr p r"
    and own_admin: "own p sc \<Longrightarrow> adm p sc"
    and stranger: "\<not> is_superuser p \<Longrightarrow> principal_role_for p (res_scope r) = None \<Longrightarrow> \<not> rd p r"
begin

lemma admin_read: "adm p (res_scope r) \<Longrightarrow> rd p r"
  by (blast intro: write_read admin_write)

lemma own_write: "own p (res_scope r) \<Longrightarrow> wr p r"
  by (blast intro: own_admin admin_write)

lemma stranger_denied:
  assumes "\<not> is_superuser p" and "principal_role_for p sc = None"
  shows "\<not> rd p \<lparr>res_scope = sc, res_sensitivity = s\<rparr>"
    and "\<not> wr p \<lparr>res_scope = sc, res_sensitivity = s\<rparr>"
    and "\<not> adm p sc" and "\<not> own p sc"
proof -
  show rd: "\<not> rd p \<lparr>res_scope = sc, res_sensitivity = s\<rparr>"
    using assms by (intro stranger) auto
  then show "\<not> wr p \<lparr>res_scope = sc, res_sensitivity = s\<rparr>"
    using write_read by blast
  show "\<not> adm p sc"
    using rd admin_read [of p "\<lparr>res_scope = sc, res_sensitivity = s\<rparr>"] by auto
  then show "\<not> own p sc"
    using own_admin by blast
qed

end

lemmas access_defs =
  can_read_def can_write_def can_admin_def can_own_def ac_role_for_def

lemma role_admin_caps:
  "3 \<le> role_rank role \<Longrightarrow>
     read_sensitivity_by_role role = Some SECRET \<and> write_sensitivity_by_role role = Some SECRET"
  by (cases role) auto

lemma write_cap_read_cap:
  "write_sensitivity_by_role role = Some w \<Longrightarrow> read_sensitivity_by_role role = Some w"
  by (cases role) auto

lemma sensitivity_rank_SECRET [simp]: "sensitivity_rank s \<le> 4"
  by (cases s) auto

interpretation rbac: access_policy can_read can_write can_admin can_own
proof (unfold_locales, goal_cases)
  case (1 p r)
  then show ?case
    by (auto simp: access_defs split: if_splits option.splits dest: write_cap_read_cap)
next
  case (2 p r s)
  then show ?case
    by (auto simp: access_defs kortex_defs split: if_splits option.splits)
next
  case (3 p r s)
  then show ?case
    by (auto simp: access_defs kortex_defs split: if_splits option.splits)
next
  case (4 p r)
  then show ?case
    by (auto simp: access_defs split: if_splits option.splits dest!: role_admin_caps)
next
  case (5 p sc)
  then show ?case
    by (auto simp: access_defs split: if_splits)
next
  case (6 p r)
  then show ?case
    by (auto simp: access_defs)
qed


section \<open>Properties\<close>

lemma max_sensitivity_fold:
  "sensitivity_rank (fold (\<lambda>role best. let cap = key_role_to_sensitivity role
      in if sensitivity_rank cap > sensitivity_rank best then cap else best) rs b)
   = Max (set (sensitivity_rank b # map (sensitivity_rank \<circ> key_role_to_sensitivity) rs))"
proof (induction rs arbitrary: b)
  case Nil
  then show ?case by simp
next
  case (Cons r rs)
  let ?c = "key_role_to_sensitivity r"
  have "Max (insert (sensitivity_rank (if sensitivity_rank ?c > sensitivity_rank b then ?c else b)) X)
        = Max (insert (sensitivity_rank b) (insert (sensitivity_rank ?c) X))" if "finite X" for X
    using that by (cases "X = {}") (auto simp: max_def)
  then show ?case
    using Cons by (simp add: Let_def)
qed

lemma max_sensitivity_of_ge:
  "role \<in> set rs \<Longrightarrow> key_role_to_sensitivity role \<le> max_sensitivity_of rs"
  unfolding less_eq_sensitivity_def max_sensitivity_of_def max_sensitivity_fold
  by (rule Max_ge) auto


definition viewer_principal :: principal where
  "viewer_principal = \<lparr>actor_id = 7, actor_kind = USER, p_org_id = 1, p_scope = None,
     roles = [(\<lparr>ref_type = PROJECT, ref_id = 3\<rparr>, VIEWER)], key_scopes = {},
     max_sensitivity = CONFIDENTIAL, is_superuser = False\<rparr>"


text \<open>
  The sensitivity ceiling computed at authentication is complete for the matrix: whatever a
  principal that is not a superuser may read in some scope lies at or below the ceiling
  \<open>_max_sensitivity\<close> derives from its roles, so capping a listing by it hides nothing the matrix grants.
\<close>

theorem ceiling_covers_matrix:
  assumes "\<not> is_superuser p" and "can_read p r"
  shows "res_sensitivity r \<le> max_sensitivity_of (map snd (roles p))"
proof -
  obtain role mx where role: "map_of (roles p) (res_scope r) = Some role"
    and mx: "read_sensitivity_by_role role = Some mx"
    and le: "sensitivity_rank (res_sensitivity r) \<le> sensitivity_rank mx"
    using assms by (auto simp: access_defs principal_role_for_def split: option.splits)
  from role have "role \<in> set (map snd (roles p))"
    by (force dest: map_of_SomeD)
  then have "key_role_to_sensitivity role \<le> max_sensitivity_of (map snd (roles p))"
    by (rule max_sensitivity_of_ge)
  moreover have "mx = key_role_to_sensitivity role"
    using mx by (cases role) auto
  ultimately show ?thesis
    using le by (simp add: less_eq_sensitivity_def)
qed

theorem ceiling_covers_matrix_witness:
  "CONFIDENTIAL \<le> max_sensitivity_of (map snd (roles viewer_principal))"
  using ceiling_covers_matrix [of viewer_principal
      "\<lparr>res_scope = \<lparr>ref_type = PROJECT, ref_id = 3\<rparr>, res_sensitivity = CONFIDENTIAL\<rparr>"]
  by (simp add: viewer_principal_def access_defs principal_role_for_def)

end
