(* ===== verification/Decay_Policy.thy ===== *)
theory Decay_Policy
  imports Kortex_Types
begin

text \<open>
  \<open>ExponentialDecayPolicy\<close> of \<^verbatim>\<open>skills/decay_policy.py\<close> and \<open>HybridScorer\<close> of
  \<^verbatim>\<open>skills/importance_scorer.py\<close>, with \<open>math.exp\<close> and \<open>math.log1p\<close> as the real functions, and the
  retry rule \<open>decide_retry\<close> of \<^verbatim>\<open>embeddings/retry.py\<close>.  The lemmas bound and order the scores and
  say when a memory is promoted, faded out or parked.
\<close>

section \<open>Definitions\<close>

record decay_inputs =
  di_importance :: real
  di_access_count :: nat
  di_last_accessed_at :: "time option"
  di_created_at :: time
  di_tier :: memory_tier
  di_pinned :: bool

record decay_decision =
  new_decay_score :: real
  new_tier :: "memory_tier option"
  should_hard_delete :: bool
  should_archive :: bool

text \<open>\<open>timedelta.total_seconds()\<close> on microseconds.\<close>

definition total_seconds :: "time \<Rightarrow> real" where
  "total_seconds d = real_of_int d / 1000000"

definition log1p :: "real \<Rightarrow> real" where
  "log1p x = ln (1 + x)"

fun decay_lambda :: "settings \<Rightarrow> memory_tier \<Rightarrow> real" where
  "decay_lambda s SHORT = decay_lambda_short s"
| "decay_lambda s MID = decay_lambda_mid s"
| "decay_lambda s LONG = decay_lambda_long s"

definition evaluate_decay :: "settings \<Rightarrow> decay_inputs \<Rightarrow> time \<Rightarrow> int \<Rightarrow> decay_decision" where
  "evaluate_decay s i now median =
     (if di_pinned i
      then \<lparr>new_decay_score = 1, new_tier = None, should_hard_delete = False, should_archive = False\<rparr>
      else
        let lam = decay_lambda s (di_tier i);
            anchor = (case di_last_accessed_at i of Some t \<Rightarrow> t | None \<Rightarrow> di_created_at i);
            elapsed_days = max 0 (total_seconds (now - anchor) / 86400);
            recency = exp (- lam * elapsed_days);
            access_norm = log1p (real_of_int (max 1 median));
            access_bias = log1p (real (di_access_count i)) / max access_norm (1 / 10 ^ 9);
            score = max 0 (min 1 (di_importance i * recency * (1 + access_bias)));
            age_hours = total_seconds (now - di_created_at i) / 3600;
            age_days = total_seconds (now - di_created_at i) / 86400
        in \<lparr>new_decay_score = score,
            new_tier =
              (if di_tier i = SHORT \<and>
                  age_hours \<ge> real_of_int (decay_short_to_mid_age_hours s) \<and>
                  di_importance i \<ge> 4 / 10 \<and> di_access_count i \<ge> 1
               then Some MID else None),
            should_hard_delete =
              (di_tier i = SHORT \<and>
               age_days \<ge> real_of_int (decay_short_delete_age_days s) \<and>
               score < decay_short_delete_threshold s),
            should_archive =
              (di_tier i = MID \<and>
               age_days \<ge> real_of_int (decay_mid_archive_age_days s) \<and>
               score < decay_mid_archive_threshold s)\<rparr>)"

record importance_inputs =
  ii_kind :: memory_kind
  ii_title :: string
  ii_body :: string
  ii_pinned :: bool
  ii_access_count :: int

fun kind_bias :: "memory_kind \<Rightarrow> real" where
  "kind_bias FACT = 50 / 100"
| "kind_bias PREFERENCE = 55 / 100"
| "kind_bias DECISION = 70 / 100"
| "kind_bias PROCEDURE = 60 / 100"
| "kind_bias CODE_ARTIFACT = 55 / 100"
| "kind_bias EVENT = 50 / 100"
| "kind_bias SUMMARY = 65 / 100"

definition importance_score :: "importance_inputs \<Rightarrow> real" where
  "importance_score i =
     (let base = kind_bias (ii_kind i);
          base = (if ii_pinned i then max base (85 / 100) else base);
          base = (if py_strip (ii_title i) \<noteq> [] then base + 5 / 100 else base);
          base = (if length (ii_body i) > 400 then base + 5 / 100 else base);
          base = (if ii_access_count i \<ge> 3 then base + 1 / 10 else base)
      in max 0 (min 1 base))"

text \<open>\<open>decide_retry\<close>: times are microseconds, delays whole seconds.\<close>

record retry_decision =
  rd_attempts :: nat
  rd_next_attempt_at :: "time option"
  rd_parked :: bool

definition max_backoff_seconds :: int where
  "max_backoff_seconds = 3600"

definition decide_retry :: "nat \<Rightarrow> int \<Rightarrow> int \<Rightarrow> time \<Rightarrow> retry_decision" where
  "decide_retry attempts_before max_attempts retry_base_seconds now =
     (let attempts = attempts_before + 1
      in if int attempts \<ge> max_attempts
         then \<lparr>rd_attempts = attempts, rd_next_attempt_at = None, rd_parked = True\<rparr>
         else let delay = min (retry_base_seconds * 2 ^ (attempts - 1)) max_backoff_seconds
              in \<lparr>rd_attempts = attempts, rd_next_attempt_at = Some (now + delay * 1000000),
                  rd_parked = False\<rparr>)"

text \<open>Consecutive failures at the given times, from a fresh memory; it stops when parked.\<close>

fun retry_run :: "nat \<Rightarrow> int \<Rightarrow> int \<Rightarrow> time list \<Rightarrow> retry_decision list" where
  "retry_run n mx base [] = []"
| "retry_run n mx base (t # ts) =
     (let d = decide_retry n mx base t
      in d # (if rd_parked d then [] else retry_run (rd_attempts d) mx base ts))"


text \<open>The clamped score as a function of rate, importance, elapsed days, accesses and median.\<close>

definition fade_score :: "real \<Rightarrow> real \<Rightarrow> real \<Rightarrow> nat \<Rightarrow> int \<Rightarrow> real" where
  "fade_score lam imp days n m =
     max 0 (min 1 (imp * exp (- lam * days) *
       (1 + log1p (real n) / max (log1p (real_of_int (max 1 m))) (1 / 10 ^ 9))))"

definition anchor_of :: "decay_inputs \<Rightarrow> time" where
  "anchor_of i = (case di_last_accessed_at i of Some t \<Rightarrow> t | None \<Rightarrow> di_created_at i)"


section \<open>Lemmas\<close>

lemma evaluate_decay_pinned [simp]:
  "di_pinned i \<Longrightarrow> evaluate_decay s i now m =
     \<lparr>new_decay_score = 1, new_tier = None, should_hard_delete = False, should_archive = False\<rparr>"
  by (simp add: evaluate_decay_def)

lemma access_bias_nonneg:
  "0 \<le> log1p (real n) / max (log1p (real_of_int (max 1 m))) (1 / 10 ^ 9)"
  by (intro divide_nonneg_nonneg) (auto simp: log1p_def max_def)

lemma clamp_mono: "(x :: real) \<le> y \<Longrightarrow> max 0 (min 1 x) \<le> max 0 (min 1 y)"
  by auto

lemma elapsed_mono:
  "d \<le> d' \<Longrightarrow> max 0 (total_seconds d / 86400) \<le> max 0 (total_seconds d' / 86400)"
  by (intro max.mono divide_right_mono) (auto simp: total_seconds_def divide_right_mono)

lemma log1p_mono: "0 \<le> x \<Longrightarrow> x \<le> y \<Longrightarrow> log1p x \<le> log1p y"
  by (simp add: log1p_def)

lemma score_eq:
  "\<not> di_pinned i \<Longrightarrow> new_decay_score (evaluate_decay s i now m) =
     fade_score (decay_lambda s (di_tier i)) (di_importance i)
       (max 0 (total_seconds (now - anchor_of i) / 86400)) (di_access_count i) m"
  by (simp add: evaluate_decay_def fade_score_def anchor_of_def Let_def)

lemma anchor_of_simps [simp]:
  "anchor_of (i\<lparr>di_access_count := n\<rparr>) = anchor_of i"
  "anchor_of (i\<lparr>di_last_accessed_at := Some t\<rparr>) = t"
  by (simp_all add: anchor_of_def split: option.split)

lemma fade_score_mono:
  assumes "0 \<le> lam" "0 \<le> imp" "e \<le> e'" "n' \<le> n"
  shows "fade_score lam imp e' n' m \<le> fade_score lam imp e n m"
proof -
  let ?b = "\<lambda>n. log1p (real n) / max (log1p (real_of_int (max 1 m))) (1 / 10 ^ 9)"
  have "?b n' \<le> ?b n"
    using assms(4) by (intro divide_right_mono log1p_mono) (auto simp: max_def)
  moreover have "exp (- lam * e') \<le> exp (- lam * e)"
    using assms by (simp add: mult_left_mono)
  ultimately show ?thesis
    unfolding fade_score_def using assms access_bias_nonneg [of n' m]
    by (intro clamp_mono mult_mono mult_left_mono) auto
qed

lemma decide_retry_attempts [simp]: "rd_attempts (decide_retry n mx base now) = n + 1"
  by (simp add: decide_retry_def Let_def)

lemma decide_retry_parked [simp]: "rd_parked (decide_retry n mx base now) \<longleftrightarrow> mx \<le> int n + 1"
  by (simp add: decide_retry_def Let_def)

text \<open>
  Every decay evaluation returns a score between 0 and 1 and at most one of the two fade-out
  actions; a pinned memory keeps score 1 and is never promoted, deleted or archived; only a
  short-tier memory is ever promoted or deleted and only a mid-tier one archived.
\<close>

theorem decay_decision_sound:
  "0 \<le> new_decay_score (evaluate_decay s i now m) \<and> new_decay_score (evaluate_decay s i now m) \<le> 1 \<and>
   \<not> (should_hard_delete (evaluate_decay s i now m) \<and> should_archive (evaluate_decay s i now m)) \<and>
   (di_pinned i \<longrightarrow> evaluate_decay s i now m =
      \<lparr>new_decay_score = 1, new_tier = None, should_hard_delete = False, should_archive = False\<rparr>) \<and>
   (should_hard_delete (evaluate_decay s i now m) \<or> new_tier (evaluate_decay s i now m) \<noteq> None \<longrightarrow>
      di_tier i = SHORT) \<and>
   (should_archive (evaluate_decay s i now m) \<longrightarrow> di_tier i = MID)"
proof (cases "di_pinned i")
  case True
  then show ?thesis by simp
next
  case False
  then show ?thesis
    by (auto simp: evaluate_decay_def Let_def)
qed

definition sample_decay_inputs :: decay_inputs where
  "sample_decay_inputs = \<lparr>di_importance = 1 / 2, di_access_count = 0, di_last_accessed_at = None,
     di_created_at = 0, di_tier = MID, di_pinned = False\<rparr>"

theorem decay_decision_sound_witness:
  "evaluate_decay default_settings (sample_decay_inputs\<lparr>di_pinned := True\<rparr>) 0 1 =
     \<lparr>new_decay_score = 1, new_tier = None, should_hard_delete = False, should_archive = False\<rparr>"
  using decay_decision_sound [of default_settings "sample_decay_inputs\<lparr>di_pinned := True\<rparr>" 0 1]
  by (simp add: sample_decay_inputs_def)

text \<open>
  Memories fade and do not recover by themselves: with a non-negative rate and importance, a
  later evaluation never raises the score, while more accesses or a more recent access never
  lower it.
\<close>

theorem decay_monotone:
  assumes "0 \<le> decay_lambda s (di_tier i)" and "0 \<le> di_importance i"
    and "now \<le> now'" and "n \<le> n'" and "t \<le> t'"
  shows "new_decay_score (evaluate_decay s i now' m) \<le> new_decay_score (evaluate_decay s i now m) \<and>
     new_decay_score (evaluate_decay s (i\<lparr>di_access_count := n\<rparr>) now m)
       \<le> new_decay_score (evaluate_decay s (i\<lparr>di_access_count := n'\<rparr>) now m) \<and>
     new_decay_score (evaluate_decay s (i\<lparr>di_last_accessed_at := Some t\<rparr>) now m)
       \<le> new_decay_score (evaluate_decay s (i\<lparr>di_last_accessed_at := Some t'\<rparr>) now m)"
proof (cases "di_pinned i")
  case True
  then show ?thesis by simp
next
  case False
  then show ?thesis
    using assms by (auto simp: score_eq intro!: fade_score_mono elapsed_mono)
qed

theorem decay_monotone_witness:
  "new_decay_score (evaluate_decay default_settings sample_decay_inputs 86400000000 1)
     \<le> new_decay_score (evaluate_decay default_settings sample_decay_inputs 0 1)"
  using decay_monotone [of default_settings sample_decay_inputs 0 86400000000 0 0 0 0 1]
  by (simp add: sample_decay_inputs_def default_settings_def)

text \<open>
  A memory that keeps failing to embed is never retried for ever: starting fresh, any run of at
  least \<open>max_attempts\<close> failures records exactly \<open>max_attempts\<close> attempts, the last of them parked
  and all earlier ones scheduled, with exponential delays that never exceed an hour.
\<close>

lemma retry_run_length:
  "int n < mx \<Longrightarrow> int (length ts) \<ge> mx - int n \<Longrightarrow>
     int (length (retry_run n mx base ts)) = mx - int n \<and> rd_parked (last (retry_run n mx base ts))"
proof (induction n mx base ts rule: retry_run.induct)
  case (1 n mx base)
  then show ?case by simp
next
  case (2 n mx base t ts)
  show ?case
  proof (cases "mx \<le> int n + 1")
    case True
    with 2 show ?thesis by (simp add: Let_def)
  next
    case False
    with 2 have ih: "int (length (retry_run (n + 1) mx base ts)) = mx - int (n + 1) \<and>
        rd_parked (last (retry_run (n + 1) mx base ts))"
      by (simp add: Let_def)
    then have "retry_run (n + 1) mx base ts \<noteq> []" using False by auto
    with ih False show ?thesis by (simp add: Let_def)
  qed
qed

lemma retry_run_nth:
  "j < length (retry_run n mx base ts) \<Longrightarrow>
     retry_run n mx base ts ! j = decide_retry (n + j) mx base (ts ! j)"
proof (induction n mx base ts arbitrary: j rule: retry_run.induct)
  case (1 n mx base)
  then show ?case by simp
next
  case (2 n mx base t ts)
  then show ?case
    by (cases j) (auto simp: Let_def split: if_splits)
qed

theorem embed_retry_parks:
  assumes "0 < mx" and "mx \<le> int (length ts)" and "0 \<le> base"
  shows "int (length (retry_run 0 mx base ts)) = mx \<and>
     rd_parked (last (retry_run 0 mx base ts)) \<and>
     (\<forall>j < nat mx - 1. retry_run 0 mx base ts ! j =
        \<lparr>rd_attempts = j + 1,
         rd_next_attempt_at = Some (ts ! j + min (base * 2 ^ j) 3600 * 1000000),
         rd_parked = False\<rparr>)"
proof -
  have len: "int (length (retry_run 0 mx base ts)) = mx"
    and park: "rd_parked (last (retry_run 0 mx base ts))"
    using retry_run_length [of 0 mx ts base] assms by auto
  have "retry_run 0 mx base ts ! j =
        \<lparr>rd_attempts = j + 1,
         rd_next_attempt_at = Some (ts ! j + min (base * 2 ^ j) 3600 * 1000000),
         rd_parked = False\<rparr>" if "j < nat mx - 1" for j
  proof -
    have "j < length (retry_run 0 mx base ts)" "int j + 1 < mx"
      using len that by auto
    then show ?thesis
      by (simp add: retry_run_nth decide_retry_def Let_def max_backoff_seconds_def)
  qed
  then show ?thesis using len park by blast
qed

theorem embed_retry_parks_witness:
  "retry_run 0 5 60 [0, 0, 0, 0, 0] ! 2 =
     \<lparr>rd_attempts = 3, rd_next_attempt_at = Some 240000000, rd_parked = False\<rparr> \<and>
   length (retry_run 0 5 60 [0, 0, 0, 0, 0]) = 5"
proof -
  have "length (retry_run 0 5 60 [0, 0, 0, 0, 0]) = 5"
    using embed_retry_parks [of 5 "[0, 0, 0, 0, 0]" 60] by simp
  moreover have "\<forall>j < 4. retry_run 0 5 60 [0, 0, 0, 0, 0] ! j =
      \<lparr>rd_attempts = j + 1, rd_next_attempt_at = Some ([0, 0, 0, 0, 0] ! j + min (60 * 2 ^ j) 3600 * 1000000),
       rd_parked = False\<rparr>"
    using embed_retry_parks [of 5 "[0, 0, 0, 0, 0]" 60] by simp
  from this [rule_format, of 2] have "retry_run 0 5 60 [0, 0, 0, 0, 0] ! 2 =
     \<lparr>rd_attempts = 3, rd_next_attempt_at = Some 240000000, rd_parked = False\<rparr>"
    by simp
  ultimately show ?thesis by blast
qed

text \<open>
  The importance heuristic stays between 0.5 and 1, and pinning never lowers it.
\<close>

lemma importance_score_bounds:
  "1 / 2 \<le> importance_score i \<and> importance_score i \<le> 1"
  by (cases "ii_kind i") (auto simp: importance_score_def Let_def max_def min_def)

lemma importance_score_pinned:
  "importance_score (i\<lparr>ii_pinned := False\<rparr>) \<le> importance_score (i\<lparr>ii_pinned := True\<rparr>)"
  by (cases "ii_kind i") (auto simp: importance_score_def Let_def max_def min_def)

text \<open>
  For a memory that was never accessed the access term vanishes, whatever the median: the
  normalisation divides only the logarithm, not the whole factor.
\<close>

lemma unaccessed_score_ignores_median:
  "di_access_count i = 0 \<Longrightarrow>
     new_decay_score (evaluate_decay s i now m) = new_decay_score (evaluate_decay s i now m')"
  by (cases "di_pinned i") (auto simp: score_eq fade_score_def log1p_def)

end
