(* ===== verification/Ranking.thy ===== *)
theory Ranking
  imports Kortex_Types
begin

text \<open>
  Score fusion and packing: Reciprocal Rank Fusion (\<open>rrf_fuse\<close> of \<^verbatim>\<open>retrieval/hybrid.py\<close>), the token
  budget (\<^verbatim>\<open>retrieval/token_budget.py\<close>), the overlap reranker (\<open>HeuristicReranker\<close> of
  \<^verbatim>\<open>skills/reranker.py\<close>) and the blend-sort-pack pipeline (\<^verbatim>\<open>retrieval/reranker_pipeline.py\<close>).
  The cross-encoder is a parameter: a function from query and candidates to scores.
\<close>

section \<open>Definitions\<close>

subsection \<open>Hits and fusion\<close>

record conflict_note =
  cn_public_id :: string
  cn_title :: string
  cn_relation :: string
  cn_created_at :: time

record hybrid_hit =
  h_memory_id :: int
  h_public_id :: string
  h_title :: string
  h_body :: string
  h_tier :: memory_tier
  h_sensitivity :: sensitivity
  h_importance :: real
  h_decay_score :: real
  h_pinned :: bool
  h_score :: real
  h_conflicts :: "conflict_note list"

definition rrf_add :: "nat \<Rightarrow> nat \<times> int \<Rightarrow> (int \<times> real) list \<Rightarrow> (int \<times> real) list" where
  "rrf_add k = (\<lambda>(rank, mid) scores.
     AList.update mid ((case map_of scores mid of None \<Rightarrow> 0 | Some x \<Rightarrow> x) + 1 / real (k + rank)) scores)"

definition rrf_rank :: "nat \<Rightarrow> int list \<Rightarrow> (int \<times> real) list \<Rightarrow> (int \<times> real) list" where
  "rrf_rank k ranking scores = fold (rrf_add k) (List.enumerate 1 ranking) scores"

definition rrf_fuse :: "nat \<Rightarrow> int set \<Rightarrow> real \<Rightarrow> int list list \<Rightarrow> (int \<times> real) list" where
  "rrf_fuse k pinned pinned_floor rankings =
     (let scores = fold (rrf_rank k) rankings []
      in map (\<lambda>(mid, s). (mid, if mid \<in> pinned then max s pinned_floor else s)) scores)"

text \<open>The specification: the sum of reciprocal ranks.\<close>

definition rrf_share :: "nat \<Rightarrow> int \<Rightarrow> (nat \<times> int) list \<Rightarrow> real" where
  "rrf_share k mid rs = sum_list (map (\<lambda>(rank, m). if m = mid then 1 / real (k + rank) else 0) rs)"

definition rrf_sum :: "nat \<Rightarrow> int list list \<Rightarrow> int \<Rightarrow> real" where
  "rrf_sum k rankings mid = sum_list (map (\<lambda>r. rrf_share k mid (List.enumerate 1 r)) rankings)"

subsection \<open>Token budget\<close>

definition estimate_tokens :: "string \<Rightarrow> int" where
  "estimate_tokens t = (if t = [] then 0 else max 1 ((int (length t) + 3) div 4))"

record budget_item =
  bi_id :: nat
  bi_text :: string
  bi_score :: real

fun fit_loop :: "int \<Rightarrow> int \<Rightarrow> budget_item list \<Rightarrow> budget_item list \<Rightarrow> int \<Rightarrow> budget_item list \<times> int" where
  "fit_loop max_tokens per_item_max [] kept used = (kept, used)"
| "fit_loop max_tokens per_item_max (item # rest) kept used =
     (let tokens0 = estimate_tokens (bi_text item);
          text = (if tokens0 > per_item_max then slice_to (per_item_max * 4) (bi_text item)
                  else bi_text item);
          tokens = (if tokens0 > per_item_max then per_item_max else tokens0)
      in if used + tokens > max_tokens
         then fit_loop max_tokens per_item_max rest kept used
         else fit_loop max_tokens per_item_max rest (kept @ [item\<lparr>bi_text := text\<rparr>]) (used + tokens))"

definition budget_fit :: "int \<Rightarrow> int \<Rightarrow> budget_item list \<Rightarrow> budget_item list \<times> int" where
  "budget_fit max_tokens per_item_max items =
     fit_loop max_tokens per_item_max (sorted_desc bi_score items) [] 0"

subsection \<open>Reranking\<close>

record rerank_candidate =
  rc_id :: int
  rc_text :: string
  rc_prior_score :: real

definition tokenize :: "string \<Rightarrow> string list" where
  "tokenize t = filter (\<lambda>w. (w \<noteq> [] \<and> list_all py_isalnum w) \<or> CHR ''-'' \<in> set w \<or> CHR ''_'' \<in> set w)
     (py_words (py_lower t))"

definition heuristic_score :: "string \<Rightarrow> rerank_candidate list \<Rightarrow> real list" where
  "heuristic_score query candidates =
     (let q_tokens = filter (\<lambda>t. t \<noteq> []) (tokenize query)
      in map (\<lambda>c.
           let c_tokens = tokenize (rc_text c)
           in if c_tokens = [] then rc_prior_score c
              else let overlap = length (filter (\<lambda>t. t \<in> set q_tokens) c_tokens);
                       jaccard = real overlap / real (max 1 (length (remdups (q_tokens @ c_tokens))))
                   in rc_prior_score c + jaccard) candidates)"

record reranked_hit =
  r_hit :: hybrid_hit
  r_rerank_score :: real
  r_final_score :: real

definition hit_text :: "hybrid_hit \<Rightarrow> string" where
  "hit_text h = h_title h @ [newline] @ h_body h"

definition blend_scores :: "real \<Rightarrow> hybrid_hit list \<Rightarrow> real list \<Rightarrow> reranked_hit list" where
  "blend_scores blend hits scores =
     (let rerank_min = (if scores \<noteq> [] then Min (set scores) else 0);
          rerank_span = (if scores \<noteq> [] then Max (set scores) - rerank_min else 1);
          prior_min = Min (set (map h_score hits));
          prior_span = max (1 / 10 ^ 9) (Max (set (map h_score hits)) - prior_min)
      in map (\<lambda>(hit, rscore).
           let norm_r = (rscore - rerank_min) / (if rerank_span = 0 then 1 else rerank_span);
               norm_p = (h_score hit - prior_min) / prior_span
           in \<lparr>r_hit = hit, r_rerank_score = rscore,
               r_final_score = blend * norm_r + (1 - blend) * norm_p\<rparr>) (zip hits scores))"

definition pack_items :: "reranked_hit list \<Rightarrow> budget_item list" where
  "pack_items reranked =
     map (\<lambda>(i, r). \<lparr>bi_id = i, bi_text = hit_text (r_hit r), bi_score = r_final_score r\<rparr>)
       (List.enumerate 0 reranked)"

definition rerank_and_pack ::
    "(string \<Rightarrow> rerank_candidate list \<Rightarrow> real list) \<Rightarrow> string \<Rightarrow> hybrid_hit list \<Rightarrow> int \<Rightarrow> int \<Rightarrow> real
     \<Rightarrow> (reranked_hit list \<times> int) result" where
  "rerank_and_pack score query hits max_tokens per_item_max blend =
     (if hits = [] then Inr ([], 0)
      else
        let candidates = map (\<lambda>h. \<lparr>rc_id = h_memory_id h, rc_text = hit_text h,
                                    rc_prior_score = h_score h\<rparr>) hits;
            scores = score query candidates
        in if length scores \<noteq> length hits then Inl (ValueError ''zip() argument lengths differ'')
           else
             let reranked = sorted_desc r_final_score (blend_scores blend hits scores);
                 (kept_items, used) = budget_fit max_tokens per_item_max (pack_items reranked);
                 kept_idx = set (map bi_id kept_items);
                 final = map (\<lambda>i. reranked ! i)
                   (sorted_desc (\<lambda>i. r_final_score (reranked ! i)) (sorted_list_of_set kept_idx))
             in Inr (final, used))"


section \<open>Fusion equals its specification\<close>

lemma sum_list_zero: "\<forall>x \<in> set xs. f x = 0 \<Longrightarrow> sum_list (map f xs) = (0 :: real)"
  by (induction xs) auto

lemma map_of_rrf_add:
  "map_of (rrf_add k (rank, m) sc) mid =
     (if m = mid then Some ((case map_of sc mid of None \<Rightarrow> 0 | Some x \<Rightarrow> x) + 1 / real (k + rank))
      else map_of sc mid)"
  by (simp add: rrf_add_def)

lemma map_of_fold_rrf_add:
  "map_of (fold (rrf_add k) rs sc) mid =
     (if mid \<in> snd ` set rs
      then Some ((case map_of sc mid of None \<Rightarrow> 0 | Some x \<Rightarrow> x) + rrf_share k mid rs)
      else map_of sc mid)"
proof (induction rs arbitrary: sc)
  case Nil
  then show ?case by simp
next
  case (Cons p rs)
  obtain rank m where p: "p = (rank, m)" by force
  have share0: "rrf_share k mid rs = 0" if "mid \<notin> snd ` set rs"
    unfolding rrf_share_def using that by (intro sum_list_zero) force
  show ?case
    using Cons share0 by (auto simp: p map_of_rrf_add rrf_share_def)
qed

lemma snd_set_enumerate [simp]: "snd ` set (List.enumerate n xs) = set xs"
  by (metis image_set map_snd_enumerate)

lemma rrf_share_absent:
  "mid \<notin> set r \<Longrightarrow> rrf_share k mid (List.enumerate n r) = 0"
  unfolding rrf_share_def by (rule sum_list_zero) (auto simp: in_set_enumerate_eq)

lemma map_of_fold_rrf_rank:
  "map_of (fold (rrf_rank k) rankings sc) mid =
     (if \<exists>r \<in> set rankings. mid \<in> set r
      then Some ((case map_of sc mid of None \<Rightarrow> 0 | Some x \<Rightarrow> x) + rrf_sum k rankings mid)
      else map_of sc mid)"
proof (induction rankings arbitrary: sc)
  case Nil
  then show ?case by simp
next
  case (Cons r rs)
  have sum0: "rrf_sum k rs mid = 0" if "\<not> (\<exists>r \<in> set rs. mid \<in> set r)"
    unfolding rrf_sum_def using that by (intro sum_list_zero) (auto simp: rrf_share_absent)
  show ?case
    using Cons sum0
    by (auto simp: rrf_rank_def map_of_fold_rrf_add rrf_sum_def rrf_share_absent)
qed

lemma map_of_map_value: "map_of (map (\<lambda>(x, v). (x, f x v)) xs) y = map_option (f y) (map_of xs y)"
  by (induction xs) auto

lemma fst_rrf_add: "fst ` set (rrf_add k p sc) = insert (snd p) (fst ` set sc)"
  by (cases p) (simp add: rrf_add_def)

lemma distinct_rrf_add: "distinct (map fst sc) \<Longrightarrow> distinct (map fst (rrf_add k p sc))"
  by (cases p) (simp add: rrf_add_def distinct_update)

lemma distinct_fold_rrf_add:
  "distinct (map fst sc) \<Longrightarrow> distinct (map fst (fold (rrf_add k) rs sc))"
  by (induction rs arbitrary: sc) (auto simp: distinct_rrf_add)

lemma distinct_fold_rrf_rank:
  "distinct (map fst sc) \<Longrightarrow> distinct (map fst (fold (rrf_rank k) rankings sc))"
  by (induction rankings arbitrary: sc) (auto simp: rrf_rank_def distinct_fold_rrf_add)

lemma keys_rrf_fuse: "map fst (rrf_fuse k pinned fl rankings) = map fst (fold (rrf_rank k) rankings [])"
  by (auto simp: rrf_fuse_def Let_def)

lemma distinct_rrf_fuse: "distinct (map fst (rrf_fuse k pinned fl rankings))"
  by (simp only: keys_rrf_fuse) (rule distinct_fold_rrf_rank, simp)

lemma map_of_rrf_fuse:
  "map_of (rrf_fuse k pinned fl rankings) mid =
     (if \<exists>r \<in> set rankings. mid \<in> set r
      then Some (if mid \<in> pinned then max (rrf_sum k rankings mid) fl else rrf_sum k rankings mid)
      else None)"
  by (simp add: rrf_fuse_def Let_def map_of_map_value map_of_fold_rrf_rank)

lemma keys_rrf_fuse_set: "fst ` set (rrf_fuse k pinned fl rankings) = (\<Union>r \<in> set rankings. set r)"
proof -
  have "mid \<in> fst ` set (rrf_fuse k pinned fl rankings) \<longleftrightarrow> (\<exists>r \<in> set rankings. mid \<in> set r)" for mid
    using map_of_eq_None_iff [of "rrf_fuse k pinned fl rankings" mid]
    by (auto simp: map_of_rrf_fuse split: if_splits)
  then show ?thesis by auto
qed

lemma rrf_share_bound:
  "distinct r \<Longrightarrow> 0 < n \<Longrightarrow> rrf_share k mid (List.enumerate n r) \<le> 1 / real (k + n)"
proof (induction r arbitrary: n)
  case Nil
  then show ?case by (simp add: rrf_share_def)
next
  case (Cons x r)
  show ?case
  proof (cases "x = mid")
    case True
    then have "rrf_share k mid (List.enumerate (Suc n) r) = 0"
      using Cons.prems by (intro rrf_share_absent) auto
    then show ?thesis
      using True by (simp add: rrf_share_def)
  next
    case False
    have "rrf_share k mid (List.enumerate (Suc n) r) \<le> 1 / real (k + Suc n)"
      using Cons by (intro Cons.IH) auto
    also have "\<dots> \<le> 1 / real (k + n)"
      using Cons.prems by (intro divide_left_mono) auto
    finally show ?thesis
      using False by (simp add: rrf_share_def)
  qed
qed

lemma rrf_share_nonneg: "0 \<le> rrf_share k mid rs"
  unfolding rrf_share_def by (rule sum_list_nonneg) auto

lemma rrf_sum_nonneg: "0 \<le> rrf_sum k rankings mid"
  unfolding rrf_sum_def by (rule sum_list_nonneg) (auto simp: rrf_share_nonneg)

lemma rrf_sum_bound:
  "\<forall>r \<in> set rankings. distinct r \<Longrightarrow> rrf_sum k rankings mid \<le> real (length rankings) / real (k + 1)"
proof (induction rankings)
  case Nil
  then show ?case by (simp add: rrf_sum_def)
next
  case (Cons r rs)
  have "rrf_sum k (r # rs) mid = rrf_share k mid (List.enumerate 1 r) + rrf_sum k rs mid"
    by (simp add: rrf_sum_def)
  also have "\<dots> \<le> 1 / real (k + 1) + real (length rs) / real (k + 1)"
    using Cons rrf_share_bound [of r 1 k mid] by (intro add_mono) auto
  finally show ?case
    by (simp add: add_divide_distrib [symmetric] add.commute)
qed

text \<open>
  \<open>rrf_fuse\<close> computes Reciprocal Rank Fusion: its keys are exactly the ids that occur in some
  ranking, each once, and the score of an id is the sum of \<open>1/(k+rank)\<close> over its occurrences, raised
  to the floor when it is pinned.
\<close>

theorem rrf_fuse_correct:
  "distinct (map fst (rrf_fuse k pinned fl rankings)) \<and>
   fst ` set (rrf_fuse k pinned fl rankings) = (\<Union>r \<in> set rankings. set r) \<and>
   (\<forall>mid. mid \<in> (\<Union>r \<in> set rankings. set r) \<longrightarrow>
      map_of (rrf_fuse k pinned fl rankings) mid =
        Some (if mid \<in> pinned then max (rrf_sum k rankings mid) fl else rrf_sum k rankings mid))"
  by (auto simp: distinct_rrf_fuse keys_rrf_fuse_set map_of_rrf_fuse)

theorem rrf_fuse_correct_witness:
  "map_of (rrf_fuse 60 {2} 1 [[1, 2], [2, 3]]) 2 = Some 1 \<and>
   map_of (rrf_fuse 60 {2} 1 [[1, 2], [2, 3]]) 3 = Some (1 / 62)"
proof -
  note sums = rrf_fuse_correct [of 60 "{2}" 1 "[[1, 2], [2, 3]]", THEN conjunct2, THEN conjunct2, rule_format]
  from sums [of 2] sums [of 3] show ?thesis
    by (simp add: rrf_sum_def rrf_share_def)
qed


section \<open>The budget is respected and packed greedily\<close>

definition item_cost :: "int \<Rightarrow> budget_item \<Rightarrow> int" where
  "item_cost per_item_max item = min (estimate_tokens (bi_text item)) per_item_max"

definition item_trunc :: "int \<Rightarrow> budget_item \<Rightarrow> budget_item" where
  "item_trunc per_item_max item =
     (if estimate_tokens (bi_text item) > per_item_max
      then item\<lparr>bi_text := slice_to (per_item_max * 4) (bi_text item)\<rparr> else item)"

lemma fit_loop_Cons:
  "fit_loop mx per (item # rest) kept used =
     (if used + item_cost per item > mx then fit_loop mx per rest kept used
      else fit_loop mx per rest (kept @ [item_trunc per item]) (used + item_cost per item))"
  by (auto simp: Let_def item_cost_def item_trunc_def min_def)

lemma estimate_nonneg: "0 \<le> estimate_tokens t"
  by (auto simp: estimate_tokens_def max_def)

lemma item_cost_nonneg: "0 \<le> per \<Longrightarrow> 0 \<le> item_cost per item"
  by (simp add: item_cost_def estimate_nonneg)

lemma fit_loop_spec:
  assumes "0 \<le> per"
  shows "\<exists>sel. subseq sel items \<and> fit_loop mx per items kept used =
     (kept @ map (item_trunc per) sel, used + sum_list (map (item_cost per) sel)) \<and>
     (used \<le> mx \<longrightarrow> used + sum_list (map (item_cost per) sel) \<le> mx) \<and>
     (\<forall>it \<in> set items. it \<notin> set sel \<longrightarrow> mx < used + sum_list (map (item_cost per) sel) + item_cost per it)"
proof (induction items arbitrary: kept used)
  case Nil
  then show ?case by simp
next
  case (Cons item rest)
  show ?case
  proof (cases "used + item_cost per item > mx")
    case True
    obtain sel where sel: "subseq sel rest" "fit_loop mx per rest kept used =
        (kept @ map (item_trunc per) sel, used + sum_list (map (item_cost per) sel))"
      "used \<le> mx \<longrightarrow> used + sum_list (map (item_cost per) sel) \<le> mx"
      "\<forall>it \<in> set rest. it \<notin> set sel \<longrightarrow> mx < used + sum_list (map (item_cost per) sel) + item_cost per it"
      using Cons.IH [of kept used] by blast
    have "0 \<le> sum_list (map (item_cost per) sel)"
      using assms by (intro sum_list_nonneg) (auto simp: item_cost_nonneg)
    with sel True show ?thesis
      by (intro exI [of _ sel]) (auto simp: fit_loop_Cons simp del: fit_loop.simps)
  next
    case False
    obtain sel where sel: "subseq sel rest"
      "fit_loop mx per rest (kept @ [item_trunc per item]) (used + item_cost per item) =
        ((kept @ [item_trunc per item]) @ map (item_trunc per) sel,
         used + item_cost per item + sum_list (map (item_cost per) sel))"
      "used + item_cost per item \<le> mx \<longrightarrow>
        used + item_cost per item + sum_list (map (item_cost per) sel) \<le> mx"
      "\<forall>it \<in> set rest. it \<notin> set sel \<longrightarrow>
        mx < used + item_cost per item + sum_list (map (item_cost per) sel) + item_cost per it"
      using Cons.IH [of "kept @ [item_trunc per item]" "used + item_cost per item"] by blast
    with False show ?thesis
      by (intro exI [of _ "item # sel"]) (auto simp: fit_loop_Cons algebra_simps simp del: fit_loop.simps)
  qed
qed

lemma item_trunc_id [simp]: "bi_id (item_trunc per item) = bi_id item"
  by (simp add: item_trunc_def)

lemma estimate_le_iff: "0 \<le> n \<Longrightarrow> estimate_tokens t \<le> n \<longleftrightarrow> int (length t) \<le> 4 * n"
  by (cases t) (auto simp: estimate_tokens_def)

lemma item_trunc_length: "0 \<le> per \<Longrightarrow> int (length (bi_text (item_trunc per item))) \<le> 4 * per"
  by (auto simp: item_trunc_def length_slice_to estimate_le_iff not_less)

text \<open>
  Packing respects the budget and is greedy: the kept items are a subsequence of the items in
  descending score order, each cut to at most \<open>per_item_max\<close> tokens of text; the reported usage is
  their total cost and never exceeds \<open>max_tokens\<close>; and every item left out would have overflowed it.
\<close>

theorem budget_fit_sound:
  assumes "0 \<le> mx" and "0 \<le> per" and "budget_fit mx per items = (kept, used)"
  shows "0 \<le> used \<and> used \<le> mx \<and>
    (\<forall>it \<in> set kept. int (length (bi_text it)) \<le> 4 * per) \<and>
    (\<exists>sel. subseq sel (sorted_desc bi_score items) \<and> kept = map (item_trunc per) sel \<and>
       used = sum_list (map (item_cost per) sel) \<and>
       (\<forall>it \<in> set items. it \<notin> set sel \<longrightarrow> mx < used + item_cost per it))"
proof -
  obtain sel where sel: "subseq sel (sorted_desc bi_score items)"
    "kept = map (item_trunc per) sel" "used = sum_list (map (item_cost per) sel)" "used \<le> mx"
    "\<forall>it \<in> set items. it \<notin> set sel \<longrightarrow> mx < used + item_cost per it"
    using fit_loop_spec [OF assms(2), of "sorted_desc bi_score items" mx "[]" 0] assms(1,3)
    by (auto simp: budget_fit_def)
  moreover have "0 \<le> used"
    unfolding sel(3) using assms(2) by (intro sum_list_nonneg) (auto simp: item_cost_nonneg)
  ultimately show ?thesis
    using assms(2) by (auto simp: item_trunc_length)
qed

theorem budget_fit_sound_witness:
  "snd (budget_fit 3 2 [\<lparr>bi_id = 0, bi_text = ''abcdefghijkl'', bi_score = 1\<rparr>,
      \<lparr>bi_id = 1, bi_text = ''wxyz'', bi_score = 2\<rparr>, \<lparr>bi_id = 2, bi_text = ''tail'', bi_score = 0\<rparr>]) \<le> 3"
proof -
  obtain kept used where kept: "budget_fit 3 2 [\<lparr>bi_id = 0, bi_text = ''abcdefghijkl'', bi_score = 1\<rparr>,
      \<lparr>bi_id = 1, bi_text = ''wxyz'', bi_score = 2\<rparr>, \<lparr>bi_id = 2, bi_text = ''tail'', bi_score = 0\<rparr>]
      = (kept, used)"
    by fastforce
  then show ?thesis
    using budget_fit_sound [OF _ _ kept] by simp
qed


section \<open>The pipeline\<close>

lemma length_blend_scores [simp]:
  "length (blend_scores b hits scores) = min (length hits) (length scores)"
  by (simp add: blend_scores_def Let_def)

lemma map_hit_blend_scores:
  "length scores = length hits \<Longrightarrow> map r_hit (blend_scores b hits scores) = hits"
  by (simp add: blend_scores_def Let_def comp_def case_prod_unfold)

lemma convex_01:
  assumes "0 \<le> b" "b \<le> 1" "0 \<le> x" "x \<le> 1" "0 \<le> y" "y \<le> (1 :: real)"
  shows "0 \<le> b * x + (1 - b) * y \<and> b * x + (1 - b) * y \<le> 1"
proof
  show "0 \<le> b * x + (1 - b) * y"
    using assms by simp
  have "b * x + (1 - b) * y \<le> b * 1 + (1 - b) * 1"
    using assms by (intro add_mono mult_left_mono) auto
  then show "b * x + (1 - b) * y \<le> 1" by simp
qed

lemma norm_01:
  assumes "lo \<le> x" "x \<le> hi" "hi - lo \<le> w" "0 < w"
  shows "0 \<le> (x - lo) / w \<and> (x - lo) / w \<le> (1 :: real)"
  using assms by (simp add: field_simps)

lemma blend_scores_01:
  assumes "r \<in> set (blend_scores b hits scores)" and "0 \<le> b" "b \<le> 1"
  shows "0 \<le> r_final_score r \<and> r_final_score r \<le> 1"
proof -
  let ?lo = "Min (set scores)" and ?hi = "Max (set scores)"
  let ?plo = "Min (set (map h_score hits))" and ?phi = "Max (set (map h_score hits))"
  let ?span = "if ?hi - ?lo = 0 then 1 else ?hi - ?lo"
  obtain hit sc where hs: "(hit, sc) \<in> set (zip hits scores)"
    and r: "r_final_score r = b * ((sc - ?lo) / ?span)
        + (1 - b) * ((h_score hit - ?plo) / max (1 / 10 ^ 9) (?phi - ?plo))"
    using assms(1) by (cases "scores = []") (auto simp: blend_scores_def Let_def)
  have sc: "sc \<in> set scores" and hit: "h_score hit \<in> set (map h_score hits)"
    using hs by (auto dest: set_zip_leftD set_zip_rightD)
  have lo: "?lo \<le> sc" and hi: "sc \<le> ?hi"
    using sc by auto
  have plo: "?plo \<le> h_score hit" and phi: "h_score hit \<le> ?phi"
    using hit by (auto intro: Min_le Max_ge)
  have "0 \<le> (sc - ?lo) / ?span \<and> (sc - ?lo) / ?span \<le> 1"
    using lo hi by (intro norm_01 [of _ _ ?hi]) auto
  moreover have "0 \<le> (h_score hit - ?plo) / max (1 / 10 ^ 9) (?phi - ?plo) \<and>
      (h_score hit - ?plo) / max (1 / 10 ^ 9) (?phi - ?plo) \<le> 1"
    using plo phi by (intro norm_01 [of _ _ ?phi]) auto
  ultimately show ?thesis
    unfolding r using assms(2,3) by (intro convex_01) auto
qed

lemma pack_items_ids: "map bi_id (pack_items rs) = [0..<length rs]"
  by (auto simp: pack_items_def comp_def case_prod_unfold map_fst_enumerate)

lemma kept_idx_valid:
  assumes "0 \<le> per" and "budget_fit mx per (pack_items rs) = (kept, used)" and "i \<in> set (map bi_id kept)"
  shows "i < length rs"
proof -
  obtain sel where "subseq sel (sorted_desc bi_score (pack_items rs))" "kept = map (item_trunc per) sel"
    using fit_loop_spec [OF assms(1), of "sorted_desc bi_score (pack_items rs)" mx "[]" 0] assms(2)
    by (auto simp: budget_fit_def)
  moreover from this have "set sel \<subseteq> set (pack_items rs)"
    by (metis set_nths_subset set_sorted_desc subseq_conv_nths)
  ultimately have "i \<in> set (map bi_id (pack_items rs))"
    using assms(3) by auto
  then show ?thesis by (simp add: pack_items_ids)
qed

lemma mset_map_nth_subset:
  assumes "distinct idx" and "\<forall>i \<in> set idx. i < length xs"
  shows "mset (map (\<lambda>i. f (xs ! i)) idx) \<subseteq># mset (map f xs)"
proof -
  have "mset idx \<subseteq># mset [0..<length xs]"
    using assms subset_imp_msubset_mset_set [of "set idx" "set [0..<length xs]"]
    by (simp add: mset_set_set subset_iff)
  then have "image_mset (\<lambda>i. f (xs ! i)) (mset idx) \<subseteq># image_mset (\<lambda>i. f (xs ! i)) (mset [0..<length xs])"
    by (rule image_mset_subseteq_mono)
  also have "image_mset (\<lambda>i. f (xs ! i)) (mset [0..<length xs]) = mset (map f xs)"
    by (metis (no_types, lifting) map_map map_nth mset_map comp_apply map_eq_conv)
  finally show ?thesis by simp
qed

text \<open>
  With a reranker that returns one score per candidate, the pipeline returns a result: a
  sub-multiset of the retrieved hits (nothing invented, nothing duplicated), in descending order of
  final score, every final score between 0 and 1 for a blend in that range, and the tokens it
  reports within the budget.  A reranker that returns a different number of scores is an error.
\<close>

theorem rerank_and_pack_sound:
  assumes "0 \<le> mx" and "0 \<le> per" and "0 \<le> b" and "b \<le> 1"
    and "\<forall>q cs. length (score q cs) = length cs"
  shows "\<exists>out used. rerank_and_pack score query hits mx per b = Inr (out, used) \<and>
       used \<le> mx \<and> mset (map r_hit out) \<subseteq># mset hits \<and>
       sorted_wrt (\<lambda>x y. r_final_score y \<le> r_final_score x) out \<and>
       (\<forall>r \<in> set out. 0 \<le> r_final_score r \<and> r_final_score r \<le> 1)"
proof (cases "hits = []")
  case True
  then show ?thesis using assms by (simp add: rerank_and_pack_def)
next
  case False
  note len = assms(5)
  let ?cs = "map (\<lambda>h. \<lparr>rc_id = h_memory_id h, rc_text = hit_text h, rc_prior_score = h_score h\<rparr>) hits"
  let ?bl = "blend_scores b hits (score query ?cs)"
  let ?rr = "sorted_desc r_final_score ?bl"
  obtain kept used where fit: "budget_fit mx per (pack_items ?rr) = (kept, used)" by force
  let ?idx = "sorted_desc (\<lambda>i. r_final_score (?rr ! i)) (sorted_list_of_set (set (map bi_id kept)))"
  have run: "rerank_and_pack score query hits mx per b = Inr (map (\<lambda>i. ?rr ! i) ?idx, used)"
    using False len fit by (simp add: rerank_and_pack_def Let_def)
  have valid: "\<forall>i \<in> set (map bi_id kept). i < length ?rr"
    using kept_idx_valid [OF assms(2) fit] by blast
  have idx: "distinct ?idx" "\<forall>i \<in> set ?idx. i < length ?rr"
    using valid by auto
  have "mset (map r_hit (map (\<lambda>i. ?rr ! i) ?idx)) \<subseteq># mset (map r_hit ?rr)"
    using mset_map_nth_subset [OF idx, of r_hit] by (simp only: map_map comp_def)
  also have "mset (map r_hit ?rr) = mset (map r_hit ?bl)"
    by simp
  also have "map r_hit ?bl = hits"
    using len by (intro map_hit_blend_scores) simp
  finally have hits: "mset (map r_hit (map (\<lambda>i. ?rr ! i) ?idx)) \<subseteq># mset hits" .
  have members: "set (map (\<lambda>i. ?rr ! i) ?idx) \<subseteq> set ?bl"
  proof
    fix r
    assume "r \<in> set (map (\<lambda>i. ?rr ! i) ?idx)"
    then obtain i where "i \<in> set ?idx" "r = ?rr ! i" by auto
    then have "r \<in> set ?rr" using idx(2) nth_mem by blast
    then show "r \<in> set ?bl" by simp
  qed
  have "sorted_wrt (\<lambda>x y. r_final_score y \<le> r_final_score x) (map (\<lambda>i. ?rr ! i) ?idx)"
    using sorted_desc_sorted [of "\<lambda>i. r_final_score (?rr ! i)"] by (simp add: sorted_wrt_map)
  moreover have "\<forall>r \<in> set (map (\<lambda>i. ?rr ! i) ?idx). 0 \<le> r_final_score r \<and> r_final_score r \<le> 1"
    using members assms(3,4) by (blast dest: blend_scores_01)
  moreover have "used \<le> mx"
    using fit_loop_spec [OF assms(2), of "sorted_desc bi_score (pack_items ?rr)" mx "[]" 0] assms(1) fit
    by (auto simp: budget_fit_def)
  ultimately show ?thesis using run hits by blast
qed

text \<open>The overlap reranker meets that contract.\<close>

lemma length_heuristic_score [simp]: "length (heuristic_score q cs) = length cs"
  by (simp add: heuristic_score_def Let_def)

definition pinned_hit :: hybrid_hit where
  "pinned_hit = \<lparr>h_memory_id = 1, h_public_id = ''p1'', h_title = ''beta'', h_body = ''beta'',
     h_tier = LONG, h_sensitivity = INTERNAL, h_importance = 1, h_decay_score = 1, h_pinned = True,
     h_score = 1, h_conflicts = []\<rparr>"

definition plain_hit :: hybrid_hit where
  "plain_hit = \<lparr>h_memory_id = 2, h_public_id = ''p2'', h_title = ''alpha'', h_body = ''alpha'',
     h_tier = LONG, h_sensitivity = INTERNAL, h_importance = 1, h_decay_score = 1, h_pinned = False,
     h_score = 0, h_conflicts = []\<rparr>"

theorem rerank_and_pack_sound_witness:
  "\<exists>out used. rerank_and_pack heuristic_score ''alpha'' [pinned_hit, plain_hit] 4000 800 (7 / 10)
     = Inr (out, used) \<and> used \<le> 4000"
  using rerank_and_pack_sound [of 4000 800 "7 / 10" heuristic_score "''alpha''" "[pinned_hit, plain_hit]"]
  by auto

text \<open>
  Pinning is not final: the fused score of a pinned hit is only one of the two blended signals, so a
  hit that is not pinned but overlaps the query better is returned first.
\<close>

lemma rerank_overrides_pin:
  "map (\<lambda>r. h_memory_id (r_hit r))
     (fst (projr (rerank_and_pack heuristic_score ''alpha'' [pinned_hit, plain_hit\<lparr>h_score := 1 / 50\<rparr>]
        4000 800 (7 / 10)))) = [2, 1]"
  by code_simp

end
