(* ===== verification/Regex_Match.thy ===== *)
theory Regex_Match
  imports Kortex_Types
begin

text \<open>
  The backtracking matcher of Python's \<open>re\<close> module, for the constructs the source's patterns use:
  character classes, literals, sequences, ordered alternation, bounded and unbounded repetition
  (greedy and lazy) and the word boundary.  A pattern is matched against the text left of the
  current position (reversed, for the boundary test) and the text right of it; the result lists
  the ends of the possible matches in the order the engine tries them, as pairs of left and right
  context.  \<open>re.search\<close> takes the first position with a match and \<open>re.finditer\<close> the successive
  non-overlapping ones.

  Unbounded repetition is \<open>RepInf\<close>; every pattern under it consumes a character, so as many
  iterations as there are characters left cover all of them.
\<close>

section \<open>Definitions\<close>

datatype regex =
    CharSet "char \<Rightarrow> bool"
  | Empty
  | Seq regex regex
  | Alt regex regex
  | Rep regex nat nat bool
  | RepInf regex nat
  | WordB

definition is_word_char :: "char \<Rightarrow> bool" where
  "is_word_char c = (py_isalnum c \<or> c = CHR ''_'')"

definition at_word_boundary :: "string \<Rightarrow> string \<Rightarrow> bool" where
  "at_word_boundary l r =
     ((case l of [] \<Rightarrow> False | c # _ \<Rightarrow> is_word_char c) \<noteq>
      (case r of [] \<Rightarrow> False | c # _ \<Rightarrow> is_word_char c))"

text \<open>\<open>iterate m lo hi greedy\<close>: between \<open>lo\<close> and \<open>lo + hi\<close> rounds of \<open>m\<close>, most rounds first when greedy.\<close>

fun iterate :: "(string \<times> string \<Rightarrow> (string \<times> string) list) \<Rightarrow> nat \<Rightarrow> nat \<Rightarrow> bool
    \<Rightarrow> string \<times> string \<Rightarrow> (string \<times> string) list" where
  "iterate m 0 0 greedy p = [p]"
| "iterate m 0 (Suc hi) greedy p =
     (if greedy then concat (map (iterate m 0 hi greedy) (m p)) @ [p]
      else p # concat (map (iterate m 0 hi greedy) (m p)))"
| "iterate m (Suc lo) hi greedy p = concat (map (iterate m lo hi greedy) (m p))"

fun re_ends :: "regex \<Rightarrow> string \<times> string \<Rightarrow> (string \<times> string) list" where
  "re_ends (CharSet p) (l, r) = (case r of [] \<Rightarrow> [] | c # r' \<Rightarrow> if p c then [(c # l, r')] else [])"
| "re_ends Empty p = [p]"
| "re_ends (Seq a b) p = concat (map (re_ends b) (re_ends a p))"
| "re_ends (Alt a b) p = re_ends a p @ re_ends b p"
| "re_ends (Rep a lo hi greedy) p = iterate (re_ends a) lo (hi - lo) greedy p"
| "re_ends (RepInf a lo) p = iterate (re_ends a) lo (length (snd p)) True p"
| "re_ends WordB (l, r) = (if at_word_boundary l r then [(l, r)] else [])"

definition re_match_at :: "regex \<Rightarrow> string \<Rightarrow> string \<Rightarrow> (string \<times> string) option" where
  "re_match_at a l r = (case re_ends a (l, r) of [] \<Rightarrow> None | p # _ \<Rightarrow> Some p)"

fun search_from :: "regex \<Rightarrow> string \<Rightarrow> string \<Rightarrow> bool" where
  "search_from a l [] = (re_match_at a l [] \<noteq> None)"
| "search_from a l (c # r) = (re_match_at a l (c # r) \<noteq> None \<or> search_from a (c # l) r)"

definition re_search :: "regex \<Rightarrow> string \<Rightarrow> bool" where
  "re_search a s = search_from a [] s"

text \<open>The spans of \<open>finditer\<close>, left to right; the fuel is the number of positions.\<close>

fun finditer_from :: "nat \<Rightarrow> regex \<Rightarrow> string \<Rightarrow> string \<Rightarrow> (nat \<times> nat) list" where
  "finditer_from 0 a l r = []"
| "finditer_from (Suc n) a l r =
     (case re_match_at a l r of
        Some (l', r') \<Rightarrow>
          if length l' > length l
          then (length l, length l') # finditer_from n a l' r'
          else (case r of [] \<Rightarrow> [] | c # rs \<Rightarrow> finditer_from n a (c # l) rs)
      | None \<Rightarrow> (case r of [] \<Rightarrow> [] | c # rs \<Rightarrow> finditer_from n a (c # l) rs))"

definition re_finditer :: "regex \<Rightarrow> string \<Rightarrow> (nat \<times> nat) list" where
  "re_finditer a s = finditer_from (Suc (length s)) a [] s"

definition re_fullmatch :: "regex \<Rightarrow> string \<Rightarrow> bool" where
  "re_fullmatch a s = list_ex (\<lambda>(l, r). r = []) (re_ends a ([], s))"

subsection \<open>Pattern combinators\<close>

fun seq_all :: "regex list \<Rightarrow> regex" where
  "seq_all [] = Empty"
| "seq_all [a] = a"
| "seq_all (a # b # as) = Seq a (seq_all (b # as))"

definition lit :: "string \<Rightarrow> regex" where
  "lit s = seq_all (map (\<lambda>c. CharSet (\<lambda>x. x = c)) s)"

text \<open>A literal under \<open>re.IGNORECASE\<close>.\<close>

definition lit_ci :: "string \<Rightarrow> regex" where
  "lit_ci s = seq_all (map (\<lambda>c. CharSet (\<lambda>x. lower_char x = lower_char c)) s)"

fun alt_all :: "regex list \<Rightarrow> regex" where
  "alt_all [] = CharSet (\<lambda>_. False)"
| "alt_all [a] = a"
| "alt_all (a # b # as) = Alt a (alt_all (b # as))"

definition alt_words :: "string list \<Rightarrow> regex" where
  "alt_words ws = alt_all (map lit_ci ws)"

abbreviation digit_re :: regex where
  "digit_re \<equiv> CharSet py_isdigit"


section \<open>A match only moves right\<close>

definition advances :: "string \<times> string \<Rightarrow> string \<times> string \<Rightarrow> bool" where
  "advances p q = (\<exists>w. snd p = w @ snd q \<and> fst q = rev w @ fst p)"

lemma advances_refl [simp]: "advances p p"
  by (simp add: advances_def)

lemma advances_trans: "advances p q \<Longrightarrow> advances q r \<Longrightarrow> advances p r"
proof -
  assume "advances p q" "advances q r"
  then obtain w v where "snd p = w @ snd q" "fst q = rev w @ fst p" "snd q = v @ snd r" "fst r = rev v @ fst q"
    by (auto simp: advances_def)
  then show ?thesis
    unfolding advances_def by (intro exI [of _ "w @ v"]) simp
qed

lemma iterate_advances:
  "(\<And>p q. q \<in> set (m p) \<Longrightarrow> advances p q) \<Longrightarrow> q \<in> set (iterate m lo hi greedy p) \<Longrightarrow> advances p q"
proof (induction m lo hi greedy p arbitrary: q rule: iterate.induct)
  case (1 m greedy p)
  then show ?case by simp
next
  case (2 m hi greedy p)
  from "2.prems"(2) consider "q = p" | x where "x \<in> set (m p)" "q \<in> set (iterate m 0 hi greedy x)"
    by (auto simp del: split_paired_All split_paired_Ex split: if_splits)
  then show ?case
    using 2 by cases (simp, blast intro: advances_trans)
next
  case (3 m lo hi greedy p)
  then obtain x where "x \<in> set (m p)" "q \<in> set (iterate m lo hi greedy x)"
    by (auto simp del: split_paired_Ex)
  then show ?case
    using 3 by (blast intro: advances_trans)
qed

lemma re_ends_advances: "q \<in> set (re_ends a p) \<Longrightarrow> advances p q"
proof (induction a arbitrary: p q)
  case (CharSet P)
  then show ?case
    by (cases p; cases "snd p") (auto simp: advances_def split: if_splits)
next
  case Empty
  then show ?case by simp
next
  case (Seq a b)
  then obtain x where "x \<in> set (re_ends a p)" "q \<in> set (re_ends b x)"
    by (auto simp del: split_paired_Ex)
  then show ?case
    using Seq.IH by (blast intro: advances_trans)
next
  case (Alt a b)
  then have "q \<in> set (re_ends a p) \<or> q \<in> set (re_ends b p)" by simp
  then show ?case using Alt.IH by blast
next
  case (Rep a lo hi greedy)
  then show ?case
    using iterate_advances [of "re_ends a"] by (metis re_ends.simps(5) re_ends.simps(6))
next
  case (RepInf a lo)
  then show ?case
    using iterate_advances [of "re_ends a"] by (metis re_ends.simps(5) re_ends.simps(6))
next
  case WordB
  then show ?case by (cases p) (auto split: if_splits)
qed

lemma re_match_at_advances: "re_match_at a l r = Some (l', r') \<Longrightarrow> advances (l, r) (l', r')"
  using re_ends_advances [of "(l', r')" a "(l, r)"] by (auto simp: re_match_at_def split: list.splits)

text \<open>The spans lie inside the text, and the fuel of \<open>re_finditer\<close> is enough.\<close>

lemma re_match_at_lengths:
  "re_match_at a l r = Some (l', r') \<Longrightarrow> length l' + length r' = length l + length r"
  by (auto dest!: re_match_at_advances simp: advances_def)

lemma finditer_from_spans:
  "(i, j) \<in> set (finditer_from n a l r) \<Longrightarrow> length l \<le> i \<and> i < j \<and> j \<le> length l + length r"
proof (induction n arbitrary: l r)
  case 0
  then show ?case by simp
next
  case (Suc n)
  consider (hit) l' r' where "re_match_at a l r = Some (l', r')" "length l < length l'"
      "(i, j) = (length l, length l') \<or> (i, j) \<in> set (finditer_from n a l' r')"
    | (skip) c rs where "r = c # rs" "(i, j) \<in> set (finditer_from n a (c # l) rs)"
    using Suc.prems by (auto split: option.splits if_splits list.splits prod.splits)
  then show ?case
  proof cases
    case hit
    then show ?thesis
      using Suc.IH [of l' r'] re_match_at_lengths [OF hit(1)] by auto
  next
    case skip
    then show ?thesis
      using Suc.IH [of "c # l" rs] by auto
  qed
qed

lemma re_finditer_spans: "(i, j) \<in> set (re_finditer a s) \<Longrightarrow> i < j \<and> j \<le> length s"
  using finditer_from_spans [of i j "Suc (length s)" a "[]" s] by (simp add: re_finditer_def)

lemma finditer_fuel:
  "length r < n \<Longrightarrow> length r < m \<Longrightarrow> finditer_from n a l r = finditer_from m a l r"
proof (induction n arbitrary: m l r)
  case 0
  then show ?case by simp
next
  case (Suc n)
  then obtain m' where m: "m = Suc m'" by (cases m) auto
  have skip: "finditer_from n a (c # l) rs = finditer_from m' a (c # l) rs" if "r = c # rs" for c rs
    using Suc.IH [of rs m' "c # l"] Suc.prems that m by simp
  have hit: "finditer_from n a l' r' = finditer_from m' a l' r'"
    if "re_match_at a l r = Some (l', r')" "length l < length l'" for l' r'
    using Suc.IH [of r' m' l'] Suc.prems that m re_match_at_lengths [OF that(1)] by simp
  show ?case
  proof (cases "re_match_at a l r")
    case None
    then show ?thesis using skip by (cases r) (simp_all add: m)
  next
    case (Some p)
    obtain l' r' where p: "p = (l', r')" by force
    show ?thesis
    proof (cases "length l < length l'")
      case True
      then show ?thesis using Some hit p by (simp add: m)
    next
      case False
      then show ?thesis using Some skip p by (cases r) (simp_all add: m)
    qed
  qed
qed

end
