(* ===== verification/Audit_Chain.thy ===== *)
theory Audit_Chain
  imports Kortex_Types "HOL-Library.List_Lexorder" "HOL-Library.Char_ord"
begin

text \<open>
  The append-only, hash-chained audit log: \<open>AuditRepository\<close> of \<^verbatim>\<open>repositories/audit_repo.py\<close>, the
  request origin of \<^verbatim>\<open>security/request_context.py\<close>, the action names of \<^verbatim>\<open>audit.py\<close> and the retention
  task of \<^verbatim>\<open>kortex_worker/tasks/audit.py\<close>.

  The table is the list of its rows.  \<open>hashlib.sha256\<close> over the canonical JSON text is the parameter
  \<open>H\<close>, a function from the canonical JSON value to a digest; what the tamper-evidence theorem needs of
  it (no collisions, no digest equal to the genesis value) is a named hypothesis.  The locale
  \<open>hash_chain\<close> carries the reasoning about chains for any such digest.
\<close>

section \<open>Definitions\<close>

datatype audit_action =
    LOGIN | LOGIN_FAILED | LOGOUT
  | MEMBER_INVITED | MEMBER_GRANTED | MEMBER_REVOKED
  | API_KEY_CREATED | API_KEY_REVOKED
  | SCOPE_EXPORTED | SCOPE_IMPORTED
  | MEMORY_DELETED | MEMORY_REVIEW_APPROVED | MEMORY_REVIEW_REJECTED
  | PROJECT_REVIEW_MODE_CHANGED | AUDIT_PURGED

fun audit_action_value :: "audit_action \<Rightarrow> string" where
  "audit_action_value LOGIN = ''auth.login''"
| "audit_action_value LOGIN_FAILED = ''auth.login_failed''"
| "audit_action_value LOGOUT = ''auth.logout''"
| "audit_action_value MEMBER_INVITED = ''member.invited''"
| "audit_action_value MEMBER_GRANTED = ''member.granted''"
| "audit_action_value MEMBER_REVOKED = ''member.revoked''"
| "audit_action_value API_KEY_CREATED = ''api_key.created''"
| "audit_action_value API_KEY_REVOKED = ''api_key.revoked''"
| "audit_action_value SCOPE_EXPORTED = ''scope.exported''"
| "audit_action_value SCOPE_IMPORTED = ''scope.imported''"
| "audit_action_value MEMORY_DELETED = ''memory.deleted''"
| "audit_action_value MEMORY_REVIEW_APPROVED = ''memory.review.approved''"
| "audit_action_value MEMORY_REVIEW_REJECTED = ''memory.review.rejected''"
| "audit_action_value PROJECT_REVIEW_MODE_CHANGED = ''project.review_mode_changed''"
| "audit_action_value AUDIT_PURGED = ''audit.purged''"

fun actor_kind_value :: "actor_kind \<Rightarrow> string" where
  "actor_kind_value USER = ''user''"
| "actor_kind_value API_KEY = ''api_key''"
| "actor_kind_value SYSTEM = ''system''"

record audit_entry =
  a_id :: int
  a_org_id :: int
  a_actor_kind :: actor_kind
  a_actor_id :: "int option"
  a_action :: string
  a_target_type :: "string option"
  a_target_id :: "int option"
  a_metadata :: "(string \<times> json) list"
  a_ip :: "string option"
  a_user_agent :: "string option"
  a_created_at :: time
  a_prev_hash :: "string option"
  a_entry_hash :: "string option"

definition GENESIS :: string where
  "GENESIS = replicate 64 CHR ''0''"

definition verify_page :: nat where
  "verify_page = 500"

text \<open>\<open>json.dumps(\<dots>, sort_keys=True)\<close> is determined by the value with every object's keys sorted.\<close>

fun canon_json :: "json \<Rightarrow> json" where
  "canon_json (JList xs) = JList (map canon_json xs)"
| "canon_json (JObj kvs) = JObj (sort_key fst (map (\<lambda>(k, v). (k, canon_json v)) kvs))"
| "canon_json v = v"

definition opt_int :: "int option \<Rightarrow> json" where
  "opt_int x = (case x of None \<Rightarrow> JNull | Some i \<Rightarrow> JInt i)"

definition opt_str :: "string option \<Rightarrow> json" where
  "opt_str x = (case x of None \<Rightarrow> JNull | Some s \<Rightarrow> JStr s)"

definition truthy_str :: "string option \<Rightarrow> string option" where
  "truthy_str x = (case x of Some [] \<Rightarrow> None | _ \<Rightarrow> x)"

text \<open>The hashed payload; the instant stands for its ISO text.\<close>

definition audit_payload :: "audit_entry \<Rightarrow> string \<Rightarrow> json" where
  "audit_payload e prev = canon_json (JObj [
     (''org_id'', JInt (a_org_id e)),
     (''actor_kind'', JStr (actor_kind_value (a_actor_kind e))),
     (''actor_id'', opt_int (a_actor_id e)),
     (''action'', JStr (a_action e)),
     (''target_type'', opt_str (a_target_type e)),
     (''target_id'', opt_int (a_target_id e)),
     (''metadata'', JObj (a_metadata e)),
     (''ip'', opt_str (truthy_str (a_ip e))),
     (''user_agent'', opt_str (a_user_agent e)),
     (''created_at'', JInt (a_created_at e)),
     (''prev_hash'', JStr prev)])"

definition digest :: "(json \<Rightarrow> string) \<Rightarrow> audit_entry \<Rightarrow> string \<Rightarrow> string" where
  "digest H e prev = H (audit_payload e prev)"

text \<open>Rows of one org in id order, and the head query.\<close>

definition org_rows :: "int \<Rightarrow> audit_entry list \<Rightarrow> audit_entry list" where
  "org_rows org rows = sort_key a_id (filter (\<lambda>e. a_org_id e = org) rows)"

definition lock_head :: "audit_entry list \<Rightarrow> int \<Rightarrow> string" where
  "lock_head rows org =
     (case rev (org_rows org rows) of
        [] \<Rightarrow> GENESIS
      | e # _ \<Rightarrow> (case truthy_str (a_entry_hash e) of None \<Rightarrow> GENESIS | Some h \<Rightarrow> h))"

definition audit_read :: "audit_entry list \<Rightarrow> int \<Rightarrow> time option \<Rightarrow> time option \<Rightarrow> int \<Rightarrow> nat \<Rightarrow> audit_entry list" where
  "audit_read rows org since until after_id limit =
     take limit (sort_key a_id (filter (\<lambda>e. a_org_id e = org \<and> a_id e > after_id \<and>
        (case since of None \<Rightarrow> True | Some t \<Rightarrow> a_created_at e \<ge> t) \<and>
        (case until of None \<Rightarrow> True | Some t \<Rightarrow> a_created_at e < t)) rows))"

subsection \<open>Append\<close>

record audit_request =
  ar_actor_kind :: actor_kind
  ar_actor_id :: "int option"
  ar_action :: string
  ar_target_type :: "string option"
  ar_target_id :: "int option"
  ar_metadata :: "(string \<times> json) list"
  ar_ip :: "string option"
  ar_user_agent :: "string option"
  ar_org_id :: "int option"

text \<open>\<open>x or y\<close> on optional strings.\<close>

definition str_or :: "string option \<Rightarrow> string option \<Rightarrow> string option" where
  "str_or x y = (case truthy_str x of None \<Rightarrow> y | Some s \<Rightarrow> Some s)"

definition max_user_agent :: nat where
  "max_user_agent = 512"

definition set_origin :: "string option \<Rightarrow> string option \<Rightarrow> string option \<times> string option" where
  "set_origin ip ua =
     (truthy_str ip,
      truthy_str (Some (take max_user_agent (case ua of None \<Rightarrow> [] | Some s \<Rightarrow> s))))"

definition principal_org :: "principal option \<Rightarrow> int option" where
  "principal_org p = (case p of None \<Rightarrow> None | Some p' \<Rightarrow> if p_org_id p' = 0 then None else Some (p_org_id p'))"

text \<open>The identity the table's sequence hands to the next row.\<close>

definition next_audit_id :: "audit_entry list \<Rightarrow> int" where
  "next_audit_id rows = (if rows = [] then 1 else Max (a_id ` set rows) + 1)"

definition audit_append ::
    "(json \<Rightarrow> string) \<Rightarrow> principal option \<Rightarrow> string option \<times> string option \<Rightarrow> time \<Rightarrow> audit_request
     \<Rightarrow> audit_entry list \<Rightarrow> (audit_entry \<times> audit_entry list) result" where
  "audit_append H p origin now req rows =
     (let ip = str_or (ar_ip req) (fst origin);
          ua = str_or (ar_user_agent req) (snd origin);
          effective = (case ar_org_id req of Some o' \<Rightarrow> Some o' | None \<Rightarrow> principal_org p)
      in case effective of
           None \<Rightarrow> Inl (ValueError ''audit append requires an org'')
         | Some org \<Rightarrow>
             if org = 0 then Inl (ValueError ''audit append requires an org'')
             else
               let prev = lock_head rows org;
                   e = \<lparr>a_id = next_audit_id rows, a_org_id = org, a_actor_kind = ar_actor_kind req,
                        a_actor_id = ar_actor_id req, a_action = ar_action req,
                        a_target_type = ar_target_type req, a_target_id = ar_target_id req,
                        a_metadata = ar_metadata req, a_ip = ip, a_user_agent = ua,
                        a_created_at = now, a_prev_hash = Some prev, a_entry_hash = None\<rparr>;
                   e' = e\<lparr>a_entry_hash := Some (digest H e prev)\<rparr>
               in Inr (e', rows @ [e']))"

subsection \<open>Verification\<close>

datatype break_detail = NoDetail | PrevMismatch string "string option" | ContentMismatch

record chain_status =
  cs_org_id :: int
  cs_entries :: nat
  cs_unchained :: nat
  cs_intact :: bool
  cs_broken_at :: "int option"
  cs_detail :: break_detail
  cs_anchor_prev :: string

text \<open>The loop's variables: \<open>expected\<close>, \<open>anchor\<close>, \<open>entries\<close>, \<open>unchained\<close>.\<close>

record walk =
  w_expected :: "string option"
  w_anchor :: string
  w_entries :: nat
  w_unchained :: nat

definition or_genesis :: "string option \<Rightarrow> string" where
  "or_genesis x = (case truthy_str x of None \<Rightarrow> GENESIS | Some h \<Rightarrow> h)"

definition broken :: "int \<Rightarrow> walk \<Rightarrow> int \<Rightarrow> break_detail \<Rightarrow> chain_status" where
  "broken org w i d = \<lparr>cs_org_id = org, cs_entries = w_entries w, cs_unchained = w_unchained w,
     cs_intact = False, cs_broken_at = Some i, cs_detail = d, cs_anchor_prev = w_anchor w\<rparr>"

definition verified :: "int \<Rightarrow> walk \<Rightarrow> chain_status" where
  "verified org w = \<lparr>cs_org_id = org, cs_entries = w_entries w, cs_unchained = w_unchained w,
     cs_intact = True, cs_broken_at = None, cs_detail = NoDetail, cs_anchor_prev = w_anchor w\<rparr>"

definition verify_step :: "(json \<Rightarrow> string) \<Rightarrow> int \<Rightarrow> walk \<Rightarrow> audit_entry \<Rightarrow> chain_status + walk" where
  "verify_step H org w e =
     (let w1 = w\<lparr>w_entries := w_entries w + 1\<rparr>
      in case a_entry_hash e of
           None \<Rightarrow> Inr (w1\<lparr>w_unchained := w_unchained w1 + 1\<rparr>)
         | Some h \<Rightarrow>
             (let w2 = (case w_expected w1 of
                          None \<Rightarrow> w1\<lparr>w_expected := Some (or_genesis (a_prev_hash e)),
                                     w_anchor := or_genesis (a_prev_hash e)\<rparr>
                        | Some _ \<Rightarrow> w1);
                  expected = the (w_expected w2)
              in if a_prev_hash e \<noteq> Some expected
                 then Inl (broken org w2 (a_id e) (PrevMismatch expected (a_prev_hash e)))
                 else if digest H e (or_genesis (a_prev_hash e)) \<noteq> h
                 then Inl (broken org w2 (a_id e) ContentMismatch)
                 else Inr (w2\<lparr>w_expected := Some h\<rparr>)))"

fun verify_entries :: "(json \<Rightarrow> string) \<Rightarrow> int \<Rightarrow> walk \<Rightarrow> audit_entry list \<Rightarrow> chain_status + walk" where
  "verify_entries H org w [] = Inr w"
| "verify_entries H org w (e # es) =
     (case verify_step H org w e of Inl status \<Rightarrow> Inl status | Inr w' \<Rightarrow> verify_entries H org w' es)"

lemma audit_read_shrinks:
  assumes "audit_read rows org None None after verify_page = page" and "page \<noteq> []"
  shows "length (filter (\<lambda>e. a_org_id e = org \<and> a_id e > a_id (last page)) rows)
       < length (filter (\<lambda>e. a_org_id e = org \<and> a_id e > after) rows)"
proof -
  let ?f = "filter (\<lambda>e. a_org_id e = org \<and> a_id e > after) rows"
  have "set page \<subseteq> set ?f"
    using assms(1) by (auto simp: audit_read_def dest: in_set_takeD)
  then have last: "last page \<in> set ?f" using assms(2) last_in_set by blast
  then have "filter (\<lambda>e. a_org_id e = org \<and> a_id e > a_id (last page)) rows =
      filter (\<lambda>e. a_id e > a_id (last page)) ?f"
    by (auto simp: intro!: filter_cong)
  moreover have "length (filter (\<lambda>e. a_id e > a_id (last page)) ?f) < length ?f"
    by (rule length_filter_less [OF last]) simp
  ultimately show ?thesis by simp
qed

function verify_from :: "(json \<Rightarrow> string) \<Rightarrow> audit_entry list \<Rightarrow> int \<Rightarrow> int \<Rightarrow> walk \<Rightarrow> chain_status" where
  "verify_from H rows org after w =
     (let page = audit_read rows org None None after verify_page
      in if page = [] then verified org w
         else case verify_entries H org w page of
           Inl status \<Rightarrow> status
         | Inr w' \<Rightarrow> verify_from H rows org (a_id (last page)) w')"
  by pat_completeness auto
termination
  by (relation "measure (\<lambda>(H, rows, org, after, w).
        length (filter (\<lambda>e. a_org_id e = org \<and> a_id e > after) rows))")
     (auto intro: audit_read_shrinks [OF refl])

declare verify_from.simps [simp del]

definition start_walk :: walk where
  "start_walk = \<lparr>w_expected = None, w_anchor = GENESIS, w_entries = 0, w_unchained = 0\<rparr>"

definition audit_verify :: "(json \<Rightarrow> string) \<Rightarrow> audit_entry list \<Rightarrow> int \<Rightarrow> chain_status" where
  "audit_verify H rows org = verify_from H rows org 0 start_walk"

subsection \<open>Retention\<close>

definition purge_before :: "audit_entry list \<Rightarrow> int \<Rightarrow> time \<Rightarrow> nat \<times> audit_entry list" where
  "purge_before rows org cutoff =
     (length (filter (\<lambda>e. a_org_id e = org \<and> a_created_at e < cutoff) rows),
      filter (\<lambda>e. \<not> (a_org_id e = org \<and> a_created_at e < cutoff)) rows)"

definition orgs_with_entries :: "audit_entry list \<Rightarrow> int list" where
  "orgs_with_entries rows = remdups (map a_org_id rows)"

definition purge_org ::
    "(json \<Rightarrow> string) \<Rightarrow> int \<Rightarrow> time \<Rightarrow> time \<Rightarrow> audit_entry list \<Rightarrow> (nat \<times> audit_entry list) result" where
  "purge_org H org cutoff now rows =
     (let (removed, rows') = purge_before rows org cutoff
      in if removed = 0 then Inr (removed, rows')
         else case audit_append H (Some (superuser_principal org)) (None, None) now
             \<lparr>ar_actor_kind = SYSTEM, ar_actor_id = None, ar_action = audit_action_value AUDIT_PURGED,
              ar_target_type = Some ''org'', ar_target_id = Some org,
              ar_metadata = [(''removed'', JInt (int removed)), (''cutoff'', JInt cutoff)],
              ar_ip = None, ar_user_agent = None, ar_org_id = Some org\<rparr> rows' of
               Inl err \<Rightarrow> Inl err
             | Inr (e, rows'') \<Rightarrow> Inr (removed, rows''))"

text \<open>The daily task: each org in its own transaction; an exception stops the run.\<close>

record retention_result =
  rr_orgs :: nat
  rr_removed :: nat
  rr_skipped :: nat

fun purge_orgs ::
    "(json \<Rightarrow> string) \<Rightarrow> time \<Rightarrow> time \<Rightarrow> int list \<Rightarrow> nat \<Rightarrow> audit_entry list \<Rightarrow> (nat \<times> audit_entry list) result" where
  "purge_orgs H cutoff now [] removed rows = Inr (removed, rows)"
| "purge_orgs H cutoff now (org # orgs) removed rows =
     (case purge_org H org cutoff now rows of
        Inl err \<Rightarrow> Inl err
      | Inr (n, rows') \<Rightarrow> purge_orgs H cutoff now orgs (removed + n) rows')"

definition day :: time where
  "day = 86400 * 1000000"

definition purge_all ::
    "(json \<Rightarrow> string) \<Rightarrow> int \<Rightarrow> time \<Rightarrow> audit_entry list \<Rightarrow> (retention_result \<times> audit_entry list) result" where
  "purge_all H days now rows =
     (if days \<le> 0 then Inr (\<lparr>rr_orgs = 0, rr_removed = 0, rr_skipped = 1\<rparr>, rows)
      else
        let orgs = orgs_with_entries rows
        in case purge_orgs H (now - days * day) now orgs 0 rows of
             Inl err \<Rightarrow> Inl err
           | Inr (n, rows') \<Rightarrow> Inr (\<lparr>rr_orgs = length orgs, rr_removed = n, rr_skipped = 0\<rparr>, rows'))"


section \<open>Chains over an abstract digest\<close>

text \<open>
  A chain from \<open>prev\<close>: every entry carries the previous digest and its own.  Nothing below depends on
  what is hashed, only on the two accessors and the digest.
\<close>

locale hash_chain =
  fixes dg :: "'e \<Rightarrow> string \<Rightarrow> string"
    and content :: "'e \<Rightarrow> string \<Rightarrow> 'c"
    and prev_of :: "'e \<Rightarrow> string option"
    and hash_of :: "'e \<Rightarrow> string option"
  assumes digest_content: "content a p = content b q \<Longrightarrow> dg a p = dg b q"
begin

fun chain :: "string \<Rightarrow> 'e list \<Rightarrow> bool" where
  "chain prev [] = True"
| "chain prev (e # es) = (prev_of e = Some prev \<and> hash_of e = Some (dg e prev) \<and> chain (dg e prev) es)"

fun head_of :: "string \<Rightarrow> 'e list \<Rightarrow> string" where
  "head_of prev [] = prev"
| "head_of prev (e # es) = head_of (dg e prev) es"

lemma chain_append: "chain p (xs @ ys) \<longleftrightarrow> chain p xs \<and> chain (head_of p xs) ys"
  by (induction xs arbitrary: p) auto

lemma head_of_append: "head_of p (xs @ ys) = head_of (head_of p xs) ys"
  by (induction xs arbitrary: p) auto

lemma head_of_snoc: "head_of p (xs @ [e]) = dg e (head_of p xs)"
  by (simp add: head_of_append)

lemma chain_last: "chain p xs \<Longrightarrow> xs \<noteq> [] \<Longrightarrow> hash_of (last xs) = Some (head_of p xs)"
  by (cases xs rule: rev_cases) (auto simp: chain_append head_of_snoc)

lemma chain_suffix: "chain p (xs @ ys) \<Longrightarrow> \<exists>q. chain q ys \<and> head_of q ys = head_of p (xs @ ys)"
  by (auto simp: chain_append head_of_append)

text \<open>Contents along a chain, each with the digest it was hashed with.\<close>

fun contents :: "string \<Rightarrow> 'e list \<Rightarrow> 'c list" where
  "contents prev [] = []"
| "contents prev (e # es) = content e prev # contents (dg e prev) es"

lemma contents_snoc: "contents p (xs @ [e]) = contents p xs @ [content e (head_of p xs)]"
  by (induction xs arbitrary: p) auto

lemma chain_contents: "chain p xs \<Longrightarrow> contents p xs = map (\<lambda>e. content e (the (prev_of e))) xs"
  by (induction xs arbitrary: p) auto

lemma length_contents [simp]: "length (contents p xs) = length xs"
  by (induction xs arbitrary: p) auto

lemma head_determines_contents:
  assumes inj: "\<And>a p b q. content a p \<in> S \<Longrightarrow> content b q \<in> S \<Longrightarrow> dg a p = dg b q \<Longrightarrow>
      content a p = content b q \<and> p = q"
    and fresh: "\<And>a p. content a p \<in> S \<Longrightarrow> dg a p \<noteq> g"
    and "set (contents g xs) \<subseteq> S" and "set (contents g ys) \<subseteq> S"
    and "head_of g xs = head_of g ys"
  shows "contents g xs = contents g ys"
  using assms(3-)
proof (induction xs arbitrary: ys rule: rev_induct)
  case Nil
  then show ?case
    using fresh by (cases ys rule: rev_cases) (simp_all add: head_of_snoc contents_snoc, metis)
next
  case (snoc x xs)
  have "ys \<noteq> []" using snoc.prems fresh by (auto simp: head_of_snoc contents_snoc)
  then obtain zs z where ys: "ys = zs @ [z]" by (cases ys rule: rev_cases) auto
  have "content x (head_of g xs) \<in> S" "content z (head_of g zs) \<in> S"
    "dg x (head_of g xs) = dg z (head_of g zs)"
    using snoc.prems by (auto simp: ys head_of_snoc contents_snoc)
  note eq = inj [OF this]
  have "contents g xs = contents g zs"
    using snoc eq by (auto simp: ys contents_snoc)
  then show ?case using eq unfolding ys contents_snoc by argo
qed

end

interpretation sha: hash_chain "digest H" audit_payload a_prev_hash a_entry_hash for H
  by unfold_locales (simp add: digest_def)


section \<open>Verification recognises exactly the chains\<close>

abbreviation chained :: "audit_entry \<Rightarrow> bool" where
  "chained e \<equiv> a_entry_hash e \<noteq> None"

definition count_legacy :: "audit_entry list \<Rightarrow> nat" where
  "count_legacy es = length (filter (\<lambda>e. \<not> chained e) es)"

lemma verify_entries_append:
  "verify_entries H org w (xs @ ys) =
     (case verify_entries H org w xs of Inl s \<Rightarrow> Inl s | Inr w' \<Rightarrow> verify_entries H org w' ys)"
  by (induction xs arbitrary: w) (simp_all split: sum.split)

lemma or_genesis_Some [simp]: "x \<noteq> [] \<Longrightarrow> or_genesis (Some x) = x"
  by (cases x) (auto simp: or_genesis_def truthy_str_def)

lemma GENESIS_ne [simp]: "GENESIS \<noteq> []"
  by (simp add: GENESIS_def)

lemma or_genesis_ne [simp]: "or_genesis x \<noteq> []"
  by (cases x; simp add: or_genesis_def truthy_str_def split: list.split)

lemma step_legacy:
  "a_entry_hash e = None \<Longrightarrow>
     verify_step H org w e = Inr (w\<lparr>w_entries := w_entries w + 1, w_unchained := w_unchained w + 1\<rparr>)"
  by (simp add: verify_step_def)

lemma step_linked:
  assumes "a_entry_hash e = Some (digest H e p)" and "a_prev_hash e = Some p" and "p \<noteq> []"
    and "w_expected w = Some p"
  shows "verify_step H org w e =
     Inr (w\<lparr>w_entries := w_entries w + 1, w_expected := Some (digest H e p)\<rparr>)"
  using assms by (simp add: verify_step_def Let_def)

lemma step_first:
  assumes "a_entry_hash e = Some (digest H e p)" and "a_prev_hash e = Some p" and "p \<noteq> []"
    and "w_expected w = None"
  shows "verify_step H org w e =
     Inr (w\<lparr>w_entries := w_entries w + 1, w_anchor := p, w_expected := Some (digest H e p)\<rparr>)"
  using assms by (simp add: verify_step_def Let_def)

lemma step_broken:
  assumes "a_entry_hash e = Some h" and "w_expected w = Some p" and "p \<noteq> []"
    and "\<not> (a_prev_hash e = Some p \<and> h = digest H e p)"
  shows "\<exists>s. verify_step H org w e = Inl s \<and> \<not> cs_intact s \<and> cs_broken_at s = Some (a_id e)"
  using assms by (auto simp: verify_step_def Let_def broken_def)

definition nonempty_hash :: "(json \<Rightarrow> string) \<Rightarrow> bool" where
  "nonempty_hash H \<longleftrightarrow> (\<forall>x. H x \<noteq> [])"

lemma digest_ne: "nonempty_hash H \<Longrightarrow> digest H e p \<noteq> []"
  by (simp add: digest_def nonempty_hash_def)

lemma verify_entries_chain:
  assumes ne: "nonempty_hash H" and "sha.chain H p (filter chained es)"
    and "w_expected w = Some p" and "p \<noteq> []"
  shows "verify_entries H org w es =
     Inr (w\<lparr>w_entries := w_entries w + length es, w_unchained := w_unchained w + count_legacy es,
            w_expected := Some (sha.head_of H p (filter chained es))\<rparr>)"
  using assms(2-)
proof (induction es arbitrary: w p)
  case Nil
  then show ?case by (simp add: count_legacy_def)
next
  case (Cons e es)
  show ?case
  proof (cases "a_entry_hash e")
    case None
    then show ?thesis
      using Cons.IH [of p "w\<lparr>w_entries := w_entries w + 1, w_unchained := w_unchained w + 1\<rparr>"] Cons.prems
      by (simp add: step_legacy count_legacy_def)
  next
    case (Some h)
    then show ?thesis
      using Cons.IH [of "digest H e p" "w\<lparr>w_entries := w_entries w + 1, w_expected := Some h\<rparr>"]
        Cons.prems digest_ne [OF ne]
      by (simp add: step_linked count_legacy_def)
  qed
qed

lemma verify_entries_broken:
  assumes ne: "nonempty_hash H" and "\<not> sha.chain H p (filter chained es)"
    and "w_expected w = Some p" and "p \<noteq> []"
  shows "\<exists>s. verify_entries H org w es = Inl s \<and> \<not> cs_intact s"
  using assms(2-)
proof (induction es arbitrary: w p)
  case (Cons e es)
  show ?case
  proof (cases "a_entry_hash e")
    case None
    then show ?thesis
      using Cons.IH [of p "w\<lparr>w_entries := w_entries w + 1, w_unchained := w_unchained w + 1\<rparr>"] Cons.prems
      by (simp add: step_legacy)
  next
    case (Some h)
    show ?thesis
    proof (cases "a_prev_hash e = Some p \<and> h = digest H e p")
      case True
      then show ?thesis
        using Some Cons.IH [of "digest H e p" "w\<lparr>w_entries := w_entries w + 1, w_expected := Some h\<rparr>"]
          Cons.prems digest_ne [OF ne]
        by (simp add: step_linked)
    next
      case False
      then show ?thesis
        using step_broken [OF Some Cons.prems(2,3), of H org] by auto
    qed
  qed
qed simp

text \<open>The walk from its initial state fixes the anchor at the first chained entry.\<close>

definition walked :: "(json \<Rightarrow> string) \<Rightarrow> string \<Rightarrow> audit_entry list \<Rightarrow> walk" where
  "walked H p es = \<lparr>w_expected = (if filter chained es = [] then None else Some (sha.head_of H p (filter chained es))),
     w_anchor = (if filter chained es = [] then GENESIS else p),
     w_entries = length es, w_unchained = count_legacy es\<rparr>"

lemma verify_entries_legacy:
  "filter chained es = [] \<Longrightarrow>
   verify_entries H org w es = Inr (w\<lparr>w_entries := w_entries w + length es, w_unchained := w_unchained w + length es\<rparr>)"
  by (induction es arbitrary: w) (auto simp: step_legacy split: if_splits)

lemma first_chained:
  assumes "filter chained es \<noteq> []"
  obtains xs e ys h where "es = xs @ e # ys" and "filter chained xs = []" and "a_entry_hash e = Some h"
proof -
  let ?d = "dropWhile (\<lambda>e. \<not> chained e) es"
  have "?d \<noteq> []" using assms by (auto simp: filter_empty_conv dropWhile_eq_Nil_conv)
  then obtain e ys where d: "?d = e # ys" by (cases ?d) auto
  have "chained e" using hd_dropWhile [OF \<open>?d \<noteq> []\<close>] d by simp
  then obtain h where h: "a_entry_hash e = Some h" by auto
  have "filter chained (takeWhile (\<lambda>e. \<not> chained e) es) = []"
    by (auto simp: filter_empty_conv dest: set_takeWhileD)
  moreover have "es = takeWhile (\<lambda>e. \<not> chained e) es @ e # ys"
    using d by (metis takeWhile_dropWhile_id)
  ultimately show thesis using that h by blast
qed

lemma verify_entries_start:
  assumes ne: "nonempty_hash H" and "p \<noteq> []" and "sha.chain H p (filter chained es)"
  shows "verify_entries H org start_walk es = Inr (walked H p es)"
proof (cases "filter chained es = []")
  case True
  then have "count_legacy es = length es"
    by (auto simp: count_legacy_def filter_empty_conv filter_id_conv)
  then show ?thesis using True
    by (simp add: verify_entries_legacy walked_def start_walk_def)
next
  case False
  then obtain xs e ys h where es: "es = xs @ e # ys" "filter chained xs = []" "a_entry_hash e = Some h"
    by (rule first_chained)
  let ?w = "start_walk\<lparr>w_entries := length xs, w_unchained := length xs\<rparr>"
  have "count_legacy xs = length xs" using es(2)
    by (auto simp: count_legacy_def filter_empty_conv filter_id_conv)
  moreover have "verify_entries H org start_walk xs = Inr ?w"
    using es(2) by (simp add: verify_entries_legacy start_walk_def)
  moreover have "a_prev_hash e = Some p" "h = digest H e p" "sha.chain H (digest H e p) (filter chained ys)"
    using assms(3) es by auto
  moreover have "verify_step H org ?w e =
      Inr (?w\<lparr>w_entries := w_entries ?w + 1, w_anchor := p, w_expected := Some (digest H e p)\<rparr>)"
    using calculation(3,4) es(3) assms(2) by (intro step_first) (auto simp: start_walk_def)
  ultimately show ?thesis
    using es verify_entries_chain [OF ne, where p = "digest H e p" and es = ys] digest_ne [OF ne]
    by (simp add: verify_entries_append walked_def start_walk_def count_legacy_def)
qed

lemma verify_entries_start_broken:
  assumes ne: "nonempty_hash H" and "\<And>p. p \<noteq> [] \<Longrightarrow> \<not> sha.chain H p (filter chained es)"
  shows "\<exists>s. verify_entries H org start_walk es = Inl s \<and> \<not> cs_intact s"
proof -
  have "filter chained es \<noteq> []" using assms(2) [of GENESIS] by auto
  then obtain xs e ys h where es: "es = xs @ e # ys" "filter chained xs = []" "a_entry_hash e = Some h"
    by (rule first_chained)
  let ?w = "start_walk\<lparr>w_entries := length xs, w_unchained := length xs\<rparr>"
  let ?p = "or_genesis (a_prev_hash e)"
  have pre: "verify_entries H org start_walk xs = Inr ?w"
    using es(2) by (simp add: verify_entries_legacy start_walk_def)
  show ?thesis
  proof (cases "a_prev_hash e = Some ?p \<and> h = digest H e ?p")
    case True
    then have "\<not> sha.chain H (digest H e ?p) (filter chained ys)"
      using assms(2) [of ?p] es by auto
    moreover have "verify_step H org ?w e =
        Inr (?w\<lparr>w_entries := w_entries ?w + 1, w_anchor := ?p, w_expected := Some (digest H e ?p)\<rparr>)"
      using True es(3) by (intro step_first) (auto simp: start_walk_def)
    ultimately show ?thesis
      using es pre verify_entries_broken [OF ne, where p = "digest H e ?p" and es = ys] digest_ne [OF ne]
      by (simp add: verify_entries_append)
  next
    case False
    then have "\<exists>s. verify_step H org ?w e = Inl s \<and> \<not> cs_intact s"
      using es(3) by (auto simp: verify_step_def Let_def broken_def start_walk_def)
    then show ?thesis using es pre by (auto simp: verify_entries_append)
  qed
qed


section \<open>Paging\<close>

text \<open>Reading in pages of \<open>verify_page\<close> rows visits every row once, in id order.\<close>

definition wf_log :: "audit_entry list \<Rightarrow> bool" where
  "wf_log rows \<longleftrightarrow> distinct (map a_id rows) \<and> list_all (\<lambda>e. a_id e > 0) rows"

lemma sorted_drop_take:
  fixes f :: "'a \<Rightarrow> int"
  assumes "sorted_wrt (<) (map f L)" and "take n L \<noteq> []"
  shows "filter (\<lambda>e. f e > f (last (take n L))) L = drop n L"
proof -
  let ?t = "take n L" and ?d = "drop n L"
  have L: "L = ?t @ ?d" by simp
  have "sorted_wrt (<) (map f ?t @ map f ?d)"
    using assms(1) L by (metis map_append)
  then have app: "sorted_wrt (<) (map f ?t)" "\<forall>x\<in>set ?t. \<forall>y\<in>set ?d. f x < f y"
    by (auto simp: sorted_wrt_append)
  have "\<forall>x\<in>set ?t. f x \<le> f (last ?t)"
    using app(1) by (cases ?t rule: rev_cases) (auto simp: sorted_wrt_append)
  then have "filter (\<lambda>e. f e > f (last ?t)) ?t = []" by (auto simp: filter_empty_conv)
  moreover have "filter (\<lambda>e. f e > f (last ?t)) ?d = ?d"
    using app(2) assms(2) last_in_set by (auto simp: filter_id_conv)
  ultimately show ?thesis by (metis L append_Nil filter_append)
qed

definition rows_after :: "audit_entry list \<Rightarrow> int \<Rightarrow> int \<Rightarrow> audit_entry list" where
  "rows_after rows org after = sort_key a_id (filter (\<lambda>e. a_org_id e = org \<and> a_id e > after) rows)"

lemma audit_read_rows_after: "audit_read rows org None None after n = take n (rows_after rows org after)"
  by (simp add: audit_read_def rows_after_def)

lemma rows_after_sorted:
  assumes "distinct (map a_id rows)"
  shows "sorted_wrt (<) (map a_id (rows_after rows org after))"
proof -
  have "distinct (map a_id (filter (\<lambda>e. a_org_id e = org \<and> a_id e > after) rows))"
    using assms by (rule distinct_map_filter)
  then have "distinct (map a_id (rows_after rows org after))"
    by (simp add: rows_after_def distinct_map)
  then show ?thesis by (simp add: rows_after_def strict_sorted_iff)
qed

lemma rows_after_next:
  assumes "distinct (map a_id rows)" and "take n (rows_after rows org after) \<noteq> []"
  shows "rows_after rows org (a_id (last (take n (rows_after rows org after)))) = drop n (rows_after rows org after)"
proof -
  let ?L = "rows_after rows org after" and ?i = "a_id (last (take n (rows_after rows org after)))"
  have "last (take n ?L) \<in> set ?L" using assms(2) by (meson in_set_takeD last_in_set)
  then have "after < ?i" by (simp add: rows_after_def)
  then have "filter (\<lambda>e. a_org_id e = org \<and> a_id e > ?i) rows =
      filter (\<lambda>e. a_id e > ?i) (filter (\<lambda>e. a_org_id e = org \<and> a_id e > after) rows)"
    by (auto intro!: filter_cong)
  then have "rows_after rows org ?i = filter (\<lambda>e. a_id e > ?i) ?L"
    by (simp add: rows_after_def filter_sort)
  also have "\<dots> = drop n ?L"
    by (rule sorted_drop_take [OF rows_after_sorted [OF assms(1)] assms(2)])
  finally show ?thesis .
qed

lemma verify_from_single_pass:
  assumes "distinct (map a_id rows)"
  shows "verify_from H rows org after w =
     (case verify_entries H org w (rows_after rows org after) of Inl s \<Rightarrow> s | Inr w' \<Rightarrow> verified org w')"
  using assms
proof (induction H rows org after w rule: verify_from.induct)
  case (1 H rows org after w)
  let ?L = "rows_after rows org after"
  let ?page = "take verify_page ?L"
  show ?case
  proof (cases "?page = []")
    case True
    then have "?L = []" by (simp add: verify_page_def)
    then show ?thesis
      by (simp add: verify_from.simps [of H rows] audit_read_rows_after)
  next
    case False
    have "verify_entries H org w ?L =
        (case verify_entries H org w ?page of Inl s \<Rightarrow> Inl s
         | Inr w' \<Rightarrow> verify_entries H org w' (rows_after rows org (a_id (last ?page))))"
      using verify_entries_append [of H org w ?page "drop verify_page ?L"]
      by (simp only: append_take_drop_id rows_after_next [OF 1(2) False])
    moreover note 1(1) [OF refl, unfolded audit_read_rows_after, OF False _ 1(2)]
    ultimately show ?thesis using False
      by (simp add: verify_from.simps [of H rows org after] audit_read_rows_after Let_def split: sum.split)
  qed
qed


section \<open>The log as a chain\<close>

text \<open>Chained entries of an org in id order, linked from \<open>p\<close>.\<close>

definition org_chain :: "int \<Rightarrow> audit_entry list \<Rightarrow> audit_entry list" where
  "org_chain org rows = filter chained (org_rows org rows)"

lemma rows_after_zero: "wf_log rows \<Longrightarrow> rows_after rows org 0 = org_rows org rows"
  unfolding rows_after_def org_rows_def wf_log_def
  by (rule arg_cong [where f = "sort_key a_id"]) (auto simp: list_all_iff intro!: filter_cong)

lemma audit_verify_single_pass:
  assumes "wf_log rows"
  shows "audit_verify H rows org =
     (case verify_entries H org start_walk (org_rows org rows) of Inl s \<Rightarrow> s | Inr w' \<Rightarrow> verified org w')"
  using assms
  by (simp add: audit_verify_def verify_from_single_pass rows_after_zero [OF assms, symmetric] wf_log_def)

lemma audit_verify_chain:
  assumes "wf_log rows" and "nonempty_hash H" and "p \<noteq> []" and "sha.chain H p (org_chain org rows)"
  shows "audit_verify H rows org = verified org (walked H p (org_rows org rows))"
  using assms by (simp add: audit_verify_single_pass verify_entries_start org_chain_def)

lemma intact_chain:
  assumes "wf_log rows" and ne: "nonempty_hash H"
  shows "cs_intact (audit_verify H rows org) \<longleftrightarrow> (\<exists>p. p \<noteq> [] \<and> sha.chain H p (org_chain org rows))"
proof (cases "\<exists>p. p \<noteq> [] \<and> sha.chain H p (org_chain org rows)")
  case True
  then show ?thesis using audit_verify_chain [OF assms] by (auto simp: verified_def)
next
  case False
  then obtain s where "verify_entries H org start_walk (org_rows org rows) = Inl s" "\<not> cs_intact s"
    using verify_entries_start_broken [where H = H and es = "org_rows org rows" and org = org, OF ne]
    by (auto simp: org_chain_def)
  then show ?thesis using False by (simp add: audit_verify_single_pass [OF assms(1)])
qed

text \<open>A row appended with a fresh identity goes to the end of its org's rows.\<close>

lemma next_audit_id_gt: "e \<in> set rows \<Longrightarrow> a_id e < next_audit_id rows"
  by (auto simp: next_audit_id_def intro!: zless_add1_eq [THEN iffD2] order.strict_iff_order [THEN iffD2] le_imp_less_or_eq)

lemma next_audit_id_pos: "wf_log rows \<Longrightarrow> next_audit_id rows > 0"
proof (cases rows)
  case (Cons r rs)
  assume "wf_log rows"
  then have "0 < a_id r" using Cons by (simp add: wf_log_def)
  also have "a_id r < next_audit_id rows" by (rule next_audit_id_gt) (simp add: Cons)
  finally show ?thesis .
qed (simp add: next_audit_id_def)

lemma org_rows_snoc:
  assumes "a_id e = next_audit_id rows"
  shows "org_rows org (rows @ [e]) = (if a_org_id e = org then org_rows org rows @ [e] else org_rows org rows)"
proof -
  have "sort_key a_id (xs @ [e]) = sort_key a_id xs @ [e]" if "set xs \<subseteq> set rows" for xs
  proof (rule properties_for_sort_key)
    show "sorted (map a_id (sort_key a_id xs @ [e]))"
      using that next_audit_id_gt [of _ rows] assms by (fastforce simp: sorted_append)
    show "filter (\<lambda>x. a_id k = a_id x) (sort_key a_id xs @ [e]) = filter (\<lambda>x. a_id k = a_id x) (xs @ [e])"
      if "k \<in> set (sort_key a_id xs @ [e])" for k
      using sort_key_stable [of a_id "a_id k" xs] by (simp add: eq_commute)
  qed simp
  then show ?thesis by (simp add: org_rows_def)
qed

lemma wf_log_snoc: "wf_log rows \<Longrightarrow> a_id e = next_audit_id rows \<Longrightarrow> wf_log (rows @ [e])"
  using next_audit_id_gt [of _ rows] next_audit_id_pos [of rows]
  by (fastforce simp: wf_log_def)

definition legacy_first :: "audit_entry list \<Rightarrow> bool" where
  "legacy_first es \<longleftrightarrow> list_all chained (dropWhile (\<lambda>e. \<not> chained e) es)"

lemma legacy_first_last:
  assumes "legacy_first es" and "filter chained es \<noteq> []"
  shows "last es = last (filter chained es)"
proof -
  let ?t = "takeWhile (\<lambda>e. \<not> chained e) es" and ?d = "dropWhile (\<lambda>e. \<not> chained e) es"
  have es: "es = ?t @ ?d" by simp
  have "filter chained ?t = []" by (auto simp: filter_empty_conv dest: set_takeWhileD)
  moreover have "filter chained ?d = ?d"
    using assms(1) by (simp add: legacy_first_def list_all_iff filter_id_conv)
  ultimately have f: "filter chained es = ?d" by (metis append_Nil es filter_append)
  then have "?d \<noteq> []" using assms(2) by simp
  then show ?thesis using f es by (metis last_appendR)
qed

lemma lock_head_chain:
  assumes "nonempty_hash H" and "p \<noteq> []" and "sha.chain H p (org_chain org rows)" and "legacy_first (org_rows org rows)"
  shows "lock_head rows org = (if org_chain org rows = [] then GENESIS else sha.head_of H p (org_chain org rows))"
proof (cases "org_chain org rows = []")
  case True
  then have "a_entry_hash e = None" if "e \<in> set (org_rows org rows)" for e
    using that by (auto simp: org_chain_def filter_empty_conv)
  then have "rev (org_rows org rows) = e # es \<Longrightarrow> a_entry_hash e = None" for e es
    by (metis list.set_intros(1) set_rev)
  then show ?thesis using True
    by (auto simp: lock_head_def truthy_str_def split: list.split)
next
  case False
  then have "org_rows org rows \<noteq> []" by (auto simp: org_chain_def)
  then obtain es e where es: "org_rows org rows = es @ [e]" by (cases "org_rows org rows" rule: rev_cases) auto
  have "e = last (org_chain org rows)"
    using legacy_first_last [OF assms(4)] False es by (simp add: org_chain_def)
  then have h: "a_entry_hash e = Some (sha.head_of H p (org_chain org rows))"
    using sha.chain_last [OF assms(3) False] by simp
  have "sha.head_of H p (org_chain org rows) \<noteq> []"
    using False digest_ne [OF assms(1)]
    by (cases "org_chain org rows" rule: rev_cases) (auto simp: sha.head_of_snoc)
  then have "(case truthy_str (a_entry_hash e) of None \<Rightarrow> GENESIS | Some h \<Rightarrow> h) = sha.head_of H p (org_chain org rows)"
    using h or_genesis_Some by (simp add: or_genesis_def)
  then show ?thesis using es False by (simp add: lock_head_def)
qed

lemma audit_append_cases:
  assumes "audit_append H pr origin now req rows = Inr (e, rows')"
  shows "rows' = rows @ [e]" and "a_id e = next_audit_id rows"
    and "a_prev_hash e = Some (lock_head rows (a_org_id e))"
    and "a_entry_hash e = Some (digest H e (lock_head rows (a_org_id e)))"
    and "a_action e = ar_action req" and "a_org_id e \<noteq> 0"
  using assms
  by (auto simp: audit_append_def Let_def digest_def audit_payload_def split: option.splits if_splits)

lemma append_chain:
  assumes ne: "nonempty_hash H" and "wf_log rows" and "legacy_first (org_rows (a_org_id e) rows)"
    and "p \<noteq> []" and "sha.chain H p (org_chain (a_org_id e) rows)"
    and "audit_append H pr origin now req rows = Inr (e, rows')"
  shows "\<exists>q. q \<noteq> [] \<and> sha.chain H q (org_chain (a_org_id e) rows')"
proof -
  note app = audit_append_cases [OF assms(6)]
  have oc: "org_chain (a_org_id e) rows' = org_chain (a_org_id e) rows @ [e]"
    using app by (simp add: org_chain_def org_rows_snoc)
  have head: "lock_head rows (a_org_id e) =
      (if org_chain (a_org_id e) rows = [] then GENESIS else sha.head_of H p (org_chain (a_org_id e) rows))"
    by (rule lock_head_chain [OF ne assms(4,5,3)])
  show ?thesis
  proof (cases "org_chain (a_org_id e) rows = []")
    case True
    then have "sha.chain H GENESIS (org_chain (a_org_id e) rows')"
      using head oc app by simp
    then show ?thesis by (meson GENESIS_ne)
  next
    case False
    then have "sha.chain H p (org_chain (a_org_id e) rows')"
      using head oc app assms(5) by (simp add: sha.chain_append)
    then show ?thesis using assms(4) by blast
  qed
qed

lemma legacy_first_snoc: "legacy_first es \<Longrightarrow> chained e \<Longrightarrow> legacy_first (es @ [e])"
  by (auto simp: legacy_first_def list_all_iff dropWhile_append)

lemma verify_other_org:
  assumes "wf_log rows" and "wf_log rows'" and "org_rows org rows' = org_rows org rows"
  shows "audit_verify H rows' org = audit_verify H rows org"
  using assms by (simp add: audit_verify_single_pass)

lemma intact_counts:
  assumes "wf_log rows" and "nonempty_hash H" and "cs_intact (audit_verify H rows org)"
  shows "cs_entries (audit_verify H rows org) = length (org_rows org rows) \<and>
     cs_unchained (audit_verify H rows org) = count_legacy (org_rows org rows)"
proof -
  obtain p where "p \<noteq> []" "sha.chain H p (org_chain org rows)"
    using assms(3) intact_chain [OF assms(1,2)] by blast
  from audit_verify_chain [OF assms(1,2) this] show ?thesis
    by (simp add: verified_def walked_def)
qed

text \<open>
  C3.  Appending an audit entry to an org whose log verifies (with any legacy rows first) keeps it
  verifying: the new entry is the last of the log, exactly one more entry is counted, no legacy entry
  is added, the earlier rows are untouched, and no other org's verification changes.
\<close>

theorem append_extends_chain:
  assumes "wf_log rows" and ne: "nonempty_hash H"
    and "legacy_first (org_rows org rows)" and "cs_intact (audit_verify H rows org)"
    and "audit_append H pr origin now req rows = Inr (e, rows')" and "a_org_id e = org"
  shows "rows' = rows @ [e] \<and> wf_log rows' \<and> legacy_first (org_rows org rows') \<and>
     cs_intact (audit_verify H rows' org) \<and>
     cs_entries (audit_verify H rows' org) = cs_entries (audit_verify H rows org) + 1 \<and>
     cs_unchained (audit_verify H rows' org) = cs_unchained (audit_verify H rows org) \<and>
     (\<forall>org'. org' \<noteq> org \<longrightarrow> audit_verify H rows' org' = audit_verify H rows org')"
proof -
  note app = audit_append_cases [OF assms(5)]
  have wf: "wf_log rows'" using wf_log_snoc [OF assms(1)] app by simp
  have rows: "org_rows org rows' = org_rows org rows @ [e]"
    using app assms(6) by (simp add: org_rows_snoc)
  obtain p where "p \<noteq> []" "sha.chain H p (org_chain org rows)"
    using assms(4) intact_chain [OF assms(1) ne] by blast
  then have "\<exists>q. q \<noteq> [] \<and> sha.chain H q (org_chain org rows')"
    using append_chain [OF ne assms(1) _ _ _ assms(5)] assms(3,6) by simp
  then have intact: "cs_intact (audit_verify H rows' org)"
    using intact_chain [OF wf ne] by blast
  have "audit_verify H rows' org' = audit_verify H rows org'" if "org' \<noteq> org" for org'
    using that app assms(6) by (intro verify_other_org [OF assms(1) wf]) (simp add: org_rows_snoc)
  moreover have "legacy_first (org_rows org rows')"
    using rows legacy_first_snoc assms(3) app by simp
  moreover have "count_legacy (org_rows org rows') = count_legacy (org_rows org rows)"
    using rows app by (simp add: count_legacy_def)
  ultimately show ?thesis
    using app wf intact rows intact_counts [OF assms(1) ne assms(4)] intact_counts [OF wf ne intact] by simp
qed

text \<open>
  C4.  Verification, read in pages of 500, accepts exactly the logs whose chained entries are linked:
  each names the digest of the one before it and carries its own.  For an accepted log the status counts
  every row, the legacy rows, and reports where the chain starts.
\<close>

theorem audit_verify_correct:
  assumes "wf_log rows" and "nonempty_hash H"
  shows "(cs_intact (audit_verify H rows org) \<longleftrightarrow> (\<exists>p. p \<noteq> [] \<and> sha.chain H p (org_chain org rows))) \<and>
     (\<forall>p. p \<noteq> [] \<longrightarrow> sha.chain H p (org_chain org rows) \<longrightarrow>
        audit_verify H rows org = \<lparr>cs_org_id = org, cs_entries = length (org_rows org rows),
          cs_unchained = count_legacy (org_rows org rows), cs_intact = True, cs_broken_at = None,
          cs_detail = NoDetail, cs_anchor_prev = (if org_chain org rows = [] then GENESIS else p)\<rparr>)"
  using intact_chain [OF assms] audit_verify_chain [OF assms]
  by (simp add: verified_def walked_def org_chain_def)


section \<open>Tamper evidence\<close>

lemma audit_payload_sorted:
  "audit_payload e prev = JObj [
     (''action'', JStr (a_action e)),
     (''actor_id'', opt_int (a_actor_id e)),
     (''actor_kind'', JStr (actor_kind_value (a_actor_kind e))),
     (''created_at'', JInt (a_created_at e)),
     (''ip'', opt_str (truthy_str (a_ip e))),
     (''metadata'', canon_json (JObj (a_metadata e))),
     (''org_id'', JInt (a_org_id e)),
     (''prev_hash'', JStr prev),
     (''target_id'', opt_int (a_target_id e)),
     (''target_type'', opt_str (a_target_type e)),
     (''user_agent'', opt_str (a_user_agent e))]"
proof -
  have leaf [simp]: "canon_json (opt_int i) = opt_int i" "canon_json (opt_str x) = opt_str x" for i x
    by (simp_all add: opt_int_def opt_str_def split: option.split)
  show ?thesis
    unfolding audit_payload_def
    by (subst canon_json.simps(2)) (simp del: canon_json.simps(2))
qed

definition recorded :: "audit_entry list \<Rightarrow> json list" where
  "recorded es = map (\<lambda>e. audit_payload e (the (a_prev_hash e))) es"

text \<open>
  What SHA-256 is relied on for: no two of the payloads in question collide, and none hashes to the
  genesis value.
\<close>

definition collision_free :: "(json \<Rightarrow> string) \<Rightarrow> json set \<Rightarrow> bool" where
  "collision_free H S \<longleftrightarrow> inj_on H S \<and> (\<forall>x\<in>S. H x \<noteq> GENESIS)"

lemma payload_prev: "audit_payload a p = audit_payload b q \<Longrightarrow> p = q"
  by (simp add: audit_payload_sorted)

text \<open>What an entry says happened, and the entry it follows.\<close>

definition event_of :: "audit_entry \<Rightarrow> int \<times> actor_kind \<times> int option \<times> string \<times> string option \<times> int option
    \<times> json \<times> string option \<times> string option \<times> time \<times> string" where
  "event_of e = (a_org_id e, a_actor_kind e, a_actor_id e, a_action e, a_target_type e, a_target_id e,
     canon_json (JObj (a_metadata e)), truthy_str (a_ip e), truthy_str (a_user_agent e), a_created_at e, the (a_prev_hash e))"

lemma opt_int_inj [simp]: "opt_int a = opt_int b \<longleftrightarrow> a = b"
  by (auto simp: opt_int_def split: option.splits)

lemma opt_str_inj [simp]: "opt_str a = opt_str b \<longleftrightarrow> a = b"
  by (auto simp: opt_str_def split: option.splits)

lemma actor_kind_value_inj [simp]: "actor_kind_value a = actor_kind_value b \<longleftrightarrow> a = b"
  by (cases a; cases b) auto

lemma payload_event:
  assumes "audit_payload a p = audit_payload b q"
  shows "(a_org_id a, a_actor_kind a, a_actor_id a, a_action a, a_target_type a, a_target_id a,
      canon_json (JObj (a_metadata a)), truthy_str (a_ip a), truthy_str (a_user_agent a), a_created_at a, p) =
    (a_org_id b, a_actor_kind b, a_actor_id b, a_action b, a_target_type b, a_target_id b,
      canon_json (JObj (a_metadata b)), truthy_str (a_ip b), truthy_str (a_user_agent b), a_created_at b, q)"
  using assms unfolding audit_payload_sorted
  by (simp only: json.inject list.inject prod.inject opt_int_inj opt_str_inj actor_kind_value_inj simp_thms)

lemma recorded_events:
  assumes "recorded xs = recorded ys"
  shows "map event_of xs = map event_of ys"
proof (rule nth_equalityI)
  show len: "length (map event_of xs) = length (map event_of ys)"
    using arg_cong [OF assms, of length] by (simp add: recorded_def)
  fix i
  assume i: "i < length (map event_of xs)"
  then have "recorded xs ! i = recorded ys ! i" using assms by simp
  then have "audit_payload (xs ! i) (the (a_prev_hash (xs ! i))) = audit_payload (ys ! i) (the (a_prev_hash (ys ! i)))"
    using i len by (simp add: recorded_def)
  from payload_event [OF this] show "map event_of xs ! i = map event_of ys ! i"
    using i len unfolding event_of_def by (simp only: nth_map length_map)
qed

lemma digest_inj:
  assumes "collision_free H S" and "audit_payload a p \<in> S" and "audit_payload b q \<in> S"
    and "digest H a p = digest H b q"
  shows "audit_payload a p = audit_payload b q \<and> p = q"
proof -
  have "audit_payload a p = audit_payload b q"
    using assms by (auto simp: digest_def collision_free_def dest: inj_onD)
  then show ?thesis using payload_prev by blast
qed

lemma intact_anchor:
  assumes "wf_log rows" and "nonempty_hash H" and "cs_intact (audit_verify H rows org)"
    and "cs_anchor_prev (audit_verify H rows org) = GENESIS"
  shows "sha.chain H GENESIS (org_chain org rows)"
proof -
  obtain p where p: "p \<noteq> []" "sha.chain H p (org_chain org rows)"
    using assms(3) intact_chain [OF assms(1,2)] by blast
  from audit_verify_chain [OF assms(1,2) this] assms(4)
  have "org_chain org rows = [] \<or> p = GENESIS"
    by (auto simp: verified_def walked_def org_chain_def split: if_splits)
  then show ?thesis using p by auto
qed

text \<open>
  C2.  Tamper evidence.  With no collision among the payloads recorded, two versions of an org's log that both verify
  from the genesis anchor and end in the same head hash record the same sequence of events: the same
  actors, actions, targets, metadata, origins and instants, in the same order.
\<close>

theorem audit_tamper_evident:
  assumes "collision_free H (set (recorded (org_chain org rows)) \<union> set (recorded (org_chain org rows')))"
    and "nonempty_hash H"
    and "wf_log rows" and "wf_log rows'"
    and "legacy_first (org_rows org rows)" and "legacy_first (org_rows org rows')"
    and "cs_intact (audit_verify H rows org)" and "cs_intact (audit_verify H rows' org)"
    and "cs_anchor_prev (audit_verify H rows org) = GENESIS"
    and "cs_anchor_prev (audit_verify H rows' org) = GENESIS"
    and "lock_head rows org = lock_head rows' org"
  shows "map event_of (org_chain org rows) = map event_of (org_chain org rows')"
proof (rule recorded_events)
  have c: "sha.chain H GENESIS (org_chain org rows)" "sha.chain H GENESIS (org_chain org rows')"
    using assms intact_anchor by blast+
  have head: "lock_head r org = sha.head_of H GENESIS (org_chain org r)"
    if "sha.chain H GENESIS (org_chain org r)" "legacy_first (org_rows org r)" for r
    using lock_head_chain [OF assms(2) GENESIS_ne that] by auto
  have "sha.head_of H GENESIS (org_chain org rows) = sha.head_of H GENESIS (org_chain org rows')"
    using head [OF c(1) assms(5)] head [OF c(2) assms(6)] assms(11) by simp
  note head = this
  let ?S = "set (recorded (org_chain org rows)) \<union> set (recorded (org_chain org rows'))"
  have rec: "recorded (org_chain org rows) = sha.contents H GENESIS (org_chain org rows)"
      "recorded (org_chain org rows') = sha.contents H GENESIS (org_chain org rows')"
    using c by (simp_all add: sha.chain_contents recorded_def)
  have "sha.contents H GENESIS (org_chain org rows) = sha.contents H GENESIS (org_chain org rows')"
  proof (rule sha.head_determines_contents [where S = ?S, OF digest_inj [OF assms(1)]])
    show "digest H a p \<noteq> GENESIS" if "audit_payload a p \<in> ?S" for a p
      using that assms(1) unfolding digest_def collision_free_def by blast
  qed (use rec head in auto)
  then show "recorded (org_chain org rows) = recorded (org_chain org rows')" using rec by simp
qed


section \<open>Retention\<close>

lemma purge_before_rows:
  "org_rows org' (snd (purge_before rows org cutoff)) =
     (if org' = org then filter (\<lambda>e. \<not> a_created_at e < cutoff) (org_rows org rows) else org_rows org' rows)"
proof -
  have "filter (\<lambda>e. a_org_id e = org') (filter (\<lambda>e. \<not> (a_org_id e = org \<and> a_created_at e < cutoff)) rows) =
      (if org' = org then filter (\<lambda>e. \<not> a_created_at e < cutoff) (filter (\<lambda>e. a_org_id e = org) rows)
       else filter (\<lambda>e. a_org_id e = org') rows)"
    by (auto intro!: filter_cong)
  then show ?thesis by (simp add: purge_before_def org_rows_def filter_sort)
qed

lemma purge_before_wf: "wf_log rows \<Longrightarrow> wf_log (snd (purge_before rows org cutoff))"
  by (auto simp: wf_log_def purge_before_def distinct_map_filter list_all_iff)

lemma sorted_filter_ge:
  "sorted (map f es) \<Longrightarrow> filter (\<lambda>e. \<not> f e < c) es = dropWhile (\<lambda>e. f e < c) es"
  for f :: "'a \<Rightarrow> int"
proof (induction es)
  case (Cons e es)
  show ?case
  proof (cases "f e < c")
    case False
    then have "filter (\<lambda>e. \<not> f e < c) es = es"
      using Cons.prems by (fastforce simp: filter_id_conv)
    then show ?thesis using False by simp
  qed (use Cons in simp)
qed simp

lemma legacy_first_dropWhile: "legacy_first es \<Longrightarrow> legacy_first (dropWhile P es)"
proof (induction es)
  case (Cons e es)
  show ?case
  proof (cases "P e")
    case True
    have "legacy_first es"
      using Cons.prems by (cases "chained e") (auto simp: legacy_first_def list_all_iff dest: set_dropWhileD)
    then show ?thesis using True Cons.IH by simp
  next
    case False
    then show ?thesis using Cons.prems by simp
  qed
qed simp

lemma filter_dropWhile_suffix: "\<exists>xs. filter Q es = xs @ filter Q (dropWhile P es)"
proof -
  have "filter Q es = filter Q (takeWhile P es) @ filter Q (dropWhile P es)"
    by (metis filter_append takeWhile_dropWhile_id)
  then show ?thesis by blast
qed

lemma head_of_ne: "nonempty_hash H \<Longrightarrow> p \<noteq> [] \<Longrightarrow> sha.head_of H p xs \<noteq> []"
  by (cases xs rule: rev_cases) (auto simp: sha.head_of_snoc digest_ne)

lemma purge_before_intact:
  assumes "wf_log rows" and "nonempty_hash H" and "cs_intact (audit_verify H rows org)"
    and "sorted (map a_created_at (org_rows org rows))"
  shows "cs_intact (audit_verify H (snd (purge_before rows org cutoff)) org)"
proof -
  let ?rows = "snd (purge_before rows org cutoff)"
  obtain p where p: "p \<noteq> []" "sha.chain H p (org_chain org rows)"
    using assms(3) intact_chain [OF assms(1,2)] by blast
  have "org_chain org ?rows = filter chained (dropWhile (\<lambda>e. a_created_at e < cutoff) (org_rows org rows))"
    by (simp add: org_chain_def purge_before_rows sorted_filter_ge [OF assms(4)])
  then obtain xs where xs: "org_chain org rows = xs @ org_chain org ?rows"
    using filter_dropWhile_suffix [of chained "org_rows org rows" "\<lambda>e. a_created_at e < cutoff"]
    by (auto simp: org_chain_def)
  then have "sha.chain H (sha.head_of H p xs) (org_chain org ?rows)"
    using p(2) by (simp add: sha.chain_append)
  then show ?thesis
    using intact_chain [OF purge_before_wf [OF assms(1)] assms(2)] head_of_ne [OF assms(2) p(1)] by blast
qed

lemma purge_before_count:
  "fst (purge_before rows org cutoff) + length (org_rows org (snd (purge_before rows org cutoff))) =
     length (org_rows org rows)"
proof -
  let ?f = "filter (\<lambda>e. a_org_id e = org) rows"
  have "filter (\<lambda>e. a_org_id e = org \<and> a_created_at e < cutoff) rows = filter (\<lambda>e. a_created_at e < cutoff) ?f"
    by simp
  then show ?thesis
    using sum_length_filter_compl [of "\<lambda>e. a_created_at e < cutoff" ?f]
    by (simp add: purge_before_rows) (simp add: purge_before_def org_rows_def filter_sort)
qed



section \<open>Concrete logs\<close>

text \<open>A digest that reads only the instant, enough to tell the entries below apart.\<close>

definition stamp_hash :: "json \<Rightarrow> string" where
  "stamp_hash j = CHR ''h'' # (case j of
      JObj kvs \<Rightarrow> (case map_of kvs ''created_at'' of Some (JInt i) \<Rightarrow> show_int i | _ \<Rightarrow> [])
    | _ \<Rightarrow> [])"

definition login_request :: "int \<Rightarrow> audit_request" where
  "login_request org = \<lparr>ar_actor_kind = USER, ar_actor_id = Some 7, ar_action = audit_action_value LOGIN,
     ar_target_type = None, ar_target_id = None, ar_metadata = [], ar_ip = Some ''10.0.0.1'',
     ar_user_agent = None, ar_org_id = Some org\<rparr>"

definition log_at :: "time list \<Rightarrow> audit_entry list" where
  "log_at ts = fold (\<lambda>t rows. case audit_append stamp_hash None (None, None) t (login_request 1) rows of
      Inl _ \<Rightarrow> rows | Inr (_, rows') \<Rightarrow> rows') ts []"

lemma stamp_hash_nonempty: "nonempty_hash stamp_hash"
  by (simp add: nonempty_hash_def stamp_hash_def)

text \<open>
  When an earlier instant follows a later one in id order, the purge removes a row from the middle of
  the chain and what remains no longer verifies, although nobody tampered with it.
\<close>

lemma purge_breaks_unordered_log:
  "cs_intact (audit_verify stamp_hash (log_at [10, 5, 20]) 1) \<and>
   \<not> cs_intact (audit_verify stamp_hash (snd (purge_before (log_at [10, 5, 20]) 1 8)) 1)"
  by code_simp

lemma log_at_wf: "wf_log (log_at [10, 20, 30]) \<and> legacy_first (org_rows 1 (log_at [10, 20, 30])) \<and>
   cs_intact (audit_verify stamp_hash (log_at [10, 20, 30]) 1) \<and>
   sorted (map a_created_at (org_rows 1 (log_at [10, 20, 30])))"
  by code_simp

definition renumber :: "audit_entry list \<Rightarrow> audit_entry list" where
  "renumber rows = map (\<lambda>e. e\<lparr>a_id := 2 * a_id e\<rparr>) rows"

lemma append_extends_chain_witness:
  "\<exists>e rows'. audit_append stamp_hash None (None, None) 40 (login_request 1) (log_at [10, 20, 30]) = Inr (e, rows') \<and>
     cs_intact (audit_verify stamp_hash rows' 1) \<and> cs_entries (audit_verify stamp_hash rows' 1) = 4"
proof -
  obtain e rows' where app:
      "audit_append stamp_hash None (None, None) 40 (login_request 1) (log_at [10, 20, 30]) = Inr (e, rows')"
    and org: "a_org_id e = 1"
    by (auto simp: audit_append_def Let_def login_request_def)
  have n: "cs_entries (audit_verify stamp_hash (log_at [10, 20, 30]) 1) = 3" by code_simp
  show ?thesis
    using append_extends_chain [OF _ stamp_hash_nonempty _ _ app org] log_at_wf app n by auto
qed

lemma audit_verify_correct_witness:
  "wf_log (log_at [10, 20, 30]) \<and> nonempty_hash stamp_hash \<and>
   (\<exists>p. p \<noteq> [] \<and> sha.chain stamp_hash p (org_chain 1 (log_at [10, 20, 30])))"
  using audit_verify_correct [OF _ stamp_hash_nonempty, of "log_at [10, 20, 30]" 1] log_at_wf stamp_hash_nonempty
  by blast

lemma audit_tamper_evident_witness:
  "map event_of (org_chain 1 (log_at [10, 20, 30])) = map event_of (org_chain 1 (renumber (log_at [10, 20, 30])))"
proof (rule audit_tamper_evident [where H = stamp_hash])
  show "collision_free stamp_hash (set (recorded (org_chain 1 (log_at [10, 20, 30]))) \<union>
      set (recorded (org_chain 1 (renumber (log_at [10, 20, 30])))))"
    unfolding collision_free_def inj_on_def by code_simp
  show "nonempty_hash stamp_hash" by (rule stamp_hash_nonempty)
qed (use log_at_wf in blast | code_simp)+


end
