(* ===== verification/Memory_Store.thy ===== *)
theory Memory_Store
  imports Access_Control Decay_Policy Ranking Governance Audit_Chain
begin

text \<open>
  The tables and the repositories over them: \<^verbatim>\<open>models/memory.py\<close>, \<^verbatim>\<open>repositories/base.py\<close>,
  \<^verbatim>\<open>repositories/memory_repo.py\<close>, \<^verbatim>\<open>repositories/memory_link_repo.py\<close>, the lookups of
  \<^verbatim>\<open>org_repo.py\<close> and \<^verbatim>\<open>project_repo.py\<close> the write path makes, and \<^verbatim>\<open>retrieval/text_search.py\<close>.

  A table is the list of its rows in id order.  A SELECT is a filter over that list; where the code
  orders by a column that is not unique the model breaks ties by row order.  What Postgres computes
  from a text or a vector (the pgvector distance, full-text matching and ranking) is the record
  \<open>pg_engine\<close> of parameters.  \<open>updated_at\<close>, which the database maintains and no modelled code reads,
  is left out, and the generated \<open>tsv\<close> column is what the engine computes from its row.
\<close>

section \<open>Definitions\<close>

subsection \<open>Rows\<close>

record memory =
  m_id :: int
  m_public_id :: string
  m_org_id :: int
  m_scope_type :: scope_type
  m_scope_id :: int
  m_created_by :: "int option"
  m_source_type :: memory_source
  m_source_ref :: "(string \<times> json) list option"
  m_kind :: memory_kind
  m_title :: string
  m_body :: string
  m_tier :: memory_tier
  m_sensitivity :: sensitivity
  m_importance :: real
  m_pinned :: bool
  m_access_count :: nat
  m_last_accessed_at :: "time option"
  m_decay_score :: real
  m_embedding :: "real list option"
  m_embedding_model :: "string option"
  m_ts_config :: string
  m_trust :: memory_trust
  m_pii_flags :: "(string \<times> nat) list"
  m_review_status :: review_status
  m_review_reason :: "string option"
  m_reviewed_at :: "time option"
  m_reviewed_by :: "int option"
  m_confidence :: "real option"
  m_content_hash :: "string option"
  m_conflict_checked_at :: "time option"
  m_embed_attempts :: nat
  m_embed_error :: "string option"
  m_embed_failed_at :: "time option"
  m_embed_next_attempt_at :: "time option"
  m_metadata :: "(string \<times> json) list"
  m_expires_at :: "time option"
  m_created_at :: time
  m_deleted_at :: "time option"

definition embedding_state :: "memory \<Rightarrow> string" where
  "embedding_state m =
     (if m_embedding m \<noteq> None then ''ok''
      else if m_embed_failed_at m \<noteq> None then ''failed'' else ''pending'')"

record memory_link =
  l_from :: int
  l_to :: int
  l_type :: memory_link_type
  l_weight :: real
  l_created_at :: time

record project =
  pr_id :: int
  pr_public_id :: string
  pr_org_id :: int
  pr_workspace_id :: int
  pr_slug :: string
  pr_name :: string
  pr_text_search_config :: string
  pr_review_mode :: review_mode
  pr_deleted_at :: "time option"

record org_row =
  o_id :: int
  o_public_id :: string
  o_slug :: string
  o_name :: string
  o_plan :: string
  o_settings :: "(string \<times> json) list"
  o_deleted_at :: "time option"

record workspace =
  ws_id :: int
  ws_public_id :: string
  ws_org_id :: int
  ws_slug :: string
  ws_name :: string
  ws_deleted_at :: "time option"

record db =
  memories :: "memory list"
  links :: "memory_link list"
  orgs :: "org_row list"
  workspaces :: "workspace list"
  projects :: "project list"
  audit_rows :: "audit_entry list"
  next_memory_id :: int
  next_org_id :: int
  next_workspace_id :: int
  next_project_id :: int

record scope_filter =
  sf_type :: scope_type
  sf_id :: int

record pg_engine =
  vector_distance :: "real list \<Rightarrow> real list \<Rightarrow> real"
  ts_matches :: "string \<Rightarrow> string \<Rightarrow> string \<Rightarrow> string \<Rightarrow> bool"
  jsonb_text :: "json \<Rightarrow> string"
  ts_rank_cd :: "string \<Rightarrow> string \<Rightarrow> string \<Rightarrow> string \<Rightarrow> real"

text \<open>The text the generated \<open>tsv\<close> column analyses under the row's configuration.\<close>

definition tsv_text :: "memory \<Rightarrow> string" where
  "tsv_text m = m_title m @ '' '' @ m_body m"

subsection \<open>Base repository\<close>

definition tenant_rows :: "('a \<Rightarrow> int) \<Rightarrow> principal \<Rightarrow> 'a list \<Rightarrow> 'a list" where
  "tenant_rows org_of p rows =
     (if is_superuser p then rows else filter (\<lambda>r. org_of r = p_org_id p) rows)"

abbreviation tenant_query :: "principal \<Rightarrow> memory list \<Rightarrow> memory list" where
  "tenant_query \<equiv> tenant_rows m_org_id"

definition assert_same_org :: "principal \<Rightarrow> int \<Rightarrow> unit result" where
  "assert_same_org p org =
     (if is_superuser p then Inr ()
      else if org \<noteq> p_org_id p
      then Inl (TenantViolationError (''principal org='' @ show_int (p_org_id p) @ '' cannot access org='' @ show_int org))
      else Inr ())"

text \<open>\<open>scalar_one_or_none\<close> on a unique key, and \<open>LIMIT 1\<close>.\<close>

definition first_row :: "'a list \<Rightarrow> 'a option" where
  "first_row rows = (case rows of [] \<Rightarrow> None | r # _ \<Rightarrow> Some r)"

abbreviation live :: "memory \<Rightarrow> bool" where
  "live m \<equiv> m_deleted_at m = None"

text \<open>An UPDATE of the rows a predicate selects; a flushed object is the row with its id.\<close>

definition update_where :: "(memory \<Rightarrow> bool) \<Rightarrow> (memory \<Rightarrow> memory) \<Rightarrow> db \<Rightarrow> db" where
  "update_where P f d = d\<lparr>memories := map (\<lambda>m. if P m then f m else m) (memories d)\<rparr>"

definition save :: "memory \<Rightarrow> (memory \<Rightarrow> memory) \<Rightarrow> db \<Rightarrow> memory \<times> db" where
  "save m f d = (f m, update_where (\<lambda>r. m_id r = m_id m) f d)"

subsection \<open>Writes\<close>

record create_args =
  ca_scope_type :: scope_type
  ca_scope_id :: int
  ca_body :: string
  ca_title :: string
  ca_kind :: memory_kind
  ca_sensitivity :: sensitivity
  ca_source_type :: memory_source
  ca_source_ref :: "(string \<times> json) list option"
  ca_importance :: real
  ca_pinned :: bool
  ca_metadata :: "(string \<times> json) list option"
  ca_expires_at :: "time option"
  ca_embedding :: "real list option"
  ca_embedding_model :: "string option"
  ca_created_by :: "int option"
  ca_content_hash :: "string option"
  ca_trust :: memory_trust
  ca_pii_flags :: "(string \<times> nat) list"
  ca_review_status :: review_status
  ca_review_reason :: "string option"
  ca_confidence :: "real option"
  ca_ts_config :: string

definition or_empty :: "'a list option \<Rightarrow> 'a list" where
  "or_empty x = (case x of None \<Rightarrow> [] | Some xs \<Rightarrow> xs)"

definition memory_create :: "principal \<Rightarrow> string \<Rightarrow> time \<Rightarrow> create_args \<Rightarrow> db \<Rightarrow> memory \<times> db" where
  "memory_create p public_id now a d =
     (let m = \<lparr>m_id = next_memory_id d, m_public_id = public_id, m_org_id = p_org_id p,
            m_scope_type = ca_scope_type a, m_scope_id = ca_scope_id a, m_created_by = ca_created_by a,
            m_source_type = ca_source_type a, m_source_ref = ca_source_ref a, m_kind = ca_kind a,
            m_title = ca_title a, m_body = ca_body a, m_tier = SHORT, m_sensitivity = ca_sensitivity a,
            m_importance = ca_importance a, m_pinned = ca_pinned a, m_access_count = 0,
            m_last_accessed_at = None, m_decay_score = 1, m_embedding = ca_embedding a,
            m_embedding_model = ca_embedding_model a, m_ts_config = ca_ts_config a, m_trust = ca_trust a,
            m_pii_flags = ca_pii_flags a, m_review_status = ca_review_status a,
            m_review_reason = ca_review_reason a, m_reviewed_at = None, m_reviewed_by = None,
            m_confidence = ca_confidence a, m_content_hash = ca_content_hash a,
            m_conflict_checked_at = None, m_embed_attempts = 0, m_embed_error = None,
            m_embed_failed_at = None, m_embed_next_attempt_at = None,
            m_metadata = or_empty (ca_metadata a), m_expires_at = ca_expires_at a,
            m_created_at = now, m_deleted_at = None\<rparr>
      in (m, d\<lparr>memories := memories d @ [m], next_memory_id := next_memory_id d + 1\<rparr>))"

definition soft_delete :: "time \<Rightarrow> memory \<Rightarrow> db \<Rightarrow> memory \<times> db" where
  "soft_delete now m d = save m (\<lambda>r. r\<lparr>m_deleted_at := Some now\<rparr>) d"

definition repo_set_pinned :: "bool \<Rightarrow> memory \<Rightarrow> db \<Rightarrow> memory \<times> db" where
  "repo_set_pinned pinned m d = save m (\<lambda>r. r\<lparr>m_pinned := pinned\<rparr>) d"

record field_changes =
  fc_title :: "string option"
  fc_body :: "string option"
  fc_kind :: "memory_kind option"
  fc_sensitivity :: "sensitivity option"
  fc_importance :: "real option"
  fc_metadata :: "(string \<times> json) list option"

definition set_opt :: "'a option \<Rightarrow> ('a \<Rightarrow> 'r \<Rightarrow> 'r) \<Rightarrow> 'r \<Rightarrow> 'r" where
  "set_opt x f r = (case x of None \<Rightarrow> r | Some v \<Rightarrow> f v r)"

definition apply_changes :: "field_changes \<Rightarrow> memory \<Rightarrow> memory" where
  "apply_changes c r =
     set_opt (fc_metadata c) (\<lambda>v r. r\<lparr>m_metadata := v\<rparr>)
     (set_opt (fc_importance c) (\<lambda>v r. r\<lparr>m_importance := v\<rparr>)
     (set_opt (fc_sensitivity c) (\<lambda>v r. r\<lparr>m_sensitivity := v\<rparr>)
     (set_opt (fc_kind c) (\<lambda>v r. r\<lparr>m_kind := v\<rparr>)
     (set_opt (fc_body c) (\<lambda>v r. r\<lparr>m_body := v, m_embedding := None, m_embedding_model := None\<rparr>)
     (set_opt (fc_title c) (\<lambda>v r. r\<lparr>m_title := v\<rparr>) r)))))"

definition update_fields :: "field_changes \<Rightarrow> memory \<Rightarrow> db \<Rightarrow> memory \<times> db" where
  "update_fields c m d = save m (apply_changes c) d"

definition set_review_status :: "time \<Rightarrow> review_status \<Rightarrow> int option \<Rightarrow> memory \<Rightarrow> db \<Rightarrow> memory \<times> db" where
  "set_review_status now status reviewer m d =
     save m (\<lambda>r. r\<lparr>m_review_status := status, m_reviewed_at := Some now, m_reviewed_by := reviewer\<rparr>) d"

definition record_duplicate :: "time \<Rightarrow> (string \<times> json) list option \<Rightarrow> memory \<Rightarrow> db \<Rightarrow> memory \<times> db" where
  "record_duplicate now metadata m d =
     save m (\<lambda>r. r\<lparr>m_access_count := m_access_count r + 1, m_last_accessed_at := Some now,
                  m_metadata := dict_merge (m_metadata r) (or_empty metadata)\<rparr>) d"

definition record_access :: "time \<Rightarrow> int list \<Rightarrow> db \<Rightarrow> db" where
  "record_access now ids d =
     (if ids = [] then d
      else update_where (\<lambda>m. m_id m \<in> set ids)
             (\<lambda>m. m\<lparr>m_access_count := m_access_count m + 1, m_last_accessed_at := Some now\<rparr>) d)"

definition mark_conflict_checked :: "time \<Rightarrow> int list \<Rightarrow> db \<Rightarrow> db" where
  "mark_conflict_checked now ids d =
     (if ids = [] then d
      else update_where (\<lambda>m. m_id m \<in> set ids) (\<lambda>m. m\<lparr>m_conflict_checked_at := Some now\<rparr>) d)"

definition reanalyse_scope :: "principal \<Rightarrow> scope_type \<Rightarrow> int \<Rightarrow> string \<Rightarrow> db \<Rightarrow> db" where
  "reanalyse_scope p st sid cfg d =
     update_where (\<lambda>m. m_org_id m = p_org_id p \<and> m_scope_type m = st \<and> m_scope_id m = sid \<and> live m)
       (\<lambda>m. m\<lparr>m_ts_config := cfg\<rparr>) d"

definition apply_decay :: "int \<Rightarrow> real \<Rightarrow> memory_tier option \<Rightarrow> db \<Rightarrow> db" where
  "apply_decay mid score tier d =
     update_where (\<lambda>m. m_id m = mid)
       (\<lambda>m. set_opt tier (\<lambda>t r. r\<lparr>m_tier := t\<rparr>) (m\<lparr>m_decay_score := score\<rparr>)) d"

subsection \<open>Embedding maintenance\<close>

definition set_embedding :: "int \<Rightarrow> real list \<Rightarrow> string \<Rightarrow> db \<Rightarrow> db" where
  "set_embedding mid vector model d =
     update_where (\<lambda>m. m_id m = mid)
       (\<lambda>m. m\<lparr>m_embedding := Some vector, m_embedding_model := Some model, m_embed_attempts := 0,
             m_embed_error := None, m_embed_failed_at := None, m_embed_next_attempt_at := None\<rparr>) d"

text \<open>\<open>embedding_model != :model\<close> is not true of a NULL model.\<close>

definition stale_embedding :: "settings \<Rightarrow> memory \<Rightarrow> bool" where
  "stale_embedding s m =
     (m_embedding m = None \<or>
      (case m_embedding_model m of None \<Rightarrow> False | Some x \<Rightarrow> x \<noteq> embedder_model s))"

definition due :: "time \<Rightarrow> memory \<Rightarrow> bool" where
  "due now m = (case m_embed_next_attempt_at m of None \<Rightarrow> True | Some t \<Rightarrow> t \<le> now)"

definition list_pending_embedding :: "settings \<Rightarrow> time \<Rightarrow> nat \<Rightarrow> principal \<Rightarrow> memory list \<Rightarrow> memory list" where
  "list_pending_embedding s now limit p ms =
     take limit (sort_key m_created_at
       (filter (\<lambda>m. live m \<and> stale_embedding s m \<and> m_embed_failed_at m = None \<and> due now m) (tenant_query p ms)))"

definition list_by_ids :: "int list \<Rightarrow> principal \<Rightarrow> memory list \<Rightarrow> memory list" where
  "list_by_ids ids p ms = (if ids = [] then [] else filter (\<lambda>m. m_id m \<in> set ids) (tenant_query p ms))"

definition embed_failure :: "string \<Rightarrow> int \<Rightarrow> int \<Rightarrow> time \<Rightarrow> memory \<Rightarrow> memory" where
  "embed_failure err mx base now m =
     (let dec = decide_retry (m_embed_attempts m) mx base now;
          m' = m\<lparr>m_embed_attempts := rd_attempts dec, m_embed_error := Some (take 2000 err),
                m_embed_next_attempt_at := rd_next_attempt_at dec\<rparr>
      in if rd_parked dec then m'\<lparr>m_embed_failed_at := Some now\<rparr> else m')"

definition record_embed_failure ::
    "principal \<Rightarrow> int list \<Rightarrow> string \<Rightarrow> int \<Rightarrow> int \<Rightarrow> time \<Rightarrow> db \<Rightarrow> nat \<times> db" where
  "record_embed_failure p ids err mx base now d =
     (if ids = [] then (0, d)
      else
        let rows = list_by_ids ids p (memories d)
        in (length (filter (\<lambda>m. rd_parked (decide_retry (m_embed_attempts m) mx base now)) rows),
            update_where (\<lambda>m. m_id m \<in> m_id ` set rows) (embed_failure err mx base now) d))"

definition reset_embed_failures :: "principal \<Rightarrow> int option \<Rightarrow> db \<Rightarrow> nat \<times> db" where
  "reset_embed_failures p org d =
     (let ids = map m_id (filter (\<lambda>m. live m \<and> m_embed_failed_at m \<noteq> None \<and>
            (case org of None \<Rightarrow> True | Some o' \<Rightarrow> m_org_id m = o')) (tenant_query p (memories d)))
      in if ids = [] then (0, d)
         else (length ids,
               update_where (\<lambda>m. m_id m \<in> set ids)
                 (\<lambda>m. m\<lparr>m_embed_attempts := 0, m_embed_error := None, m_embed_failed_at := None,
                       m_embed_next_attempt_at := None\<rparr>) d))"

record embed_status =
  es_pending :: nat
  es_failed :: nat
  es_ok :: nat
  es_oldest_pending_seconds :: real

definition count_where :: "('a \<Rightarrow> bool) \<Rightarrow> 'a list \<Rightarrow> nat" where
  "count_where P xs = length (filter P xs)"

definition embed_status_counts :: "settings \<Rightarrow> time \<Rightarrow> principal \<Rightarrow> memory list \<Rightarrow> embed_status" where
  "embed_status_counts s now p ms =
     (let rows = filter live (tenant_query p ms);
          pending = filter (\<lambda>m. m_embedding m = None \<and> m_embed_failed_at m = None) rows
      in \<lparr>es_pending = length pending,
          es_failed = count_where (\<lambda>m. m_embed_failed_at m \<noteq> None) rows,
          es_ok = count_where (\<lambda>m. m_embedding m \<noteq> None \<and> m_embedding_model m = Some (embedder_model s)) rows,
          es_oldest_pending_seconds =
            (if pending = [] then 0 else total_seconds (now - Min (m_created_at ` set pending)))\<rparr>)"

definition list_embed_failures :: "nat \<Rightarrow> principal \<Rightarrow> memory list \<Rightarrow> memory list" where
  "list_embed_failures limit p ms =
     take limit (sort_key (\<lambda>m. - the (m_embed_failed_at m))
       (filter (\<lambda>m. live m \<and> m_embed_failed_at m \<noteq> None) (tenant_query p ms)))"

subsection \<open>Reads\<close>

definition get_by_public_id :: "string \<Rightarrow> principal \<Rightarrow> memory list \<Rightarrow> memory option" where
  "get_by_public_id pid p ms = first_row (filter (\<lambda>m. m_public_id m = pid \<and> live m) (tenant_query p ms))"

definition get_by_id :: "int \<Rightarrow> principal \<Rightarrow> memory list \<Rightarrow> memory option" where
  "get_by_id mid p ms = first_row (filter (\<lambda>m. m_id m = mid \<and> live m) (tenant_query p ms))"

definition count_for_org :: "int \<Rightarrow> memory list \<Rightarrow> nat" where
  "count_for_org org ms = count_where (\<lambda>m. m_org_id m = org \<and> live m) ms"

definition sensitivities_up_to :: "sensitivity \<Rightarrow> sensitivity list" where
  "sensitivities_up_to mx =
     filter (\<lambda>s. sensitivity_rank s \<le> sensitivity_rank mx) [PUBLIC, INTERNAL, CONFIDENTIAL, SECRET]"

definition in_scope :: "scope_filter \<Rightarrow> memory \<Rightarrow> bool" where
  "in_scope sf m = (m_scope_type m = sf_type sf \<and> m_scope_id m = sf_id sf)"

text \<open>An optional equality of a WHERE clause.\<close>

definition opt_where :: "'a option \<Rightarrow> ('a \<Rightarrow> bool) \<Rightarrow> bool" where
  "opt_where x P = (case x of None \<Rightarrow> True | Some v \<Rightarrow> P v)"

definition repo_list ::
    "scope_filter option \<Rightarrow> memory_tier option \<Rightarrow> memory_kind option \<Rightarrow> nat \<Rightarrow> nat \<Rightarrow> sensitivity option
     \<Rightarrow> principal \<Rightarrow> memory list \<Rightarrow> memory list" where
  "repo_list sc tier kind limit offset mx p ms =
     take limit (drop offset (sort_key (\<lambda>m. - m_created_at m)
       (filter (\<lambda>m. live m \<and> m_review_status m = APPROVED \<and>
            opt_where sc (\<lambda>sf. in_scope sf m) \<and> opt_where tier (\<lambda>t. m_tier m = t) \<and>
            opt_where kind (\<lambda>k. m_kind m = k) \<and>
            opt_where mx (\<lambda>x. m_sensitivity m \<in> set (sensitivities_up_to x))) (tenant_query p ms))))"

definition list_pending_review :: "nat \<Rightarrow> nat \<Rightarrow> principal \<Rightarrow> memory list \<Rightarrow> memory list" where
  "list_pending_review limit offset p ms =
     take limit (drop offset (sort_key m_created_at
       (filter (\<lambda>m. live m \<and> m_review_status m = PENDING) (tenant_query p ms))))"

definition count_pending_review :: "principal \<Rightarrow> memory list \<Rightarrow> nat" where
  "count_pending_review p ms = count_where (\<lambda>m. live m \<and> m_review_status m = PENDING) (tenant_query p ms)"

text \<open>\<open>metadata[key].astext\<close>: NULL when the key is absent or JSON null, the characters of a string.\<close>

definition json_text :: "pg_engine \<Rightarrow> json \<Rightarrow> string option" where
  "json_text pg v = (case v of JNull \<Rightarrow> None | JStr s \<Rightarrow> Some s | _ \<Rightarrow> Some (jsonb_text pg v))"

definition meta_text :: "pg_engine \<Rightarrow> memory \<Rightarrow> string \<Rightarrow> string option" where
  "meta_text pg m key = (case map_of (m_metadata m) key of None \<Rightarrow> None | Some v \<Rightarrow> json_text pg v)"

definition find_by_metadata :: "pg_engine \<Rightarrow> scope_type \<Rightarrow> int \<Rightarrow> string \<Rightarrow> string \<Rightarrow> principal \<Rightarrow> memory list \<Rightarrow> memory option" where
  "find_by_metadata pg st sid key v p ms =
     first_row (sort_key m_id (filter (\<lambda>m. live m \<and> m_scope_type m = st \<and> m_scope_id m = sid \<and>
        meta_text pg m key = Some v) (tenant_query p ms)))"

definition list_by_metadata_key :: "pg_engine \<Rightarrow> scope_type \<Rightarrow> int \<Rightarrow> string \<Rightarrow> nat \<Rightarrow> principal \<Rightarrow> memory list \<Rightarrow> memory list" where
  "list_by_metadata_key pg st sid key limit p ms =
     take limit (sort_key m_id (filter (\<lambda>m. live m \<and> m_scope_type m = st \<and> m_scope_id m = sid \<and>
        meta_text pg m key \<noteq> None) (tenant_query p ms)))"

definition find_by_content_hash :: "scope_type \<Rightarrow> int \<Rightarrow> string \<Rightarrow> principal \<Rightarrow> memory list \<Rightarrow> memory option" where
  "find_by_content_hash st sid h p ms =
     first_row (sort_key m_created_at (filter (\<lambda>m. live m \<and> m_scope_type m = st \<and> m_scope_id m = sid \<and>
        m_content_hash m = Some h) (tenant_query p ms)))"

definition list_pending_conflict_check :: "memory_kind list \<Rightarrow> nat \<Rightarrow> principal \<Rightarrow> memory list \<Rightarrow> memory list" where
  "list_pending_conflict_check kinds limit p ms =
     take limit (sort_key (\<lambda>m. - m_created_at m)
       (filter (\<lambda>m. live m \<and> m_conflict_checked_at m = None \<and> m_embedding m \<noteq> None \<and> m_kind m \<in> set kinds)
          (tenant_query p ms)))"

definition list_orgs_with_memories :: "memory list \<Rightarrow> int list" where
  "list_orgs_with_memories ms = remdups (map m_org_id (filter live ms))"

text \<open>
  The statement selects from no table, so the column it names does not exist and the database
  rejects it.
\<close>

definition median_access_count :: "int \<Rightarrow> memory list \<Rightarrow> int result" where
  "median_access_count org ms = Inl (ProgrammingError ''column access_count does not exist'')"

definition iter_for_decay :: "int \<Rightarrow> nat \<Rightarrow> principal \<Rightarrow> memory list \<Rightarrow> memory list" where
  "iter_for_decay org batch p ms =
     take batch (sort_key m_id (filter (\<lambda>m. m_org_id m = org \<and> live m \<and> \<not> m_pinned m) (tenant_query p ms)))"

definition list_for_consolidation :: "int \<Rightarrow> nat \<Rightarrow> principal \<Rightarrow> memory list \<Rightarrow> memory list" where
  "list_for_consolidation org limit p ms =
     take limit (sort_key m_id (filter (\<lambda>m. m_org_id m = org \<and> live m \<and> \<not> m_pinned m \<and> m_tier m = MID \<and>
        m_embedding m \<noteq> None) (tenant_query p ms)))"

subsection \<open>Projects, orgs and text-search configuration\<close>

definition project_get_by_id :: "int \<Rightarrow> principal \<Rightarrow> project list \<Rightarrow> project option" where
  "project_get_by_id pid p prs =
     first_row (filter (\<lambda>r. pr_id r = pid \<and> pr_deleted_at r = None) (tenant_rows pr_org_id p prs))"

definition org_get_by_id :: "int \<Rightarrow> principal \<Rightarrow> org_row list \<Rightarrow> org_row option result" where
  "org_get_by_id org p os =
     (if \<not> is_superuser p \<and> org \<noteq> p_org_id p then Inl (TenantViolationError (''cannot read org '' @ show_int org))
      else Inr (first_row (filter (\<lambda>r. o_id r = org \<and> o_deleted_at r = None) os)))"

definition DEFAULT_TS_CONFIG :: string where
  "DEFAULT_TS_CONFIG = ''english''"

definition config_for_scope :: "project list \<Rightarrow> principal \<Rightarrow> scope_type option \<Rightarrow> int option \<Rightarrow> string" where
  "config_for_scope prs p st sid =
     (case (st, sid) of
        (Some PROJECT, Some i) \<Rightarrow>
          (case project_get_by_id i p prs of None \<Rightarrow> DEFAULT_TS_CONFIG | Some r \<Rightarrow> pr_text_search_config r)
      | _ \<Rightarrow> DEFAULT_TS_CONFIG)"

definition config_for_scopes :: "project list \<Rightarrow> principal \<Rightarrow> scope_filter list \<Rightarrow> string" where
  "config_for_scopes prs p scopes =
     (case filter (\<lambda>sf. sf_type sf = PROJECT) scopes of
        [] \<Rightarrow> DEFAULT_TS_CONFIG
      | sf # _ \<Rightarrow> config_for_scope prs p (Some (sf_type sf)) (Some (sf_id sf)))"

subsection \<open>Conflict candidates and hybrid search\<close>

definition similarity :: "pg_engine \<Rightarrow> real list \<Rightarrow> memory \<Rightarrow> real" where
  "similarity pg v m = 1 - vector_distance pg (the (m_embedding m)) v"

definition list_conflict_candidates ::
    "pg_engine \<Rightarrow> memory \<Rightarrow> nat \<Rightarrow> real \<Rightarrow> principal \<Rightarrow> memory list \<Rightarrow> (memory \<times> real) list" where
  "list_conflict_candidates pg memory limit min_similarity p ms =
     (case m_embedding memory of
        None \<Rightarrow> []
      | Some qv \<Rightarrow>
          let rows = take limit (sort_key (\<lambda>m. vector_distance pg (the (m_embedding m)) qv)
                (filter (\<lambda>m. live m \<and> m_review_status m = APPROVED \<and> m_embedding m \<noteq> None \<and>
                   m_org_id m = m_org_id memory \<and> m_scope_type m = m_scope_type memory \<and>
                   m_scope_id m = m_scope_id memory \<and> m_kind m = m_kind memory \<and> m_id m \<noteq> m_id memory) ms));
              scored = filter (\<lambda>(i, sim). sim \<ge> min_similarity) (map (\<lambda>m. (m_id m, similarity pg qv m)) rows);
              by_id = map (\<lambda>m. (m_id m, m)) (list_by_ids (map fst scored) p ms);
              pairs = List.map_filter (\<lambda>(i, sim). map_option (\<lambda>m. (m, sim)) (map_of by_id i)) scored
          in sorted_desc snd pairs)"

definition or_nat :: "nat option \<Rightarrow> nat \<Rightarrow> nat" where
  "or_nat x dflt = (case x of None \<Rightarrow> dflt | Some n \<Rightarrow> if n = 0 then dflt else n)"

record search_args =
  sa_query :: string
  sa_vector :: "real list option"
  sa_scopes :: "scope_filter list"
  sa_max_sensitivity :: sensitivity
  sa_top_k_vector :: "nat option"
  sa_top_k_bm25 :: "nat option"
  sa_rrf_k :: "nat option"
  sa_limit :: nat

text \<open>The WHERE clause both rankings share: live, readable, governed, the principal's, in scope.\<close>

definition search_visible :: "settings \<Rightarrow> search_args \<Rightarrow> principal \<Rightarrow> memory \<Rightarrow> bool" where
  "search_visible s a p m =
     (live m \<and> m_sensitivity m \<in> set (sensitivities_up_to (sa_max_sensitivity a)) \<and>
      m_review_status m = APPROVED \<and>
      (trust_filtering s \<longrightarrow> (case trusts_allowed_for (sa_max_sensitivity a) of
          None \<Rightarrow> True | Some ts \<Rightarrow> m_trust m \<in> set ts)) \<and>
      (is_superuser p \<or> m_org_id m = p_org_id p) \<and>
      (sa_scopes a = [] \<or> (\<exists>sf \<in> set (sa_scopes a). in_scope sf m)))"

definition vector_ids :: "pg_engine \<Rightarrow> settings \<Rightarrow> search_args \<Rightarrow> principal \<Rightarrow> memory list \<Rightarrow> int list" where
  "vector_ids pg s a p ms =
     (case sa_vector a of
        None \<Rightarrow> []
      | Some qv \<Rightarrow>
          map m_id (take (or_nat (sa_top_k_vector a) (retrieval_top_k_vector s))
            (sort_key (\<lambda>m. vector_distance pg (the (m_embedding m)) qv)
              (filter (\<lambda>m. m_embedding m \<noteq> None \<and> search_visible s a p m) ms))))"

definition bm25_ids ::
    "pg_engine \<Rightarrow> settings \<Rightarrow> string \<Rightarrow> search_args \<Rightarrow> principal \<Rightarrow> memory list \<Rightarrow> int list" where
  "bm25_ids pg s cfg a p ms =
     map m_id (take (or_nat (sa_top_k_bm25 a) (retrieval_top_k_bm25 s))
       (sorted_desc (\<lambda>m. ts_rank_cd pg (m_ts_config m) (tsv_text m) cfg (sa_query a))
         (filter (\<lambda>m. ts_matches pg (m_ts_config m) (tsv_text m) cfg (sa_query a) \<and> search_visible s a p m) ms)))"

definition hit_of :: "memory \<Rightarrow> real \<Rightarrow> hybrid_hit" where
  "hit_of m score = \<lparr>h_memory_id = m_id m, h_public_id = m_public_id m, h_title = m_title m,
     h_body = m_body m, h_tier = m_tier m, h_sensitivity = m_sensitivity m,
     h_importance = m_importance m, h_decay_score = m_decay_score m, h_pinned = m_pinned m,
     h_score = score * (1 / 2 + 1 / 2 * m_decay_score m), h_conflicts = []\<rparr>"

definition fetch_hits :: "memory list \<Rightarrow> (int \<times> real) list \<Rightarrow> int list \<Rightarrow> int list \<Rightarrow> hybrid_hit list" where
  "fetch_hits ms scores keep ordered =
     (let rows_by_id = map (\<lambda>m. (m_id m, m)) (filter (\<lambda>m. m_id m \<in> set keep) ms)
      in List.map_filter (\<lambda>mid. map_option (\<lambda>m. hit_of m (the (map_of scores mid))) (map_of rows_by_id mid)) ordered)"

definition hybrid_search ::
    "pg_engine \<Rightarrow> settings \<Rightarrow> project list \<Rightarrow> search_args \<Rightarrow> principal \<Rightarrow> memory list \<Rightarrow> hybrid_hit list" where
  "hybrid_search pg s prs a p ms =
     (let cfg = config_for_scopes prs p (sa_scopes a);
          vs = vector_ids pg s a p ms;
          bs = bm25_ids pg s cfg a p ms
      in if vs = [] \<and> bs = [] then []
         else
           let pinned = m_id ` set (filter (\<lambda>m. m_id m \<in> set vs \<union> set bs \<and> m_pinned m) ms);
               rankings = filter (\<lambda>r. r \<noteq> []) [vs, bs];
               scores = rrf_fuse (or_nat (sa_rrf_k a) (retrieval_rrf_k s)) pinned 1 rankings;
               ordered = map fst (sorted_desc snd scores);
               keep = take (max (sa_limit a * 2) (sa_limit a)) ordered
           in if keep = [] then []
              else take (sa_limit a) (sorted_desc h_score (fetch_hits ms scores keep ordered)))"

definition find_similar_for_review ::
    "pg_engine \<Rightarrow> settings \<Rightarrow> project list \<Rightarrow> memory \<Rightarrow> nat \<Rightarrow> principal \<Rightarrow> memory list \<Rightarrow> memory list" where
  "find_similar_for_review pg s prs memory limit p ms =
     (if m_embedding memory \<noteq> None
      then map fst (list_conflict_candidates pg memory limit (1 / 2) p ms)
      else
        let terms = py_join '' '' (take 8 (py_words (m_body memory)))
        in if py_strip terms = [] then []
           else
             let hits = hybrid_search pg s prs
                   \<lparr>sa_query = terms, sa_vector = None,
                    sa_scopes = [\<lparr>sf_type = m_scope_type memory, sf_id = m_scope_id memory\<rparr>],
                    sa_max_sensitivity = SECRET, sa_top_k_vector = None, sa_top_k_bm25 = None,
                    sa_rrf_k = None, sa_limit = limit + 1\<rparr> p ms
             in list_by_ids (take limit (filter (\<lambda>i. i \<noteq> m_id memory) (map h_memory_id hits))) p ms)"

subsection \<open>Analytics\<close>

record memory_analytics =
  an_count :: nat
  an_pinned :: nat
  an_avg_decay :: real
  an_total_access :: nat
  an_by_tier :: "(memory_tier \<times> nat) list"
  an_by_kind :: "(memory_kind \<times> nat) list"
  an_by_sensitivity :: "(sensitivity \<times> nat) list"
  an_decay_health :: "nat \<times> nat \<times> nat"
  an_top_accessed :: "memory list"
  an_timeline :: "nat list"

definition group_counts :: "('a \<Rightarrow> 'b) \<Rightarrow> 'a list \<Rightarrow> ('b \<times> nat) list" where
  "group_counts f rows = map (\<lambda>k. (k, count_where (\<lambda>r. f r = k) rows)) (remdups (map f rows))"

definition day_number :: "time \<Rightarrow> int" where
  "day_number t = t div day"

definition analytics ::
    "time \<Rightarrow> scope_filter option \<Rightarrow> sensitivity option \<Rightarrow> nat \<Rightarrow> nat \<Rightarrow> principal \<Rightarrow> memory list \<Rightarrow> memory_analytics" where
  "analytics now sc mx days top_n p ms =
     (let rows = filter (\<lambda>m. live m \<and> opt_where sc (\<lambda>sf. in_scope sf m) \<and>
                    opt_where mx (\<lambda>x. m_sensitivity m \<in> set (sensitivities_up_to x))) (tenant_query p ms);
          start_day = day_number now - (int days - 1);
          recent = filter (\<lambda>m. m_created_at m \<ge> start_day * day) rows
      in \<lparr>an_count = length rows,
          an_pinned = count_where m_pinned rows,
          an_avg_decay = (if rows = [] then 0 else sum_list (map m_decay_score rows) / real (length rows)),
          an_total_access = sum_list (map m_access_count rows),
          an_by_tier = group_counts m_tier rows,
          an_by_kind = group_counts m_kind rows,
          an_by_sensitivity = group_counts m_sensitivity rows,
          an_decay_health =
            (count_where (\<lambda>m. m_decay_score m \<ge> 66 / 100) rows,
             count_where (\<lambda>m. m_decay_score m \<ge> 33 / 100 \<and> m_decay_score m < 66 / 100) rows,
             count_where (\<lambda>m. m_decay_score m < 33 / 100) rows),
          an_top_accessed = take top_n (sort_key (\<lambda>m. - int (m_access_count m)) rows),
          an_timeline = map (\<lambda>i. count_where (\<lambda>m. day_number (m_created_at m) = start_day + int i) recent) [0..<days]\<rparr>)"

subsection \<open>Links\<close>

text \<open>The primary key is the pair of ids and the type; a second insert of it violates the constraint.\<close>

definition link_create :: "time \<Rightarrow> int \<Rightarrow> int \<Rightarrow> memory_link_type \<Rightarrow> real \<Rightarrow> db \<Rightarrow> (memory_link \<times> db) result" where
  "link_create now a b t w d =
     (if \<exists>l \<in> set (links d). l_from l = a \<and> l_to l = b \<and> l_type l = t
      then Inl (IntegrityError ''duplicate key value violates unique constraint'')
      else let l = \<lparr>l_from = a, l_to = b, l_type = t, l_weight = w, l_created_at = now\<rparr>
           in Inr (l, d\<lparr>links := links d @ [l]\<rparr>))"

definition unlink :: "int \<Rightarrow> int \<Rightarrow> memory_link_type \<Rightarrow> db \<Rightarrow> bool \<times> db" where
  "unlink a b t d =
     (let P = (\<lambda>l. l_from l = a \<and> l_to l = b \<and> l_type l = t)
      in if list_ex P (links d) then (True, d\<lparr>links := filter (\<lambda>l. \<not> P l) (links d)\<rparr>) else (False, d))"

definition conflict_links :: "int list \<Rightarrow> memory_link list \<Rightarrow> memory_link list" where
  "conflict_links ids ls =
     (if ids = [] then []
      else filter (\<lambda>l. l_type l \<in> {SUPERSEDES, CONTRADICTS} \<and> (l_from l \<in> set ids \<or> l_to l \<in> set ids)) ls)"

definition neighbors :: "int \<Rightarrow> memory_link_type list \<Rightarrow> memory_link list \<Rightarrow> memory_link list" where
  "neighbors mid types ls =
     filter (\<lambda>l. (l_from l = mid \<or> l_to l = mid) \<and> (types = [] \<or> l_type l \<in> set types)) ls"


section \<open>Tenancy\<close>

lemma tenant_rows_idem [simp]: "tenant_rows f p (tenant_rows f p rows) = tenant_rows f p rows"
  by (simp add: tenant_rows_def)

lemma set_tenant_rows: "set (tenant_rows f p rows) = {r \<in> set rows. is_superuser p \<or> f r = p_org_id p}"
  by (auto simp: tenant_rows_def)

lemma first_row_in: "first_row rows = Some r \<Longrightarrow> r \<in> set rows"
  by (auto simp: first_row_def split: list.splits)

lemma first_row_None [simp]: "first_row rows = None \<longleftrightarrow> rows = []"
  by (simp add: first_row_def split: list.split)

text \<open>
  The chokepoint as a contract: a reader sees only the rows \<open>tenant_query\<close> lets through, and returns
  some of them.  What a tenant reads is then independent of every other tenant's rows.
\<close>

locale tenant_reader =
  fixes org_of :: "'r \<Rightarrow> int" and rd :: "principal \<Rightarrow> 'r list \<Rightarrow> 'r list"
  assumes through_tenant_query: "rd p (tenant_rows org_of p ms) = rd p ms"
    and selects: "set (rd p ms) \<subseteq> set (tenant_rows org_of p ms)"
begin

lemma own_org: "m \<in> set (rd p ms) \<Longrightarrow> \<not> is_superuser p \<Longrightarrow> m \<in> set ms \<and> org_of m = p_org_id p"
  using selects by (fastforce simp: set_tenant_rows)

lemma noninterference: "tenant_rows org_of p ms = tenant_rows org_of p ms' \<Longrightarrow> rd p ms = rd p ms'"
  by (metis through_tenant_query)

lemma foreign_rows_invisible:
  assumes "\<not> is_superuser p" and "\<forall>m \<in> set foreign. org_of m \<noteq> p_org_id p"
  shows "rd p (ms @ foreign) = rd p ms"
proof (rule noninterference)
  have "filter (\<lambda>m. org_of m = p_org_id p) foreign = []"
    using assms(2) by (auto simp: filter_empty_conv)
  then show "tenant_rows org_of p (ms @ foreign) = tenant_rows org_of p ms"
    using assms(1) by (simp add: tenant_rows_def)
qed

end

definition opt_list :: "'a option \<Rightarrow> 'a list" where
  "opt_list x = (case x of None \<Rightarrow> [] | Some v \<Rightarrow> [v])"

lemma set_opt_list: "set (opt_list (first_row rows)) \<subseteq> set rows"
  by (auto simp: opt_list_def first_row_def split: list.split)

lemma set_take_sub: "set (take n xs) \<subseteq> set xs" "set (drop n xs) \<subseteq> set xs"
  by (auto dest: in_set_takeD in_set_dropD)

lemmas selection_rules = set_opt_list [THEN subset_trans] set_take_sub [THEN subset_trans]

interpretation by_public_id: tenant_reader m_org_id "\<lambda>p ms. opt_list (get_by_public_id pid p ms)" for pid
  by unfold_locales (auto simp: get_by_public_id_def dest!: set_opt_list [THEN subsetD])

interpretation by_id: tenant_reader m_org_id "\<lambda>p ms. opt_list (get_by_id i p ms)" for i
  by unfold_locales (auto simp: get_by_id_def dest!: set_opt_list [THEN subsetD])

interpretation listing: tenant_reader m_org_id "repo_list sc tier kind limit offset mx" for sc tier kind limit offset mx
  by unfold_locales (auto simp: repo_list_def dest!: in_set_takeD in_set_dropD)

interpretation pending_review: tenant_reader m_org_id "list_pending_review limit offset" for limit offset
  by unfold_locales (auto simp: list_pending_review_def dest!: in_set_takeD in_set_dropD)

interpretation pending_embedding: tenant_reader m_org_id "list_pending_embedding s now limit" for s now limit
  by unfold_locales (auto simp: list_pending_embedding_def dest!: in_set_takeD)

interpretation embed_failures: tenant_reader m_org_id "list_embed_failures limit" for limit
  by unfold_locales (auto simp: list_embed_failures_def dest!: in_set_takeD)

interpretation by_metadata: tenant_reader m_org_id "\<lambda>p ms. opt_list (find_by_metadata pg st sid key v p ms)" for pg st sid key v
  by unfold_locales (auto simp: find_by_metadata_def dest!: set_opt_list [THEN subsetD])

interpretation by_metadata_key: tenant_reader m_org_id "list_by_metadata_key pg st sid key limit" for pg st sid key limit
  by unfold_locales (auto simp: list_by_metadata_key_def dest!: in_set_takeD)

interpretation by_content_hash: tenant_reader m_org_id "\<lambda>p ms. opt_list (find_by_content_hash st sid h p ms)" for st sid h
  by unfold_locales (auto simp: find_by_content_hash_def dest!: set_opt_list [THEN subsetD])

interpretation pending_conflict: tenant_reader m_org_id "list_pending_conflict_check kinds limit" for kinds limit
  by unfold_locales (auto simp: list_pending_conflict_check_def dest!: in_set_takeD)

interpretation by_ids: tenant_reader m_org_id "list_by_ids ids" for ids
  by unfold_locales (auto simp: list_by_ids_def)

interpretation for_decay: tenant_reader m_org_id "iter_for_decay org batch" for org batch
  by unfold_locales (auto simp: iter_for_decay_def dest!: in_set_takeD)

interpretation for_consolidation: tenant_reader m_org_id "list_for_consolidation org limit" for org limit
  by unfold_locales (auto simp: list_for_consolidation_def dest!: in_set_takeD)

lemma opt_list_inject: "opt_list x = opt_list y \<longleftrightarrow> x = y"
  by (auto simp: opt_list_def split: option.splits)

lemma opt_list_Some: "x = Some m \<Longrightarrow> m \<in> set (opt_list x)"
  by (simp add: opt_list_def)



section \<open>Hybrid search\<close>

lemma vector_ids_visible: "i \<in> set (vector_ids pg s a p ms) \<Longrightarrow> \<exists>m \<in> set ms. m_id m = i \<and> search_visible s a p m"
  by (auto simp: vector_ids_def split: option.splits dest!: in_set_takeD)

lemma bm25_ids_visible: "i \<in> set (bm25_ids pg s cfg a p ms) \<Longrightarrow> \<exists>m \<in> set ms. m_id m = i \<and> search_visible s a p m"
  by (auto simp: bm25_ids_def dest!: in_set_takeD)

lemma fused_visible:
  assumes "i \<in> set (map fst (sorted_desc snd (rrf_fuse k pinned fl
      (filter (\<lambda>r. r \<noteq> []) [vector_ids pg s a p ms, bm25_ids pg s cfg a p ms]))))"
  shows "\<exists>m \<in> set ms. m_id m = i \<and> search_visible s a p m"
proof -
  have "i \<in> fst ` set (rrf_fuse k pinned fl (filter (\<lambda>r. r \<noteq> []) [vector_ids pg s a p ms, bm25_ids pg s cfg a p ms]))"
    using assms by simp
  then have "i \<in> set (vector_ids pg s a p ms) \<or> i \<in> set (bm25_ids pg s cfg a p ms)"
    unfolding keys_rrf_fuse_set by (auto split: if_splits)
  then show ?thesis using vector_ids_visible bm25_ids_visible by blast
qed

lemma set_map_filter: "set (List.map_filter f xs) = {y. \<exists>x \<in> set xs. f x = Some y}"
  by (induction xs) (auto simp: map_filter_simps split: option.split)

lemma fetch_hits_rows:
  assumes "h \<in> set (fetch_hits ms scores keep ordered)"
  shows "\<exists>m \<in> set ms. m_id m \<in> set keep \<and> m_id m \<in> set ordered \<and> h = hit_of m (the (map_of scores (m_id m)))"
proof -
  let ?rows = "map (\<lambda>m. (m_id m, m)) (filter (\<lambda>m. m_id m \<in> set keep) ms)"
  obtain i m where i: "i \<in> set ordered" "map_of ?rows i = Some m" "h = hit_of m (the (map_of scores i))"
    using assms by (auto simp: fetch_hits_def set_map_filter)
  have "m \<in> set ms \<and> m_id m = i \<and> i \<in> set keep" using map_of_SomeD [OF i(2)] by auto
  then show ?thesis using i by auto
qed

lemma fetch_hits_Cons:
  "fetch_hits ms scores keep (i # js) =
     (case map_of (map (\<lambda>m. (m_id m, m)) (filter (\<lambda>m. m_id m \<in> set keep) ms)) i of
        None \<Rightarrow> [] | Some m \<Rightarrow> [hit_of m (the (map_of scores i))]) @ fetch_hits ms scores keep js"
  by (simp add: fetch_hits_def map_filter_simps split: option.split)

lemma fetch_hits_distinct:
  "distinct ordered \<Longrightarrow> distinct (map h_memory_id (fetch_hits ms scores keep ordered))"
proof (induction ordered)
  case Nil
  then show ?case by (simp add: fetch_hits_def map_filter_simps)
next
  case (Cons i js)
  let ?rows = "map (\<lambda>m. (m_id m, m)) (filter (\<lambda>m. m_id m \<in> set keep) ms)"
  have tl: "distinct (map h_memory_id (fetch_hits ms scores keep js))" using Cons by simp
  have no: "h_memory_id h \<noteq> i" if "h \<in> set (fetch_hits ms scores keep js)" for h
    using fetch_hits_rows [OF that] Cons.prems by (auto simp: hit_of_def)
  show ?case
  proof (cases "map_of ?rows i")
    case None
    then show ?thesis using tl by (simp add: fetch_hits_Cons)
  next
    case (Some m)
    have "h_memory_id (hit_of m sc) = i" for sc
      using map_of_SomeD [OF Some] by (auto simp: hit_of_def)
    then show ?thesis using tl no by (auto simp: fetch_hits_Cons Some)
  qed
qed

lemma id_unique: "distinct (map m_id ms) \<Longrightarrow> m \<in> set ms \<Longrightarrow> m' \<in> set ms \<Longrightarrow> m_id m = m_id m' \<Longrightarrow> m = m'"
  by (simp add: distinct_map inj_on_def)

lemma distinct_ordered: "distinct (map fst (sorted_desc snd (rrf_fuse k pinned fl rankings)))"
  using distinct_rrf_fuse [of k pinned fl rankings]
  by (metis (no_types, lifting) distinct_map distinct_sorted_desc set_sorted_desc)

lemma search_hits:
  assumes "distinct (map m_id ms)"
  shows "length (hybrid_search pg s prs a p ms) \<le> sa_limit a \<and>
     sorted_wrt (\<lambda>x y. h_score y \<le> h_score x) (hybrid_search pg s prs a p ms) \<and>
     distinct (map h_memory_id (hybrid_search pg s prs a p ms)) \<and>
     (\<forall>h \<in> set (hybrid_search pg s prs a p ms). \<exists>m \<in> set ms. search_visible s a p m \<and> (\<exists>sc. h = hit_of m sc))"
proof (cases "hybrid_search pg s prs a p ms = []")
  case True
  then show ?thesis by simp
next
  case False
  let ?vs = "vector_ids pg s a p ms" and ?bs = "bm25_ids pg s (config_for_scopes prs p (sa_scopes a)) a p ms"
  obtain k pinned scores ordered keep where
    scores: "scores = rrf_fuse k pinned 1 (filter (\<lambda>r. r \<noteq> []) [?vs, ?bs])"
    and ordered: "ordered = map fst (sorted_desc snd scores)"
    and hits: "hybrid_search pg s prs a p ms = take (sa_limit a) (sorted_desc h_score (fetch_hits ms scores keep ordered))"
    using False unfolding hybrid_search_def Let_def by (auto split: if_splits)
  have vis: "\<exists>m' \<in> set ms. m_id m' = i \<and> search_visible s a p m'" if "i \<in> set ordered" for i
    using that fused_visible unfolding ordered scores by blast
  have "\<exists>m \<in> set ms. search_visible s a p m \<and> (\<exists>sc. h = hit_of m sc)"
    if hin: "h \<in> set (hybrid_search pg s prs a p ms)" for h
  proof -
    have "h \<in> set (fetch_hits ms scores keep ordered)" using hin unfolding hits by (auto dest: in_set_takeD)
    then obtain m where m: "m \<in> set ms" "m_id m \<in> set ordered" "h = hit_of m (the (map_of scores (m_id m)))"
      using fetch_hits_rows by blast
    obtain m' where m': "m' \<in> set ms" "m_id m' = m_id m" "search_visible s a p m'" using vis [OF m(2)] by blast
    have "m = m'" using id_unique [OF assms m(1) m'(1)] m'(2) by simp
    then show ?thesis using m m' by blast
  qed
  moreover have "distinct (map h_memory_id (fetch_hits ms scores keep ordered))"
    by (rule fetch_hits_distinct) (simp only: ordered scores distinct_ordered)
  then have "distinct (map h_memory_id (hybrid_search pg s prs a p ms))"
    unfolding hits by (simp add: distinct_map take_map [symmetric] inj_on_subset [OF _ set_take_sub(1)])
  moreover have "sorted_wrt (\<lambda>x y. h_score y \<le> h_score x) (hybrid_search pg s prs a p ms)"
    unfolding hits by (rule sorted_wrt_take [OF sorted_desc_sorted])
  moreover have "length (hybrid_search pg s prs a p ms) \<le> sa_limit a"
    by (simp add: hits)
  ultimately show ?thesis by blast
qed

text \<open>
  C7.  Hybrid search returns at most \<open>limit\<close> hits, best first and without repeats, and every hit is
  a live, approved memory of the principal's org (or any org for a superuser), at or below the
  requested sensitivity, trusted enough for it, and in one of the requested scopes.
\<close>

theorem hybrid_search_sound:
  assumes "distinct (map m_id ms)"
  shows "length (hybrid_search pg s prs a p ms) \<le> sa_limit a \<and>
     sorted_wrt (\<lambda>x y. h_score y \<le> h_score x) (hybrid_search pg s prs a p ms) \<and>
     distinct (map h_memory_id (hybrid_search pg s prs a p ms)) \<and>
     (\<forall>h \<in> set (hybrid_search pg s prs a p ms). \<exists>m \<in> set ms. (\<exists>sc. h = hit_of m sc) \<and>
        m_deleted_at m = None \<and> m_review_status m = APPROVED \<and> m_sensitivity m \<le> sa_max_sensitivity a \<and>
        (is_superuser p \<or> m_org_id m = p_org_id p) \<and>
        (trust_filtering s \<longrightarrow> (case trusts_allowed_for (sa_max_sensitivity a) of None \<Rightarrow> True | Some ts \<Rightarrow> m_trust m \<in> set ts)) \<and>
        (sa_scopes a = [] \<or> (m_scope_type m, m_scope_id m) \<in> (\<lambda>sf. (sf_type sf, sf_id sf)) ` set (sa_scopes a)))"
proof -
  have up_to: "x \<in> set (sensitivities_up_to y) \<Longrightarrow> x \<le> y" for x y
    unfolding sensitivities_up_to_def less_eq_sensitivity_def by (simp only: set_filter mem_Collect_eq)
  have "m_deleted_at m = None \<and> m_review_status m = APPROVED \<and> m_sensitivity m \<le> sa_max_sensitivity a \<and>
        (is_superuser p \<or> m_org_id m = p_org_id p) \<and>
        (trust_filtering s \<longrightarrow> (case trusts_allowed_for (sa_max_sensitivity a) of None \<Rightarrow> True | Some ts \<Rightarrow> m_trust m \<in> set ts)) \<and>
        (sa_scopes a = [] \<or> (m_scope_type m, m_scope_id m) \<in> (\<lambda>sf. (sf_type sf, sf_id sf)) ` set (sa_scopes a))"
    if "search_visible s a p m" for m
    using that up_to by (auto simp: search_visible_def in_scope_def)
  then show ?thesis using search_hits [OF assms] by blast
qed

lemma foreign_ids:
  assumes "distinct (map m_id (ms @ foreign))" and "I \<subseteq> m_id ` set ms"
  shows "filter (\<lambda>m. m_id m \<in> I \<and> P m) foreign = []" and "filter (\<lambda>m. m_id m \<in> I) foreign = []"
  using assms by (auto simp: filter_empty_conv)

lemma rankings_ignore_foreign:
  assumes "\<not> is_superuser p" and "\<forall>m \<in> set foreign. m_org_id m \<noteq> p_org_id p"
  shows "vector_ids pg s a p (ms @ foreign) = vector_ids pg s a p ms"
    and "bm25_ids pg s cfg a p (ms @ foreign) = bm25_ids pg s cfg a p ms"
proof -
  have "filter (\<lambda>m. P m \<and> search_visible s a p m) foreign = []" for P
    using assms by (auto simp: filter_empty_conv search_visible_def)
  then show "vector_ids pg s a p (ms @ foreign) = vector_ids pg s a p ms"
    and "bm25_ids pg s cfg a p (ms @ foreign) = bm25_ids pg s cfg a p ms"
    by (simp_all add: vector_ids_def bm25_ids_def split: option.split)
qed

lemma search_foreign:
  assumes "\<not> is_superuser p" and "\<forall>m \<in> set foreign. m_org_id m \<noteq> p_org_id p"
    and "distinct (map m_id (ms @ foreign))"
  shows "hybrid_search pg s prs a p (ms @ foreign) = hybrid_search pg s prs a p ms"
proof -
  let ?vs = "vector_ids pg s a p ms" and ?bs = "bm25_ids pg s (config_for_scopes prs p (sa_scopes a)) a p ms"
  note rank = rankings_ignore_foreign [OF assms(1,2)]
  have cand: "set ?vs \<union> set ?bs \<subseteq> m_id ` set ms"
    using vector_ids_visible bm25_ids_visible by fast
  have pinned: "filter (\<lambda>m. m_id m \<in> set ?vs \<union> set ?bs \<and> m_pinned m) (ms @ foreign) =
      filter (\<lambda>m. m_id m \<in> set ?vs \<union> set ?bs \<and> m_pinned m) ms"
    using foreign_ids(1) [OF assms(3) cand] by simp
  have fetch: "fetch_hits (ms @ foreign) sc (take n ordered) ordered' = fetch_hits ms sc (take n ordered) ordered'"
    if "ordered = map fst (sorted_desc snd (rrf_fuse k pin fl (filter (\<lambda>r. r \<noteq> []) [?vs, ?bs])))"
    for sc n ordered ordered' k pin fl
  proof -
    have "set (take n ordered) \<subseteq> m_id ` set ms"
      using fused_visible that by (fast dest: in_set_takeD)
    from foreign_ids(2) [OF assms(3) this] show ?thesis by (simp add: fetch_hits_def)
  qed
  show ?thesis
    unfolding hybrid_search_def Let_def rank pinned fetch [OF refl] by (rule refl)
qed

text \<open>
  Tenant isolation of search: rows of other orgs change neither which memories a search returns
  nor their scores, although the rows are fetched by id without an org filter.
\<close>

theorem search_ignores_other_tenants:
  assumes "\<not> is_superuser p" and "\<forall>m \<in> set foreign. m_org_id m \<noteq> p_org_id p"
    and "distinct (map m_id (ms @ foreign))"
  shows "hybrid_search pg s prs a p (ms @ foreign) = hybrid_search pg s prs a p ms"
  using search_foreign [OF assms] .


section \<open>Invariant of the tables\<close>

definition wf_db :: "db \<Rightarrow> bool" where
  "wf_db d \<longleftrightarrow> distinct (map m_id (memories d)) \<and> distinct (map m_public_id (memories d)) \<and>
     list_all (\<lambda>m. m_id m < next_memory_id d) (memories d) \<and>
     distinct (map (\<lambda>l. (l_from l, l_to l, l_type l)) (links d))"

text \<open>An update keeps the identity of a row when it changes neither its ids nor its org.\<close>

definition keeps_identity :: "(memory \<Rightarrow> memory) \<Rightarrow> bool" where
  "keeps_identity f \<longleftrightarrow> (\<forall>m. m_id (f m) = m_id m \<and> m_public_id (f m) = m_public_id m \<and> m_org_id (f m) = m_org_id m)"

lemma update_where_wf: "keeps_identity f \<Longrightarrow> wf_db d \<Longrightarrow> wf_db (update_where P f d)"
  by (auto simp: wf_db_def update_where_def keeps_identity_def comp_def if_distrib list_all_iff cong: if_cong)

lemma memory_create_wf:
  assumes "wf_db d" and "public_id \<notin> m_public_id ` set (memories d)"
  shows "wf_db (snd (memory_create p public_id now a d))"
proof -
  have "next_memory_id d \<notin> m_id ` set (memories d)"
    using assms(1) by (auto simp: wf_db_def list_all_iff)
  then show ?thesis
    using assms by (auto simp: wf_db_def memory_create_def Let_def list_all_iff)
qed

lemma apply_changes_identity: "keeps_identity (apply_changes c)"
  by (simp add: keeps_identity_def apply_changes_def set_opt_def split: option.split)

lemma embed_failure_identity: "keeps_identity (embed_failure err mx base now)"
  by (simp add: keeps_identity_def embed_failure_def Let_def)

lemma apply_decay_identity:
  "keeps_identity (\<lambda>m. set_opt t (\<lambda>t r. r\<lparr>m_tier := t\<rparr>) (m\<lparr>m_decay_score := x\<rparr>))"
  by (simp add: keeps_identity_def set_opt_def split: option.split)

lemmas identity_rules = apply_changes_identity embed_failure_identity apply_decay_identity

lemma link_create_wf: "wf_db d \<Longrightarrow> link_create now a b t w d = Inr (l, d') \<Longrightarrow> wf_db d'"
  by (auto simp: wf_db_def link_create_def Let_def split: if_splits)

lemma unlink_wf: "wf_db d \<Longrightarrow> wf_db (snd (unlink a b t d))"
  by (auto simp: wf_db_def unlink_def Let_def distinct_map_filter)

lemma org_rows_of_update:
  assumes "keeps_identity f" and "\<forall>m \<in> set (memories d). P m \<longrightarrow> m_org_id m \<noteq> org"
  shows "filter (\<lambda>m. m_org_id m = org) (memories (update_where P f d)) = filter (\<lambda>m. m_org_id m = org) (memories d)"
proof -
  have "filter (\<lambda>m. m_org_id m = org) (map (\<lambda>m. if P m then f m else m) ms) = filter (\<lambda>m. m_org_id m = org) ms"
    if "\<forall>m \<in> set ms. P m \<longrightarrow> m_org_id m \<noteq> org" for ms
    using that assms(1) by (induction ms) (auto simp: keeps_identity_def)
  then show ?thesis using assms(2) by (simp add: update_where_def)
qed


section \<open>The embedding queue\<close>

lemma in_update_where:
  assumes "m \<in> set (memories d)" and "P m"
  shows "f m \<in> set (memories (update_where P f d))"
  using assms by (auto simp: update_where_def)

lemma update_where_unique:
  assumes "distinct (map m_id (memories d))" and "keeps_identity f" and "m \<in> set (memories d)"
    and "r \<in> set (memories (update_where P f d))" and "m_id r = m_id m"
  shows "r = (if P m then f m else m)"
proof -
  obtain m' where m': "m' \<in> set (memories d)" "r = (if P m' then f m' else m')"
    using assms(4) by (auto simp: update_where_def)
  then have "m_id m' = m_id m"
    using assms(2,5) by (simp add: keeps_identity_def split: if_splits)
  then have "m' = m" using id_unique assms(1,3) m'(1) by blast
  then show ?thesis using m'(2) by simp
qed

definition reset_row :: "memory \<Rightarrow> memory" where
  "reset_row m = m\<lparr>m_embed_attempts := 0, m_embed_error := None, m_embed_failed_at := None, m_embed_next_attempt_at := None\<rparr>"

lemma reset_row_identity: "keeps_identity reset_row"
  by (simp add: keeps_identity_def reset_row_def)

lemma record_failure_eq:
  assumes "ids \<noteq> []"
  shows "record_embed_failure p ids err mx base now d =
     (length (filter (\<lambda>m. rd_parked (decide_retry (m_embed_attempts m) mx base now)) (list_by_ids ids p (memories d))),
      update_where (\<lambda>m. m_id m \<in> m_id ` set (list_by_ids ids p (memories d))) (embed_failure err mx base now) d)"
  using assms by (simp add: record_embed_failure_def Let_def)

lemma reset_eq:
  "snd (reset_embed_failures p None d) =
     update_where (\<lambda>m. m_id m \<in> m_id ` set (filter (\<lambda>m. live m \<and> m_embed_failed_at m \<noteq> None) (tenant_query p (memories d))))
       reset_row d"
proof (cases "filter (\<lambda>m. live m \<and> m_embed_failed_at m \<noteq> None) (tenant_query p (memories d)) = []")
  case True
  then show ?thesis by (simp add: reset_embed_failures_def update_where_def Let_def)
next
  case False
  then show ?thesis
    by (simp add: reset_embed_failures_def Let_def reset_row_def [abs_def])
qed

lemma pending_not_parked:
  "r \<in> set (list_pending_embedding s t limit p ms) \<Longrightarrow> m_embed_failed_at r = None \<and> due t r \<and> r \<in> set ms"
  by (auto simp: list_pending_embedding_def set_tenant_rows dest!: in_set_takeD)

text \<open>
  The write path cannot spin.  When a memory's last allowed attempt fails it is parked: it is
  counted as newly failed and no later poll, at any time and for any principal, hands it out.  Before
  that, a failed memory is not handed out until its backoff has passed.  Resetting the failures makes a
  parked memory eligible at once, with its attempts cleared.
\<close>

theorem embed_queue_parks:
  assumes wf: "wf_db d" and m: "m \<in> set (memories d)" "live m" "is_superuser p \<or> m_org_id m = p_org_id p"
    and ids: "m_id m \<in> set ids"
    and d1: "record_embed_failure p ids err mx base now d = (n, d1)"
  shows "(int (m_embed_attempts m) + 1 \<ge> mx \<longrightarrow>
       n \<ge> 1 \<and> (\<forall>t limit p'. m_id m \<notin> m_id ` set (list_pending_embedding s t limit p' (memories d1))) \<and>
       (\<exists>r \<in> set (memories (snd (reset_embed_failures p None d1))).
          m_id r = m_id m \<and> m_embed_attempts r = 0 \<and> m_embed_failed_at r = None \<and> (\<forall>t. due t r))) \<and>
     (int (m_embed_attempts m) + 1 < mx \<longrightarrow>
       (\<forall>t limit p'. t < now + min (base * 2 ^ m_embed_attempts m) max_backoff_seconds * 1000000 \<longrightarrow>
          m_id m \<notin> m_id ` set (list_pending_embedding s t limit p' (memories d1))))"
proof -
  let ?sel = "list_by_ids ids p (memories d)" and ?f = "embed_failure err mx base now"
  have dist: "distinct (map m_id (memories d))" using wf by (simp add: wf_db_def)
  have sel: "m \<in> set ?sel" using m ids by (auto simp: list_by_ids_def set_tenant_rows)
  have ne: "ids \<noteq> []" using ids by auto
  have d1': "d1 = update_where (\<lambda>m. m_id m \<in> m_id ` set ?sel) ?f d"
    and n: "n = length (filter (\<lambda>m. rd_parked (decide_retry (m_embed_attempts m) mx base now)) ?sel)"
    using d1 record_failure_eq [OF ne] by auto
  have row: "?f m \<in> set (memories d1)" unfolding d1' by (rule in_update_where [OF m(1)]) (rule imageI [OF sel])
  have only: "r = ?f m" if "r \<in> set (memories d1)" "m_id r = m_id m" for r
    using update_where_unique [OF dist embed_failure_identity m(1) that [unfolded d1']] sel by simp
  have dist1: "distinct (map m_id (memories d1))"
    using update_where_wf [OF embed_failure_identity wf] by (simp add: d1' wf_db_def)
  have pend: "m_id m \<notin> m_id ` set (list_pending_embedding s t limit p' (memories d1))"
    if "m_embed_failed_at (?f m) \<noteq> None \<or> \<not> due t (?f m)" for t limit p'
  proof
    assume "m_id m \<in> m_id ` set (list_pending_embedding s t limit p' (memories d1))"
    then obtain r where r: "r \<in> set (list_pending_embedding s t limit p' (memories d1))" "m_id r = m_id m"
      by (metis imageE)
    note np = pending_not_parked [OF r(1)]
    have "r = ?f m" using only np r(2) by blast
    then show False using np that by metis
  qed
  show ?thesis
  proof (intro conjI impI allI)
    assume park: "int (m_embed_attempts m) + 1 \<ge> mx"
    then have "m \<in> set (filter (\<lambda>m. rd_parked (decide_retry (m_embed_attempts m) mx base now)) ?sel)"
      using sel by simp
    then show "n \<ge> 1" unfolding n by (metis One_nat_def Suc_leI length_pos_if_in_set)
    have failed: "m_embed_failed_at (?f m) = Some now" "live (?f m)" "m_org_id (?f m) = m_org_id m" "m_id (?f m) = m_id m"
      using park m(2) by (simp_all add: embed_failure_def Let_def)
    then show "m_id m \<notin> m_id ` set (list_pending_embedding s t limit p' (memories d1))" for t limit p'
      using pend by simp
    let ?q = "filter (\<lambda>m. live m \<and> m_embed_failed_at m \<noteq> None) (tenant_query p (memories d1))"
    have "?f m \<in> set ?q" using row failed m(3) by (auto simp: set_tenant_rows)
    then have "reset_row (?f m) \<in> set (memories (snd (reset_embed_failures p None d1)))"
      unfolding reset_eq by (intro in_update_where [OF row] imageI)
    then show "\<exists>r \<in> set (memories (snd (reset_embed_failures p None d1))).
        m_id r = m_id m \<and> m_embed_attempts r = 0 \<and> m_embed_failed_at r = None \<and> (\<forall>t. due t r)"
      using failed(4) by (intro bexI) (auto simp: reset_row_def due_def)
  next
    fix t limit p'
    assume "int (m_embed_attempts m) + 1 < mx"
      and "t < now + min (base * 2 ^ m_embed_attempts m) max_backoff_seconds * 1000000"
    then have "\<not> due t (?f m)"
      by (simp add: embed_failure_def decide_retry_def Let_def due_def)
    then show "m_id m \<notin> m_id ` set (list_pending_embedding s t limit p' (memories d1))"
      using pend by simp
  qed
qed


section \<open>Analytics\<close>

lemma sum_class_sizes:
  assumes "finite A" and "f ` set rows \<subseteq> A"
  shows "(\<Sum>k \<in> A. count_where (\<lambda>r. f r = k) rows) = length rows"
  using assms(2)
proof (induction rows)
  case Nil
  then show ?case by (simp add: count_where_def)
next
  case (Cons r rows)
  have "count_where (\<lambda>r. f r = k) (r # rows) = (if f r = k then 1 else 0) + count_where (\<lambda>r. f r = k) rows" for k
    by (simp add: count_where_def)
  then have "(\<Sum>k \<in> A. count_where (\<lambda>r. f r = k) (r # rows)) =
      (\<Sum>k \<in> A. if f r = k then 1 else 0) + (\<Sum>k \<in> A. count_where (\<lambda>r. f r = k) rows)"
    by (simp add: sum.distrib)
  then show ?case using Cons assms(1) by (simp add: sum.delta')
qed

lemma group_counts_total: "sum_list (map snd (group_counts f rows)) = length rows"
proof -
  have "sum_list (map snd (group_counts f rows)) = (\<Sum>k \<in> set (map f rows). count_where (\<lambda>r. f r = k) rows)"
    by (simp add: group_counts_def comp_def sum_list_distinct_conv_sum_set)
  then show ?thesis using sum_class_sizes [of "set (map f rows)" f rows] by simp
qed

lemma day_pos: "day > 0"
  by (simp add: day_def)

lemma timeline_total:
  assumes "\<forall>m \<in> set rows. start * day \<le> m_created_at m \<and> day_number (m_created_at m) < start + int days"
  shows "sum_list (map (\<lambda>i. count_where (\<lambda>m. day_number (m_created_at m) = start + int i) rows) [0..<days]) = length rows"
proof -
  let ?f = "\<lambda>m. nat (day_number (m_created_at m) - start)"
  have ge: "start \<le> day_number (m_created_at m)" if "m \<in> set rows" for m
    using assms that day_pos by (simp add: day_number_def pos_imp_zdiv_nonneg_iff zdiv_mono1
        order_trans [OF _ zdiv_mono1 [of "start * day" "m_created_at m" day]])
  have "count_where (\<lambda>m. day_number (m_created_at m) = start + int i) rows = count_where (\<lambda>m. ?f m = i) rows" for i
    unfolding count_where_def using ge by (intro arg_cong [where f = length] filter_cong) auto
  then have "sum_list (map (\<lambda>i. count_where (\<lambda>m. day_number (m_created_at m) = start + int i) rows) [0..<days]) =
      (\<Sum>i \<in> {0..<days}. count_where (\<lambda>m. ?f m = i) rows)"
    by (simp add: sum_list_distinct_conv_sum_set)
  also have "\<dots> = length rows"
    using assms ge by (intro sum_class_sizes) fastforce+
  finally show ?thesis .
qed

lemma health_total:
  "count_where (\<lambda>m. m_decay_score m \<ge> 66 / 100) rows +
   count_where (\<lambda>m. m_decay_score m \<ge> 33 / 100 \<and> m_decay_score m < 66 / 100) rows +
   count_where (\<lambda>m. m_decay_score m < 33 / 100) rows = length rows"
  by (induction rows) (auto simp: count_where_def)

definition analytics_rows :: "scope_filter option \<Rightarrow> sensitivity option \<Rightarrow> principal \<Rightarrow> memory list \<Rightarrow> memory list" where
  "analytics_rows sc mx p ms = filter (\<lambda>m. live m \<and> opt_where sc (\<lambda>sf. in_scope sf m) \<and>
     opt_where mx (\<lambda>x. m_sensitivity m \<in> set (sensitivities_up_to x))) (tenant_query p ms)"

text \<open>
  The dashboard is consistent: the tier, kind and sensitivity breakdowns and the three health
  buckets each add up to the number of memories counted, the timeline has one entry per day and, when no
  memory is dated in the future, adds up to the memories created in those days.
\<close>

theorem analytics_consistent:
  assumes "\<forall>m \<in> set ms. m_created_at m \<le> now"
  shows "let a = analytics now sc mx days top_n p ms in
     sum_list (map snd (an_by_tier a)) = an_count a \<and>
     sum_list (map snd (an_by_kind a)) = an_count a \<and>
     sum_list (map snd (an_by_sensitivity a)) = an_count a \<and>
     (case an_decay_health a of (healthy, aging, faded) \<Rightarrow> healthy + aging + faded = an_count a) \<and>
     length (an_timeline a) = days \<and>
     sum_list (an_timeline a) =
       length (filter (\<lambda>m. m_created_at m \<ge> (now div day - (int days - 1)) * day) (analytics_rows sc mx p ms))"
proof -
  let ?rows = "analytics_rows sc mx p ms"
  let ?start = "day_number now - (int days - 1)"
  have sub: "set ?rows \<subseteq> set ms" by (auto simp: analytics_rows_def set_tenant_rows)
  have "day_number (m_created_at m) < ?start + int days" if "m \<in> set ?rows" for m
    using zdiv_mono1 [OF _ day_pos, of "m_created_at m" now] assms sub that by (fastforce simp: day_number_def)
  then have "sum_list (map (\<lambda>i. count_where (\<lambda>m. day_number (m_created_at m) = ?start + int i)
      (filter (\<lambda>m. m_created_at m \<ge> ?start * day) ?rows)) [0..<days]) =
      length (filter (\<lambda>m. m_created_at m \<ge> ?start * day) ?rows)"
    by (intro timeline_total) auto
  then show ?thesis
    using health_total [of ?rows]
    by (simp add: analytics_def Let_def group_counts_total analytics_rows_def [symmetric] day_number_def [symmetric])
qed


section \<open>A concrete database\<close>

definition empty_db :: db where
  "empty_db = \<lparr>memories = [], links = [], orgs = [], workspaces = [], projects = [], audit_rows = [], next_memory_id = 1,
     next_org_id = 1, next_workspace_id = 1, next_project_id = 1\<rparr>"

definition sample_args :: create_args where
  "sample_args = \<lparr>ca_scope_type = PROJECT, ca_scope_id = 5, ca_body = ''queue on redis'', ca_title = ''queue'',
     ca_kind = FACT, ca_sensitivity = INTERNAL, ca_source_type = MANUAL, ca_source_ref = None,
     ca_importance = 1 / 2, ca_pinned = False, ca_metadata = None, ca_expires_at = None,
     ca_embedding = None, ca_embedding_model = None, ca_created_by = None, ca_content_hash = None,
     ca_trust = HIGH, ca_pii_flags = [], ca_review_status = APPROVED, ca_review_reason = None,
     ca_confidence = None, ca_ts_config = DEFAULT_TS_CONFIG\<rparr>"

definition member_of :: "int \<Rightarrow> principal" where
  "member_of org = (superuser_principal org)\<lparr>actor_id := 7, actor_kind := USER, is_superuser := False,
     max_sensitivity := INTERNAL, roles := [(\<lparr>ref_type = PROJECT, ref_id = 5\<rparr>, MEMBER)]\<rparr>"

definition sample_db :: db where
  "sample_db = snd (memory_create (member_of 1) ''a'' 100 sample_args empty_db)"

definition foreign_memory :: memory where
  "foreign_memory = fst (memory_create (member_of 2) ''b'' 100 sample_args sample_db)"

definition plain_engine :: pg_engine where
  "plain_engine = \<lparr>vector_distance = (\<lambda>_ _. 0), ts_matches = (\<lambda>_ _ _ _. True), jsonb_text = (\<lambda>_. []),
     ts_rank_cd = (\<lambda>_ _ _ _. 1)\<rparr>"

definition sample_search :: search_args where
  "sample_search = \<lparr>sa_query = ''redis'', sa_vector = None, sa_scopes = [], sa_max_sensitivity = INTERNAL,
     sa_top_k_vector = None, sa_top_k_bm25 = None, sa_rrf_k = None, sa_limit = 5\<rparr>"


lemma hybrid_search_sound_witness:
  "hybrid_search plain_engine default_settings [] sample_search (member_of 1) (memories sample_db) \<noteq> [] \<and>
   length (hybrid_search plain_engine default_settings [] sample_search (member_of 1) (memories sample_db)) \<le> 5"
proof
  show "hybrid_search plain_engine default_settings [] sample_search (member_of 1) (memories sample_db) \<noteq> []"
    by code_simp
  have "distinct (map m_id (memories sample_db))" "sa_limit sample_search = 5" by code_simp+
  then show "length (hybrid_search plain_engine default_settings [] sample_search (member_of 1) (memories sample_db)) \<le> 5"
    using hybrid_search_sound by metis
qed

lemma search_ignores_other_tenants_witness:
  "length (hybrid_search plain_engine default_settings [] sample_search (member_of 1)
     (memories sample_db @ [foreign_memory])) = 1"
proof -
  have "\<not> is_superuser (member_of 1)" "\<forall>m \<in> set [foreign_memory]. m_org_id m \<noteq> p_org_id (member_of 1)"
    "distinct (map m_id (memories sample_db @ [foreign_memory]))"
    "length (hybrid_search plain_engine default_settings [] sample_search (member_of 1) (memories sample_db)) = 1"
    by code_simp+
  then show ?thesis using search_ignores_other_tenants by metis
qed

lemma embed_queue_parks_witness:
  "1 \<notin> m_id ` set (list_pending_embedding default_settings 200 10 (superuser_principal 1)
     (memories (snd (record_embed_failure (superuser_principal 1) [1] ''boom'' 1 60 150 sample_db))))"
proof -
  let ?m = "hd (memories sample_db)"
  obtain n d1 where d1: "record_embed_failure (superuser_principal 1) [1] ''boom'' 1 60 150 sample_db = (n, d1)"
    by fastforce
  have h: "wf_db sample_db" "?m \<in> set (memories sample_db)" "live ?m"
      "is_superuser (superuser_principal 1) \<or> m_org_id ?m = p_org_id (superuser_principal 1)"
      "m_id ?m \<in> set [1]" "int (m_embed_attempts ?m) + 1 \<ge> 1" "m_id ?m = 1"
    by code_simp+
  show ?thesis using embed_queue_parks [OF h(1-5) d1] h(6,7) d1 by simp
qed

lemma analytics_consistent_witness:
  "an_count (analytics 100 None None 14 5 (member_of 1) (memories sample_db)) = 1 \<and>
   sum_list (map snd (an_by_tier (analytics 100 None None 14 5 (member_of 1) (memories sample_db)))) = 1"
proof -
  have "\<forall>m \<in> set (memories sample_db). m_created_at m \<le> 100"
    "an_count (analytics 100 None None 14 5 (member_of 1) (memories sample_db)) = 1"
    by code_simp+
  then show ?thesis using analytics_consistent [of "memories sample_db" 100] by (simp add: Let_def)
qed

end
