(* ===== verification/Recall_Budget.thy ===== *)
theory Recall_Budget
  imports Kortex_Types
begin

text \<open>
  \<^verbatim>\<open>retrieval/budget.py\<close>: the caller's latency and token budget, what one recall reports as spent, the
  price of a model call and the decision whether to spend a planner call at all.  The reading of
  \<open>time.perf_counter()\<close> (in seconds) is an argument of the operations that take it.
\<close>

section \<open>Definitions\<close>

record recall_budget =
  latency_ms :: int
  tokens :: int
  start :: real

definition has_latency_cap :: "recall_budget \<Rightarrow> bool" where
  "has_latency_cap b = (latency_ms b > 0)"

definition has_token_cap :: "recall_budget \<Rightarrow> bool" where
  "has_token_cap b = (tokens b > 0)"

definition elapsed_ms :: "recall_budget \<Rightarrow> real \<Rightarrow> real" where
  "elapsed_ms b now = (now - start b) * 1000"

definition remaining_ms :: "recall_budget \<Rightarrow> real \<Rightarrow> real option" where
  "remaining_ms b now =
     (if \<not> has_latency_cap b then None else Some (real_of_int (latency_ms b) - elapsed_ms b now))"

definition has_headroom :: "recall_budget \<Rightarrow> real \<Rightarrow> real \<Rightarrow> bool" where
  "has_headroom b now need_ms =
     (case remaining_ms b now of None \<Rightarrow> True | Some r \<Rightarrow> r \<ge> need_ms)"

definition tokens_remaining :: "recall_budget \<Rightarrow> int \<Rightarrow> int option" where
  "tokens_remaining b spent = (if \<not> has_token_cap b then None else Some (max 0 (tokens b - spent)))"

definition affords_tokens :: "recall_budget \<Rightarrow> int \<Rightarrow> int \<Rightarrow> bool" where
  "affords_tokens b spent need =
     (case tokens_remaining b spent of None \<Rightarrow> True | Some r \<Rightarrow> r \<ge> need)"

record llm_response =
  lr_text :: string
  lr_structured :: "(string \<times> json) list option"
  lr_model :: string
  lr_tokens_in :: nat
  lr_tokens_out :: nat

record recall_usage =
  u_mode :: string
  u_tokens_in :: nat
  u_tokens_out :: nat
  u_llm_calls :: nat
  u_plan_steps :: nat
  u_hops :: nat
  u_latency_ms :: real
  u_cost_usd :: "real option"
  u_budget_exhausted :: bool

definition fresh_usage :: recall_usage where
  "fresh_usage = \<lparr>u_mode = ''hybrid'', u_tokens_in = 0, u_tokens_out = 0, u_llm_calls = 0,
     u_plan_steps = 0, u_hops = 0, u_latency_ms = 0, u_cost_usd = None, u_budget_exhausted = False\<rparr>"

definition total_tokens :: "recall_usage \<Rightarrow> nat" where
  "total_tokens u = u_tokens_in u + u_tokens_out u"

text \<open>\<open>prices\<close> maps a model id to its list of prices per million tokens.\<close>

definition price_usd :: "(string \<times> real list) list \<Rightarrow> string \<Rightarrow> nat \<Rightarrow> nat \<Rightarrow> real option" where
  "price_usd prices model tokens_in tokens_out =
     (case dict_get prices model of
        Some (p_in # p_out # _) \<Rightarrow> Some ((real tokens_in * p_in + real tokens_out * p_out) / 1000000)
      | _ \<Rightarrow> None)"

definition record_usage :: "(string \<times> real list) list \<Rightarrow> llm_response \<Rightarrow> recall_usage \<Rightarrow> recall_usage" where
  "record_usage prices resp u =
     (let u' = u\<lparr>u_llm_calls := u_llm_calls u + 1,
                 u_tokens_in := u_tokens_in u + lr_tokens_in resp,
                 u_tokens_out := u_tokens_out u + lr_tokens_out resp\<rparr>
      in case price_usd prices (lr_model resp) (lr_tokens_in resp) (lr_tokens_out resp) of
           None \<Rightarrow> u'
         | Some cost \<Rightarrow>
             u'\<lparr>u_cost_usd := Some ((case u_cost_usd u of None \<Rightarrow> 0 | Some c \<Rightarrow> c) + cost)\<rparr>)"

definition should_plan :: "recall_budget \<Rightarrow> real \<Rightarrow> bool \<Rightarrow> bool \<Rightarrow> int \<Rightarrow> int \<Rightarrow> bool \<times> string" where
  "should_plan b now planner_available agentic_enabled min_budget_ms min_budget_tokens =
     (if \<not> agentic_enabled then (False, ''agentic retrieval disabled by configuration'')
      else if \<not> planner_available then (False, ''planner unavailable; ran plain hybrid retrieval'')
      else if has_latency_cap b \<and> \<not> has_headroom b now (real_of_int min_budget_ms) then
        (False, ''latency budget '' @ show_int (latency_ms b) @ ''ms below the '' @ show_int min_budget_ms @
           ''ms a planner round trip needs; ran plain hybrid retrieval'')
      else if has_token_cap b \<and> \<not> affords_tokens b 0 min_budget_tokens then
        (False, ''token budget '' @ show_int (tokens b) @ '' below the '' @ show_int min_budget_tokens @
           '' a planner round trip needs; ran plain hybrid retrieval'')
      else (True, []))"


section \<open>Lemmas\<close>

lemmas budget_defs =
  has_latency_cap_def has_token_cap_def elapsed_ms_def remaining_ms_def has_headroom_def
  tokens_remaining_def affords_tokens_def

lemma headroom_antimono:
  "has_headroom b now' need \<Longrightarrow> now \<le> now' \<Longrightarrow> has_headroom b now need"
  by (auto simp: budget_defs split: if_splits)

lemma headroom_uncapped: "latency_ms b \<le> 0 \<Longrightarrow> has_headroom b now need"
  by (simp add: budget_defs)

lemma record_usage_tokens:
  "total_tokens (record_usage prices resp u) = total_tokens u + lr_tokens_in resp + lr_tokens_out resp"
  by (simp add: record_usage_def total_tokens_def Let_def split: option.split)

lemma record_usage_calls: "u_llm_calls (record_usage prices resp u) = u_llm_calls u + 1"
  by (simp add: record_usage_def Let_def split: option.split)

lemma record_usage_cost:
  "u_cost_usd (record_usage prices resp u) =
     (case price_usd prices (lr_model resp) (lr_tokens_in resp) (lr_tokens_out resp) of
        None \<Rightarrow> u_cost_usd u
      | Some c \<Rightarrow> Some ((case u_cost_usd u of None \<Rightarrow> 0 | Some c0 \<Rightarrow> c0) + c))"
  by (simp add: record_usage_def Let_def split: option.split)

text \<open>
  The planner is called exactly when it is enabled, available, and both budget dimensions leave
  room for it (an unset dimension always does); and the decision always explains a refusal: the
  reason is empty if and only if planning goes ahead.
\<close>

theorem should_plan_iff:
  "(fst (should_plan b now avail enabled ms toks) \<longleftrightarrow>
      enabled \<and> avail \<and>
      (latency_ms b > 0 \<longrightarrow> (now - start b) * 1000 + real_of_int ms \<le> real_of_int (latency_ms b)) \<and>
      (tokens b > 0 \<longrightarrow> toks \<le> tokens b)) \<and>
   (snd (should_plan b now avail enabled ms toks) = [] \<longleftrightarrow> fst (should_plan b now avail enabled ms toks))"
  by (auto simp: should_plan_def budget_defs algebra_simps max_def)

theorem should_plan_iff_witness:
  "fst (should_plan \<lparr>latency_ms = 300, tokens = 0, start = 0\<rparr> 0 True True 1500 1024) = False \<and>
   fst (should_plan \<lparr>latency_ms = 0, tokens = 0, start = 0\<rparr> 9 True True 1500 1024) = True"
  using should_plan_iff [of "\<lparr>latency_ms = 300, tokens = 0, start = 0\<rparr>" 0 True True 1500 1024]
    should_plan_iff [of "\<lparr>latency_ms = 0, tokens = 0, start = 0\<rparr>" 9 True True 1500 1024]
  by simp

text \<open>
  Usage accounting over a whole recall: folding any sequence of model responses counts every call
  and every token, and the reported cost is absent if and only if no response came from a priced
  model, so an unpriced deployment never reports a cost of zero.
\<close>

theorem usage_accounting:
  "let u = fold (record_usage prices) resps fresh_usage in
     u_llm_calls u = length resps \<and>
     total_tokens u = sum_list (map (\<lambda>r. lr_tokens_in r + lr_tokens_out r) resps) \<and>
     (u_cost_usd u = None \<longleftrightarrow>
        list_all (\<lambda>r. price_usd prices (lr_model r) (lr_tokens_in r) (lr_tokens_out r) = None) resps)"
proof -
  have "let u' = fold (record_usage prices) resps u in
     u_llm_calls u' = u_llm_calls u + length resps \<and>
     total_tokens u' = total_tokens u + sum_list (map (\<lambda>r. lr_tokens_in r + lr_tokens_out r) resps) \<and>
     (u_cost_usd u' = None \<longleftrightarrow> u_cost_usd u = None \<and>
        list_all (\<lambda>r. price_usd prices (lr_model r) (lr_tokens_in r) (lr_tokens_out r) = None) resps)" for u
  proof (induction resps arbitrary: u)
    case Nil
    then show ?case by simp
  next
    case (Cons r rs)
    show ?case
      using Cons [of "record_usage prices r u"]
      by (auto simp: Let_def record_usage_calls record_usage_tokens record_usage_cost split: option.splits)
  qed
  from this [of fresh_usage] show ?thesis
    by (simp add: Let_def fresh_usage_def total_tokens_def)
qed

end
