(* ===== verification/Conflicts.thy ===== *)
theory Conflicts
  imports Memory_Store Recall_Budget
begin

text \<open>
  Conflicting memories: the judge that turns a model's verdicts into links
  (\<^verbatim>\<open>skills/conflict_judge.py\<close>) and the read side that annotates and reorders a page of hits
  (\<^verbatim>\<open>retrieval/conflicts.py\<close>).  The model is a function from a call to its response or the exception it
  raises; the system prompts are three fixed texts, named rather than quoted.
\<close>

section \<open>Definitions\<close>

subsection \<open>Model calls\<close>

datatype system_prompt = PLANNER_SYSTEM | SUMMARIZER_SYSTEM | JUDGE_SYSTEM | CONSOLIDATOR_SYSTEM | CONVERSATION_SYSTEM nat

record llm_call =
  lc_system :: system_prompt
  lc_user :: string
  lc_model :: string
  lc_max_tokens :: nat
  lc_schema :: bool

type_synonym llm = "llm_call \<Rightarrow> llm_response result"

subsection \<open>The judge\<close>

record conflict_candidate =
  cc_memory_id :: int
  cc_public_id :: string
  cc_title :: string
  cc_body :: string
  cc_created_at :: time

record conflict_verdict =
  cv_memory_id :: int
  cv_relation :: string
  cv_confidence :: real
  cv_reason :: string

definition render_candidates :: "conflict_candidate \<Rightarrow> conflict_candidate list \<Rightarrow> string" where
  "render_candidates incoming existing =
     py_join [newline, newline]
       ([''NEW memory:'', py_strip (cc_title incoming @ newline # cc_body incoming), [], ''EXISTING memories:''] @
        map (\<lambda>(i, c). py_strip (''['' @ show_nat i @ ''] '' @ cc_title c @ newline # cc_body c)) (List.enumerate 0 existing))"

text \<open>\<open>(payload or {}).get("verdicts") or []\<close>, iterated.\<close>

definition verdict_rows :: "(string \<times> json) list option \<Rightarrow> json list result" where
  "verdict_rows payload =
     (case (case payload of None \<Rightarrow> None | Some d \<Rightarrow> dict_get d ''verdicts'') of
        None \<Rightarrow> Inr []
      | Some v \<Rightarrow>
          (case v of
             JList xs \<Rightarrow> Inr xs
           | JNull \<Rightarrow> Inr []
           | JStr s \<Rightarrow> Inr (map (\<lambda>c. JStr [c]) s)
           | JObj kvs \<Rightarrow> Inr (map (\<lambda>(k, _). JStr k) kvs)
           | JBool b \<Rightarrow> if b then Inl (TypeError ''bool object is not iterable'') else Inr []
           | JInt i \<Rightarrow> if i = 0 then Inr [] else Inl (TypeError ''int object is not iterable'')
           | JFloat x \<Rightarrow> if x = 0 then Inr [] else Inl (TypeError ''float object is not iterable'')))"

text \<open>\<open>confidence < min_confidence\<close> and \<open>min(1.0, max(0.0, confidence))\<close>; comparisons with NaN are false.\<close>

fun below :: "py_float \<Rightarrow> real \<Rightarrow> bool" where
  "below (Finite x) m = (x < m)"
| "below (Infinite negative) m = negative"
| "below NotANumber m = False"

fun clamp_unit :: "py_float \<Rightarrow> real" where
  "clamp_unit (Finite x) = min 1 (max 0 x)"
| "clamp_unit (Infinite negative) = (if negative then 0 else 1)"
| "clamp_unit NotANumber = 0"

definition parse_row :: "(json \<Rightarrow> string) \<Rightarrow> conflict_candidate list \<Rightarrow> real \<Rightarrow> json \<Rightarrow> conflict_verdict option result" where
  "parse_row to_str existing min_confidence raw =
     (case raw of
        JObj d \<Rightarrow>
          (case (dict_get d ''relation'', dict_get d ''index'') of
             (Some (JStr relation), Some (JInt index)) \<Rightarrow>
               if relation \<notin> {''contradicts'', ''supersedes''} then Inr None
               else if \<not> (0 \<le> index \<and> index < int (length existing)) then Inr None
               else
                 (case py_to_float (case dict_get d ''confidence'' of None \<Rightarrow> JFloat 0 | Some v \<Rightarrow> v) of
                    Inl (OverflowError e) \<Rightarrow> Inl (OverflowError e)
                  | Inl _ \<Rightarrow> Inr None
                  | Inr confidence \<Rightarrow>
                      if below confidence min_confidence then Inr None
                      else Inr (Some \<lparr>cv_memory_id = cc_memory_id (existing ! nat index), cv_relation = relation,
                             cv_confidence = clamp_unit confidence,
                             cv_reason = take 200 (case dict_get d ''reason'' of
                               None \<Rightarrow> [] | Some (JStr s) \<Rightarrow> s | Some v \<Rightarrow> to_str v)\<rparr>))
           | _ \<Rightarrow> Inr None)
      | _ \<Rightarrow> Inr None)"

fun parse_rows :: "(json \<Rightarrow> string) \<Rightarrow> conflict_candidate list \<Rightarrow> real \<Rightarrow> json list \<Rightarrow> conflict_verdict list result" where
  "parse_rows to_str existing m [] = Inr []"
| "parse_rows to_str existing m (raw # rows) =
     (case parse_row to_str existing m raw of
        Inl e \<Rightarrow> Inl e
      | Inr v \<Rightarrow> (case parse_rows to_str existing m rows of
                   Inl e \<Rightarrow> Inl e
                 | Inr vs \<Rightarrow> Inr ((case v of None \<Rightarrow> [] | Some x \<Rightarrow> [x]) @ vs)))"

definition parse_verdicts ::
    "(json \<Rightarrow> string) \<Rightarrow> (string \<times> json) list option \<Rightarrow> conflict_candidate list \<Rightarrow> real \<Rightarrow> conflict_verdict list result" where
  "parse_verdicts to_str payload existing min_confidence =
     (case verdict_rows payload of Inl e \<Rightarrow> Inl e | Inr rows \<Rightarrow> parse_rows to_str existing min_confidence rows)"

text \<open>\<open>own\<close> is the model the judge was built with, \<open>registered\<close> what the registry resolves.\<close>

definition llm_judge ::
    "settings \<Rightarrow> (json \<Rightarrow> string) \<Rightarrow> llm option \<Rightarrow> llm option \<Rightarrow> conflict_candidate \<Rightarrow> conflict_candidate list
     \<Rightarrow> conflict_verdict list result" where
  "llm_judge s to_str own registered incoming existing =
     (if existing = [] then Inr []
      else case (case own of Some l \<Rightarrow> Some l | None \<Rightarrow> registered) of
             None \<Rightarrow> Inr []
           | Some l \<Rightarrow>
               (case l \<lparr>lc_system = JUDGE_SYSTEM, lc_user = render_candidates incoming existing,
                        lc_model = llm_model_summarizer s, lc_max_tokens = 600, lc_schema = True\<rparr> of
                  Inl (LlmError _) \<Rightarrow> Inr []
                | Inl e \<Rightarrow> Inl e
                | Inr resp \<Rightarrow> parse_verdicts to_str (lr_structured resp) existing (conflict_min_confidence s)))"

subsection \<open>Annotating a page\<close>

definition is_stale_marker :: "conflict_note \<Rightarrow> bool" where
  "is_stale_marker n = (cn_relation n = ''superseded_by'')"

definition demote_superseded :: "'a list \<Rightarrow> int list \<Rightarrow> ('a \<Rightarrow> int) \<Rightarrow> 'a list" where
  "demote_superseded items demoted key =
     (if demoted = [] then items
      else filter (\<lambda>i. key i \<notin> set demoted) items @ filter (\<lambda>i. key i \<in> set demoted) items)"

text \<open>The two readings of a link: anchor, other side, relation from the anchor's point of view.\<close>

definition link_edges :: "memory_link \<Rightarrow> (int \<times> int \<times> string) list" where
  "link_edges l =
     (let sup = (l_type l = SUPERSEDES)
      in [(l_from l, l_to l, if sup then ''supersedes'' else ''contradicts''),
          (l_to l, l_from l, if sup then ''superseded_by'' else ''contradicts'')])"

definition describe :: "(int \<times> memory) list \<Rightarrow> int \<Rightarrow> string \<Rightarrow> conflict_note option" where
  "describe rows other relation =
     map_option (\<lambda>m. \<lparr>cn_public_id = m_public_id m, cn_title = m_title m, cn_relation = relation,
                       cn_created_at = m_created_at m\<rparr>) (map_of rows other)"

definition note_edge ::
    "int list \<Rightarrow> (int \<times> memory) list \<Rightarrow> int \<times> int \<times> string \<Rightarrow> (int \<times> conflict_note list) list \<times> int list
     \<Rightarrow> (int \<times> conflict_note list) list \<times> int list" where
  "note_edge present rows = (\<lambda>(anchor, other, relation) (notes, demoted).
     if anchor \<notin> set present then (notes, demoted)
     else case describe rows other relation of
            None \<Rightarrow> (notes, demoted)
          | Some n \<Rightarrow>
              (AList.update anchor ((case map_of notes anchor of None \<Rightarrow> [] | Some ns \<Rightarrow> ns) @ [n]) notes,
               if relation = ''superseded_by'' \<and> other \<in> set present then demoted @ [anchor] else demoted))"

definition annotate_conflicts :: "principal \<Rightarrow> db \<Rightarrow> hybrid_hit list \<Rightarrow> hybrid_hit list \<times> int list" where
  "annotate_conflicts p d hits =
     (if hits = [] then ([], [])
      else
        let present = remdups (map h_memory_id hits);
            ls = conflict_links present (links d)
        in if ls = [] then (hits, [])
           else
             let referenced = sort (remdups (map l_from ls @ map l_to ls));
                 rows = map (\<lambda>m. (m_id m, m)) (list_by_ids referenced p (memories d));
                 (notes, demoted) = fold (note_edge present rows) (concat (map link_edges ls)) (map (\<lambda>i. (i, [])) present, [])
             in (map (\<lambda>h. h\<lparr>h_conflicts := (case map_of notes (h_memory_id h) of None \<Rightarrow> [] | Some ns \<Rightarrow> ns)\<rparr>) hits, demoted))"

definition annotated_page :: "settings \<Rightarrow> principal \<Rightarrow> db \<Rightarrow> hybrid_hit list \<Rightarrow> hybrid_hit list" where
  "annotated_page s p d hits =
     (if conflict_detection s
      then (let (hits', demoted) = annotate_conflicts p d hits in demote_superseded hits' demoted h_memory_id)
      else hits)"


section \<open>Verdicts\<close>

lemma clamp_unit_range: "0 \<le> clamp_unit c \<and> clamp_unit c \<le> 1"
  by (cases c) auto

lemma clamp_keeps_threshold: "\<not> below c m \<Longrightarrow> c \<noteq> NotANumber \<Longrightarrow> m \<le> 1 \<Longrightarrow> m \<le> clamp_unit c"
  by (cases c) auto

text \<open>What one accepted row says: a known relation, a candidate of the page, a clamped confidence.\<close>

definition verdict_ok :: "conflict_candidate list \<Rightarrow> real \<Rightarrow> json list \<Rightarrow> conflict_verdict \<Rightarrow> bool" where
  "verdict_ok existing m rows v \<longleftrightarrow>
     cv_relation v \<in> {''contradicts'', ''supersedes''} \<and> cv_memory_id v \<in> cc_memory_id ` set existing \<and>
     0 \<le> cv_confidence v \<and> cv_confidence v \<le> 1 \<and> length (cv_reason v) \<le> 200 \<and>
     (cv_confidence v < m \<longrightarrow> (\<exists>d w. JObj d \<in> set rows \<and> dict_get d ''confidence'' = Some w \<and> py_to_float w = Inr NotANumber))"

lemma verdict_ok_mono: "verdict_ok existing m rows v \<Longrightarrow> set rows \<subseteq> set rows' \<Longrightarrow> verdict_ok existing m rows' v"
  unfolding verdict_ok_def by blast

lemma parse_row_ok:
  assumes "parse_row to_str existing m raw = Inr (Some v)" and "m \<le> 1"
  shows "verdict_ok existing m [raw] v"
proof -
  obtain d where d: "raw = JObj d" using assms(1) by (cases raw) (auto simp: parse_row_def)
  obtain r i where ri: "dict_get d ''relation'' = Some (JStr r)" "dict_get d ''index'' = Some (JInt i)"
    using assms(1) d by (auto simp: parse_row_def split: option.splits json.splits)
  let ?w = "case dict_get d ''confidence'' of None \<Rightarrow> JFloat 0 | Some w \<Rightarrow> w"
  have rel: "r \<in> {''contradicts'', ''supersedes''}" and idx: "0 \<le> i" "i < int (length existing)"
    using assms(1) d ri by (auto simp: parse_row_def split: if_splits)
  obtain c where c: "py_to_float ?w = Inr c"
    using assms(1) d ri rel idx by (cases "py_to_float ?w") (auto simp: parse_row_def split: py_error.splits)
  have v: "\<not> below c m" "cv_memory_id v = cc_memory_id (existing ! nat i)" "cv_relation v = r" "cv_confidence v = clamp_unit c"
    "length (cv_reason v) \<le> 200"
    using assms(1) d ri rel idx c by (auto simp: parse_row_def split: if_splits)
  have "\<exists>w. dict_get d ''confidence'' = Some w \<and> py_to_float w = Inr NotANumber" if "clamp_unit c < m"
  proof -
    have "c = NotANumber" using that clamp_keeps_threshold [OF v(1)] assms(2) by force
    then show ?thesis using c by (cases "dict_get d ''confidence''") (auto simp: py_to_float_def)
  qed
  moreover have "nat i < length existing" using idx by linarith
  ultimately show ?thesis using v rel d clamp_unit_range [of c] by (auto simp: verdict_ok_def)
qed

lemma parse_rows_ok:
  "parse_rows to_str existing m rows = Inr vs \<Longrightarrow> m \<le> 1 \<Longrightarrow> v \<in> set vs \<Longrightarrow> verdict_ok existing m rows v"
proof (induction rows arbitrary: vs)
  case (Cons raw rows)
  obtain w vs' where w: "parse_row to_str existing m raw = Inr w" "parse_rows to_str existing m rows = Inr vs'"
    "vs = (case w of None \<Rightarrow> [] | Some x \<Rightarrow> [x]) @ vs'"
    using Cons.prems(1) by (auto split: sum.splits)
  show ?case
  proof (cases "v \<in> set vs'")
    case True
    then show ?thesis using Cons.IH [OF w(2) Cons.prems(2)] by (auto intro: verdict_ok_mono)
  next
    case False
    then have "w = Some v" using w(3) Cons.prems(3) by (auto split: option.splits)
    then show ?thesis using parse_row_ok w(1) Cons.prems(2) by (fastforce intro: verdict_ok_mono)
  qed
qed simp

lemma judge_verdict_ok:
  assumes "llm_judge s to_str own registered incoming existing = Inr vs" and "conflict_min_confidence s \<le> 1" and v: "v \<in> set vs"
  shows "\<exists>l resp rows. (own = Some l \<or> own = None \<and> registered = Some l) \<and>
       l \<lparr>lc_system = JUDGE_SYSTEM, lc_user = render_candidates incoming existing,
          lc_model = llm_model_summarizer s, lc_max_tokens = 600, lc_schema = True\<rparr> = Inr resp \<and>
       verdict_rows (lr_structured resp) = Inr rows \<and> verdict_ok existing (conflict_min_confidence s) rows v"
proof -
  let ?call = "\<lparr>lc_system = JUDGE_SYSTEM, lc_user = render_candidates incoming existing,
          lc_model = llm_model_summarizer s, lc_max_tokens = 600, lc_schema = True\<rparr>"
  have ne: "existing \<noteq> []" using assms(1) v by (auto simp: llm_judge_def)
  obtain l where l: "(case own of Some l \<Rightarrow> Some l | None \<Rightarrow> registered) = Some l"
    using assms(1) v ne by (auto simp: llm_judge_def split: option.splits)
  obtain resp where resp: "l ?call = Inr resp"
    using assms(1) v ne l by (cases "l ?call") (auto simp: llm_judge_def split: py_error.splits)
  obtain rows where rows: "verdict_rows (lr_structured resp) = Inr rows"
    "parse_rows to_str existing (conflict_min_confidence s) rows = Inr vs"
    using assms(1) ne l resp by (auto simp: llm_judge_def parse_verdicts_def split: sum.splits)
  have "own = Some l \<or> own = None \<and> registered = Some l" using l by (auto split: option.splits)
  then show ?thesis using resp rows parse_rows_ok [OF rows(2) assms(2) v] by blast
qed

text \<open>
  The judge never invents a conflict.  Whatever the model answers, every verdict names one of the
  candidates it was shown, is a contradiction or a supersession, has a confidence between 0 and 1 and
  at most 200 characters of reason; its confidence reaches the configured threshold unless the model
  wrote a not-a-number.  Without candidates, without a model, and when the model fails, there is none.
\<close>

theorem judge_sound:
  assumes "llm_judge s to_str own registered incoming existing = Inr vs" and "conflict_min_confidence s \<le> 1"
  shows "(\<forall>v \<in> set vs. \<exists>l resp rows. (own = Some l \<or> own = None \<and> registered = Some l) \<and>
       l \<lparr>lc_system = JUDGE_SYSTEM, lc_user = render_candidates incoming existing,
          lc_model = llm_model_summarizer s, lc_max_tokens = 600, lc_schema = True\<rparr> = Inr resp \<and>
       verdict_rows (lr_structured resp) = Inr rows \<and> verdict_ok existing (conflict_min_confidence s) rows v) \<and>
     (existing = [] \<longrightarrow> vs = [])"
  using judge_verdict_ok [OF assms(1,2)] assms(1) by (auto simp: llm_judge_def)

lemma judge_sound_witness:
  "\<exists>l c vs v. llm_judge default_settings (\<lambda>_. []) (Some l) None c [c] = Inr vs \<and> v \<in> set vs \<and>
     cv_memory_id v = cc_memory_id c \<and> cv_relation v = ''supersedes'' \<and> 0 \<le> cv_confidence v \<and> cv_confidence v \<le> 1"
proof -
  let ?row = "JObj [(''relation'', JStr ''supersedes''), (''index'', JInt 0), (''confidence'', JFloat (9 / 10))]"
  let ?l = "\<lambda>_ :: llm_call. Inr \<lparr>lr_text = [], lr_structured = Some [(''verdicts'', JList [?row])],
      lr_model = [], lr_tokens_in = 0, lr_tokens_out = 0\<rparr>"
  let ?c = "\<lparr>cc_memory_id = 7, cc_public_id = ''m'', cc_title = ''q'', cc_body = ''x'', cc_created_at = 0\<rparr>"
  let ?v = "\<lparr>cv_memory_id = 7, cv_relation = ''supersedes'', cv_confidence = 9 / 10, cv_reason = []\<rparr>"
  have run: "llm_judge default_settings (\<lambda>_. []) (Some ?l) None ?c [?c] = Inr [?v]"
    by (simp add: llm_judge_def parse_verdicts_def verdict_rows_def parse_row_def dict_get_def py_to_float_def default_settings_def)
  then have "\<exists>rows. verdict_ok [?c] (conflict_min_confidence default_settings) rows ?v"
    using judge_sound [OF run] by (auto simp: default_settings_def)
  then have "0 \<le> cv_confidence ?v \<and> cv_confidence ?v \<le> 1"
    by (auto simp: verdict_ok_def)
  then show ?thesis
    by (intro exI [of _ ?l] exI [of _ ?c] exI [of _ "[?v]"] exI [of _ ?v]) (use run in simp)
qed

text \<open>A confidence of \<open>"nan"\<close> is below no threshold: the verdict is kept, with confidence 0.\<close>

lemma nan_confidence_passes:
  "parse_row to_str [c] m (JObj [(''relation'', JStr ''supersedes''), (''index'', JInt 0), (''confidence'', JStr ''nan'')]) =
     Inr (Some \<lparr>cv_memory_id = cc_memory_id c, cv_relation = ''supersedes'', cv_confidence = 0, cv_reason = []\<rparr>)"
proof -
  have "signed unsigned_float negate_float (py_lower (py_strip ''nan'')) = Some NotANumber" by code_simp
  then show ?thesis by (simp add: parse_row_def dict_get_def py_to_float_def)
qed

text \<open>A \<open>verdicts\<close> field that is a number is iterated, and the judge raises.\<close>

lemma malformed_verdicts_raise: "parse_verdicts to_str (Some [(''verdicts'', JInt 3)]) existing m = Inl (TypeError ''int object is not iterable'')"
  by (simp add: parse_verdicts_def verdict_rows_def dict_get_def)


section \<open>A page shows its conflicts\<close>

abbreviation conflict_link :: "memory_link \<Rightarrow> bool" where
  "conflict_link l \<equiv> l_type l \<in> {SUPERSEDES, CONTRADICTS}"

definition visible_row :: "principal \<Rightarrow> db \<Rightarrow> int \<Rightarrow> memory option" where
  "visible_row p d i = find (\<lambda>m. m_id m = i) (tenant_query p (memories d))"

definition note_of :: "memory \<Rightarrow> string \<Rightarrow> conflict_note" where
  "note_of m relation = \<lparr>cn_public_id = m_public_id m, cn_title = m_title m, cn_relation = relation, cn_created_at = m_created_at m\<rparr>"

text \<open>The reference: the notes of one memory, read off the link table.\<close>

definition expected_notes :: "principal \<Rightarrow> db \<Rightarrow> int \<Rightarrow> conflict_note list" where
  "expected_notes p d i =
     List.map_filter (\<lambda>(anchor, other, relation).
         if anchor = i then map_option (\<lambda>m. note_of m relation) (visible_row p d other) else None)
       (concat (map link_edges (filter conflict_link (links d))))"

definition superseded_in :: "principal \<Rightarrow> db \<Rightarrow> int set \<Rightarrow> int \<Rightarrow> bool" where
  "superseded_in p d page i \<longleftrightarrow>
     (\<exists>l \<in> set (links d). l_type l = SUPERSEDES \<and> l_to l = i \<and> l_from l \<in> page \<and> visible_row p d (l_from l) \<noteq> None)"

lemma map_of_rows: "map_of (map (\<lambda>m. (m_id m, m)) ms) i = find (\<lambda>m. m_id m = i) ms"
  by (induction ms) auto

lemma find_filter: "(\<And>x. P x \<Longrightarrow> Q x) \<Longrightarrow> find P (filter Q xs) = find P xs"
  by (induction xs) auto

lemma find_in: "find P xs = Some y \<Longrightarrow> y \<in> set xs \<and> P y"
  by (induction xs) (auto split: if_splits)

lemma list_by_ids_row:
  assumes "i \<in> set ids"
  shows "map_of (map (\<lambda>m. (m_id m, m)) (list_by_ids ids p (memories d))) i = visible_row p d i"
proof -
  have "ids \<noteq> []" using assms by auto
  then show ?thesis
    unfolding map_of_rows list_by_ids_def visible_row_def
    using assms find_filter [of "\<lambda>m. m_id m = i" "\<lambda>m. m_id m \<in> set ids"] by auto
qed

definition edge_note :: "int list \<Rightarrow> (int \<times> memory) list \<Rightarrow> int \<Rightarrow> int \<times> int \<times> string \<Rightarrow> conflict_note option" where
  "edge_note present rows i = (\<lambda>(anchor, other, relation).
     if anchor = i \<and> i \<in> set present then describe rows other relation else None)"

lemma note_edge_step:
  "note_edge present rows (a, ot, r) (ns, dem) =
     (if a \<in> set present \<and> map_of rows ot \<noteq> None
      then (AList.update a ((case map_of ns a of None \<Rightarrow> [] | Some xs \<Rightarrow> xs) @ [the (describe rows ot r)]) ns,
            if r = ''superseded_by'' \<and> ot \<in> set present then dem @ [a] else dem)
      else (ns, dem))"
  by (auto simp: note_edge_def describe_def)

lemma fold_notes:
  "(case map_of (fst (fold (note_edge present rows) es (ns0, dem))) i of None \<Rightarrow> [] | Some ns \<Rightarrow> ns) =
     (case map_of ns0 i of None \<Rightarrow> [] | Some ns \<Rightarrow> ns) @ List.map_filter (edge_note present rows i) es"
proof (induction es arbitrary: ns0 dem)
  case Nil
  then show ?case by (simp add: map_filter_simps)
next
  case (Cons e es)
  obtain a ot r where e: "e = (a, ot, r)" by (metis prod_cases3)
  show ?case
    by (cases "map_of rows ot") (simp_all add: Cons e note_edge_step edge_note_def describe_def map_filter_simps split: option.split)
qed

lemma fold_demoted:
  "set (snd (fold (note_edge present rows) es (ns0, dem))) =
     set dem \<union> {a. \<exists>ot. (a, ot, ''superseded_by'') \<in> set es \<and> a \<in> set present \<and> ot \<in> set present \<and> map_of rows ot \<noteq> None}"
proof (induction es arbitrary: ns0 dem)
  case (Cons e es)
  obtain a ot r where e: "e = (a, ot, r)" by (metis prod_cases3)
  show ?case
  proof (cases "a \<in> set present \<and> map_of rows ot \<noteq> None \<and> r = ''superseded_by'' \<and> ot \<in> set present")
    case True
    then show ?thesis by (auto simp: Cons e note_edge_step)
  next
    case False
    then have "snd (note_edge present rows e (ns0, dem)) = dem" by (auto simp: e note_edge_step)
    then obtain ns1 where ns1: "note_edge present rows e (ns0, dem) = (ns1, dem)" by (metis prod.collapse)
    have "\<not> (a \<in> set present \<and> ot \<in> set present \<and> map_of rows ot \<noteq> None) \<or> r \<noteq> ''superseded_by''" using False by blast
    then have "(\<exists>ot'. (x, ot', ''superseded_by'') \<in> set (e # es) \<and> x \<in> set present \<and> ot' \<in> set present \<and> map_of rows ot' \<noteq> None) \<longleftrightarrow>
        (\<exists>ot'. (x, ot', ''superseded_by'') \<in> set es \<and> x \<in> set present \<and> ot' \<in> set present \<and> map_of rows ot' \<noteq> None)" for x
      unfolding e set_simps insert_iff prod.inject by blast
    then show ?thesis unfolding fold_simps ns1 Cons by blast
  qed
qed simp

lemma map_filter_cong2: "(\<And>x. x \<in> set xs \<Longrightarrow> f x = g x) \<Longrightarrow> List.map_filter f xs = List.map_filter g xs"
  by (induction xs) (auto simp: map_filter_simps split: option.split)

lemma map_filter_concat_filter:
  assumes "\<And>l e. l \<in> set ls \<Longrightarrow> \<not> P l \<Longrightarrow> e \<in> set (g l) \<Longrightarrow> f e = None"
  shows "List.map_filter f (concat (map g (filter P ls))) = List.map_filter f (concat (map g ls))"
proof -
  have app: "List.map_filter f (xs @ ys) = List.map_filter f xs @ List.map_filter f ys" for xs ys
    by (induction xs) (auto simp: map_filter_simps split: option.split)
  have none: "List.map_filter f xs = []" if "\<And>e. e \<in> set xs \<Longrightarrow> f e = None" for xs
    using that by (induction xs) (auto simp: map_filter_simps)
  show ?thesis
    using assms
  proof (induction ls)
    case (Cons l ls)
    have "List.map_filter f (concat (map g (filter P ls))) = List.map_filter f (concat (map g ls))"
      using Cons.prems by (intro Cons.IH) auto
    moreover have "\<not> P l \<Longrightarrow> List.map_filter f (g l) = []" using Cons.prems by (intro none) auto
    ultimately show ?case by (simp add: app)
  qed (simp add: map_filter_simps)
qed

lemma in_edges:
  "(a, ot, r) \<in> set (concat (map link_edges ls)) \<longleftrightarrow>
     (\<exists>l \<in> set ls. (a = l_from l \<and> ot = l_to l \<and> r = (if l_type l = SUPERSEDES then ''supersedes'' else ''contradicts'')) \<or>
       (a = l_to l \<and> ot = l_from l \<and> r = (if l_type l = SUPERSEDES then ''superseded_by'' else ''contradicts'')))"
  by (auto simp: link_edges_def Let_def)

lemma conflict_links_filter: "ids \<noteq> [] \<Longrightarrow> conflict_links ids ls = filter (\<lambda>l. l_from l \<in> set ids \<or> l_to l \<in> set ids) (filter conflict_link ls)"
  by (simp add: conflict_links_def conj_commute)

lemma annotate_eq:
  assumes "\<forall>h \<in> set hits. h_conflicts h = []"
  shows "fst (annotate_conflicts p d hits) = map (\<lambda>h. h\<lparr>h_conflicts := expected_notes p d (h_memory_id h)\<rparr>) hits"
    and "set (snd (annotate_conflicts p d hits)) = {i \<in> h_memory_id ` set hits. superseded_in p d (h_memory_id ` set hits) i}"
proof -
  let ?present = "remdups (map h_memory_id hits)"
  let ?ls = "conflict_links ?present (links d)"
  let ?rows = "map (\<lambda>m. (m_id m, m)) (list_by_ids (sort (remdups (map l_from ?ls @ map l_to ?ls))) p (memories d))"
  let ?es = "concat (map link_edges ?ls)"
  let ?st = "fold (note_edge ?present ?rows) ?es (map (\<lambda>i. (i, [])) ?present, [])"
  have rows: "map_of ?rows ot = visible_row p d ot" if "(a, ot, r) \<in> set ?es" for a ot r
    using that unfolding in_edges by (intro list_by_ids_row) auto
  have spec: "List.map_filter (edge_note ?present ?rows i) ?es = expected_notes p d i" if "i \<in> set ?present" for i
  proof -
    have ne: "?present \<noteq> []" using that by auto
    have "List.map_filter (edge_note ?present ?rows i) ?es = List.map_filter (\<lambda>(anchor, other, relation).
        if anchor = i then map_option (\<lambda>m. note_of m relation) (visible_row p d other) else None) ?es"
    proof (rule map_filter_cong2)
      fix e
      assume e: "e \<in> set ?es"
      obtain a ot r where aor: "e = (a, ot, r)" by (metis prod_cases3)
      then show "edge_note ?present ?rows i e = (case e of (anchor, other, relation) \<Rightarrow>
          if anchor = i then map_option (\<lambda>m. note_of m relation) (visible_row p d other) else None)"
        using rows [of a ot r] e that by (simp add: edge_note_def describe_def note_of_def)
    qed
    also have "\<dots> = expected_notes p d i"
      unfolding expected_notes_def conflict_links_filter [OF ne]
      using that by (intro map_filter_concat_filter) (auto simp: link_edges_def Let_def)
    finally show ?thesis .
  qed
  have dem: "set (snd ?st) = {i \<in> h_memory_id ` set hits. superseded_in p d (h_memory_id ` set hits) i}" if "hits \<noteq> []"
  proof -
    have ne: "?present \<noteq> []" using that by simp
    have es: "(a, ot, ''superseded_by'') \<in> set ?es \<longleftrightarrow>
        (\<exists>l \<in> set (links d). l_type l = SUPERSEDES \<and> l_to l = a \<and> l_from l = ot \<and> (a \<in> set ?present \<or> ot \<in> set ?present))" for a ot
      unfolding in_edges conflict_links_filter [OF ne] by auto
    have "a \<in> set (snd ?st) \<longleftrightarrow> (\<exists>ot. (a, ot, ''superseded_by'') \<in> set ?es \<and> a \<in> set ?present \<and> ot \<in> set ?present \<and> visible_row p d ot \<noteq> None)" for a
      unfolding fold_demoted set_simps Un_empty_left mem_Collect_eq
      by (intro ex_cong1 conj_cong refl) (drule rows, simp only:)
    then show ?thesis unfolding es superseded_in_def set_remdups set_map by blast
  qed
  have unfold: "annotate_conflicts p d hits =
      (map (\<lambda>h. h\<lparr>h_conflicts := (case map_of (fst ?st) (h_memory_id h) of None \<Rightarrow> [] | Some ns \<Rightarrow> ns)\<rparr>) hits, snd ?st)"
  proof (cases "hits = [] \<or> ?ls = []")
    case True
    then have ls: "?ls = []" by (auto simp: conflict_links_def)
    have none: "(case map_of (map (\<lambda>i. (i, [])) ?present) i of None \<Rightarrow> [] | Some ns \<Rightarrow> ns) = []" for i
      by (simp add: map_of_map_restrict restrict_map_def)
    have same: "h\<lparr>h_conflicts := []\<rparr> = h" if "h \<in> set hits" for h using that assms by (cases h) auto
    have "annotate_conflicts p d hits = (hits, [])" using ls by (simp add: annotate_conflicts_def Let_def)
    moreover have "map (\<lambda>h. h\<lparr>h_conflicts := []\<rparr>) hits = hits" using same by (simp add: map_idI)
    ultimately show ?thesis unfolding ls by (simp add: none)
  next
    case False
    then show ?thesis by (simp add: annotate_conflicts_def Let_def split_def)
  qed
  have "(case map_of (fst ?st) i of None \<Rightarrow> [] | Some ns \<Rightarrow> ns) = expected_notes p d i" if "i \<in> set ?present" for i
    unfolding fold_notes spec [OF that] by (simp add: map_of_map_restrict restrict_map_def)
  then show "fst (annotate_conflicts p d hits) = map (\<lambda>h. h\<lparr>h_conflicts := expected_notes p d (h_memory_id h)\<rparr>) hits"
    unfolding unfold by simp
  show "set (snd (annotate_conflicts p d hits)) = {i \<in> h_memory_id ` set hits. superseded_in p d (h_memory_id ` set hits) i}"
  proof (cases "hits = []")
    case True
    then show ?thesis by (simp add: annotate_conflicts_def)
  next
    case False
    then show ?thesis unfolding unfold snd_conv using dem by blast
  qed
qed

text \<open>
  C37.  Conflicts are surfaced and nothing is hidden.  With conflict detection on, a page of fresh hits
  comes back with the same memories; each carries exactly the notes the link table gives it, whether or
  not the other side is on the page; and the memories superseded by another memory of the page follow
  all others, each group in its original order.
\<close>

theorem conflicts_surfaced:
  assumes "conflict_detection s" and "\<forall>h \<in> set hits. h_conflicts h = []"
  shows "let old = (\<lambda>h. superseded_in p d (h_memory_id ` set hits) (h_memory_id h));
             noted = (\<lambda>h. h\<lparr>h_conflicts := expected_notes p d (h_memory_id h)\<rparr>)
     in annotated_page s p d hits = map noted (filter (\<lambda>h. \<not> old h) hits @ filter old hits) \<and>
        mset (map h_public_id (annotated_page s p d hits)) = mset (map h_public_id hits)"
proof -
  let ?old = "\<lambda>h. superseded_in p d (h_memory_id ` set hits) (h_memory_id h)"
  let ?noted = "\<lambda>h. h\<lparr>h_conflicts := expected_notes p d (h_memory_id h)\<rparr>"
  obtain hits' dem where ann: "annotate_conflicts p d hits = (hits', dem)" by fastforce
  have hits': "hits' = map ?noted hits" and dem: "set dem = {i \<in> h_memory_id ` set hits. superseded_in p d (h_memory_id ` set hits) i}"
    using annotate_eq [OF assms(2), of p d] unfolding ann by simp_all
  have part: "demote_superseded xs dem key = filter (\<lambda>x. key x \<notin> set dem) xs @ filter (\<lambda>x. key x \<in> set dem) xs"
    for xs :: "hybrid_hit list" and key
    by (simp add: demote_superseded_def)
  have in_dem: "h_memory_id h \<in> set dem \<longleftrightarrow> ?old h" if "h \<in> set hits" for h using that dem by auto
  have "annotated_page s p d hits = map ?noted (filter (\<lambda>h. \<not> ?old h) hits @ filter ?old hits)"
  proof -
    have "filter (\<lambda>h. h_memory_id h \<in> set dem) hits = filter ?old hits"
      "filter (\<lambda>h. h_memory_id h \<notin> set dem) hits = filter (\<lambda>h. \<not> ?old h) hits"
      using in_dem by (auto intro: filter_cong)
    then show ?thesis using assms(1) by (simp add: annotated_page_def ann hits' part filter_map comp_def)
  qed
  moreover from this have "mset (map h_public_id (annotated_page s p d hits)) = mset (map h_public_id hits)"
    by (simp add: comp_def) (metis image_mset_union multiset_partition mset_filter union_commute)
  ultimately show ?thesis by (simp add: Let_def)
qed

definition queue_db :: db where
  "queue_db = (let m = hd (memories sample_db)
     in sample_db\<lparr>memories := [m\<lparr>m_id := 1\<rparr>, m\<lparr>m_id := 2, m_public_id := ''newer''\<rparr>],
          links := [\<lparr>l_from = 2, l_to = 1, l_type = SUPERSEDES, l_weight = 1, l_created_at = 0\<rparr>]\<rparr>)"

abbreviation queue_page :: "hybrid_hit list" where
  "queue_page \<equiv> map (\<lambda>m. hit_of m 1) (memories queue_db)"

lemma conflicts_surfaced_witness:
  "map h_memory_id (annotated_page default_settings (member_of 1) queue_db queue_page) = [2, 1] \<and>
   mset (map h_public_id (annotated_page default_settings (member_of 1) queue_db queue_page)) = mset (map h_public_id queue_page)"
proof
  show "map h_memory_id (annotated_page default_settings (member_of 1) queue_db queue_page) = [2, 1]" by code_simp
  have "conflict_detection default_settings" by (simp add: default_settings_def)
  moreover have "\<forall>h \<in> set queue_page. h_conflicts h = []" by (simp add: hit_of_def)
  ultimately show "mset (map h_public_id (annotated_page default_settings (member_of 1) queue_db queue_page)) = mset (map h_public_id queue_page)"
    using conflicts_surfaced [of default_settings queue_page "member_of 1" queue_db] by (metis (no_types, lifting))
qed

text \<open>
  A note is written about any memory of the org that a conflict link names: its sensitivity, its review
  status and its deletion are not looked at, so a caller reads the title of a memory that every other
  read denies.
\<close>

lemma note_ignores_visibility:
  assumes "wf_db d" and "m \<in> set (memories d)" and "m_org_id m = p_org_id p"
    and "l \<in> set (links d)" and "l_type l = SUPERSEDES" and "l_from l = m_id m"
  shows "note_of m ''superseded_by'' \<in> set (expected_notes p d (l_to l))"
proof -
  have dist: "distinct (map m_id (memories d))" using assms(1) by (simp add: wf_db_def)
  have m: "m \<in> set (tenant_query p (memories d))" using assms(2,3) by (simp add: set_tenant_rows)
  obtain m' where "find (\<lambda>x. m_id x = m_id m) (tenant_query p (memories d)) = Some m'"
    using m by (cases "find (\<lambda>x. m_id x = m_id m) (tenant_query p (memories d))") (auto simp: find_None_iff)
  moreover from this have "m' \<in> set (memories d)" "m_id m' = m_id m"
    using find_in by (fastforce simp: set_tenant_rows)+
  ultimately have row: "visible_row p d (m_id m) = Some m"
    using id_unique [OF dist _ assms(2)] by (simp add: visible_row_def)
  have "(l_to l, m_id m, ''superseded_by'') \<in> set (concat (map link_edges (filter conflict_link (links d))))"
    unfolding in_edges using assms(4-6) by auto
  then show ?thesis unfolding expected_notes_def set_map_filter using row by (intro CollectI bexI) auto
qed

end
