(* ===== verification/Pii_Detector.thy ===== *)
theory Pii_Detector
  imports Regex_Match "HOL-Library.Product_Lexorder"
begin

text \<open>
  \<^verbatim>\<open>skills/pii_detector.py\<close>: the checksums (Luhn, IBAN mod 97, the SSN structure rules), the patterns
  with the detector that runs them, overlap removal, redaction and the per-kind counts.
\<close>

section \<open>Definitions\<close>

subsection \<open>Checksums\<close>

definition str_isdigit :: "string \<Rightarrow> bool" where
  "str_isdigit s = (s \<noteq> [] \<and> list_all py_isdigit s)"

definition luhn_value :: "nat \<Rightarrow> nat \<Rightarrow> char \<Rightarrow> nat" where
  "luhn_value parity index c =
     (let value = digit_val c
      in if index mod 2 = parity then (if value * 2 > 9 then value * 2 - 9 else value * 2) else value)"

fun luhn_total :: "nat \<Rightarrow> nat \<Rightarrow> string \<Rightarrow> nat" where
  "luhn_total parity index [] = 0"
| "luhn_total parity index (c # cs) = luhn_value parity index c + luhn_total parity (Suc index) cs"

definition luhn_valid :: "string \<Rightarrow> bool" where
  "luhn_valid digits =
     (if \<not> str_isdigit digits \<or> \<not> (12 \<le> length digits \<and> length digits \<le> 19) then False
      else luhn_total (length digits mod 2) 0 digits mod 10 = 0)"

text \<open>\<open>int(c, 36)\<close> on an upper-case letter or digit.\<close>

definition int36 :: "char \<Rightarrow> nat" where
  "int36 c = (if py_isdigit c then digit_val c else code c - 55)"

abbreviation upper_re :: regex where
  "upper_re \<equiv> CharSet py_isupper"

abbreviation upnum_re :: regex where
  "upnum_re \<equiv> CharSet (\<lambda>c. py_isupper c \<or> py_isdigit c)"

definition iban_shape :: regex where
  "iban_shape = seq_all [Rep upper_re 2 2 True, Rep digit_re 2 2 True, Rep upnum_re 10 30 True]"

definition iban_valid :: "string \<Rightarrow> bool" where
  "iban_valid candidate =
     (let compact = py_upper (remove_char CHR '' '' candidate)
      in if \<not> re_fullmatch iban_shape compact then False
         else let rotated = drop 4 compact @ take 4 compact;
                  numeric = concat (map (\<lambda>c. show_nat (int36 c)) rotated)
              in parse_nat numeric mod 97 = 1)"

definition ssn_plausible :: "string \<Rightarrow> bool" where
  "ssn_plausible candidate =
     (let digits = remove_char CHR '' '' (remove_char CHR ''-'' candidate)
      in if length digits \<noteq> 9 \<or> \<not> str_isdigit digits then False
         else let area = take 3 digits; group = take 2 (drop 3 digits); serial = drop 5 digits
              in if area \<in> {''000'', ''666''} \<or> startswith area ''9'' then False
                 else group \<noteq> ''00'' \<and> serial \<noteq> ''0000'')"

subsection \<open>Patterns\<close>

abbreviation opt_sep :: regex where
  "opt_sep \<equiv> Rep (CharSet (\<lambda>c. c = CHR '' '' \<or> c = CHR ''-'')) 0 1 True"

definition email_re :: regex where
  "email_re = seq_all [WordB,
     RepInf (CharSet (\<lambda>c. is_word_char c \<or> c \<in> {CHR ''.'', CHR ''%'', CHR ''+'', CHR ''-''})) 1,
     lit ''@'', RepInf (CharSet (\<lambda>c. py_isalnum c \<or> c \<in> {CHR ''.'', CHR ''-''})) 1,
     lit ''.'', RepInf (CharSet py_isalpha) 2, WordB]"

definition card_re :: regex where
  "card_re = seq_all [WordB, digit_re, Rep (Seq opt_sep digit_re) 11 18 True, WordB]"

definition iban_re :: regex where
  "iban_re = seq_all [WordB, Rep upper_re 2 2 True, Rep digit_re 2 2 True,
     Rep (Seq (Rep (lit '' '') 0 1 True) (Rep upnum_re 4 4 True)) 2 7 True,
     Rep (lit '' '') 0 1 True, Rep upnum_re 1 4 True, WordB]"

definition ssn_re :: regex where
  "ssn_re = seq_all [WordB, Rep digit_re 3 3 True, lit ''-'', Rep digit_re 2 2 True, lit ''-'',
     Rep digit_re 4 4 True, WordB]"

definition phone_re :: regex where
  "phone_re = seq_all [lit ''+'', Rep digit_re 1 3 True, opt_sep, Rep (lit ''('') 0 1 True,
     Rep digit_re 2 4 True, Rep (lit '')'') 0 1 True, opt_sep, Rep digit_re 3 4 True, opt_sep,
     Rep digit_re 3 4 True, WordB]"

definition ipv4_re :: regex where
  "ipv4_re = seq_all [WordB, Rep (Seq (Rep digit_re 1 3 True) (lit ''.'')) 3 3 True,
     Rep digit_re 1 3 True, WordB]"

abbreviation token_re :: regex where
  "token_re \<equiv> CharSet (\<lambda>c. py_isalnum c \<or> c = CHR ''_'' \<or> c = CHR ''-'')"

definition secret_re :: regex where
  "secret_re = seq_all [WordB, alt_all [
     Seq (lit ''sk-'') (RepInf token_re 16),
     Seq (lit ''sk-ant-'') (RepInf token_re 16),
     Seq (lit ''kx_'') (RepInf token_re 16),
     seq_all [lit ''gh'', CharSet (\<lambda>c. c \<in> set ''pousr''), lit ''_'', RepInf (CharSet py_isalnum) 16],
     seq_all [lit ''xox'', CharSet (\<lambda>c. c \<in> set ''baprs''), lit ''-'',
              RepInf (CharSet (\<lambda>c. py_isalnum c \<or> c = CHR ''-'')) 10],
     Seq (lit ''AKIA'') (Rep upnum_re 16 16 True),
     Seq (lit ''AIza'') (Rep token_re 35 35 True),
     Seq (lit ''glpat-'') (RepInf token_re 20)], WordB]"

definition private_v4 :: regex where
  "private_v4 = alt_all [lit ''10.'', lit ''127.'', lit ''192.168.'', lit ''169.254.'',
     seq_all [lit ''172.'', alt_all [Seq (lit ''1'') (CharSet (\<lambda>c. c \<in> set ''6789'')),
       Seq (lit ''2'') digit_re, Seq (lit ''3'') (CharSet (\<lambda>c. c \<in> set ''01''))], lit ''.'']]"

subsection \<open>The detector\<close>

record pii_match =
  pm_kind :: string
  pm_start :: nat
  pm_end :: nat
  pm_value :: string

definition spans_of :: "string \<Rightarrow> (string \<Rightarrow> bool) \<Rightarrow> regex \<Rightarrow> string \<Rightarrow> pii_match list" where
  "spans_of kind ok r s =
     filter (\<lambda>m. ok (pm_value m))
       (map (\<lambda>(i, j). \<lparr>pm_kind = kind, pm_start = i, pm_end = j, pm_value = take (j - i) (drop i s)\<rparr>)
          (re_finditer r s))"

definition public_ip :: "string \<Rightarrow> bool" where
  "public_ip raw =
     (let octets = split_on CHR ''.'' raw
      in \<not> list_ex (\<lambda>o'. parse_nat o' > 255) octets \<and> re_match_at private_v4 [] raw = None)"

definition strip_seps :: "string \<Rightarrow> string" where
  "strip_seps raw = filter (\<lambda>c. c \<noteq> CHR '' '' \<and> c \<noteq> CHR ''-'') raw"

fun keep_loop :: "pii_match list \<Rightarrow> pii_match list \<Rightarrow> pii_match list" where
  "keep_loop kept [] = kept"
| "keep_loop kept (m # ms) =
     (if kept \<noteq> [] \<and> pm_start m < pm_end (last kept) then keep_loop kept ms
      else keep_loop (kept @ [m]) ms)"

definition dedupe_overlaps :: "pii_match list \<Rightarrow> pii_match list" where
  "dedupe_overlaps matches =
     keep_loop [] (sort_key (\<lambda>m. (int (pm_start m), - (int (pm_end m) - int (pm_start m)))) matches)"

definition pii_raw :: "string \<Rightarrow> pii_match list" where
  "pii_raw s =
     spans_of ''email'' (\<lambda>_. True) email_re s @
     spans_of ''secret'' (\<lambda>_. True) secret_re s @
     spans_of ''card'' (\<lambda>raw. luhn_valid (strip_seps raw)) card_re s @
     spans_of ''iban'' iban_valid iban_re s @
     spans_of ''ssn'' ssn_plausible ssn_re s @
     spans_of ''phone'' (\<lambda>_. True) phone_re s @
     spans_of ''ip'' public_ip ipv4_re s"

definition pii_scan :: "string \<Rightarrow> pii_match list" where
  "pii_scan s = (if s = [] then [] else dedupe_overlaps (pii_raw s))"

definition placeholder :: "string \<Rightarrow> string" where
  "placeholder kind = ''[redacted:'' @ kind @ '']''"

definition redact :: "string \<Rightarrow> pii_match list \<Rightarrow> string" where
  "redact s matches =
     fold (\<lambda>m out. take (pm_start m) out @ placeholder (pm_kind m) @ drop (pm_end m) out)
       (sorted_desc (\<lambda>m. real (pm_start m)) matches) s"

definition summarise :: "pii_match list \<Rightarrow> (string \<times> nat) list" where
  "summarise matches =
     fold (\<lambda>m counts. AList.update (pm_kind m)
        ((case map_of counts (pm_kind m) of None \<Rightarrow> 0 | Some n \<Rightarrow> n) + 1) counts) matches []"

text \<open>The reference for redaction: copy the gaps from left to right, replace the spans.\<close>

fun redact_ref :: "nat \<Rightarrow> string \<Rightarrow> pii_match list \<Rightarrow> string" where
  "redact_ref i s [] = drop i s"
| "redact_ref i s (m # ms) =
     take (pm_start m - i) (drop i s) @ placeholder (pm_kind m) @ redact_ref (pm_end m) s ms"

definition spans_ordered :: "pii_match list \<Rightarrow> bool" where
  "spans_ordered ms = sorted_wrt (\<lambda>a b. pm_end a \<le> pm_start b) ms"


section \<open>Luhn detects every single-digit error\<close>

lemma digit_val_inj: "py_isdigit a \<Longrightarrow> py_isdigit b \<Longrightarrow> digit_val a = digit_val b \<Longrightarrow> a = b"
  by (simp add: py_isdigit_def digit_val_def code_def) (metis le_add_diff_inverse of_char_eq_iff)

lemma luhn_doubling_inj:
  fixes a b :: nat
  assumes "a \<le> 9" "b \<le> 9"
    and "(if a * 2 > 9 then a * 2 - 9 else a * 2) mod 10 = (if b * 2 > 9 then b * 2 - 9 else b * 2) mod 10"
  shows "a = b"
proof -
  have "a \<in> {0, 1, 2, 3, 4, 5, 6, 7, 8, 9}" "b \<in> {0, 1, 2, 3, 4, 5, 6, 7, 8, 9}"
    using assms by auto
  with assms(3) show ?thesis by (elim insertE emptyE) simp_all
qed

lemma luhn_value_inj:
  assumes "py_isdigit a" "py_isdigit b" "luhn_value p i a mod 10 = luhn_value p i b mod 10"
  shows "a = b"
proof -
  have "digit_val a = digit_val b"
  proof (cases "i mod 2 = p")
    case True
    then show ?thesis
      using assms luhn_doubling_inj [of "digit_val a" "digit_val b"]
      by (simp add: luhn_value_def Let_def digit_val_range)
  next
    case False
    then show ?thesis
      using assms digit_val_range [of a] digit_val_range [of b] by (simp add: luhn_value_def Let_def)
  qed
  then show ?thesis using assms digit_val_inj by blast
qed

lemma luhn_total_update:
  "k < length s \<Longrightarrow> luhn_total p i (s[k := c]) + luhn_value p (i + k) (s ! k)
     = luhn_total p i s + luhn_value p (i + k) c"
proof (induction s arbitrary: i k)
  case Nil
  then show ?case by simp
next
  case (Cons x xs)
  then show ?case
    by (cases k) (auto simp: add.assoc dest: Cons.IH [of _ "Suc i"])
qed

text \<open>
  The Luhn check catches every single mistyped digit: changing any one digit of a number it
  accepts to another digit gives a number it rejects.
\<close>

theorem luhn_single_error:
  assumes "luhn_valid s" and "k < length s" and "py_isdigit c" and "c \<noteq> s ! k"
  shows "\<not> luhn_valid (s[k := c])"
proof
  assume upd: "luhn_valid (s[k := c])"
  let ?p = "length s mod 2"
  have d: "py_isdigit (s ! k)"
    using assms(1,2) by (auto simp: luhn_valid_def str_isdigit_def list_all_length split: if_splits)
  have z: "luhn_total ?p 0 s mod 10 = 0" "luhn_total ?p 0 (s[k := c]) mod 10 = 0"
    using assms(1) upd by (auto simp: luhn_valid_def split: if_splits)
  have "luhn_value ?p k (s ! k) mod 10 = luhn_value ?p k c mod 10"
    using luhn_total_update [OF assms(2), of ?p 0 c] z
    by (metis add.left_neutral mod_add_left_eq)
  then show False
    using luhn_value_inj [OF d assms(3)] assms(4) by auto
qed

theorem luhn_single_error_witness:
  "luhn_valid ''4111111111111111'' \<and> \<not> luhn_valid ''4111111111111112''"
proof -
  have v: "luhn_valid ''4111111111111111''" by code_simp
  have "\<not> luhn_valid (''4111111111111111''[15 := CHR ''2''])"
    using v by (rule luhn_single_error) (simp_all add: py_isdigit_def code_def)
  then show ?thesis using v by simp
qed


section \<open>Overlap removal\<close>

lemma spans_ordered_snoc:
  "spans_ordered (ms @ [m]) \<longleftrightarrow> spans_ordered ms \<and> (\<forall>a \<in> set ms. pm_end a \<le> pm_start m)"
  by (simp add: spans_ordered_def sorted_wrt_append)

lemma last_end_max:
  assumes "spans_ordered ms" and "\<forall>a \<in> set ms. pm_start a < pm_end a" and "a \<in> set ms"
  shows "pm_end a \<le> pm_end (last ms)"
proof -
  obtain ys where ms: "ms = ys @ [last ms]"
    using assms(3) by (metis append_butlast_last_id empty_iff list.set(1))
  then have "spans_ordered (ys @ [last ms])" using assms(1) by simp
  then have "a \<in> set ys \<Longrightarrow> pm_end a \<le> pm_start (last ms)"
    by (simp add: spans_ordered_snoc)
  moreover have "pm_start (last ms) < pm_end (last ms)"
    using assms(2) ms by (metis in_set_conv_decomp)
  ultimately show ?thesis
    using assms(3) ms by (metis dual_order.strict_iff_not le_trans nat_le_linear rotate1.simps(2) set_ConsD set_rotate1)
qed

lemma keep_loop_spec:
  assumes "spans_ordered kept" and "\<forall>a \<in> set kept \<union> set ms. pm_start a < pm_end a"
    and "sorted_wrt (\<lambda>a b. pm_start a \<le> pm_start b) ms"
    and "\<forall>a \<in> set kept. \<forall>b \<in> set ms. pm_start a \<le> pm_start b"
  shows "spans_ordered (keep_loop kept ms) \<and> set kept \<subseteq> set (keep_loop kept ms) \<and>
    set (keep_loop kept ms) \<subseteq> set kept \<union> set ms \<and>
    (\<forall>m \<in> set ms. \<exists>a \<in> set (keep_loop kept ms). pm_start a \<le> pm_start m \<and> pm_start m < pm_end a)"
  using assms
proof (induction kept ms rule: keep_loop.induct)
  case (1 kept)
  then show ?case by simp
next
  case (2 kept m ms)
  show ?case
  proof (cases "kept \<noteq> [] \<and> pm_start m < pm_end (last kept)")
    case True
    have ih: "spans_ordered (keep_loop kept ms) \<and> set kept \<subseteq> set (keep_loop kept ms) \<and>
        set (keep_loop kept ms) \<subseteq> set kept \<union> set ms \<and>
        (\<forall>m \<in> set ms. \<exists>a \<in> set (keep_loop kept ms). pm_start a \<le> pm_start m \<and> pm_start m < pm_end a)"
      using "2.IH"(1) [OF True] "2.prems" by auto
    have "pm_start (last kept) \<le> pm_start m" "last kept \<in> set kept"
      using True "2.prems"(4) by auto
    then have "\<exists>a \<in> set (keep_loop kept ms). pm_start a \<le> pm_start m \<and> pm_start m < pm_end a"
      using ih True by blast
    then show ?thesis using ih True by auto
  next
    case False
    have ord: "spans_ordered (kept @ [m])"
    proof (cases "kept = []")
      case True
      then show ?thesis by (simp add: spans_ordered_def)
    next
      case ne: False
      have "pm_end a \<le> pm_start m" if "a \<in> set kept" for a
        using last_end_max [OF "2.prems"(1) _ that] "2.prems"(2) False ne by fastforce
      then show ?thesis using "2.prems"(1) by (simp add: spans_ordered_snoc)
    qed
    have ih: "spans_ordered (keep_loop (kept @ [m]) ms) \<and>
        set (kept @ [m]) \<subseteq> set (keep_loop (kept @ [m]) ms) \<and>
        set (keep_loop (kept @ [m]) ms) \<subseteq> set (kept @ [m]) \<union> set ms \<and>
        (\<forall>b \<in> set ms. \<exists>a \<in> set (keep_loop (kept @ [m]) ms). pm_start a \<le> pm_start b \<and> pm_start b < pm_end a)"
      using "2.IH"(2) [OF False ord] "2.prems" by auto
    then show ?thesis using False "2.prems"(2) by (auto intro!: bexI [of _ m])
  qed
qed

lemma lex_sorted_starts:
  "sorted_wrt (\<lambda>a b. pm_start a \<le> pm_start b)
     (sort_key (\<lambda>m. (int (pm_start m), - (int (pm_end m) - int (pm_start m)))) ms)"
proof -
  let ?k = "\<lambda>m. (int (pm_start m), - (int (pm_end m) - int (pm_start m)))"
  have "sorted (map ?k (sort_key ?k ms))" by simp
  then have "sorted_wrt (\<lambda>a b. ?k a \<le> ?k b) (sort_key ?k ms)" by (simp add: sorted_map)
  then show ?thesis
    by (rule sorted_wrt_mono_rel [rotated]) (auto simp: less_eq_prod_def)
qed

lemma dedupe_spec:
  assumes "\<forall>a \<in> set ms. pm_start a < pm_end a"
  shows "spans_ordered (dedupe_overlaps ms) \<and> set (dedupe_overlaps ms) \<subseteq> set ms \<and>
    (\<forall>m \<in> set ms. \<exists>a \<in> set (dedupe_overlaps ms). pm_start a \<le> pm_start m \<and> pm_start m < pm_end a)"
proof -
  let ?s = "sort_key (\<lambda>m. (int (pm_start m), - (int (pm_end m) - int (pm_start m)))) ms"
  have "spans_ordered (keep_loop [] ?s) \<and> set [] \<subseteq> set (keep_loop [] ?s) \<and>
    set (keep_loop [] ?s) \<subseteq> set [] \<union> set ?s \<and>
    (\<forall>m \<in> set ?s. \<exists>a \<in> set (keep_loop [] ?s). pm_start a \<le> pm_start m \<and> pm_start m < pm_end a)"
    using assms by (intro keep_loop_spec lex_sorted_starts) (auto simp: spans_ordered_def)
  then show ?thesis by (simp add: dedupe_overlaps_def)
qed

lemma spans_of_wf:
  "m \<in> set (spans_of kind ok r s) \<Longrightarrow> pm_start m < pm_end m \<and> pm_end m \<le> length s \<and>
     pm_value m = take (pm_end m - pm_start m) (drop (pm_start m) s) \<and> pm_kind m = kind"
  by (auto simp: spans_of_def dest: re_finditer_spans)

lemma pii_raw_wf:
  "m \<in> set (pii_raw s) \<Longrightarrow> pm_start m < pm_end m \<and> pm_end m \<le> length s \<and>
     pm_value m = take (pm_end m - pm_start m) (drop (pm_start m) s)"
  unfolding pii_raw_def by (auto dest: spans_of_wf)

text \<open>
  C38. What the detector reports is well formed for redaction: every match is a non-empty span inside
  the text with the text it covers as its value, the matches are ordered and do not overlap, and
  every raw finding begins inside a reported span, so no detected item is dropped unseen.
\<close>

theorem pii_scan_sound:
  "spans_ordered (pii_scan s) \<and>
   (\<forall>m. m \<in> set (pii_scan s) \<longrightarrow> pm_start m < pm_end m \<and> pm_end m \<le> length s \<and>
      pm_value m = take (pm_end m - pm_start m) (drop (pm_start m) s)) \<and>
   (\<forall>m. s \<noteq> [] \<and> m \<in> set (pii_raw s) \<longrightarrow>
      (\<exists>a. a \<in> set (pii_scan s) \<and> pm_start a \<le> pm_start m \<and> pm_start m < pm_end a))"
proof (cases "s = []")
  case True
  then show ?thesis by (simp add: pii_scan_def spans_ordered_def)
next
  case False
  have "\<forall>a \<in> set (pii_raw s). pm_start a < pm_end a"
    using pii_raw_wf by blast
  note d = dedupe_spec [OF this]
  then show ?thesis
    using False pii_raw_wf [of _ s] unfolding pii_scan_def by (simp add: subset_iff Bex_def)
qed

theorem pii_scan_sound_witness:
  "\<exists>a. a \<in> set (pii_scan ''ssn 123-45-6789'') \<and> pm_start a \<le> 4 \<and> 4 < pm_end a"
proof -
  have "\<lparr>pm_kind = ''ssn'', pm_start = 4, pm_end = 15, pm_value = ''123-45-6789''\<rparr>
      \<in> set (spans_of ''ssn'' ssn_plausible ssn_re ''ssn 123-45-6789'')"
    by code_simp
  then have "\<lparr>pm_kind = ''ssn'', pm_start = 4, pm_end = 15, pm_value = ''123-45-6789''\<rparr>
      \<in> set (pii_raw ''ssn 123-45-6789'')"
    by (simp add: pii_raw_def)
  with pii_scan_sound [of "''ssn 123-45-6789''"] show ?thesis by fastforce
qed


section \<open>Redaction\<close>

lemma redact_ref_append:
  "redact_ref i s (ms @ [m]) =
     (if ms = [] then take (pm_start m - i) (drop i s) else
        redact_ref i (take (pm_start m) s) ms) @ placeholder (pm_kind m) @ drop (pm_end m) s"
  if "spans_ordered (ms @ [m])" "\<forall>a \<in> set ms. pm_start a < pm_end a" "pm_start m \<le> length s"
  using that
proof (induction ms arbitrary: i)
  case Nil
  then show ?case by simp
next
  case (Cons a ms)
  have ord: "spans_ordered (ms @ [m])" and am: "pm_end a \<le> pm_start m" "pm_start a < pm_end a"
    using Cons.prems by (auto simp: spans_ordered_def)
  have take_eq: "take (pm_start a - i) (drop i (take (pm_start m) s)) = take (pm_start a - i) (drop i s)"
    using am by (simp add: drop_take min_def)
  show ?case
  proof (cases "ms = []")
    case True
    then show ?thesis using take_eq by (simp add: drop_take)
  next
    case False
    then show ?thesis
      using Cons.IH [OF ord, of "pm_end a"] Cons.prems take_eq by simp
  qed
qed

lemma redact_fold:
  assumes "spans_ordered ms" and "\<forall>a \<in> set ms. pm_start a < pm_end a \<and> pm_end a \<le> length s"
  shows "fold (\<lambda>m out. take (pm_start m) out @ placeholder (pm_kind m) @ drop (pm_end m) out) (rev ms) (s @ t)
     = redact_ref 0 s ms @ t"
  using assms
proof (induction ms arbitrary: s t rule: rev_induct)
  case Nil
  then show ?case by simp
next
  case (snoc m ms)
  have m: "pm_start m < pm_end m" "pm_end m \<le> length s" using snoc.prems by auto
  have ord: "spans_ordered ms" and le: "\<forall>a \<in> set ms. pm_end a \<le> pm_start m"
    using snoc.prems by (auto simp: spans_ordered_snoc)
  let ?s' = "take (pm_start m) s" and ?t' = "placeholder (pm_kind m) @ drop (pm_end m) s @ t"
  have wf: "\<forall>a \<in> set ms. pm_start a < pm_end a \<and> pm_end a \<le> length ?s'"
    using snoc.prems le m by auto
  have "fold (\<lambda>m out. take (pm_start m) out @ placeholder (pm_kind m) @ drop (pm_end m) out)
      (rev (ms @ [m])) (s @ t) =
    fold (\<lambda>m out. take (pm_start m) out @ placeholder (pm_kind m) @ drop (pm_end m) out) (rev ms) (?s' @ ?t')"
    using m by simp
  also have "\<dots> = redact_ref 0 ?s' ms @ ?t'"
    using snoc.IH [OF ord wf] .
  also have "\<dots> = redact_ref 0 s (ms @ [m]) @ t"
    using redact_ref_append [of ms m s 0] snoc.prems m by (cases "ms = []") auto
  finally show ?case .
qed

lemma sorted_desc_of_ordered:
  assumes "spans_ordered ms" and "\<forall>a \<in> set ms. pm_start a < pm_end a"
  shows "sorted_desc (\<lambda>m. real (pm_start m)) ms = rev ms"
proof -
  have lt: "sorted_wrt (\<lambda>a b. pm_start a < pm_start b) ms"
    using assms by (induction ms) (auto simp: spans_ordered_def order_less_le_trans)
  have "sorted_wrt (\<lambda>a b. pm_start b < pm_start a) (rev ms)"
    using lt by (simp add: sorted_wrt_rev)
  then have s: "sorted_wrt (\<lambda>a b. - real (pm_start a) \<le> - real (pm_start b)) (rev ms)"
    by (rule sorted_wrt_mono_rel [rotated]) auto
  have "inj_on (\<lambda>m. - real (pm_start m)) (set ms)"
  proof (rule inj_onI)
    fix x y
    assume xy: "x \<in> set ms" "y \<in> set ms" "- real (pm_start x) = - real (pm_start y)"
    then obtain i j where ij: "i < length ms" "x = ms ! i" "j < length ms" "y = ms ! j"
      by (metis in_set_conv_nth)
    then have "i = j"
      using lt xy(3) by (metis linorder_neqE_nat neg_equal_iff_equal of_nat_eq_iff order_less_irrefl sorted_wrt_nth_less)
    then show "x = y" using ij by simp
  qed
  then show ?thesis
    unfolding sorted_desc_def using s
    by (intro sort_key_inj_key_eq) (auto simp: sorted_map)
qed

text \<open>
  Replacing right to left is correct: for the matches the detector reports, the in-place loop
  yields exactly the text with each span replaced by its placeholder and every character outside
  the spans kept in order.
\<close>

theorem redact_correct: "redact s (pii_scan s) = redact_ref 0 s (pii_scan s)"
proof (cases "s = []")
  case True
  then show ?thesis by (simp add: pii_scan_def redact_def)
next
  case False
  let ?ms = "dedupe_overlaps (pii_raw s)"
  have pos: "\<forall>a \<in> set (pii_raw s). pm_start a < pm_end a"
    using pii_raw_wf by blast
  note d = dedupe_spec [OF pos]
  have wf: "\<forall>a \<in> set ?ms. pm_start a < pm_end a \<and> pm_end a \<le> length s"
    using d pii_raw_wf by blast
  have "redact s ?ms =
      fold (\<lambda>m out. take (pm_start m) out @ placeholder (pm_kind m) @ drop (pm_end m) out) (rev ?ms) (s @ [])"
    unfolding redact_def using d wf by (subst sorted_desc_of_ordered) auto
  also have "\<dots> = redact_ref 0 s ?ms @ []"
    using d wf by (intro redact_fold) auto
  finally show ?thesis
    using False by (simp add: pii_scan_def)
qed

text \<open>Counts by kind.\<close>

lemma summarise_fold:
  "map_of (fold (\<lambda>m counts. AList.update (pm_kind m)
      ((case map_of counts (pm_kind m) of None \<Rightarrow> 0 | Some n \<Rightarrow> n) + 1) counts) ms d) k =
   (let n = count_list (map pm_kind ms) k
    in if n = 0 then map_of d k else Some ((case map_of d k of None \<Rightarrow> 0 | Some x \<Rightarrow> x) + n))"
proof (induction ms arbitrary: d)
  case Nil
  then show ?case by simp
next
  case (Cons m ms)
  then show ?case by (auto simp: Let_def)
qed

lemma summarise_counts:
  "map_of (summarise ms) k =
     (if count_list (map pm_kind ms) k = 0 then None else Some (count_list (map pm_kind ms) k))"
  unfolding summarise_def summarise_fold by (simp add: Let_def)

lemma summarise_empty_iff: "summarise ms = [] \<longleftrightarrow> ms = []"
proof
  assume "summarise ms = []"
  then have "map_of (summarise ms) k = None" for k by simp
  then have "\<forall>k. count_list (map pm_kind ms) k = 0"
    by (metis option.distinct(1) summarise_counts)
  then show "ms = []" by (cases ms) (auto dest: spec [of _ "pm_kind (hd ms)"])
qed (simp add: summarise_def)

text \<open>
  The kept match is the one that starts first, not the longest: a longer match that starts inside an
  earlier one is dropped, and the part of it beyond that one is left in the redacted text.
\<close>

lemma dedupe_keeps_first_not_longest:
  "redact ''abcdefghij'' (dedupe_overlaps
     [\<lparr>pm_kind = ''phone'', pm_start = 0, pm_end = 4, pm_value = ''abcd''\<rparr>,
      \<lparr>pm_kind = ''email'', pm_start = 1, pm_end = 9, pm_value = ''bcdefghi''\<rparr>])
   = ''[redacted:phone]efghij''"
  by code_simp

end
