(* ===== verification/Memory_Service.thy ===== *)
theory Memory_Service
  imports Memory_Store Pii_Detector
begin

text \<open>
  The write path and the guarded operations of \<^verbatim>\<open>services/memory_service.py\<close>, with the content
  fingerprint of \<^verbatim>\<open>dedup.py\<close>.

  A service call takes the environment it reads (settings, clock, the fresh public id, the request's
  origin, and the third-party functions it calls: SHA-256, Unicode NFKC, the embedder), the principal,
  the service's caches and the database, and returns an error or the new caches and database.  An
  exception leaves the transaction to be rolled back by the caller, so the error carries no database.
\<close>

section \<open>Definitions\<close>

definition rbind :: "'a result \<Rightarrow> ('a \<Rightarrow> 'b result) \<Rightarrow> 'b result" where
  "rbind x f = (case x of Inl e \<Rightarrow> Inl e | Inr v \<Rightarrow> f v)"

record service_env =
  e_settings :: settings
  e_now :: time
  e_public_id :: string
  e_origin :: "string option \<times> string option"
  e_sha256 :: "string \<Rightarrow> string"
  e_nfkc :: "string \<Rightarrow> string"
  e_embed :: "string \<Rightarrow> real list result"
  e_embed_model :: string
  e_audit_hash :: "json \<Rightarrow> string"
  e_engine :: pg_engine

subsection \<open>Fingerprint\<close>

text \<open>\<open>re.sub(r"\s+", " ", s)\<close>: a run of white space becomes one space.\<close>

function collapse_ws :: "string \<Rightarrow> string" where
  "collapse_ws [] = []"
| "collapse_ws (c # cs) =
     (if py_isspace c
      then CHR '' '' # collapse_ws (dropWhile py_isspace cs)
      else c # collapse_ws cs)"
  by pat_completeness auto
termination
  by (relation "measure length") (auto simp: le_imp_less_Suc length_dropWhile_le)

definition normalize_content :: "(string \<Rightarrow> string) \<Rightarrow> string \<Rightarrow> string" where
  "normalize_content nfkc t = py_strip (collapse_ws (nfkc t))"

definition field_separator :: char where
  "field_separator = CHR 0x1F"

definition content_hash :: "(string \<Rightarrow> string) \<Rightarrow> (string \<Rightarrow> string) \<Rightarrow> string \<Rightarrow> string \<Rightarrow> string" where
  "content_hash sha nfkc title body =
     sha (normalize_content nfkc title @ field_separator # normalize_content nfkc body)"

subsection \<open>Inputs, results and caches\<close>

record create_memory_input =
  cm_scope_type :: scope_type
  cm_scope_id :: int
  cm_body :: string
  cm_title :: string
  cm_kind :: memory_kind
  cm_sensitivity :: sensitivity
  cm_source_type :: memory_source
  cm_source_ref :: "(string \<times> json) list option"
  cm_importance :: real
  cm_pinned :: bool
  cm_metadata :: "(string \<times> json) list option"
  cm_expires_at :: "time option"
  cm_confidence :: "real option"

record memory_write =
  mw_memory :: memory
  mw_deduped :: bool
  mw_pii_flags :: "(string \<times> nat) list"
  mw_redacted :: bool
  mw_pending_review :: bool
  mw_review_reason :: string

record service_cache =
  sv_org_plan :: "string option"
  sv_mem_count :: "nat option"
  sv_project_settings :: "(int \<times> (review_mode \<times> string)) list"

definition fresh_cache :: service_cache where
  "fresh_cache = \<lparr>sv_org_plan = None, sv_mem_count = None, sv_project_settings = []\<rparr>"

subsection \<open>Guards\<close>

definition require_scope :: "principal \<Rightarrow> string \<Rightarrow> unit result" where
  "require_scope p name =
     (if has_key_scope p name then Inr ()
      else Inl (AccessDeniedError (''api key missing required scope '' @ [CHR 0x27] @ name @ [CHR 0x27])))"

definition scope_of :: "memory \<Rightarrow> scope_ref" where
  "scope_of m = \<lparr>ref_type = m_scope_type m, ref_id = m_scope_id m\<rparr>"

definition resource_of :: "memory \<Rightarrow> resource_ref" where
  "resource_of m = \<lparr>res_scope = scope_of m, res_sensitivity = m_sensitivity m\<rparr>"

definition require_write :: "principal \<Rightarrow> memory \<Rightarrow> unit result" where
  "require_write p m =
     (if can_write p (resource_of m) then Inr ()
      else Inl (AccessDeniedError (''cannot modify '' @ sensitivity_value (m_sensitivity m) @ '' memory in '' @
             show_scope_ref (scope_of m))))"

text \<open>\<open>f"{n:,}"\<close>: the digits grouped by three.\<close>

fun group3 :: "string \<Rightarrow> string" where
  "group3 (a # b # c # d # rest) = a # b # c # CHR '','' # group3 (d # rest)"
| "group3 s = s"

definition show_grouped :: "int \<Rightarrow> string" where
  "show_grouped n = rev (group3 (rev (show_int n)))"

definition enforce_memory_quota :: "principal \<Rightarrow> service_cache \<Rightarrow> db \<Rightarrow> service_cache result" where
  "enforce_memory_quota p sv d =
     rbind (case sv_org_plan sv of
              Some plan \<Rightarrow> Inr plan
            | None \<Rightarrow> rbind (org_get_by_id (p_org_id p) p (orgs d))
                        (\<lambda>org. Inr (case org of None \<Rightarrow> ''free'' | Some r \<Rightarrow> o_plan r)))
       (\<lambda>plan.
          let sv1 = sv\<lparr>sv_org_plan := Some plan\<rparr>; cap = max_memories plan
          in if cap < 0 then Inr sv1
             else
               let n = (case sv_mem_count sv1 of Some n \<Rightarrow> n | None \<Rightarrow> count_for_org (p_org_id p) (memories d))
               in if int n \<ge> cap
                  then Inl (QuotaExceededError (''memory limit reached for the '' @ plan @ '' plan ('' @
                         show_grouped cap @ '' memories). Upgrade your plan to store more.''))
                  else Inr (sv1\<lparr>sv_mem_count := Some (n + 1)\<rparr>))"

definition project_config ::
    "principal \<Rightarrow> create_memory_input \<Rightarrow> service_cache \<Rightarrow> db \<Rightarrow> (review_mode \<times> string) \<times> service_cache" where
  "project_config p payload sv d =
     (if cm_scope_type payload \<noteq> PROJECT then ((REVIEW_OFF, DEFAULT_TS_CONFIG), sv)
      else case map_of (sv_project_settings sv) (cm_scope_id payload) of
             Some c \<Rightarrow> (c, sv)
           | None \<Rightarrow>
               let c = (case project_get_by_id (cm_scope_id payload) p (projects d) of
                          None \<Rightarrow> (REVIEW_OFF, DEFAULT_TS_CONFIG)
                        | Some r \<Rightarrow> (pr_review_mode r, pr_text_search_config r))
               in (c, sv\<lparr>sv_project_settings := AList.update (cm_scope_id payload) c (sv_project_settings sv)\<rparr>))"

subsection \<open>Write\<close>

record governed =
  g_title :: string
  g_body :: string
  g_sensitivity :: sensitivity
  g_findings :: "(string \<times> nat) list"
  g_redacted :: bool

definition govern :: "settings \<Rightarrow> create_memory_input \<Rightarrow> governed" where
  "govern s payload =
     (let title = cm_title payload; body = cm_body payload; sens = cm_sensitivity payload;
          plain = \<lparr>g_title = title, g_body = body, g_sensitivity = sens, g_findings = [], g_redacted = False\<rparr>
      in if \<not> pii_detection s then plain
         else
           let matches = pii_scan (title @ newline # body)
           in if matches = [] then plain
              else
                let found = plain\<lparr>g_findings := summarise matches\<rparr>
                in if pii_policy_setting s = REDACT
                   then found\<lparr>g_title := redact title (pii_scan title), g_body := redact body (pii_scan body),
                              g_redacted := True\<rparr>
                   else if pii_policy_setting s = ESCALATE \<and> sens \<in> {PUBLIC, INTERNAL}
                   then found\<lparr>g_sensitivity := CONFIDENTIAL\<rparr>
                   else found)"

definition review_of :: "settings \<Rightarrow> review_mode \<Rightarrow> create_memory_input \<Rightarrow> governed \<Rightarrow> review_decision" where
  "review_of s mode payload g =
     (let verdict = (if injection_quarantine s
                     then should_quarantine (trust_for_source (cm_source_type payload)) (g_title g @ newline # g_body g)
                     else \<lparr>suspicious = False, patterns = []\<rparr>)
      in decide_review mode (cm_confidence payload) (review_confidence_threshold s)
           (if suspicious verdict then verdict_reason verdict else []))"

definition user_id :: "principal \<Rightarrow> int option" where
  "user_id p = (if actor_kind p = USER then Some (actor_id p) else None)"

definition embed_now :: "service_env \<Rightarrow> bool \<Rightarrow> create_memory_input \<Rightarrow> (real list option \<times> string option) result" where
  "embed_now env embed_inline payload =
     (if \<not> embed_inline then Inr (None, None)
      else let stripped = py_strip (cm_title payload @ newline # cm_body payload);
               txt = (if stripped = [] then cm_body payload else stripped)
           in rbind (e_embed env txt) (\<lambda>v. Inr (Some v, Some (e_embed_model env))))"

definition create_args_of ::
    "principal \<Rightarrow> create_memory_input \<Rightarrow> governed \<Rightarrow> review_decision \<Rightarrow> string \<Rightarrow> string option
     \<Rightarrow> real list option \<times> string option \<Rightarrow> create_args" where
  "create_args_of p payload g rv cfg dg emb =
     \<lparr>ca_scope_type = cm_scope_type payload, ca_scope_id = cm_scope_id payload, ca_body = g_body g,
      ca_title = g_title g, ca_kind = cm_kind payload, ca_sensitivity = g_sensitivity g,
      ca_source_type = cm_source_type payload, ca_source_ref = cm_source_ref payload,
      ca_importance = cm_importance payload, ca_pinned = cm_pinned payload,
      ca_metadata = cm_metadata payload, ca_expires_at = cm_expires_at payload,
      ca_embedding = fst emb, ca_embedding_model = snd emb, ca_created_by = user_id p,
      ca_content_hash = dg, ca_trust = trust_for_source (cm_source_type payload),
      ca_pii_flags = g_findings g, ca_review_status = rv_status rv,
      ca_review_reason = (if rv_reason rv = [] then None else Some (rv_reason rv)),
      ca_confidence = cm_confidence payload, ca_ts_config = cfg\<rparr>"

definition insert_memory ::
    "service_env \<Rightarrow> principal \<Rightarrow> create_memory_input \<Rightarrow> bool \<Rightarrow> governed \<Rightarrow> review_decision \<Rightarrow> string \<Rightarrow> string option
     \<Rightarrow> service_cache \<Rightarrow> db \<Rightarrow> (memory_write \<times> service_cache \<times> db) result" where
  "insert_memory env p payload embed_inline g rv cfg dg sv d =
     rbind (enforce_memory_quota p sv d) (\<lambda>sv1.
       rbind (embed_now env embed_inline payload) (\<lambda>emb.
         let (m, d1) = memory_create p (e_public_id env) (e_now env) (create_args_of p payload g rv cfg dg emb) d
         in Inr (\<lparr>mw_memory = m, mw_deduped = False, mw_pii_flags = g_findings g, mw_redacted = g_redacted g,
                  mw_pending_review = review_held rv, mw_review_reason = rv_reason rv\<rparr>, sv1, d1)))"

definition service_write ::
    "service_env \<Rightarrow> principal \<Rightarrow> create_memory_input \<Rightarrow> bool \<Rightarrow> bool \<Rightarrow> service_cache \<Rightarrow> db
     \<Rightarrow> (memory_write \<times> service_cache \<times> db) result" where
  "service_write env p payload embed_inline force sv d =
     rbind (require_scope p ''write:memory'') (\<lambda>_.
       let sc = \<lparr>ref_type = cm_scope_type payload, ref_id = cm_scope_id payload\<rparr>; s = e_settings env
       in if \<not> can_write p \<lparr>res_scope = sc, res_sensitivity = cm_sensitivity payload\<rparr>
          then Inl (AccessDeniedError (''cannot write '' @ sensitivity_value (cm_sensitivity payload) @
                 '' memory in '' @ show_scope_ref sc))
          else
            let g = govern s payload;
                ((mode, cfg), sv1) = project_config p payload sv d;
                rv = review_of s mode payload g;
                dg = (if dedup_on_write s
                          then Some (content_hash (e_sha256 env) (e_nfkc env) (g_title g) (g_body g)) else None);
                existing = (case dg of
                              None \<Rightarrow> None
                            | Some h \<Rightarrow> if force then None
                                else find_by_content_hash (cm_scope_type payload) (cm_scope_id payload) h p (memories d))
            in case existing of
                 Some m \<Rightarrow>
                   let (m', d1) = record_duplicate (e_now env) (cm_metadata payload) m d
                   in Inr (\<lparr>mw_memory = m', mw_deduped = True, mw_pii_flags = [], mw_redacted = False,
                            mw_pending_review = False, mw_review_reason = []\<rparr>, sv1, d1)
               | None \<Rightarrow> insert_memory env p payload embed_inline g rv cfg dg sv1 d)"

subsection \<open>Guarded operations\<close>

definition service_get :: "principal \<Rightarrow> string \<Rightarrow> db \<Rightarrow> memory option result" where
  "service_get p pid d =
     rbind (require_scope p ''read:memory'') (\<lambda>_.
       Inr (case get_by_public_id pid p (memories d) of
              None \<Rightarrow> None
            | Some m \<Rightarrow> if can_read p (resource_of m) then Some m else None))"

definition read_cap :: "principal \<Rightarrow> sensitivity option" where
  "read_cap p = (if is_superuser p then None else Some (max_sensitivity p))"

definition service_list ::
    "principal \<Rightarrow> scope_filter option \<Rightarrow> memory_tier option \<Rightarrow> memory_kind option \<Rightarrow> nat \<Rightarrow> nat \<Rightarrow> db \<Rightarrow> memory list result" where
  "service_list p sc tier kind limit offset d =
     rbind (require_scope p ''read:memory'') (\<lambda>_.
       Inr (repo_list sc tier kind limit offset (read_cap p) p (memories d)))"

definition service_analytics :: "principal \<Rightarrow> time \<Rightarrow> scope_filter option \<Rightarrow> nat \<Rightarrow> nat \<Rightarrow> db \<Rightarrow> memory_analytics result" where
  "service_analytics p now sc days top_n d =
     rbind (require_scope p ''read:memory'') (\<lambda>_.
       Inr (analytics now sc (read_cap p) days top_n p (memories d)))"

text \<open>The shape every guarded mutation shares: key scope, tenant lookup, write permission, then the change.\<close>

definition with_writable ::
    "principal \<Rightarrow> string \<Rightarrow> 'r \<Rightarrow> (memory \<Rightarrow> db \<Rightarrow> ('r \<times> db) result) \<Rightarrow> db \<Rightarrow> ('r \<times> db) result" where
  "with_writable p pid absent change d =
     rbind (require_scope p ''write:memory'') (\<lambda>_.
       case get_by_public_id pid p (memories d) of
         None \<Rightarrow> Inr (absent, d)
       | Some m \<Rightarrow> rbind (require_write p m) (\<lambda>_. change m d))"

definition audit_memory ::
    "service_env \<Rightarrow> principal \<Rightarrow> audit_action \<Rightarrow> memory \<Rightarrow> (string \<times> json) list \<Rightarrow> db \<Rightarrow> db result" where
  "audit_memory env p action m meta d =
     rbind (audit_append (e_audit_hash env) (Some p) (e_origin env) (e_now env)
        \<lparr>ar_actor_kind = actor_kind p, ar_actor_id = Some (actor_id p), ar_action = audit_action_value action,
         ar_target_type = Some ''memory'', ar_target_id = Some (m_id m), ar_metadata = meta,
         ar_ip = None, ar_user_agent = None, ar_org_id = None\<rparr> (audit_rows d))
       (\<lambda>(_, rows). Inr (d\<lparr>audit_rows := rows\<rparr>))"

definition update_change :: "field_changes \<Rightarrow> principal \<Rightarrow> memory \<Rightarrow> db \<Rightarrow> (memory option \<times> db) result" where
  "update_change c p m d =
     (if opt_where (fc_sensitivity c) (\<lambda>s. can_write p \<lparr>res_scope = scope_of m, res_sensitivity = s\<rparr>)
      then let (m', d') = update_fields c m d in Inr (Some m', d')
      else Inl (AccessDeniedError (''cannot set sensitivity '' @ sensitivity_value (the (fc_sensitivity c)))))"

definition service_update :: "principal \<Rightarrow> string \<Rightarrow> field_changes \<Rightarrow> db \<Rightarrow> (memory option \<times> db) result" where
  "service_update p pid c = with_writable p pid None (update_change c p)"

definition delete_change :: "service_env \<Rightarrow> principal \<Rightarrow> memory \<Rightarrow> db \<Rightarrow> (bool \<times> db) result" where
  "delete_change env p m d =
     (let (m', d1) = soft_delete (e_now env) m d
      in rbind (audit_memory env p MEMORY_DELETED m'
           [(''public_id'', JStr (m_public_id m')), (''title'', JStr (take 200 (m_title m')))] d1)
           (\<lambda>d2. Inr (True, d2)))"

definition service_delete :: "service_env \<Rightarrow> principal \<Rightarrow> string \<Rightarrow> db \<Rightarrow> (bool \<times> db) result" where
  "service_delete env p pid = with_writable p pid False (delete_change env p)"

definition pin_change :: "bool \<Rightarrow> principal \<Rightarrow> memory \<Rightarrow> db \<Rightarrow> (memory option \<times> db) result" where
  "pin_change pinned p m d = (let (m', d') = repo_set_pinned pinned m d in Inr (Some m', d'))"

definition service_set_pinned :: "principal \<Rightarrow> string \<Rightarrow> bool \<Rightarrow> db \<Rightarrow> (memory option \<times> db) result" where
  "service_set_pinned p pid pinned = with_writable p pid None (pin_change pinned p)"

definition review_change :: "service_env \<Rightarrow> bool \<Rightarrow> principal \<Rightarrow> memory \<Rightarrow> db \<Rightarrow> (memory option \<times> db) result" where
  "review_change env approve p m d =
     (if m_review_status m \<noteq> PENDING then Inr (Some m, d)
      else
        let (m', d1) = set_review_status (e_now env) (if approve then APPROVED else REJECTED) (user_id p) m d
        in rbind (audit_memory env p (if approve then MEMORY_REVIEW_APPROVED else MEMORY_REVIEW_REJECTED) m'
             [(''reason'', JStr (case m_review_reason m' of None \<Rightarrow> [] | Some r \<Rightarrow> r)), (''scope_id'', JInt (m_scope_id m'))] d1)
             (\<lambda>d2. Inr (Some m', d2)))"

definition service_review :: "service_env \<Rightarrow> principal \<Rightarrow> string \<Rightarrow> bool \<Rightarrow> db \<Rightarrow> (memory option \<times> db) result" where
  "service_review env p pid approve = with_writable p pid None (review_change env approve p)"

definition service_pending_review :: "principal \<Rightarrow> nat \<Rightarrow> nat \<Rightarrow> db \<Rightarrow> memory list result" where
  "service_pending_review p limit offset d =
     rbind (require_scope p ''read:memory'') (\<lambda>_. Inr (list_pending_review limit offset p (memories d)))"

definition service_pending_review_count :: "principal \<Rightarrow> db \<Rightarrow> nat result" where
  "service_pending_review_count p d =
     rbind (require_scope p ''read:memory'') (\<lambda>_. Inr (count_pending_review p (memories d)))"

fun bulk_apply :: "service_env \<Rightarrow> principal \<Rightarrow> string \<Rightarrow> string list \<Rightarrow> nat \<Rightarrow> db \<Rightarrow> (nat \<times> db) result" where
  "bulk_apply env p action [] changed d = Inr (changed, d)"
| "bulk_apply env p action (pid # pids) changed d =
     (if action = ''pin'' \<or> action = ''unpin''
      then rbind (service_set_pinned p pid (action = ''pin'') d)
             (\<lambda>(r, d1). bulk_apply env p action pids (changed + (if r \<noteq> None then 1 else 0)) d1)
      else if action = ''delete''
      then rbind (service_delete env p pid d)
             (\<lambda>(ok, d1). bulk_apply env p action pids (changed + (if ok then 1 else 0)) d1)
      else Inl (ValueError (''unknown bulk action '' @ [CHR 0x27] @ action @ [CHR 0x27])))"

subsection \<open>Links\<close>

definition service_link ::
    "service_env \<Rightarrow> principal \<Rightarrow> string \<Rightarrow> string \<Rightarrow> memory_link_type \<Rightarrow> real \<Rightarrow> db \<Rightarrow> (memory_link option \<times> db) result" where
  "service_link env p from_pid to_pid t w d =
     (case (get_by_public_id from_pid p (memories d), get_by_public_id to_pid p (memories d)) of
        (Some a, Some b) \<Rightarrow> rbind (link_create (e_now env) (m_id a) (m_id b) t w d) (\<lambda>(l, d1). Inr (Some l, d1))
      | _ \<Rightarrow> Inr (None, d))"

definition service_unlink :: "principal \<Rightarrow> string \<Rightarrow> string \<Rightarrow> memory_link_type \<Rightarrow> db \<Rightarrow> bool \<times> db" where
  "service_unlink p from_pid to_pid t d =
     (case (get_by_public_id from_pid p (memories d), get_by_public_id to_pid p (memories d)) of
        (Some a, Some b) \<Rightarrow> unlink (m_id a) (m_id b) t d
      | _ \<Rightarrow> (False, d))"

definition service_list_links :: "principal \<Rightarrow> string \<Rightarrow> db \<Rightarrow> (memory \<times> memory_link_type) list result" where
  "service_list_links p pid d =
     rbind (require_scope p ''read:memory'') (\<lambda>_.
       Inr (case get_by_public_id pid p (memories d) of
              None \<Rightarrow> []
            | Some m \<Rightarrow> List.map_filter (\<lambda>l.
                let other = (if l_from l = m_id m then l_to l else l_from l)
                in map_option (\<lambda>x. (x, l_type l)) (get_by_id other p (memories d)))
                (neighbors (m_id m) [] (links d))))"


section \<open>Guarded mutations\<close>

lemma rbind_Inr: "rbind x f = Inr y \<longleftrightarrow> (\<exists>v. x = Inr v \<and> f v = Inr y)"
  by (auto simp: rbind_def split: sum.split)

lemma rbind_simps [simp]: "rbind (Inl e) f = Inl e" "rbind (Inr v) f = f v"
  by (simp_all add: rbind_def)

lemma require_scope_ok [simp]: "require_scope p n = Inr u \<longleftrightarrow> has_key_scope p n"
  by (simp add: require_scope_def)

lemma require_write_ok [simp]: "require_write p m = Inr u \<longleftrightarrow> can_write p (resource_of m)"
  by (simp add: require_write_def)

lemma get_by_public_id_row:
  assumes "get_by_public_id pid p ms = Some m"
  shows "m \<in> set ms \<and> m_public_id m = pid \<and> live m \<and> (is_superuser p \<or> m_org_id m = p_org_id p)"
  using first_row_in [OF assms [unfolded get_by_public_id_def]] by (auto simp: set_tenant_rows)

lemma with_writable_cases:
  assumes "with_writable p pid absent change d = Inr (r, d')"
  shows "has_key_scope p ''write:memory'' \<and>
     ((get_by_public_id pid p (memories d) = None \<and> r = absent \<and> d' = d) \<or>
      (\<exists>m. get_by_public_id pid p (memories d) = Some m \<and> can_write p (resource_of m) \<and> change m d = Inr (r, d')))"
  using assms by (auto simp: with_writable_def rbind_Inr split: option.splits)

text \<open>
  What every change to a looked-up memory promises: it rewrites that row alone and keeps its identity,
  and of the other tables it may only extend the audit log.
\<close>

locale guarded_mutation =
  fixes change :: "principal \<Rightarrow> memory \<Rightarrow> db \<Rightarrow> ('r \<times> db) result"
  assumes touches_only: "change p m d = Inr (r, d') \<Longrightarrow>
      \<exists>f. keeps_identity f \<and> memories d' = memories (update_where (\<lambda>x. m_id x = m_id m) f d) \<and>
        links d' = links d \<and> orgs d' = orgs d \<and> projects d' = projects d \<and> next_memory_id d' = next_memory_id d"
    and audit_extends: "change p m d = Inr (r, d') \<Longrightarrow> \<exists>es. audit_rows d' = audit_rows d @ es"
begin

lemma keeps_wf:
  assumes "with_writable p pid absent (change p) d = Inr (r, d')" and "wf_db d"
  shows "wf_db d'"
proof -
  consider "d' = d" | m where "change p m d = Inr (r, d')"
    using with_writable_cases [OF assms(1)] by blast
  then show ?thesis
  proof cases
    case 1
    then show ?thesis using assms(2) by simp
  next
    case 2
    obtain f where "keeps_identity f" "memories d' = memories (update_where (\<lambda>x. m_id x = m_id m) f d)"
      "links d' = links d" "next_memory_id d' = next_memory_id d" using touches_only [OF 2] by blast
    then show ?thesis
      using update_where_wf [of f d "\<lambda>x. m_id x = m_id m"] assms(2) by (simp add: wf_db_def update_where_def)
  qed
qed

lemma changes_one_row:
  assumes "with_writable p pid absent (change p) d = Inr (r, d')" and "wf_db d" and "memories d' \<noteq> memories d"
  shows "\<exists>m \<in> set (memories d). m_public_id m = pid \<and> live m \<and> has_key_scope p ''write:memory'' \<and>
     (is_superuser p \<or> m_org_id m = p_org_id p) \<and> can_write p (resource_of m) \<and>
     length (memories d') = length (memories d) \<and>
     (\<forall>i < length (memories d). memories d ! i \<noteq> m \<longrightarrow> memories d' ! i = memories d ! i)"
proof -
  obtain m where m: "get_by_public_id pid p (memories d) = Some m" "can_write p (resource_of m)"
    "change p m d = Inr (r, d')" "has_key_scope p ''write:memory''"
    using with_writable_cases [OF assms(1)] assms(3) by blast
  obtain f where f: "memories d' = memories (update_where (\<lambda>x. m_id x = m_id m) f d)"
    using touches_only [OF m(3)] by blast
  note row = get_by_public_id_row [OF m(1)]
  have "memories d' ! i = memories d ! i" if "i < length (memories d)" "memories d ! i \<noteq> m" for i
    using f that row id_unique [of "memories d" "memories d ! i" m] assms(2)
    by (auto simp: update_where_def wf_db_def)
  then show ?thesis using row m f by (intro bexI [of _ m]) (auto simp: update_where_def)
qed

lemma other_orgs_unchanged:
  assumes "with_writable p pid absent (change p) d = Inr (r, d')" and "wf_db d"
    and "\<not> is_superuser p" and "org \<noteq> p_org_id p"
  shows "filter (\<lambda>m. m_org_id m = org) (memories d') = filter (\<lambda>m. m_org_id m = org) (memories d)"
proof -
  consider "d' = d" | m where "get_by_public_id pid p (memories d) = Some m" "change p m d = Inr (r, d')"
    using with_writable_cases [OF assms(1)] by blast
  then show ?thesis
  proof cases
    case 2
    note row = get_by_public_id_row [OF 2(1)]
    obtain f where f: "keeps_identity f" "memories d' = memories (update_where (\<lambda>x. m_id x = m_id m) f d)"
      using touches_only [OF 2(2)] by blast
    have "\<forall>x \<in> set (memories d). m_id x = m_id m \<longrightarrow> m_org_id x \<noteq> org"
      using row assms(2-) id_unique [of "memories d" _ m] by (auto simp: wf_db_def)
    then show ?thesis using org_rows_of_update [OF f(1)] f(2) by simp
  qed simp
qed

end

lemma audit_memory_frame:
  assumes "audit_memory env p action m meta d = Inr d'"
  shows "\<exists>e. d' = d\<lparr>audit_rows := audit_rows d @ [e]\<rparr> \<and> a_action e = audit_action_value action \<and> a_org_id e = p_org_id p"
  using assms by (auto simp: audit_memory_def rbind_Inr audit_append_def Let_def principal_org_def split: option.splits if_splits)

lemma identity_updates [simp]:
  "keeps_identity (\<lambda>r. r\<lparr>m_deleted_at := x1\<rparr>)"
  "keeps_identity (\<lambda>r. r\<lparr>m_pinned := x2\<rparr>)"
  "keeps_identity (\<lambda>r. r\<lparr>m_review_status := x3, m_reviewed_at := x4, m_reviewed_by := x5\<rparr>)"
  by (simp_all add: keeps_identity_def)

lemma update_where_frame [simp]:
  "links (update_where P f d) = links d" "orgs (update_where P f d) = orgs d"
  "projects (update_where P f d) = projects d" "next_memory_id (update_where P f d) = next_memory_id d"
  "audit_rows (update_where P f d) = audit_rows d" "workspaces (update_where P f d) = workspaces d"
  "next_org_id (update_where P f d) = next_org_id d" "next_workspace_id (update_where P f d) = next_workspace_id d"
  "next_project_id (update_where P f d) = next_project_id d"
  by (simp_all add: update_where_def)

lemma update_where_noop: "update_where P (\<lambda>r. r) d = d"
  by (simp add: update_where_def)

interpretation updating: guarded_mutation "update_change c" for c
proof
  fix p m d r d'
  assume "update_change c p m d = Inr (r, d')"
  then have "d' = update_where (\<lambda>x. m_id x = m_id m) (apply_changes c) d"
    by (auto simp: update_change_def update_fields_def save_def split: if_splits)
  then show "\<exists>f. keeps_identity f \<and> memories d' = memories (update_where (\<lambda>x. m_id x = m_id m) f d) \<and>
        links d' = links d \<and> orgs d' = orgs d \<and> projects d' = projects d \<and> next_memory_id d' = next_memory_id d"
    and "\<exists>es. audit_rows d' = audit_rows d @ es"
    using apply_changes_identity by auto
qed

interpretation pinning: guarded_mutation "pin_change b" for b
proof
  fix p m d r d'
  assume "pin_change b p m d = Inr (r, d')"
  then have "d' = update_where (\<lambda>x. m_id x = m_id m) (\<lambda>r. r\<lparr>m_pinned := b\<rparr>) d"
    by (auto simp: pin_change_def repo_set_pinned_def save_def)
  then show "\<exists>f. keeps_identity f \<and> memories d' = memories (update_where (\<lambda>x. m_id x = m_id m) f d) \<and>
        links d' = links d \<and> orgs d' = orgs d \<and> projects d' = projects d \<and> next_memory_id d' = next_memory_id d"
    and "\<exists>es. audit_rows d' = audit_rows d @ es"
    by (auto intro: identity_updates)
qed

lemma delete_change_eq:
  assumes "delete_change env p m d = Inr (r, d')"
  shows "r \<and> (\<exists>e. a_action e = audit_action_value MEMORY_DELETED \<and> a_org_id e = p_org_id p \<and>
     d' = (update_where (\<lambda>x. m_id x = m_id m) (\<lambda>r. r\<lparr>m_deleted_at := Some (e_now env)\<rparr>) d)\<lparr>audit_rows := audit_rows d @ [e]\<rparr>)"
  using assms by (auto simp: delete_change_def soft_delete_def save_def rbind_Inr dest!: audit_memory_frame)

interpretation deleting: guarded_mutation "delete_change env" for env
proof
  fix p m d r d'
  assume "delete_change env p m d = Inr (r, d')"
  note eq = delete_change_eq [OF this]
  show "\<exists>f. keeps_identity f \<and> memories d' = memories (update_where (\<lambda>x. m_id x = m_id m) f d) \<and>
        links d' = links d \<and> orgs d' = orgs d \<and> projects d' = projects d \<and> next_memory_id d' = next_memory_id d"
    using eq by (intro exI [of _ "\<lambda>r. r\<lparr>m_deleted_at := Some (e_now env)\<rparr>"]) auto
  show "\<exists>es. audit_rows d' = audit_rows d @ es" using eq by auto
qed

lemma review_change_eq:
  assumes "review_change env approve p m d = Inr (r, d')"
  shows "(m_review_status m \<noteq> PENDING \<and> d' = d) \<or>
     (m_review_status m = PENDING \<and> (\<exists>e.
        a_action e = audit_action_value (if approve then MEMORY_REVIEW_APPROVED else MEMORY_REVIEW_REJECTED) \<and>
        d' = (update_where (\<lambda>x. m_id x = m_id m) (\<lambda>r. r\<lparr>m_review_status := (if approve then APPROVED else REJECTED),
            m_reviewed_at := Some (e_now env), m_reviewed_by := user_id p\<rparr>) d)\<lparr>audit_rows := audit_rows d @ [e]\<rparr>))"
  using assms
  by (auto simp: review_change_def set_review_status_def save_def rbind_Inr split: if_splits dest!: audit_memory_frame)

interpretation reviewing: guarded_mutation "review_change env approve" for env approve
proof
  fix p m d r d'
  assume "review_change env approve p m d = Inr (r, d')"
  note eq = review_change_eq [OF this]
  have id: "keeps_identity (\<lambda>r. r)" by (simp add: keeps_identity_def)
  show "\<exists>f. keeps_identity f \<and> memories d' = memories (update_where (\<lambda>x. m_id x = m_id m) f d) \<and>
        links d' = links d \<and> orgs d' = orgs d \<and> projects d' = projects d \<and> next_memory_id d' = next_memory_id d"
  proof (cases "m_review_status m = PENDING")
    case True
    then show ?thesis using eq
      by (intro exI [of _ "\<lambda>r. r\<lparr>m_review_status := (if approve then APPROVED else REJECTED),
            m_reviewed_at := Some (e_now env), m_reviewed_by := user_id p\<rparr>"]) auto
  next
    case False
    then show ?thesis using eq id by (intro exI [of _ "\<lambda>r. r"]) (auto simp: update_where_noop)
  qed
  show "\<exists>es. audit_rows d' = audit_rows d @ es" using eq by auto
qed

text \<open>A change is authorized when it rewrote at most one row, and that row was the caller's to write.\<close>

definition authorized_change :: "principal \<Rightarrow> string \<Rightarrow> db \<Rightarrow> db \<Rightarrow> bool" where
  "authorized_change p pid d d' \<longleftrightarrow> memories d' = memories d \<or>
     (\<exists>m \<in> set (memories d). m_public_id m = pid \<and> live m \<and> has_key_scope p ''write:memory'' \<and>
        (is_superuser p \<or> m_org_id m = p_org_id p) \<and> can_write p (resource_of m) \<and>
        length (memories d') = length (memories d) \<and>
        (\<forall>i < length (memories d). memories d ! i \<noteq> m \<longrightarrow> memories d' ! i = memories d ! i))"

lemma authorized_by_locale:
  assumes "guarded_mutation change" and "with_writable p pid absent (change p) d = Inr (r, d')" and "wf_db d"
  shows "wf_db d' \<and> authorized_change p pid d d' \<and>
     (\<forall>org. \<not> is_superuser p \<longrightarrow> org \<noteq> p_org_id p \<longrightarrow>
        filter (\<lambda>m. m_org_id m = org) (memories d') = filter (\<lambda>m. m_org_id m = org) (memories d))"
  using guarded_mutation.keeps_wf [OF assms] guarded_mutation.changes_one_row [OF assms]
    guarded_mutation.other_orgs_unchanged [OF assms]
  unfolding authorized_change_def by blast

text \<open>
  C36.  Updating, pinning, reviewing and deleting a memory change at most the one row they name, and
  only when the caller's key carries the write scope, the row is live and in the caller's org, and the
  role matrix lets the caller write it.  Tables stay well-formed and no other org's row changes.
\<close>

theorem mutations_authorized:
  assumes "wf_db d"
    and "service_update p pid c d = Inr (r, d') \<or> service_set_pinned p pid b d = Inr (r, d') \<or>
      service_review env p pid approve d = Inr (r, d') \<or> service_delete env p pid d = Inr (ok, d')"
  shows "wf_db d' \<and> authorized_change p pid d d' \<and>
     (\<forall>org. \<not> is_superuser p \<longrightarrow> org \<noteq> p_org_id p \<longrightarrow>
        filter (\<lambda>m. m_org_id m = org) (memories d') = filter (\<lambda>m. m_org_id m = org) (memories d))"
  using assms(2)
  unfolding service_update_def service_set_pinned_def service_review_def service_delete_def
proof (elim disjE)
qed (rule authorized_by_locale [OF updating.guarded_mutation_axioms _ assms(1)]
      authorized_by_locale [OF pinning.guarded_mutation_axioms _ assms(1)]
      authorized_by_locale [OF reviewing.guarded_mutation_axioms _ assms(1)]
      authorized_by_locale [OF deleting.guarded_mutation_axioms _ assms(1)], assumption)+


section \<open>Deletion and review\<close>

lemma get_after_delete:
  assumes "wf_db d" and "get_by_public_id pid p (memories d) = Some m"
    and "memories d' = memories (update_where (\<lambda>x. m_id x = m_id m) (\<lambda>r. r\<lparr>m_deleted_at := Some t\<rparr>) d)"
  shows "get_by_public_id pid q (memories d') = None"
proof -
  note row = get_by_public_id_row [OF assms(2)]
  have "x = m" if "x \<in> set (memories d)" "m_public_id x = pid" for x
    using that row assms(1) by (auto simp: wf_db_def distinct_map inj_on_def)
  then have "filter (\<lambda>x. m_public_id x = pid \<and> live x) (memories d') = []"
    by (auto simp: filter_empty_conv assms(3) update_where_def)
  then show ?thesis
    by (auto simp: get_by_public_id_def filter_empty_conv tenant_rows_def)
qed

text \<open>
  A successful delete records exactly one \<open>memory.deleted\<close> entry and hides the memory from every
  principal, while the row stays in the table; a delete that finds nothing changes nothing.
\<close>

theorem delete_audited_and_hidden:
  assumes "wf_db d" and "service_delete env p pid d = Inr (ok, d')"
  shows "if ok then
       (\<exists>e. audit_rows d' = audit_rows d @ [e] \<and> a_action e = audit_action_value MEMORY_DELETED \<and> a_org_id e = p_org_id p) \<and>
       (\<forall>q. get_by_public_id pid q (memories d') = None) \<and>
       pid \<in> m_public_id ` set (memories d') \<and> map m_id (memories d') = map m_id (memories d)
     else d' = d"
proof -
  consider "\<not> ok" "d' = d" | m where "get_by_public_id pid p (memories d) = Some m" "delete_change env p m d = Inr (ok, d')"
    using with_writable_cases [OF assms(2) [unfolded service_delete_def]] by auto
  then show ?thesis
  proof cases
    case 2
    let ?d1 = "update_where (\<lambda>x. m_id x = m_id m) (\<lambda>r. r\<lparr>m_deleted_at := Some (e_now env)\<rparr>) d"
    obtain e where e: ok "a_action e = audit_action_value MEMORY_DELETED" "a_org_id e = p_org_id p"
      "d' = ?d1\<lparr>audit_rows := audit_rows d @ [e]\<rparr>"
      using delete_change_eq [OF 2(2)] by blast
    have "m\<lparr>m_deleted_at := Some (e_now env)\<rparr> \<in> set (memories ?d1)"
      using get_by_public_id_row [OF 2(1)] by (auto simp: update_where_def)
    from imageI [OF this, of m_public_id] have "pid \<in> m_public_id ` set (memories ?d1)"
      using get_by_public_id_row [OF 2(1)] by simp
    moreover have "map m_id (memories ?d1) = map m_id (memories d)" by (simp add: update_where_def)
    ultimately show ?thesis
      using e get_after_delete [OF assms(1) 2(1), of d' "e_now env"] by auto
  qed simp
qed

text \<open>
  A review decides a memory once: a pending memory takes the decision, with the time and reviewer
  recorded and one audit entry naming the outcome; reviewing it again changes nothing at all.
\<close>

theorem review_decides_once:
  assumes "wf_db d" and "service_review env p pid approve d = Inr (Some r, d')" and "r \<notin> set (memories d)"
  shows "m_review_status r = (if approve then APPROVED else REJECTED) \<and> m_reviewed_at r = Some (e_now env) \<and>
     m_reviewed_by r = user_id p \<and> r \<in> set (memories d') \<and>
     (\<exists>e. audit_rows d' = audit_rows d @ [e] \<and>
        a_action e = audit_action_value (if approve then MEMORY_REVIEW_APPROVED else MEMORY_REVIEW_REJECTED)) \<and>
     (\<forall>env2 approve2 x d2. service_review env2 p pid approve2 d' = Inr (x, d2) \<longrightarrow> d2 = d')"
proof -
  obtain m where m: "get_by_public_id pid p (memories d) = Some m" "review_change env approve p m d = Inr (Some r, d')"
    using with_writable_cases [OF assms(2) [unfolded service_review_def]] by auto
  note row = get_by_public_id_row [OF m(1)]
  let ?f = "\<lambda>r. r\<lparr>m_review_status := (if approve then APPROVED else REJECTED), m_reviewed_at := Some (e_now env),
      m_reviewed_by := user_id p\<rparr>"
  have pend: "m_review_status m = PENDING"
    using m(2) row assms(3) by (auto simp: review_change_def split: if_splits)
  then obtain e where e: "d' = (update_where (\<lambda>x. m_id x = m_id m) ?f d)\<lparr>audit_rows := audit_rows d @ [e]\<rparr>"
    "a_action e = audit_action_value (if approve then MEMORY_REVIEW_APPROVED else MEMORY_REVIEW_REJECTED)"
    using review_change_eq [OF m(2)] by auto
  have r: "r = ?f m"
    using m(2) pend by (auto simp: review_change_def set_review_status_def save_def rbind_Inr)
  have mem: "r \<in> set (memories d')"
    using row unfolding r e(1) by (auto simp: update_where_def)
  have decided: "m_review_status x \<noteq> PENDING" if "get_by_public_id pid p (memories d') = Some x" for x
  proof -
    note xr = get_by_public_id_row [OF that]
    obtain y where y: "y \<in> set (memories d)" "x = (if m_id y = m_id m then ?f y else y)"
      using xr unfolding e(1) by (auto simp: update_where_def)
    have "m_public_id y = m_public_id m" using xr y row by (auto split: if_splits)
    then have "y = m" using y(1) row assms(1) by (auto simp: wf_db_def distinct_map inj_on_def)
    then show ?thesis using y by auto
  qed
  have "d2 = d'" if "service_review env2 p pid approve2 d' = Inr (x, d2)" for env2 approve2 x d2
    using with_writable_cases [OF that [unfolded service_review_def]] decided by (auto simp: review_change_def)
  then show ?thesis using r mem e by auto
qed

text \<open>
  A bulk delete audits every memory it removes: the log grows by exactly the number reported.
  Bulk pinning and unpinning leave the log alone.
\<close>

theorem bulk_delete_audits_each:
  assumes "bulk_apply env p action pids n d = Inr (n', d')"
  shows "length (audit_rows d') = length (audit_rows d) + (if action = ''delete'' then n' - n else 0) \<and> n \<le> n' \<and>
     n' \<le> n + length pids"
  using assms
proof (induction pids arbitrary: n d)
  case Nil
  then show ?case by simp
next
  case (Cons pid pids)
  have del: "length (audit_rows d1) = length (audit_rows d) + (if ok then 1 else 0)"
    if "service_delete env p pid d = Inr (ok, d1)" for ok d1
    using with_writable_cases [OF that [unfolded service_delete_def]] delete_change_eq [of env p _ d ok d1] by fastforce
  have pin: "audit_rows d1 = audit_rows d"
    if "service_set_pinned p pid b d = Inr (r, d1)" for b r d1
    using with_writable_cases [OF that [unfolded service_set_pinned_def]]
    by (auto simp: pin_change_def repo_set_pinned_def save_def)
  show ?case
  proof (cases "action = ''delete''")
    case True
    then obtain ok d1 where d1: "service_delete env p pid d = Inr (ok, d1)"
      "bulk_apply env p action pids (n + (if ok then 1 else 0)) d1 = Inr (n', d')"
      using Cons.prems by (auto simp: rbind_Inr)
    then show ?thesis using Cons.IH [OF d1(2)] del [OF d1(1)] True by (auto split: if_splits)
  next
    case False
    then have "action = ''pin'' \<or> action = ''unpin''"
      using Cons.prems by (simp del: split_paired_Ex split: if_splits)
    then have "rbind (service_set_pinned p pid (action = ''pin'') d)
        (\<lambda>(r, d1). bulk_apply env p action pids (n + (if r \<noteq> None then 1 else 0)) d1) = Inr (n', d')"
      using Cons.prems by (simp only: bulk_apply.simps if_True)
    then obtain r d1 where d1: "service_set_pinned p pid (action = ''pin'') d = Inr (r, d1)"
      "bulk_apply env p action pids (n + (if r \<noteq> None then 1 else 0)) d1 = Inr (n', d')"
      by (auto simp only: rbind_Inr split_paired_Ex case_prod_conv)
    then show ?thesis using Cons.IH [OF d1(2)] pin [OF d1(1)] False by (auto split: if_splits)
  qed
qed


section \<open>Fingerprints\<close>

lemma separator_space: "py_isspace field_separator"
  by (simp add: field_separator_def py_isspace_def code_def)

lemma collapse_ws_chars: "c \<in> set (collapse_ws s) \<Longrightarrow> c = CHR '' '' \<or> \<not> py_isspace c"
  by (induction s rule: collapse_ws.induct) (auto split: if_splits)

lemma separator_not_in: "field_separator \<notin> set (normalize_content nfkc t)"
proof
  assume "field_separator \<in> set (normalize_content nfkc t)"
  then have "field_separator \<in> set (collapse_ws (nfkc t))"
    using set_py_strip by (auto simp: normalize_content_def)
  then have "field_separator = CHR '' ''" using collapse_ws_chars separator_space by blast
  then show False by (simp add: field_separator_def)
qed

definition fingerprint_text :: "(string \<Rightarrow> string) \<Rightarrow> string \<Rightarrow> string \<Rightarrow> string" where
  "fingerprint_text nfkc title body = normalize_content nfkc title @ field_separator # normalize_content nfkc body"

lemma fingerprint_text_eq:
  "fingerprint_text nfkc t b = fingerprint_text nfkc t' b' \<longleftrightarrow>
     normalize_content nfkc t = normalize_content nfkc t' \<and> normalize_content nfkc b = normalize_content nfkc b'"
proof
  assume eq: "fingerprint_text nfkc t b = fingerprint_text nfkc t' b'"
  have "split_on field_separator (fingerprint_text nfkc x y) = [normalize_content nfkc x, normalize_content nfkc y]" for x y
    by (simp add: fingerprint_text_def split_on_append split_on_no_sep separator_not_in)
  then show "normalize_content nfkc t = normalize_content nfkc t' \<and> normalize_content nfkc b = normalize_content nfkc b'"
    using eq by (metis list.inject)
qed (simp add: fingerprint_text_def)

text \<open>
  Two memories get the same fingerprint exactly when their titles agree and their bodies agree up
  to Unicode folding and white space: text cannot move between title and body unnoticed, because the
  separator never survives normalisation.  The hypothesis is that SHA-256 does not collide on the two.
\<close>

theorem content_hash_separates:
  assumes "inj_on sha {fingerprint_text nfkc t b, fingerprint_text nfkc t' b'}"
  shows "content_hash sha nfkc t b = content_hash sha nfkc t' b' \<longleftrightarrow>
     normalize_content nfkc t = normalize_content nfkc t' \<and> normalize_content nfkc b = normalize_content nfkc b'"
  unfolding fingerprint_text_eq [symmetric]
  using assms by (auto simp: content_hash_def fingerprint_text_def [symmetric] dest: inj_onD)


section \<open>The write path\<close>

definition governed_hash :: "service_env \<Rightarrow> create_memory_input \<Rightarrow> string" where
  "governed_hash env payload =
     content_hash (e_sha256 env) (e_nfkc env) (g_title (govern (e_settings env) payload)) (g_body (govern (e_settings env) payload))"

definition write_target :: "service_env \<Rightarrow> principal \<Rightarrow> create_memory_input \<Rightarrow> bool \<Rightarrow> db \<Rightarrow> memory option" where
  "write_target env p payload force d =
     (if dedup_on_write (e_settings env) \<and> \<not> force
      then find_by_content_hash (cm_scope_type payload) (cm_scope_id payload) (governed_hash env payload) p (memories d)
      else None)"

abbreviation payload_resource :: "create_memory_input \<Rightarrow> resource_ref" where
  "payload_resource payload \<equiv> \<lparr>res_scope = \<lparr>ref_type = cm_scope_type payload, ref_id = cm_scope_id payload\<rparr>,
     res_sensitivity = cm_sensitivity payload\<rparr>"

lemma write_dedup:
  assumes "has_key_scope p ''write:memory''" and "can_write p (payload_resource payload)"
    and "write_target env p payload force d = Some m"
  shows "service_write env p payload ei force sv d =
     (let (m', d1) = record_duplicate (e_now env) (cm_metadata payload) m d
      in Inr (\<lparr>mw_memory = m', mw_deduped = True, mw_pii_flags = [], mw_redacted = False,
               mw_pending_review = False, mw_review_reason = []\<rparr>, snd (project_config p payload sv d), d1))"
proof -
  obtain mode cfg sv1 where pc: "project_config p payload sv d = ((mode, cfg), sv1)" by (metis prod.collapse)
  show ?thesis
    using assms
    by (simp add: service_write_def require_scope_def write_target_def governed_hash_def pc Let_def split: if_splits)
qed

lemma write_insert:
  assumes "has_key_scope p ''write:memory''" and "can_write p (payload_resource payload)"
    and "write_target env p payload force d = None"
    and "project_config p payload sv d = ((mode, cfg), sv1)"
  shows "service_write env p payload ei force sv d =
     insert_memory env p payload ei (govern (e_settings env) payload)
       (review_of (e_settings env) mode payload (govern (e_settings env) payload)) cfg
       (if dedup_on_write (e_settings env) then Some (governed_hash env payload) else None) sv1 d"
  using assms
  by (auto simp: service_write_def require_scope_def write_target_def governed_hash_def Let_def split: if_splits)

lemma write_guards:
  assumes "service_write env p payload ei force sv d = Inr res"
  shows "has_key_scope p ''write:memory'' \<and> can_write p (payload_resource payload)"
  using assms by (auto simp: service_write_def rbind_Inr Let_def split: if_splits)

lemma insert_memory_eq:
  assumes "insert_memory env p payload ei g rv cfg dg sv d = Inr (w, sv', d')"
  shows "\<exists>emb. enforce_memory_quota p sv d = Inr sv' \<and>
     d' = snd (memory_create p (e_public_id env) (e_now env) (create_args_of p payload g rv cfg dg emb) d) \<and>
     mw_memory w = fst (memory_create p (e_public_id env) (e_now env) (create_args_of p payload g rv cfg dg emb) d) \<and>
     \<not> mw_deduped w \<and> mw_pending_review w = review_held rv \<and> mw_pii_flags w = g_findings g"
proof -
  obtain emb where "enforce_memory_quota p sv d = Inr sv'"
    "(case memory_create p (e_public_id env) (e_now env) (create_args_of p payload g rv cfg dg emb) d of
        (m, d1) \<Rightarrow> Inr (\<lparr>mw_memory = m, mw_deduped = False, mw_pii_flags = g_findings g, mw_redacted = g_redacted g,
           mw_pending_review = review_held rv, mw_review_reason = rv_reason rv\<rparr>, sv', d1)) =
      (Inr (w, sv', d') :: (memory_write \<times> service_cache \<times> db) result)"
    using assms by (auto simp: insert_memory_def rbind_Inr Let_def case_prod_beta)
  then show ?thesis by (intro exI [of _ emb]) (auto simp: case_prod_beta)
qed

lemma memory_create_row:
  "memories (snd (memory_create p pub now a d)) = memories d @ [fst (memory_create p pub now a d)]"
  "links (snd (memory_create p pub now a d)) = links d" "orgs (snd (memory_create p pub now a d)) = orgs d"
  by (simp_all add: memory_create_def Let_def)

lemma govern_sensitivity: "cm_sensitivity payload \<le> g_sensitivity (govern s payload)"
  by (auto simp: govern_def Let_def rank_order_defs)

text \<open>The row a fold leaves: one more access, the new metadata merged over the old.\<close>

definition folded :: "time \<Rightarrow> (string \<times> json) list option \<Rightarrow> memory \<Rightarrow> memory" where
  "folded now meta r = r\<lparr>m_access_count := m_access_count r + 1, m_last_accessed_at := Some now,
     m_metadata := dict_merge (m_metadata r) (or_empty meta)\<rparr>"

lemma record_duplicate_eq: "record_duplicate now meta m d = (folded now meta m, update_where (\<lambda>r. m_id r = m_id m) (folded now meta) d)"
  by (simp add: record_duplicate_def save_def folded_def [abs_def])

lemma folded_identity: "keeps_identity (folded now meta)"
  by (simp add: keeps_identity_def folded_def)

lemma write_target_row:
  assumes "write_target env p payload force d = Some m"
  shows "m \<in> set (memories d) \<and> live m \<and> (is_superuser p \<or> m_org_id m = p_org_id p) \<and>
     m_scope_type m = cm_scope_type payload \<and> m_scope_id m = cm_scope_id payload \<and>
     m_content_hash m = Some (governed_hash env payload) \<and> \<not> force \<and> dedup_on_write (e_settings env)"
proof -
  have t: "find_by_content_hash (cm_scope_type payload) (cm_scope_id payload) (governed_hash env payload) p (memories d) = Some m"
    "\<not> force" "dedup_on_write (e_settings env)"
    using assms by (simp_all add: write_target_def split: if_splits)
  show ?thesis using first_row_in [OF t(1) [unfolded find_by_content_hash_def]] t(2,3) by (auto simp: set_tenant_rows)
qed

text \<open>
  C34.  A successful write needed the write scope and a role that may write that sensitivity there, and
  has one of two effects.  Either it folds into a live memory of the same scope and fingerprint, adding
  no row, counting one access and merging metadata; or it appends exactly one row, in the caller's org
  and the requested scope, holding the governed text, with trust from its source, never less sensitive
  than asked, and pending exactly when the review policy holds it.
\<close>

theorem write_effects:
  assumes "service_write env p payload ei force sv d = Inr (w, sv', d')"
  shows "has_key_scope p ''write:memory'' \<and> can_write p (payload_resource payload) \<and>
     (if mw_deduped w
      then \<exists>m \<in> set (memories d). live m \<and> (is_superuser p \<or> m_org_id m = p_org_id p) \<and>
             m_scope_type m = cm_scope_type payload \<and> m_scope_id m = cm_scope_id payload \<and>
             m_content_hash m = Some (governed_hash env payload) \<and> \<not> force \<and>
             mw_memory w = folded (e_now env) (cm_metadata payload) m \<and>
             d' = update_where (\<lambda>r. m_id r = m_id m) (folded (e_now env) (cm_metadata payload)) d
      else \<exists>m. memories d' = memories d @ [m] \<and> mw_memory w = m \<and> m_id m = next_memory_id d \<and>
             m_org_id m = p_org_id p \<and> m_scope_type m = cm_scope_type payload \<and> m_scope_id m = cm_scope_id payload \<and>
             m_title m = g_title (govern (e_settings env) payload) \<and> m_body m = g_body (govern (e_settings env) payload) \<and>
             m_trust m = trust_for_source (cm_source_type payload) \<and>
             cm_sensitivity payload \<le> m_sensitivity m \<and> m_tier m = SHORT \<and>
             (m_review_status m = PENDING \<longleftrightarrow> mw_pending_review w) \<and>
             write_target env p payload force d = None)"
proof -
  note guards = write_guards [OF assms]
  show ?thesis
  proof (cases "write_target env p payload force d")
    case (Some m)
    note row = write_target_row [OF Some]
    have "mw_deduped w" "mw_memory w = folded (e_now env) (cm_metadata payload) m"
      "d' = update_where (\<lambda>r. m_id r = m_id m) (folded (e_now env) (cm_metadata payload)) d"
      using assms write_dedup [OF _ _ Some, of ei sv] guards by (auto simp: record_duplicate_eq)
    then show ?thesis using row guards by auto
  next
    case None
    obtain mode cfg sv1 where pc: "project_config p payload sv d = ((mode, cfg), sv1)" by (metis prod.collapse)
    note ins = write_insert [OF _ _ None pc, of ei] guards
    let ?g = "govern (e_settings env) payload" and ?rv = "review_of (e_settings env) mode payload (govern (e_settings env) payload)"
    obtain emb where e: "d' = snd (memory_create p (e_public_id env) (e_now env) (create_args_of p payload ?g ?rv cfg
        (if dedup_on_write (e_settings env) then Some (governed_hash env payload) else None) emb) d)"
      "mw_memory w = fst (memory_create p (e_public_id env) (e_now env) (create_args_of p payload ?g ?rv cfg
        (if dedup_on_write (e_settings env) then Some (governed_hash env payload) else None) emb) d)"
      "\<not> mw_deduped w" "mw_pending_review w = review_held ?rv"
      using insert_memory_eq [of env p payload ei] assms ins by fastforce
    have "mw_memory w = m \<Longrightarrow> m_id m = next_memory_id d \<and> m_org_id m = p_org_id p \<and>
        m_scope_type m = cm_scope_type payload \<and> m_scope_id m = cm_scope_id payload \<and>
        m_title m = g_title ?g \<and> m_body m = g_body ?g \<and> m_trust m = trust_for_source (cm_source_type payload) \<and>
        m_sensitivity m = g_sensitivity ?g \<and> m_tier m = SHORT \<and> m_review_status m = rv_status ?rv" for m
      unfolding e(2) by (auto simp: memory_create_def create_args_of_def Let_def)
    then show ?thesis
      using e guards None memory_create_row(1) govern_sensitivity [of payload "e_settings env"]
      by (auto simp: review_held_def)
  qed
qed

lemma sort_key_map_same:
  assumes "\<And>x. f (g x) = f x"
  shows "sort_key f (map g xs) = map g (sort_key f xs)"
proof -
  have ins: "insort_key f (g x) (map g ys) = map g (insort_key f x ys)" for x ys
    by (induction ys) (auto simp: assms)
  show ?thesis by (induction xs) (auto simp: ins)
qed

lemma first_row_map: "first_row (map g xs) = map_option g (first_row xs)"
  by (cases xs) (auto simp: first_row_def)

lemma filter_map_same: "(\<And>x. P (g x) = P x) \<Longrightarrow> filter P (map g xs) = map g (filter P xs)"
  by (simp add: filter_map comp_def)

lemma find_hash_after_fold:
  assumes "find_by_content_hash st sid h p (memories d) = Some m"
  shows "find_by_content_hash st sid h p (memories (update_where (\<lambda>r. m_id r = m_id m) (folded now meta) d)) = Some (folded now meta m)"
proof -
  let ?g = "\<lambda>r. if m_id r = m_id m then folded now meta r else r"
  have "tenant_query p (map ?g ms) = map ?g (tenant_query p ms)" for ms
    by (simp add: tenant_rows_def filter_map_same folded_def)
  moreover have "filter (\<lambda>r. live r \<and> m_scope_type r = st \<and> m_scope_id r = sid \<and> m_content_hash r = Some h) (map ?g ms) =
      map ?g (filter (\<lambda>r. live r \<and> m_scope_type r = st \<and> m_scope_id r = sid \<and> m_content_hash r = Some h) ms)" for ms
    by (rule filter_map_same) (simp add: folded_def)
  moreover have "sort_key m_created_at (map ?g ms) = map ?g (sort_key m_created_at ms)" for ms
    by (rule sort_key_map_same) (simp add: folded_def)
  ultimately show ?thesis
    using assms by (simp add: find_by_content_hash_def update_where_def first_row_map)
qed

lemma find_hash_after_insert:
  assumes "find_by_content_hash st sid h p ms = None" and "live m" and "m_org_id m = p_org_id p"
    and "m_scope_type m = st" and "m_scope_id m = sid" and "m_content_hash m = Some h"
  shows "find_by_content_hash st sid h p (ms @ [m]) = Some m"
proof -
  have "tenant_query p (ms @ [m]) = tenant_query p ms @ [m]" using assms(3) by (simp add: tenant_rows_def)
  moreover have "filter (\<lambda>m. live m \<and> m_scope_type m = st \<and> m_scope_id m = sid \<and> m_content_hash m = Some h)
      (tenant_query p ms) = []"
    using arg_cong [where f = length, OF assms(1) [unfolded find_by_content_hash_def first_row_None]] by simp
  ultimately show ?thesis
    using assms(2-) by (simp add: find_by_content_hash_def first_row_def)
qed

lemma write_then_found:
  assumes "service_write env p payload ei False sv d = Inr (w, sv1, d1)" and "dedup_on_write (e_settings env)"
  shows "write_target env p payload False d1 = Some (mw_memory w)"
proof (cases "write_target env p payload False d")
  case (Some m)
  have f: "find_by_content_hash (cm_scope_type payload) (cm_scope_id payload) (governed_hash env payload) p (memories d) = Some m"
    using Some assms(2) by (simp add: write_target_def)
  have "mw_memory w = folded (e_now env) (cm_metadata payload) m"
    "d1 = update_where (\<lambda>r. m_id r = m_id m) (folded (e_now env) (cm_metadata payload)) d"
    using assms write_dedup [OF _ _ Some, of ei sv] write_guards [OF assms(1)] by (auto simp: record_duplicate_eq)
  then show ?thesis
    using find_hash_after_fold [OF f] assms(2) by (simp add: write_target_def)
next
  case None
  have n: "find_by_content_hash (cm_scope_type payload) (cm_scope_id payload) (governed_hash env payload) p (memories d) = None"
    using None assms(2) by (simp add: write_target_def)
  obtain mode cfg sv2 where pc: "project_config p payload sv d = ((mode, cfg), sv2)" by (metis prod.collapse)
  let ?g = "govern (e_settings env) payload"
  obtain emb rv where e: "d1 = snd (memory_create p (e_public_id env) (e_now env)
        (create_args_of p payload ?g rv cfg (Some (governed_hash env payload)) emb) d)"
      "mw_memory w = fst (memory_create p (e_public_id env) (e_now env)
        (create_args_of p payload ?g rv cfg (Some (governed_hash env payload)) emb) d)"
    using insert_memory_eq [of env p payload ei] assms write_insert [OF _ _ None pc, of ei] write_guards [OF assms(1)]
    by fastforce
  have m: "live (mw_memory w)" "m_org_id (mw_memory w) = p_org_id p" "m_scope_type (mw_memory w) = cm_scope_type payload"
    "m_scope_id (mw_memory w) = cm_scope_id payload" "m_content_hash (mw_memory w) = Some (governed_hash env payload)"
    by (simp_all add: e(2) memory_create_def create_args_of_def Let_def)
  have "memories d1 = memories d @ [mw_memory w]" unfolding e by (rule memory_create_row)
  then show ?thesis
    using find_hash_after_insert [OF n m] assms(2) by (simp add: write_target_def)
qed

text \<open>
  Writing is idempotent under deduplication: repeating a write, later and through any settings of
  the embedder, succeeds, reports a duplicate, returns the memory the first write stored and adds no row,
  even for an org at its plan's limit.
\<close>

theorem rewrite_is_idempotent:
  assumes "service_write env p payload ei False sv d = Inr (w, sv1, d1)" and "dedup_on_write (e_settings env)"
    and "e_settings env2 = e_settings env" and "e_sha256 env2 = e_sha256 env" and "e_nfkc env2 = e_nfkc env"
  shows "\<exists>w2 sv2 d2. service_write env2 p payload ei2 False sv1 d1 = Inr (w2, sv2, d2) \<and> mw_deduped w2 \<and>
     m_id (mw_memory w2) = m_id (mw_memory w) \<and> m_access_count (mw_memory w2) = m_access_count (mw_memory w) + 1 \<and>
     length (memories d2) = length (memories d1)"
proof -
  have "governed_hash env2 payload = governed_hash env payload"
    using assms(3-) by (simp add: governed_hash_def)
  then have "write_target env2 p payload False d1 = Some (mw_memory w)"
    using write_then_found [OF assms(1,2)] assms(2,3) by (simp add: write_target_def)
  from write_dedup [OF _ _ this, of ei2 sv1] write_guards [OF assms(1)] show ?thesis
    by (auto simp: record_duplicate_eq folded_def update_where_def)
qed


section \<open>Plan quota\<close>

definition plan_of :: "principal \<Rightarrow> db \<Rightarrow> string" where
  "plan_of p d = (case first_row (filter (\<lambda>r. o_id r = p_org_id p \<and> o_deleted_at r = None) (orgs d)) of
     None \<Rightarrow> ''free'' | Some r \<Rightarrow> o_plan r)"

text \<open>The service's caches agree with the tables; an unlimited plan does not count.\<close>

definition cache_ok :: "principal \<Rightarrow> service_cache \<Rightarrow> db \<Rightarrow> bool" where
  "cache_ok p sv d \<longleftrightarrow> opt_where (sv_org_plan sv) (\<lambda>x. x = plan_of p d) \<and>
     (max_memories (plan_of p d) \<ge> 0 \<longrightarrow> opt_where (sv_mem_count sv) (\<lambda>n. n = count_for_org (p_org_id p) (memories d)))"

lemma quota_step:
  assumes "enforce_memory_quota p sv d = Inr sv'" and "cache_ok p sv d"
  shows "sv_org_plan sv' = Some (plan_of p d) \<and>
     (max_memories (plan_of p d) \<ge> 0 \<longrightarrow> int (count_for_org (p_org_id p) (memories d)) < max_memories (plan_of p d) \<and>
           sv_mem_count sv' = Some (count_for_org (p_org_id p) (memories d) + 1))"
proof -
  have plan: "(case sv_org_plan sv of Some plan \<Rightarrow> Inr plan
      | None \<Rightarrow> rbind (org_get_by_id (p_org_id p) p (orgs d))
          (\<lambda>org. Inr (case org of None \<Rightarrow> ''free'' | Some r \<Rightarrow> o_plan r))) = (Inr (plan_of p d) :: string result)"
    using assms(2) by (cases "sv_org_plan sv") (simp_all add: cache_ok_def opt_where_def org_get_by_id_def plan_of_def)
  have n: "(case sv_mem_count sv of Some n \<Rightarrow> n | None \<Rightarrow> count_for_org (p_org_id p) (memories d)) =
      count_for_org (p_org_id p) (memories d)" if "max_memories (plan_of p d) \<ge> 0"
    using assms(2) that by (simp add: cache_ok_def opt_where_def split: option.splits)
  show ?thesis
    using assms(1) unfolding enforce_memory_quota_def plan rbind_simps Let_def
    by (cases "max_memories (plan_of p d) < 0"; cases "int (count_for_org (p_org_id p) (memories d)) \<ge> max_memories (plan_of p d)")
       (auto simp: n)
qed

lemma count_after_create:
  "count_for_org org (memories (snd (memory_create p pub now a d))) =
     count_for_org org (memories d) + (if org = p_org_id p then 1 else 0)"
  by (simp add: memory_create_def Let_def count_for_org_def count_where_def)

lemma count_after_fold:
  "count_for_org org (memories (update_where P (folded now meta) d)) = count_for_org org (memories d)"
proof -
  have "filter (\<lambda>m. m_org_id m = org \<and> live m) (map (\<lambda>m. if P m then folded now meta m else m) ms) =
      map (\<lambda>m. if P m then folded now meta m else m) (filter (\<lambda>m. m_org_id m = org \<and> live m) ms)" for ms
    by (rule filter_map_same) (simp add: folded_def)
  then show ?thesis by (simp add: count_for_org_def count_where_def update_where_def)
qed

lemma project_config_cache:
  "sv_org_plan (snd (project_config p payload sv d)) = sv_org_plan sv \<and>
   sv_mem_count (snd (project_config p payload sv d)) = sv_mem_count sv"
  by (simp add: project_config_def Let_def split: option.split)

lemma cache_ok_project_config: "cache_ok p sv d \<Longrightarrow> cache_ok p (snd (project_config p payload sv d)) d"
  by (simp add: cache_ok_def project_config_cache)

lemma cache_ok_cong:
  assumes "orgs d' = orgs d" and "count_for_org (p_org_id p) (memories d') = count_for_org (p_org_id p) (memories d)"
  shows "cache_ok p sv d' = cache_ok p sv d"
  using assms by (simp add: cache_ok_def plan_of_def)

text \<open>
  C35.  The plan's cap holds.  If the service's caches agree with the tables, then after any successful
  write they still do, and an org on a capped plan that was within its cap still is; a write never adds
  more than one memory to the org, and none to another.
\<close>

theorem write_respects_plan_cap:
  assumes "service_write env p payload ei force sv d = Inr (w, sv', d')" and "cache_ok p sv d"
  shows "cache_ok p sv' d' \<and> orgs d' = orgs d \<and>
     (max_memories (plan_of p d) \<ge> 0 \<longrightarrow>
        int (count_for_org (p_org_id p) (memories d)) \<le> max_memories (plan_of p d) \<longrightarrow>
        int (count_for_org (p_org_id p) (memories d')) \<le> max_memories (plan_of p d)) \<and>
     count_for_org (p_org_id p) (memories d') \<le> count_for_org (p_org_id p) (memories d) + 1 \<and>
     (\<forall>org. org \<noteq> p_org_id p \<longrightarrow> count_for_org org (memories d') = count_for_org org (memories d))"
proof (cases "write_target env p payload force d")
  case (Some m)
  have "sv' = snd (project_config p payload sv d)"
    "d' = update_where (\<lambda>r. m_id r = m_id m) (folded (e_now env) (cm_metadata payload)) d"
    using assms write_dedup [OF _ _ Some, of ei sv] write_guards [OF assms(1)] by (auto simp: record_duplicate_eq)
  then show ?thesis
    using cache_ok_project_config [OF assms(2)] cache_ok_cong [of d' d p] by (simp add: count_after_fold)
next
  case None
  obtain mode cfg sv1 where pc: "project_config p payload sv d = ((mode, cfg), sv1)" by (metis prod.collapse)
  have ok1: "cache_ok p sv1 d" using cache_ok_project_config [OF assms(2), of payload] pc by simp
  obtain a where a: "enforce_memory_quota p sv1 d = Inr sv'" "d' = snd (memory_create p (e_public_id env) (e_now env) a d)"
    using insert_memory_eq [of env p payload ei] assms(1) write_insert [OF _ _ None pc, of ei] write_guards [OF assms(1)]
    by fastforce
  note q = quota_step [OF a(1) ok1]
  note cnt = count_after_create [of _ p "e_public_id env" "e_now env" a d, folded a(2)]
  have orgs: "orgs d' = orgs d" "plan_of p d' = plan_of p d"
    unfolding a(2) plan_of_def by (simp_all add: memory_create_row)
  have "cache_ok p sv' d'"
    using q cnt orgs by (simp add: cache_ok_def opt_where_def)
  then show ?thesis using q cnt orgs by (auto split: if_splits)
qed


section \<open>Concrete runs\<close>

definition lean_env :: "time \<Rightarrow> string \<Rightarrow> service_env" where
  "lean_env now pid = \<lparr>e_settings = default_settings\<lparr>pii_detection := False\<rparr>, e_now = now, e_public_id = pid,
     e_origin = (None, None), e_sha256 = (\<lambda>x. x), e_nfkc = (\<lambda>x. x), e_embed = (\<lambda>_. Inr [0]),
     e_embed_model = ''bge'', e_audit_hash = stamp_hash, e_engine = plain_engine\<rparr>"

definition sample_payload :: "string \<Rightarrow> create_memory_input" where
  "sample_payload body = \<lparr>cm_scope_type = PROJECT, cm_scope_id = 5, cm_body = body, cm_title = ''queue'',
     cm_kind = FACT, cm_sensitivity = INTERNAL, cm_source_type = MANUAL, cm_source_ref = None,
     cm_importance = 1 / 2, cm_pinned = False, cm_metadata = None, cm_expires_at = None, cm_confidence = None\<rparr>"

definition db_after :: "('a \<times> db) result \<Rightarrow> db" where
  "db_after r = (case r of Inl _ \<Rightarrow> empty_db | Inr (_, d) \<Rightarrow> d)"

definition db_after_write :: "(memory_write \<times> service_cache \<times> db) result \<Rightarrow> db" where
  "db_after_write r = (case r of Inl _ \<Rightarrow> empty_db | Inr (_, _, d) \<Rightarrow> d)"

definition one_write :: db where
  "one_write = db_after_write (service_write (lean_env 200 ''c'') (member_of 1) (sample_payload ''redis'') False False fresh_cache empty_db)"

definition write_ok :: "(memory_write \<times> service_cache \<times> db) result \<Rightarrow> bool" where
  "write_ok r = (case r of Inl _ \<Rightarrow> False | Inr _ \<Rightarrow> True)"

lemma write_ok_iff: "write_ok r \<longleftrightarrow> (\<exists>w sv d. r = Inr (w, sv, d))"
  by (auto simp: write_ok_def split: sum.split)

lemma one_write_ok:
  "write_ok (service_write (lean_env 200 ''c'') (member_of 1) (sample_payload ''redis'') False False fresh_cache empty_db)"
  by code_simp

lemma write_effects_witness:
  "\<exists>m. memories one_write = [m] \<and> m_org_id m = 1 \<and> m_trust m = HIGH"
proof -
  obtain w sv' d' where w:
      "service_write (lean_env 200 ''c'') (member_of 1) (sample_payload ''redis'') False False fresh_cache empty_db = Inr (w, sv', d')"
    using one_write_ok unfolding write_ok_iff by blast
  have "memories empty_db = []" "p_org_id (member_of 1) = 1" "trust_for_source (cm_source_type (sample_payload ''redis'')) = HIGH"
    by code_simp+
  then show ?thesis
    using write_effects [OF w] w by (auto simp: one_write_def db_after_write_def split: if_splits)
qed

lemma rewrite_is_idempotent_witness:
  "\<exists>w2 sv2 d2 sv1. service_write (lean_env 300 ''d'') (member_of 1) (sample_payload ''redis'') False False sv1 one_write = Inr (w2, sv2, d2) \<and>
     mw_deduped w2 \<and> length (memories d2) = 1"
proof -
  obtain w sv1 d1 where w:
      "service_write (lean_env 200 ''c'') (member_of 1) (sample_payload ''redis'') False False fresh_cache empty_db = Inr (w, sv1, d1)"
    using one_write_ok unfolding write_ok_iff by blast
  then have d1: "d1 = one_write" by (simp add: one_write_def db_after_write_def)
  have n: "length (memories one_write) = 1" by code_simp
  show ?thesis
    using rewrite_is_idempotent [OF w, of "lean_env 300 ''d''" False] n
    unfolding d1 by (auto simp: lean_env_def default_settings_def)
qed

lemma write_respects_plan_cap_witness:
  "count_for_org 1 (memories one_write) \<le> 1"
proof -
  obtain w sv1 d1 where w:
      "service_write (lean_env 200 ''c'') (member_of 1) (sample_payload ''redis'') False False fresh_cache empty_db = Inr (w, sv1, d1)"
    using one_write_ok unfolding write_ok_iff by blast
  have "cache_ok (member_of 1) fresh_cache empty_db" "p_org_id (member_of 1) = 1" "count_for_org 1 (memories empty_db) = 0"
    by code_simp+
  then show ?thesis
    using write_respects_plan_cap [OF w] w by (simp add: one_write_def db_after_write_def)
qed

lemma content_hash_separates_witness:
  "content_hash (\<lambda>x. x) (\<lambda>x. x) ''ab'' [] \<noteq> content_hash (\<lambda>x. x) (\<lambda>x. x) ''a'' ''b''"
proof -
  have "normalize_content (\<lambda>x. x) ''ab'' \<noteq> normalize_content (\<lambda>x. x) ''a''" by code_simp
  then show ?thesis using content_hash_separates [of "\<lambda>x. x" "\<lambda>x. x" "''ab''" "[]" "''a''" "''b''"] by simp
qed

lemma deleted_run: "\<exists>d'. service_delete (lean_env 400 []) (member_of 1) ''c'' one_write = Inr (True, d')"
proof -
  have "(case service_delete (lean_env 400 []) (member_of 1) ''c'' one_write of Inl _ \<Rightarrow> False | Inr (ok, _) \<Rightarrow> ok)"
    by code_simp
  then show ?thesis by (auto split: sum.splits)
qed

lemma one_write_wf: "wf_db one_write"
  by code_simp

lemma mutations_authorized_witness:
  "wf_db (db_after (service_delete (lean_env 400 []) (member_of 1) ''c'' one_write))"
proof -
  obtain d' where d': "service_delete (lean_env 400 []) (member_of 1) ''c'' one_write = Inr (True, d')"
    using deleted_run by blast
  then show ?thesis
    using mutations_authorized [OF one_write_wf disjI2 [OF disjI2 [OF disjI2 [OF d']]]] by (simp add: db_after_def)
qed

lemma delete_audited_and_hidden_witness:
  "get_by_public_id ''c'' (member_of 1) (memories (db_after (service_delete (lean_env 400 []) (member_of 1) ''c'' one_write))) = None"
proof -
  obtain d' where "service_delete (lean_env 400 []) (member_of 1) ''c'' one_write = Inr (True, d')"
    using deleted_run by blast
  then show ?thesis using delete_audited_and_hidden [OF one_write_wf] by (auto simp: db_after_def)
qed

definition held_db :: db where
  "held_db = update_where (\<lambda>_. True) (\<lambda>m. m\<lparr>m_review_status := PENDING\<rparr>) one_write"

definition reviewed_row :: "(memory option \<times> db) result \<Rightarrow> memory option" where
  "reviewed_row r = (case r of Inr (Some m, _) \<Rightarrow> Some m | _ \<Rightarrow> None)"

lemma review_decides_once_witness:
  "\<exists>r d'. service_review (lean_env 400 []) (member_of 1) ''c'' True held_db = Inr (Some r, d') \<and> m_review_status r = APPROVED"
proof -
  have "opt_where (reviewed_row (service_review (lean_env 400 []) (member_of 1) ''c'' True held_db))
      (\<lambda>r. r \<notin> set (memories held_db))"
    "reviewed_row (service_review (lean_env 400 []) (member_of 1) ''c'' True held_db) \<noteq> None"
    by code_simp+
  then obtain r d' where r: "service_review (lean_env 400 []) (member_of 1) ''c'' True held_db = Inr (Some r, d')"
    "r \<notin> set (memories held_db)"
    by (auto simp: reviewed_row_def opt_where_def split: sum.splits prod.splits option.splits)
  have "wf_db held_db" by code_simp
  then show ?thesis using review_decides_once [OF _ r] r(1) by auto
qed

lemma bulk_delete_audits_each_witness:
  "\<exists>n d'. bulk_apply (lean_env 400 []) (member_of 1) ''delete'' [''c'', ''zz''] 0 one_write = Inr (n, d') \<and> n \<le> 2"
proof -
  have "(case bulk_apply (lean_env 400 []) (member_of 1) ''delete'' [''c'', ''zz''] 0 one_write of Inl _ \<Rightarrow> False | Inr _ \<Rightarrow> True)"
    by code_simp
  then obtain n d' where b: "bulk_apply (lean_env 400 []) (member_of 1) ''delete'' [''c'', ''zz''] 0 one_write = Inr (n, d')"
    by (auto split: sum.splits)
  then show ?thesis using bulk_delete_audits_each [OF b] by auto
qed

subsection \<open>Consequences of what the code checks and does not\<close>

text \<open>The list endpoint is capped by sensitivity but not by scope: it shows a memory that reading by id denies.\<close>

definition outsider :: principal where
  "outsider = (member_of 1)\<lparr>roles := [(\<lparr>ref_type = PROJECT, ref_id = 9\<rparr>, MEMBER)]\<rparr>"

lemma list_shows_what_get_denies:
  "service_get outsider ''c'' one_write = Inr None \<and>
   (case service_list outsider None None None 50 0 one_write of Inl _ \<Rightarrow> False | Inr ms \<Rightarrow> map m_public_id ms = [''c''])"
  by code_simp

text \<open>
  Changing a body leaves the old fingerprint, so writing the old text again folds into the changed
  memory and the text is not stored; a rejected memory likewise absorbs a fresh write of its text.
\<close>

definition edited_db :: db where
  "edited_db = db_after (service_update (member_of 1) ''c''
     \<lparr>fc_title = None, fc_body = Some ''kafka'', fc_kind = None, fc_sensitivity = None, fc_importance = None,
      fc_metadata = None\<rparr> one_write)"

definition write_summary :: "(memory_write \<times> service_cache \<times> db) result \<Rightarrow> bool \<times> string \<times> review_status option" where
  "write_summary r = (case r of
      Inl _ \<Rightarrow> (False, [], None)
    | Inr (w, _, _) \<Rightarrow> (mw_deduped w, m_body (mw_memory w), Some (m_review_status (mw_memory w))))"

lemma stale_fingerprint_swallows_write:
  "write_summary (service_write (lean_env 500 ''e'') (member_of 1) (sample_payload ''redis'') False False fresh_cache edited_db)
     = (True, ''kafka'', Some APPROVED)"
  by code_simp

definition rejected_db :: db where
  "rejected_db = update_where (\<lambda>_. True) (\<lambda>m. m\<lparr>m_review_status := REJECTED\<rparr>) one_write"

lemma rejected_memory_swallows_write:
  "write_summary (service_write (lean_env 500 ''e'') (member_of 1) (sample_payload ''redis'') False False fresh_cache rejected_db)
     = (True, ''redis'', Some REJECTED)"
  by code_simp

end
