(* ===== verification/Agentic_Recall.thy ===== *)
theory Agentic_Recall
  imports Conflicts Memory_Service
begin

text \<open>
  Recall end to end: the query plan (\<^verbatim>\<open>retrieval/query_plan.py\<close>), the loop that executes it
  (\<^verbatim>\<open>retrieval/agent_loop.py\<close>), the orchestrator (\<^verbatim>\<open>services/agentic_retriever.py\<close>) and plain search
  (\<^verbatim>\<open>services/retrieval_service.py\<close>).  Parameters, collected in an environment: the models and the
  embedder the registries resolve, the reranker, the plan validator generated by Pydantic, the readings
  of the monotonic clock and the order in which a Python set of ids is listed.  The trace of a plan is
  kept as events; the code renders each as one line of text.
\<close>

section \<open>Definitions\<close>

subsection \<open>Plans\<close>

datatype plan_step =
    SemanticSearch (step_query: string) (step_top_k: nat)
  | KeywordSearch (step_query: string) (step_top_k: nat)
  | LinkExpand (step_link_types: "memory_link_type list") (step_max_depth: nat)
  | TimeFilter (step_after: "time option") (step_before: "time option")
  | StopAndAnswer (step_reason: string)

record query_plan =
  qp_rationale :: string
  qp_steps :: "plan_step list"

text \<open>The field constraints of the plan models.\<close>

fun step_ok :: "plan_step \<Rightarrow> bool" where
  "step_ok (SemanticSearch q k) = (1 \<le> length q \<and> length q \<le> 500 \<and> 1 \<le> k \<and> k \<le> 100)"
| "step_ok (KeywordSearch q k) = (1 \<le> length q \<and> length q \<le> 500 \<and> 1 \<le> k \<and> k \<le> 100)"
| "step_ok (LinkExpand ts depth) = (1 \<le> depth \<and> depth \<le> 2)"
| "step_ok (TimeFilter a b) = True"
| "step_ok (StopAndAnswer r) = True"

definition plan_ok :: "query_plan \<Rightarrow> bool" where
  "plan_ok plan = (length (qp_rationale plan) \<le> 500 \<and> length (qp_steps plan) \<le> 8 \<and> list_all step_ok (qp_steps plan))"

type_synonym embedder = "string \<Rightarrow> real list result"

record recall_env =
  re_settings :: settings
  re_pg :: pg_engine
  re_now :: time
  re_clock :: "nat \<Rightarrow> real"
  re_llm :: "llm option"
  re_embedder :: "embedder option"
  re_rerank :: "string \<Rightarrow> rerank_candidate list \<Rightarrow> real list"
  re_validate :: "(string \<times> json) list \<Rightarrow> query_plan result"
  re_set_order :: "int list \<Rightarrow> int list"

definition parse_plan :: "recall_env \<Rightarrow> (string \<times> json) list option \<Rightarrow> query_plan result" where
  "parse_plan env payload =
     (case payload of
        Some (kv # kvs) \<Rightarrow> re_validate env (kv # kvs)
      | _ \<Rightarrow> Inr \<lparr>qp_rationale = [], qp_steps = []\<rparr>)"

subsection \<open>The loop\<close>

datatype trace_event =
    StopEvent
  | TimeEvent "time option" "time option"
  | EmbedFailed string
  | SearchEvent bool string nat nat
  | LinkEvent nat nat
  | FallbackEvent bool

type_synonym seen = "(int \<times> hybrid_hit) list"

record loop_state =
  ls_seen :: seen
  ls_embedder :: "embedder option"
  ls_hops :: nat
  ls_trace :: "trace_event list"
  ls_clock :: nat

record agent_loop_result =
  al_candidates :: "hybrid_hit list"
  al_hops :: nat
  al_stopped_reason :: string
  al_trace :: "trace_event list"

definition ingest_hit :: "hybrid_hit \<Rightarrow> seen \<times> nat \<Rightarrow> seen \<times> nat" where
  "ingest_hit h = (\<lambda>(seen, added).
     case map_of seen (h_memory_id h) of
       Some existing \<Rightarrow> (if h_score h > h_score existing then AList.update (h_memory_id h) h seen else seen, added)
     | None \<Rightarrow> (AList.update (h_memory_id h) h seen, added + 1))"

definition ingest :: "seen \<Rightarrow> hybrid_hit list \<Rightarrow> seen \<times> nat" where
  "ingest seen hits = fold ingest_hit hits (seen, 0)"

definition visit_link :: "principal \<Rightarrow> memory list \<Rightarrow> int \<Rightarrow> memory_link \<Rightarrow> seen \<times> int list \<times> nat \<Rightarrow> seen \<times> int list \<times> nat" where
  "visit_link p ms mid l = (\<lambda>(seen, nxt, added).
     let other = (if l_from l = mid then l_to l else l_from l)
     in if other \<in> fst ` set seen then (seen, nxt, added)
        else case get_by_id other p ms of
               None \<Rightarrow> (seen, nxt, added)
             | Some m \<Rightarrow> (AList.update (m_id m) (hit_of m 0) seen, List.insert (m_id m) nxt, added + 1))"

definition visit_node :: "principal \<Rightarrow> db \<Rightarrow> memory_link_type list \<Rightarrow> int \<Rightarrow> seen \<times> int list \<times> nat \<Rightarrow> seen \<times> int list \<times> nat" where
  "visit_node p d types mid = fold (visit_link p (memories d) mid) (neighbors mid types (links d))"

fun expand_depth ::
    "recall_env \<Rightarrow> principal \<Rightarrow> db \<Rightarrow> memory_link_type list \<Rightarrow> nat \<Rightarrow> int list \<Rightarrow> seen \<times> nat \<Rightarrow> seen \<times> nat" where
  "expand_depth env p d types 0 frontier (seen, added) = (seen, added)"
| "expand_depth env p d types (Suc n) frontier (seen, added) =
     (let (seen', nxt, added') = fold (visit_node p d types) frontier (seen, [], added);
          frontier' = re_set_order env nxt
      in if frontier' = [] then (seen', added') else expand_depth env p d types n frontier' (seen', added'))"

definition expand_links :: "recall_env \<Rightarrow> principal \<Rightarrow> db \<Rightarrow> memory_link_type list \<Rightarrow> nat \<Rightarrow> seen \<Rightarrow> seen \<times> nat" where
  "expand_links env p d types max_depth seen =
     (if seen = [] then (seen, 0) else expand_depth env p d types max_depth (map fst seen) (seen, 0))"

definition loop_search :: "principal \<Rightarrow> scope_filter list \<Rightarrow> string \<Rightarrow> real list option \<Rightarrow> nat \<Rightarrow> search_args" where
  "loop_search p scopes query vector top_k = \<lparr>sa_query = query, sa_vector = vector, sa_scopes = scopes,
     sa_max_sensitivity = max_sensitivity p, sa_top_k_vector = None, sa_top_k_bm25 = None, sa_rrf_k = None,
     sa_limit = top_k\<rparr>"

definition run_search ::
    "recall_env \<Rightarrow> principal \<Rightarrow> db \<Rightarrow> scope_filter list \<Rightarrow> bool \<Rightarrow> string \<Rightarrow> nat \<Rightarrow> loop_state \<Rightarrow> loop_state result" where
  "run_search env p d scopes semantic query top_k st =
     rbind (case (if semantic then ls_embedder st else None) of
              None \<Rightarrow> Inr (None, st)
            | Some e \<Rightarrow>
                (case e query of
                   Inr v \<Rightarrow> Inr (Some v, st)
                 | Inl (EmbeddingError t) \<Rightarrow>
                     Inr (None, st\<lparr>ls_embedder := None, ls_trace := ls_trace st @ [EmbedFailed t]\<rparr>)
                 | Inl e' \<Rightarrow> Inl e'))
       (\<lambda>(vector, st1).
          let hits = hybrid_search (re_pg env) (re_settings env) (projects d) (loop_search p scopes query vector top_k) p (memories d);
              (seen, added) = ingest (ls_seen st1) hits
          in Inr (st1\<lparr>ls_seen := seen, ls_trace := ls_trace st1 @ [SearchEvent semantic query top_k added]\<rparr>))"

definition stop_check :: "recall_env \<Rightarrow> recall_budget option \<Rightarrow> loop_state \<Rightarrow> string option" where
  "stop_check env budget st =
     (let s = re_settings env
      in if (case budget of None \<Rightarrow> False
             | Some b \<Rightarrow> \<not> has_headroom b (re_clock env (ls_clock st)) (real_of_int (retrieval_hop_reserve_ms s)))
         then Some ''budget_exhausted''
         else if ls_hops st \<ge> retrieval_max_hops s then Some ''max_hops''
         else if length (ls_seen st) \<ge> retrieval_max_candidates s then Some ''max_candidates''
         else None)"

fun run_steps ::
    "recall_env \<Rightarrow> principal \<Rightarrow> db \<Rightarrow> scope_filter list \<Rightarrow> recall_budget option \<Rightarrow> plan_step list \<Rightarrow> loop_state
     \<Rightarrow> (loop_state \<times> string) result" where
  "run_steps env p d scopes budget [] st = Inr (st, ''exhausted'')"
| "run_steps env p d scopes budget (step # rest) st =
     (let checked = st\<lparr>ls_clock := ls_clock st + 1\<rparr>; st1 = checked\<lparr>ls_hops := ls_hops st + 1\<rparr>
      in case stop_check env budget st of
           Some reason \<Rightarrow> Inr (checked, reason)
         | None \<Rightarrow>
             (case step of
                StopAndAnswer r \<Rightarrow>
                  Inr (st1\<lparr>ls_trace := ls_trace st1 @ [StopEvent]\<rparr>, if r = [] then ''stop'' else ''stop:'' @ r)
              | TimeFilter a b \<Rightarrow>
                  run_steps env p d scopes budget rest (st1\<lparr>ls_trace := ls_trace st1 @ [TimeEvent a b]\<rparr>)
              | SemanticSearch q k \<Rightarrow>
                  rbind (run_search env p d scopes True q k st1) (run_steps env p d scopes budget rest)
              | KeywordSearch q k \<Rightarrow>
                  rbind (run_search env p d scopes False q k st1) (run_steps env p d scopes budget rest)
              | LinkExpand types depth \<Rightarrow>
                  (let (seen, added) = expand_links env p d types depth (ls_seen st1)
                   in run_steps env p d scopes budget rest
                        (st1\<lparr>ls_seen := seen, ls_trace := ls_trace st1 @ [LinkEvent depth added]\<rparr>))))"

definition loop_start :: "embedder option \<Rightarrow> nat \<Rightarrow> loop_state" where
  "loop_start emb clock = \<lparr>ls_seen = [], ls_embedder = emb, ls_hops = 0, ls_trace = [], ls_clock = clock\<rparr>"

text \<open>The result with the position of the clock after the run.\<close>

definition agent_loop ::
    "recall_env \<Rightarrow> principal \<Rightarrow> db \<Rightarrow> scope_filter list \<Rightarrow> recall_budget option \<Rightarrow> nat \<Rightarrow> query_plan
     \<Rightarrow> (agent_loop_result \<times> nat) result" where
  "agent_loop env p d scopes budget clock plan =
     rbind (run_steps env p d scopes budget (qp_steps plan) (loop_start (re_embedder env) clock)) (\<lambda>(st, reason).
       Inr (\<lparr>al_candidates = map snd (ls_seen st), al_hops = ls_hops st, al_stopped_reason = reason,
             al_trace = ls_trace st\<rparr>, ls_clock st))"

subsection \<open>The orchestrator\<close>

record citation =
  ci_public_id :: string
  ci_title :: string
  ci_score :: real

record context_bundle =
  cb_query :: string
  cb_answer :: "string option"
  cb_citations :: "citation list"
  cb_candidates :: "reranked_hit list"
  cb_used_tokens :: int
  cb_trace :: "trace_event list"
  cb_rationale :: string
  cb_hops :: nat
  cb_stopped_reason :: string
  cb_usage :: recall_usage

record recall_request =
  rq_query :: string
  rq_scopes :: "scope_filter list option"
  rq_synthesize :: bool
  rq_max_tokens :: int
  rq_per_item_max :: int
  rq_latency_budget_ms :: int
  rq_token_budget :: int

definition request_scopes :: "recall_request \<Rightarrow> scope_filter list" where
  "request_scopes rq = (case rq_scopes rq of None \<Rightarrow> [] | Some xs \<Rightarrow> xs)"

definition bundle_tokens :: "reranked_hit list \<Rightarrow> int \<Rightarrow> int" where
  "bundle_tokens bundle per_item_max =
     sum_list (map (\<lambda>r. min (estimate_tokens (h_title (r_hit r) @ newline # h_body (r_hit r))) per_item_max) bundle)"

definition citations_of :: "reranked_hit list \<Rightarrow> citation list" where
  "citations_of bundle =
     map (\<lambda>r. \<lparr>ci_public_id = h_public_id (r_hit r), ci_title = h_title (r_hit r), ci_score = r_final_score r\<rparr>) bundle"

definition scope_hint :: "scope_filter list \<Rightarrow> string" where
  "scope_hint scopes =
     (if scopes = [] then []
      else newline # ''Scopes: ['' @
        py_join '', '' (map (\<lambda>sc. [CHR ''{'', CHR 0x22] @ ''type'' @ [CHR 0x22] @ '': '' @ [CHR 0x22] @
          scope_type_value (sf_type sc) @ [CHR 0x22] @ '', '' @ [CHR 0x22] @ ''id'' @ [CHR 0x22] @ '': '' @
          show_int (sf_id sc) @ ''}'') scopes) @ '']'')"

definition planner_call :: "settings \<Rightarrow> recall_request \<Rightarrow> llm_call" where
  "planner_call s rq = \<lparr>lc_system = PLANNER_SYSTEM,
     lc_user = ''Question: '' @ rq_query rq @ scope_hint (request_scopes rq),
     lc_model = llm_model_planner s, lc_max_tokens = 512, lc_schema = True\<rparr>"

text \<open>The step the code seeds a plan with, validated when it is constructed.\<close>

definition seed_plan :: "string \<Rightarrow> string \<Rightarrow> query_plan result" where
  "seed_plan rationale query =
     (if step_ok (SemanticSearch query 20) then Inr \<lparr>qp_rationale = rationale, qp_steps = [SemanticSearch query 20]\<rparr>
      else Inl (ValidationError ''1 validation error for SemanticSearch''))"

definition make_plan :: "recall_env \<Rightarrow> llm \<Rightarrow> recall_request \<Rightarrow> recall_usage \<Rightarrow> (query_plan \<times> recall_usage) result" where
  "make_plan env planner rq usage =
     rbind (planner (planner_call (re_settings env) rq)) (\<lambda>resp.
       rbind (parse_plan env (lr_structured resp)) (\<lambda>plan.
         rbind (if qp_steps plan = []
                then seed_plan (if qp_rationale plan = [] then ''planner returned no steps'' else qp_rationale plan) (rq_query rq)
                else Inr plan) (\<lambda>plan'.
           Inr (plan', record_usage (llm_prices (re_settings env)) resp usage))))"

definition rerank_pack ::
    "recall_env \<Rightarrow> principal \<Rightarrow> db \<Rightarrow> string \<Rightarrow> hybrid_hit list \<Rightarrow> int \<Rightarrow> int \<Rightarrow> reranked_hit list result" where
  "rerank_pack env p d query candidates max_tokens per_item_max =
     (if candidates = [] then Inr []
      else rbind (rerank_and_pack (re_rerank env) query candidates max_tokens per_item_max (7 / 10)) (\<lambda>(kept, _).
        if \<not> conflict_detection (re_settings env) then Inr kept
        else
          let (hits, demoted) = annotate_conflicts p d (map r_hit kept);
              noted = map (\<lambda>(r, h). r\<lparr>r_hit := h\<rparr>) (zip kept hits)
          in Inr (demote_superseded noted demoted (\<lambda>r. h_memory_id (r_hit r)))))"

definition synthesis_call :: "settings \<Rightarrow> string \<Rightarrow> reranked_hit list \<Rightarrow> llm_call" where
  "synthesis_call s query bundle = \<lparr>lc_system = SUMMARIZER_SYSTEM,
     lc_user = ''Question: '' @ query @ [newline, newline] @ ''Memories:'' @ [newline] @
       py_join [newline, newline]
         (map (\<lambda>r. ''[m:'' @ h_public_id (r_hit r) @ ''] '' @ h_title (r_hit r) @ newline # h_body (r_hit r)) bundle) @
       [newline, newline] @ ''Answer:'',
     lc_model = llm_model_summarizer s, lc_max_tokens = 600, lc_schema = False\<rparr>"

definition synthesize ::
    "recall_env \<Rightarrow> llm \<Rightarrow> recall_budget \<Rightarrow> nat \<Rightarrow> recall_request \<Rightarrow> reranked_hit list \<Rightarrow> recall_usage
     \<Rightarrow> (string option \<times> recall_usage) result" where
  "synthesize env summarizer budget clock rq bundle usage =
     (let s = re_settings env
      in if \<not> rq_synthesize rq then Inr (None, usage)
         else if \<not> (has_headroom budget (re_clock env clock) (real_of_int (retrieval_planner_min_budget_ms s)) \<and>
                 affords_tokens budget (int (total_tokens usage)) (retrieval_planner_min_budget_tokens s))
         then Inr (None, usage\<lparr>u_budget_exhausted := True\<rparr>)
         else case summarizer (synthesis_call s (rq_query rq) bundle) of
                Inl (LlmError _) \<Rightarrow> Inr (None, usage)
              | Inl e \<Rightarrow> Inl e
              | Inr resp \<Rightarrow> Inr (Some (py_strip (lr_text resp)), record_usage (llm_prices s) resp usage))"

definition query_vector :: "recall_env \<Rightarrow> string \<Rightarrow> (real list option \<times> bool) result" where
  "query_vector env query =
     (case re_embedder env of
        None \<Rightarrow> Inr (None, False)
      | Some e \<Rightarrow>
          (case e query of
             Inr v \<Rightarrow> Inr (Some v, True)
           | Inl (EmbeddingError _) \<Rightarrow> Inr (None, False)
           | Inl (KeyError _) \<Rightarrow> Inr (None, False)
           | Inl (RuntimeError _) \<Rightarrow> Inr (None, False)
           | Inl e' \<Rightarrow> Inl e'))"

abbreviation bundle_ids :: "reranked_hit list \<Rightarrow> int list" where
  "bundle_ids bundle \<equiv> map (\<lambda>r. h_memory_id (r_hit r)) bundle"

definition fallback_hybrid ::
    "recall_env \<Rightarrow> principal \<Rightarrow> recall_request \<Rightarrow> int \<Rightarrow> recall_budget \<Rightarrow> nat \<Rightarrow> recall_usage \<Rightarrow> string \<Rightarrow> db
     \<Rightarrow> (context_bundle \<times> db) result" where
  "fallback_hybrid env p rq max_tokens budget clock usage rationale d =
     rbind (query_vector env (rq_query rq)) (\<lambda>(vector, used_vector).
       let hits = hybrid_search (re_pg env) (re_settings env) (projects d)
             (loop_search p (request_scopes rq) (rq_query rq) vector 50) p (memories d)
       in rbind (rerank_pack env p d (rq_query rq) hits max_tokens (rq_per_item_max rq)) (\<lambda>kept.
            Inr (\<lparr>cb_query = rq_query rq, cb_answer = None, cb_citations = citations_of kept, cb_candidates = kept,
                  cb_used_tokens = bundle_tokens kept (rq_per_item_max rq), cb_trace = [FallbackEvent used_vector],
                  cb_rationale = (if rationale = [] then ''planner unavailable; ran plain hybrid retrieval'' else rationale),
                  cb_hops = 0, cb_stopped_reason = ''fallback'',
                  cb_usage = usage\<lparr>u_mode := ''hybrid'', u_latency_ms := elapsed_ms budget (re_clock env clock)\<rparr>\<rparr>,
                 record_access (re_now env) (bundle_ids kept) d)))"

definition agentic_recall ::
    "recall_env \<Rightarrow> principal \<Rightarrow> llm \<Rightarrow> llm option \<Rightarrow> recall_request \<Rightarrow> int \<Rightarrow> recall_budget \<Rightarrow> query_plan \<Rightarrow> recall_usage \<Rightarrow> db
     \<Rightarrow> (context_bundle \<times> db) result" where
  "agentic_recall env p planner own_summarizer rq max_tokens budget plan usage d =
     (let scopes = request_scopes rq
      in rbind (agent_loop env p d scopes (Some budget) 2 plan) (\<lambda>(first, clock1).
           rbind (if al_candidates first = []
                  then rbind (seed_plan [] (rq_query rq)) (agent_loop env p d scopes (Some budget) clock1)
                  else Inr (first, clock1)) (\<lambda>(run, clock2).
             rbind (rerank_pack env p d (rq_query rq) (al_candidates run) max_tokens (rq_per_item_max rq)) (\<lambda>bundle.
               rbind (synthesize env (case own_summarizer of Some l \<Rightarrow> l | None \<Rightarrow> planner) budget clock2 rq bundle usage)
                 (\<lambda>(answer, usage1).
                   Inr (\<lparr>cb_query = rq_query rq, cb_answer = answer, cb_citations = citations_of bundle,
                         cb_candidates = bundle, cb_used_tokens = bundle_tokens bundle (rq_per_item_max rq),
                         cb_trace = al_trace run, cb_rationale = qp_rationale plan, cb_hops = al_hops run,
                         cb_stopped_reason = al_stopped_reason run,
                         cb_usage = usage1\<lparr>u_plan_steps := length (qp_steps plan), u_hops := al_hops run,
                           u_latency_ms := elapsed_ms budget (re_clock env (clock2 + 1)),
                           u_budget_exhausted := u_budget_exhausted usage1 \<or> al_stopped_reason run = ''budget_exhausted''\<rparr>\<rparr>,
                        record_access (re_now env) (bundle_ids bundle) d))))))"

definition recall ::
    "recall_env \<Rightarrow> principal \<Rightarrow> llm option \<Rightarrow> llm option \<Rightarrow> recall_request \<Rightarrow> db \<Rightarrow> (context_bundle \<times> db) result" where
  "recall env p own_planner own_summarizer rq d =
     (let s = re_settings env;
          max_tokens = (if rq_max_tokens rq = 0 then retrieval_default_max_tokens s else rq_max_tokens rq);
          budget = \<lparr>latency_ms = rq_latency_budget_ms rq, tokens = rq_token_budget rq, start = re_clock env 0\<rparr>;
          planner = (case own_planner of Some l \<Rightarrow> Some l | None \<Rightarrow> if agentic_retrieval s then re_llm env else None);
          (plan_it, skip_reason) = should_plan budget (re_clock env 1) (planner \<noteq> None) (agentic_retrieval s)
             (retrieval_planner_min_budget_ms s) (retrieval_planner_min_budget_tokens s)
      in case (if plan_it then planner else None) of
           None \<Rightarrow> fallback_hybrid env p rq max_tokens budget 2 fresh_usage skip_reason d
         | Some l \<Rightarrow>
             (case make_plan env l rq (fresh_usage\<lparr>u_mode := ''agentic''\<rparr>) of
                Inl (LlmError t) \<Rightarrow>
                  fallback_hybrid env p rq max_tokens budget 2 (fresh_usage\<lparr>u_mode := ''agentic''\<rparr>)
                    (''planner failed ('' @ t @ ''); ran plain hybrid retrieval'') d
              | Inl e \<Rightarrow> Inl e
              | Inr (plan, usage) \<Rightarrow> agentic_recall env p l own_summarizer rq max_tokens budget plan usage d))"

subsection \<open>Plain search\<close>

record search_request =
  sr_query :: string
  sr_scopes :: "scope_filter list option"
  sr_limit :: nat
  sr_embed_query :: bool

record search_result =
  sres_hits :: "hybrid_hit list"
  sres_used_vector :: bool

definition retrieval_search :: "recall_env \<Rightarrow> principal \<Rightarrow> search_request \<Rightarrow> db \<Rightarrow> (search_result \<times> db) result" where
  "retrieval_search env p rq d =
     rbind (if sr_embed_query rq then query_vector env (sr_query rq) else Inr (None, False)) (\<lambda>(vector, used_vector).
       let hits = hybrid_search (re_pg env) (re_settings env) (projects d)
             (loop_search p (case sr_scopes rq of None \<Rightarrow> [] | Some xs \<Rightarrow> xs) (sr_query rq) vector (sr_limit rq)) p (memories d);
           page = annotated_page (re_settings env) p d hits
       in Inr (\<lparr>sres_hits = page, sres_used_vector = used_vector\<rparr>, record_access (re_now env) (map h_memory_id page) d))"


section \<open>What a recall may contain\<close>

text \<open>A hit that stands for a live memory the principal's tenancy admits.\<close>

definition tenant_hit :: "principal \<Rightarrow> memory list \<Rightarrow> hybrid_hit \<Rightarrow> bool" where
  "tenant_hit p ms h \<longleftrightarrow> (\<exists>m \<in> set ms. live m \<and> (is_superuser p \<or> m_org_id m = p_org_id p) \<and> (\<exists>sc. h = hit_of m sc))"

definition seen_ok :: "principal \<Rightarrow> memory list \<Rightarrow> seen \<Rightarrow> bool" where
  "seen_ok p ms seen \<longleftrightarrow> distinct (map fst seen) \<and> (\<forall>(i, h) \<in> set seen. h_memory_id h = i \<and> tenant_hit p ms h)"

lemma seen_ok_update:
  assumes "seen_ok p ms seen" and "tenant_hit p ms h"
  shows "seen_ok p ms (AList.update (h_memory_id h) h seen)"
proof -
  have "set (AList.update k v xs) \<subseteq> insert (k, v) (set xs)" for k :: int and v :: hybrid_hit and xs
    by (induction xs) auto
  from this [of "h_memory_id h" h seen] show ?thesis
    using assms by (auto simp: seen_ok_def distinct_update)
qed

lemma search_tenant_hits:
  assumes "distinct (map m_id ms)" and "h \<in> set (hybrid_search pg s prs a p ms)"
  shows "tenant_hit p ms h"
  using search_hits [OF assms(1), of pg s prs a p] assms(2) by (fastforce simp: tenant_hit_def search_visible_def)

lemma ingest_ok:
  assumes "\<forall>h \<in> set hits. tenant_hit p ms h" and "seen_ok p ms seen"
  shows "seen_ok p ms (fst (ingest seen hits))"
proof -
  have "seen_ok p ms (fst (fold ingest_hit hits (seen, n)))" for n
    using assms
  proof (induction hits arbitrary: seen n)
    case (Cons h hits)
    obtain seen' n' where st: "ingest_hit h (seen, n) = (seen', n')" by fastforce
    have "seen_ok p ms seen'"
      using st Cons.prems seen_ok_update [of p ms seen h]
      by (auto simp: ingest_hit_def split: option.splits if_splits)
    then show ?case using Cons st by simp
  qed simp
  then show ?thesis by (simp add: ingest_def)
qed

lemma get_by_id_row: "get_by_id i p ms = Some m \<Longrightarrow> m \<in> set ms \<and> m_id m = i \<and> live m \<and> (is_superuser p \<or> m_org_id m = p_org_id p)"
  unfolding get_by_id_def using first_row_in by (fastforce simp: set_tenant_rows)

lemma visit_link_ok:
  assumes "seen_ok p ms (fst st)"
  shows "seen_ok p ms (fst (visit_link p ms mid l st))"
proof -
  obtain seen nxt added where st: "st = (seen, nxt, added)" by (metis prod_cases3)
  show ?thesis
  proof (cases "fst (visit_link p ms mid l st) = seen")
    case True
    then show ?thesis using assms st by simp
  next
    case False
    then obtain m i where m: "get_by_id i p ms = Some m" "fst (visit_link p ms mid l st) = AList.update (m_id m) (hit_of m 0) seen"
      unfolding st visit_link_def by (auto simp: Let_def split: if_splits option.splits)
    have "tenant_hit p ms (hit_of m 0)" using get_by_id_row [OF m(1)] by (auto simp: tenant_hit_def)
    from seen_ok_update [OF _ this] show ?thesis using assms st m(2) by (simp add: hit_of_def)
  qed
qed

lemma fold_preserves: "(\<And>x st. P st \<Longrightarrow> P (f x st)) \<Longrightarrow> P st \<Longrightarrow> P (fold f xs st)"
  by (induction xs arbitrary: st) auto

lemma visit_node_ok: "seen_ok p (memories d) (fst st) \<Longrightarrow> seen_ok p (memories d) (fst (visit_node p d types mid st))"
  unfolding visit_node_def by (rule fold_preserves [where P = "\<lambda>st. seen_ok p (memories d) (fst st)"]) (auto intro: visit_link_ok)

lemma expand_depth_ok: "seen_ok p (memories d) seen \<Longrightarrow> seen_ok p (memories d) (fst (expand_depth env p d types n frontier (seen, added)))"
proof (induction n arbitrary: frontier seen added)
  case (Suc n)
  obtain seen' nxt added' where st: "fold (visit_node p d types) frontier (seen, [], added) = (seen', nxt, added')" by (metis prod_cases3)
  have "seen_ok p (memories d) (fst (fold (visit_node p d types) frontier (seen, [], added)))"
    using Suc.prems by (intro fold_preserves [where P = "\<lambda>st. seen_ok p (memories d) (fst st)"]) (auto intro: visit_node_ok)
  then show ?case using Suc st by (simp add: Let_def)
qed simp

lemma expand_links_ok: "seen_ok p (memories d) seen \<Longrightarrow> seen_ok p (memories d) (fst (expand_links env p d types n seen))"
  using expand_depth_ok [of p d seen] by (auto simp: expand_links_def)

definition embed_step :: "bool \<Rightarrow> string \<Rightarrow> loop_state \<Rightarrow> (real list option \<times> loop_state) result" where
  "embed_step semantic query st =
     (case (if semantic then ls_embedder st else None) of
        None \<Rightarrow> Inr (None, st)
      | Some e \<Rightarrow>
          (case e query of
             Inr v \<Rightarrow> Inr (Some v, st)
           | Inl (EmbeddingError t) \<Rightarrow>
               Inr (None, st\<lparr>ls_embedder := None, ls_trace := ls_trace st @ [EmbedFailed t]\<rparr>)
           | Inl e' \<Rightarrow> Inl e'))"

lemma embed_step_keeps:
  "embed_step semantic q st = Inr (v, st1) \<Longrightarrow> ls_seen st1 = ls_seen st \<and> ls_hops st1 = ls_hops st \<and> ls_clock st1 = ls_clock st"
  by (auto simp: embed_step_def split: option.splits sum.splits py_error.splits if_splits)

lemma run_search_step:
  "run_search env p d scopes semantic q k st =
     rbind (embed_step semantic q st) (\<lambda>(vector, st1).
        let hits = hybrid_search (re_pg env) (re_settings env) (projects d) (loop_search p scopes q vector k) p (memories d);
            (seen, added) = ingest (ls_seen st1) hits
        in Inr (st1\<lparr>ls_seen := seen, ls_trace := ls_trace st1 @ [SearchEvent semantic q k added]\<rparr>))"
  unfolding run_search_def embed_step_def by (rule refl)

lemma run_search_cases:
  assumes "run_search env p d scopes semantic q k st = Inr st'"
  obtains vec where "ls_seen st' = fst (ingest (ls_seen st) (hybrid_search (re_pg env) (re_settings env) (projects d)
      (loop_search p scopes q vec k) p (memories d)))" and "ls_hops st' = ls_hops st" and "ls_clock st' = ls_clock st"
proof -
  obtain vec st1 where st1: "embed_step semantic q st = Inr (vec, st1)"
    using assms unfolding run_search_step rbind_Inr by auto
  note keep = embed_step_keeps [OF st1]
  show thesis
    using assms keep by (intro that [of vec]) (auto simp: run_search_step st1 Let_def split_def)
qed

lemma run_search_ok:
  assumes "distinct (map m_id (memories d))" and "seen_ok p (memories d) (ls_seen st)"
    and "run_search env p d scopes semantic q k st = Inr st'"
  shows "seen_ok p (memories d) (ls_seen st')"
  by (rule run_search_cases [OF assms(3)]) (use search_tenant_hits [OF assms(1)] assms(2) in \<open>auto intro!: ingest_ok\<close>)

lemma run_steps_ok:
  assumes "distinct (map m_id (memories d))"
  shows "seen_ok p (memories d) (ls_seen st) \<Longrightarrow> run_steps env p d scopes budget steps st = Inr (st', reason) \<Longrightarrow>
     seen_ok p (memories d) (ls_seen st') \<and> ls_hops st' \<le> max (ls_hops st) (retrieval_max_hops (re_settings env)) \<and>
     ls_hops st' \<le> ls_hops st + length steps"
proof (induction steps arbitrary: st)
  case (Cons step rest)
  let ?st1 = "st\<lparr>ls_clock := ls_clock st + 1, ls_hops := ls_hops st + 1\<rparr>"
  show ?case
  proof (cases "stop_check env budget st")
    case (Some r)
    then show ?thesis using Cons.prems by (auto simp: Let_def)
  next
    case None
    then have room: "ls_hops st < retrieval_max_hops (re_settings env)"
      by (auto simp: stop_check_def Let_def split: if_splits)
    have step: "seen_ok p (memories d) (ls_seen st2) \<Longrightarrow> ls_hops st2 = ls_hops st + 1 \<Longrightarrow>
        run_steps env p d scopes budget rest st2 = Inr (st', reason) \<Longrightarrow> ?thesis" for st2
      using Cons.IH [of st2] room by auto
    have search: ?thesis if run: "rbind (run_search env p d scopes b q k ?st1) (run_steps env p d scopes budget rest) = Inr (st', reason)" for b q k
    proof -
      obtain st2 where st2: "run_search env p d scopes b q k ?st1 = Inr st2" "run_steps env p d scopes budget rest st2 = Inr (st', reason)"
        using run by (auto simp: rbind_Inr)
      then show ?thesis using step [OF run_search_ok [OF assms _ st2(1)]] Cons.prems(1) run_search_cases [OF st2(1)] by fastforce
    qed
    show ?thesis
    proof (cases step)
      case (LinkExpand types depth)
      obtain seen added where ex: "expand_links env p d types depth (ls_seen st) = (seen, added)" by fastforce
      then have "seen_ok p (memories d) seen" using expand_links_ok [OF Cons.prems(1), of env types depth] by simp
      then show ?thesis
        using Cons.prems(2) None LinkExpand ex
        by (intro step [of "?st1\<lparr>ls_seen := seen, ls_trace := ls_trace st @ [LinkEvent depth added]\<rparr>"]) (auto simp: Let_def)
    next
      case (TimeFilter a b)
      then show ?thesis
        using Cons.prems None by (intro step [of "?st1\<lparr>ls_trace := ls_trace st @ [TimeEvent a b]\<rparr>"]) (auto simp: Let_def)
    next
      case (StopAndAnswer r)
      then show ?thesis using Cons.prems None room by (auto simp: Let_def)
    next
      case (SemanticSearch q k)
      then show ?thesis using Cons.prems(2) None by (intro search [of True q k]) (simp add: Let_def)
    next
      case (KeywordSearch q k)
      then show ?thesis using Cons.prems(2) None by (intro search [of False q k]) (simp add: Let_def)
    qed
  qed
qed auto

lemma loop_start_ok: "seen_ok p ms (ls_seen (loop_start e c))"
  by (simp add: loop_start_def seen_ok_def)

lemma agent_loop_ok:
  assumes "distinct (map m_id (memories d))" and "agent_loop env p d scopes budget clock plan = Inr (res, clock')"
  shows "(\<forall>h \<in> set (al_candidates res). tenant_hit p (memories d) h) \<and> distinct (map h_memory_id (al_candidates res)) \<and>
     al_hops res \<le> retrieval_max_hops (re_settings env) \<and> al_hops res \<le> length (qp_steps plan)"
proof -
  obtain st reason where st: "run_steps env p d scopes budget (qp_steps plan) (loop_start (re_embedder env) clock) = Inr (st, reason)"
    "al_candidates res = map snd (ls_seen st)" "al_hops res = ls_hops st"
    using assms(2) by (auto simp: agent_loop_def rbind_Inr)
  note ok = run_steps_ok [OF assms(1) loop_start_ok st(1)]
  have "map h_memory_id (map snd (ls_seen st)) = map fst (ls_seen st)"
    using ok by (auto simp: seen_ok_def)
  then have "distinct (map h_memory_id (al_candidates res))" using ok st(2) by (simp only: seen_ok_def)
  moreover have "\<forall>h \<in> set (al_candidates res). tenant_hit p (memories d) h" using ok st(2) by (auto simp: seen_ok_def)
  ultimately show ?thesis using ok st(3) by (simp add: loop_start_def)
qed

section \<open>The packed bundle\<close>

abbreviation hit_cost :: "int \<Rightarrow> hybrid_hit \<Rightarrow> int" where
  "hit_cost per h \<equiv> min (estimate_tokens (h_title h @ newline # h_body h)) per"

lemma packed_item: "it \<in> set (pack_items rs) \<Longrightarrow> item_cost per it = hit_cost per (r_hit (rs ! bi_id it)) \<and> bi_id it < length rs"
  by (auto simp: pack_items_def item_cost_def hit_text_def in_set_enumerate_eq)

lemma rerank_bundle:
  assumes "rerank_and_pack score query hits mx per b = Inr (out, used)" and "0 \<le> per" and "0 \<le> mx"
  shows "mset (map r_hit out) \<subseteq># mset hits \<and> sum_list (map (\<lambda>r. hit_cost per (r_hit r)) out) \<le> mx"
proof (cases "hits = []")
  case True
  then show ?thesis using assms by (simp add: rerank_and_pack_def)
next
  case False
  let ?sc = "score query (map (\<lambda>h. \<lparr>rc_id = h_memory_id h, rc_text = hit_text h, rc_prior_score = h_score h\<rparr>) hits)"
  let ?rr = "sorted_desc r_final_score (blend_scores b hits ?sc)"
  obtain kept u where fit: "budget_fit mx per (pack_items ?rr) = (kept, u)" by force
  let ?idx = "sorted_desc (\<lambda>i. r_final_score (?rr ! i)) (sorted_list_of_set (set (map bi_id kept)))"
  have len: "length ?sc = length hits" and out: "out = map (\<lambda>i. ?rr ! i) ?idx"
    using assms(1) False fit by (auto simp: rerank_and_pack_def Let_def split: if_splits)
  have idx: "distinct ?idx" "\<forall>i \<in> set ?idx. i < length ?rr"
    using kept_idx_valid [OF assms(2) fit] by auto
  have "mset (map r_hit out) \<subseteq># mset (map r_hit ?rr)"
    using mset_map_nth_subset [OF idx, of r_hit] unfolding out by (simp only: map_map comp_def)
  also have "mset (map r_hit ?rr) = mset hits" using map_hit_blend_scores [OF len] by (metis mset_map mset_sorted_desc)
  finally have sub: "mset (map r_hit out) \<subseteq># mset hits" .
  obtain sel where sel: "subseq sel (sorted_desc bi_score (pack_items ?rr))" "kept = map (item_trunc per) sel"
    "sum_list (map (item_cost per) sel) \<le> mx"
    using fit_loop_spec [OF assms(2), of "sorted_desc bi_score (pack_items ?rr)" mx "[]" 0] fit assms(3)
    by (auto simp: budget_fit_def)
  have in_pack: "set sel \<subseteq> set (pack_items ?rr)" using sel(1) by (metis set_nths_subset set_sorted_desc subseq_conv_nths)
  have "distinct (map bi_id (pack_items ?rr))" by (simp add: pack_items_ids)
  then have "distinct (map bi_id (sorted_desc bi_score (pack_items ?rr)))"
    unfolding distinct_map distinct_sorted_desc set_sorted_desc .
  then have dist: "distinct (map bi_id sel)" using subseq_map [OF sel(1), of bi_id] distinct_nthsI by (auto simp: subseq_conv_nths)
  have ids: "set (map bi_id kept) = bi_id ` set sel" unfolding sel(2) by (auto simp: item_trunc_def)
  have "sum_list (map (\<lambda>r. hit_cost per (r_hit r)) out) = sum_list (map (\<lambda>i. hit_cost per (r_hit (?rr ! i))) ?idx)"
    by (simp only: out map_map comp_def)
  also have "\<dots> = (\<Sum>i \<in> set ?idx. hit_cost per (r_hit (?rr ! i)))"
    using idx(1) by (rule sum_list_distinct_conv_sum_set)
  also have "set ?idx = set (map bi_id sel)" using ids by simp
  also have "(\<Sum>i \<in> set (map bi_id sel). hit_cost per (r_hit (?rr ! i))) = sum_list (map (\<lambda>i. hit_cost per (r_hit (?rr ! i))) (map bi_id sel))"
    using dist by (rule sum_list_distinct_conv_sum_set [symmetric])
  also have "\<dots> = sum_list (map (item_cost per) sel)"
    using in_pack packed_item by (auto simp: comp_def intro!: arg_cong [of _ _ sum_list] map_cong)
  finally show ?thesis using sub sel(3) by simp
qed

text \<open>A hit without its conflict notes.\<close>

abbreviation bare :: "hybrid_hit \<Rightarrow> hybrid_hit" where
  "bare h \<equiv> h\<lparr>h_conflicts := []\<rparr>"

lemma annotate_bare: "map bare (fst (annotate_conflicts p d hits)) = map bare hits"
  by (auto simp: annotate_conflicts_def Let_def split_def)

lemma demote_mset: "mset (demote_superseded xs dem key) = mset xs"
  by (simp add: demote_superseded_def)

lemma distinct_submset:
  assumes "mset xs \<subseteq># mset ys" and "distinct ys"
  shows "distinct xs"
  unfolding distinct_count_atmost_1
proof
  fix a
  have "count (mset xs) a \<le> count (mset ys) a" using assms(1) by (rule mset_subset_eq_count)
  also have "\<dots> \<le> 1" using assms(2) by (simp add: distinct_count_atmost_1)
  finally have "count (mset xs) a \<le> 1" .
  then show "count (mset xs) a = (if a \<in> set xs then 1 else 0)"
  proof (cases "a \<in> set xs")
    case True
    then have "0 < count (mset xs) a" by (metis count_greater_zero_iff set_mset_mset)
    then show ?thesis using \<open>count (mset xs) a \<le> 1\<close> True by (simp only: if_True)
  next
    case False
    then show ?thesis by (simp add: not_in_iff [symmetric])
  qed
qed

lemma rerank_pack_ok:
  assumes "rerank_pack env p d q cands mx per = Inr bundle" and "0 \<le> per" and "0 \<le> mx"
  shows "mset (map (\<lambda>r. bare (r_hit r)) bundle) \<subseteq># mset (map bare cands) \<and> bundle_tokens bundle per \<le> mx"
proof (cases "cands = []")
  case True
  then show ?thesis using assms by (simp add: rerank_pack_def bundle_tokens_def)
next
  case False
  obtain kept used where kept: "rerank_and_pack (re_rerank env) q cands mx per (7 / 10) = Inr (kept, used)"
    using assms(1) False by (auto simp: rerank_pack_def rbind_Inr)
  have "mset (map (\<lambda>r. bare (r_hit r)) bundle) = mset (map (\<lambda>r. bare (r_hit r)) kept)"
  proof (cases "conflict_detection (re_settings env)")
    case True
    obtain hits dem where ann: "annotate_conflicts p d (map r_hit kept) = (hits, dem)" by fastforce
    have bare: "map bare hits = map (\<lambda>r. bare (r_hit r)) kept" using annotate_bare [of p d "map r_hit kept"] by (simp add: ann)
    then have len: "length hits = length kept" using map_eq_imp_length_eq by blast
    have bdl: "bundle = demote_superseded (map (\<lambda>(r, h). r\<lparr>r_hit := h\<rparr>) (zip kept hits)) dem (\<lambda>r. h_memory_id (r_hit r))"
      using assms(1) False kept True ann by (simp add: rerank_pack_def)
    have "mset (map (\<lambda>r. bare (r_hit r)) bundle) = mset (map (\<lambda>r. bare (r_hit r)) (map (\<lambda>(r, h). r\<lparr>r_hit := h\<rparr>) (zip kept hits)))"
      unfolding bdl mset_map demote_mset ..
    also have "map (\<lambda>r. bare (r_hit r)) (map (\<lambda>(r, h). r\<lparr>r_hit := h\<rparr>) (zip kept hits)) = map bare (map snd (zip kept hits))"
      by (simp add: comp_def split_def)
    finally show ?thesis using bare len by simp
  next
    case False
    then show ?thesis using assms(1) \<open>cands \<noteq> []\<close> kept by (simp add: rerank_pack_def)
  qed
  note same = this
  have cost: "hit_cost per h = hit_cost per (bare h)" for h by simp
  have "bundle_tokens bundle per = sum_mset (image_mset (hit_cost per) (mset (map (\<lambda>r. bare (r_hit r)) bundle)))"
    by (simp add: bundle_tokens_def sum_mset_sum_list [symmetric] comp_def image_mset.compositionality)
  also have "\<dots> = sum_list (map (\<lambda>r. hit_cost per (r_hit r)) kept)"
    unfolding same by (simp add: sum_mset_sum_list [symmetric] comp_def image_mset.compositionality)
  finally have tok: "bundle_tokens bundle per \<le> mx" using rerank_bundle [OF kept assms(2,3)] by simp
  have "mset (map bare (map r_hit kept)) \<subseteq># mset (map bare cands)"
    unfolding mset_map [of bare] using rerank_bundle [OF kept assms(2,3)] by (intro image_mset_subseteq_mono) simp
  then show ?thesis using same tok by (simp add: comp_def)
qed

text \<open>The bundle of a recall, given its candidates.\<close>

definition bundle_ok :: "principal \<Rightarrow> memory list \<Rightarrow> reranked_hit list \<Rightarrow> bool" where
  "bundle_ok p ms bundle \<longleftrightarrow> distinct (bundle_ids bundle) \<and>
     (\<forall>r \<in> set bundle. \<exists>m \<in> set ms. live m \<and> (is_superuser p \<or> m_org_id m = p_org_id p) \<and>
        h_memory_id (r_hit r) = m_id m \<and> h_public_id (r_hit r) = m_public_id m \<and> h_title (r_hit r) = m_title m \<and>
        h_body (r_hit r) = m_body m \<and> h_sensitivity (r_hit r) = m_sensitivity m)"

lemma packed_bundle:
  assumes "rerank_pack env p d q cands mx per = Inr bundle" and "0 \<le> per" and "0 \<le> mx"
    and "\<forall>h \<in> set cands. tenant_hit p (memories d) h" and "distinct (map h_memory_id cands)"
  shows "bundle_ok p (memories d) bundle \<and> bundle_tokens bundle per \<le> mx"
proof -
  note sub = rerank_pack_ok [OF assms(1-3)]
  have "mset (bundle_ids bundle) \<subseteq># mset (map h_memory_id cands)"
    using image_mset_subseteq_mono [OF sub [THEN conjunct1], of h_memory_id] by (simp add: image_mset.compositionality comp_def)
  then have "distinct (bundle_ids bundle)"
    using assms(5) by (rule distinct_submset)
  moreover have "\<exists>m \<in> set (memories d). live m \<and> (is_superuser p \<or> m_org_id m = p_org_id p) \<and>
        h_memory_id (r_hit r) = m_id m \<and> h_public_id (r_hit r) = m_public_id m \<and> h_title (r_hit r) = m_title m \<and>
        h_body (r_hit r) = m_body m \<and> h_sensitivity (r_hit r) = m_sensitivity m" if "r \<in> set bundle" for r
  proof -
    have "bare (r_hit r) \<in># mset (map bare cands)"
      using that by (intro mset_subset_eqD [OF sub [THEN conjunct1]]) auto
    then obtain h where h: "h \<in> set cands" "bare (r_hit r) = bare h" by auto
    then obtain m sc where m: "m \<in> set (memories d)" "live m" "is_superuser p \<or> m_org_id m = p_org_id p" "h = hit_of m sc"
      using assms(4) by (auto simp: tenant_hit_def)
    have "h_memory_id (bare (r_hit r)) = m_id m" "h_public_id (bare (r_hit r)) = m_public_id m" "h_title (bare (r_hit r)) = m_title m"
      "h_body (bare (r_hit r)) = m_body m" "h_sensitivity (bare (r_hit r)) = m_sensitivity m"
      unfolding h(2) m(4) by (simp_all add: hit_of_def)
    then show ?thesis using m by auto
  qed
  ultimately show ?thesis using sub by (simp add: bundle_ok_def)
qed

abbreviation token_limit :: "recall_env \<Rightarrow> recall_request \<Rightarrow> int" where
  "token_limit env rq \<equiv> (if rq_max_tokens rq = 0 then retrieval_default_max_tokens (re_settings env) else rq_max_tokens rq)"

definition recall_result :: "recall_env \<Rightarrow> principal \<Rightarrow> int \<Rightarrow> db \<Rightarrow> context_bundle \<times> db \<Rightarrow> bool" where
  "recall_result env p mx d = (\<lambda>(b, d'). bundle_ok p (memories d) (cb_candidates b) \<and>
     cb_citations b = citations_of (cb_candidates b) \<and> cb_used_tokens b \<le> mx \<and>
     cb_hops b \<le> retrieval_max_hops (re_settings env) \<and>
     d' = record_access (re_now env) (bundle_ids (cb_candidates b)) d)"

lemma fallback_result:
  assumes "distinct (map m_id (memories d))" and "0 \<le> rq_per_item_max rq" and "0 \<le> mx"
    and "fallback_hybrid env p rq mx budget clock usage why d = Inr out"
  shows "recall_result env p mx d out"
proof -
  obtain vec uv where vec: "query_vector env (rq_query rq) = Inr (vec, uv)"
    using assms(4) by (auto simp: fallback_hybrid_def rbind_Inr)
  let ?hits = "hybrid_search (re_pg env) (re_settings env) (projects d) (loop_search p (request_scopes rq) (rq_query rq) vec 50) p (memories d)"
  obtain kept where kept: "rerank_pack env p d (rq_query rq) ?hits mx (rq_per_item_max rq) = Inr kept"
    using assms(4) vec by (auto simp: fallback_hybrid_def rbind_Inr)
  have "\<forall>h \<in> set ?hits. tenant_hit p (memories d) h" using search_tenant_hits [OF assms(1)] by blast
  moreover have "distinct (map h_memory_id ?hits)" using search_hits [OF assms(1)] by blast
  ultimately have "bundle_ok p (memories d) kept \<and> bundle_tokens kept (rq_per_item_max rq) \<le> mx"
    using packed_bundle [OF kept assms(2,3)] by blast
  then show ?thesis using assms(4) vec kept by (auto simp: fallback_hybrid_def recall_result_def)
qed

lemma agentic_result:
  assumes "distinct (map m_id (memories d))" and "0 \<le> rq_per_item_max rq" and "0 \<le> mx"
    and "agentic_recall env p l sm rq mx budget plan usage d = Inr out"
  shows "recall_result env p mx d out"
proof -
  obtain run1 c1 where run1: "agent_loop env p d (request_scopes rq) (Some budget) 2 plan = Inr (run1, c1)"
    using assms(4) by (auto simp: agentic_recall_def Let_def rbind_Inr)
  obtain run c2 where run: "(if al_candidates run1 = [] then rbind (seed_plan [] (rq_query rq)) (agent_loop env p d (request_scopes rq) (Some budget) c1)
      else Inr (run1, c1)) = Inr (run, c2)"
    using assms(4) run1 by (auto simp: agentic_recall_def Let_def rbind_Inr)
  obtain kept where kept: "rerank_pack env p d (rq_query rq) (al_candidates run) mx (rq_per_item_max rq) = Inr kept"
    using assms(4) run1 run by (auto simp: agentic_recall_def Let_def rbind_Inr simp del: if_split)
  have "(\<forall>h \<in> set (al_candidates run). tenant_hit p (memories d) h) \<and> distinct (map h_memory_id (al_candidates run)) \<and>
      al_hops run \<le> retrieval_max_hops (re_settings env)"
    using run agent_loop_ok [OF assms(1) run1] agent_loop_ok [OF assms(1)] by (auto simp: rbind_Inr split: if_splits)
  note ok = this
  then have "bundle_ok p (memories d) kept \<and> bundle_tokens kept (rq_per_item_max rq) \<le> mx"
    using packed_bundle [OF kept assms(2,3)] by blast
  then show ?thesis
    using assms(4) run1 run kept ok
    by (auto simp: agentic_recall_def recall_result_def Let_def rbind_Inr simp del: if_split)
qed

lemma recall_cases:
  assumes "recall env p own_planner own_summarizer rq d = Inr out"
  obtains (fallback) budget clock usage why where
      "fallback_hybrid env p rq (token_limit env rq) budget clock usage why d = Inr out"
    | (agentic) l budget plan usage where
      "agentic_recall env p l own_summarizer rq (token_limit env rq) budget plan usage d = Inr out"
proof -
  let ?s = "re_settings env"
  let ?budget = "\<lparr>latency_ms = rq_latency_budget_ms rq, tokens = rq_token_budget rq, start = re_clock env 0\<rparr>"
  define planner where "planner = (case own_planner of Some l \<Rightarrow> Some l | None \<Rightarrow> if agentic_retrieval ?s then re_llm env else None)"
  obtain plan_it why where sp: "should_plan ?budget (re_clock env 1) (planner \<noteq> None) (agentic_retrieval ?s)
      (retrieval_planner_min_budget_ms ?s) (retrieval_planner_min_budget_tokens ?s) = (plan_it, why)" by fastforce
  note run = assms [unfolded recall_def Let_def planner_def [symmetric] sp prod.case]
  show thesis
  proof (cases "if plan_it then planner else None")
    case None
    then show thesis using run by (intro fallback) simp
  next
    case (Some l)
    note run = run [unfolded Some option.case]
    show thesis
    proof (cases "make_plan env l rq (fresh_usage\<lparr>u_mode := ''agentic''\<rparr>)")
      case (Inl e)
      then obtain t where "e = LlmError t" using run by (cases e) simp_all
      then show thesis using run Inl by (intro fallback) simp
    next
      case (Inr pu)
      then show thesis using run by (cases pu) (auto intro: agentic)
    qed
  qed
qed



section \<open>Tenant isolation of recall\<close>

text \<open>Two stores that every reader used by a recall cannot tell apart.\<close>

definition same_reads :: "principal \<Rightarrow> db \<Rightarrow> db \<Rightarrow> bool" where
  "same_reads p d e \<longleftrightarrow> links d = links e \<and> projects d = projects e \<and>
     (\<forall>pg s prs a. hybrid_search pg s prs a p (memories d) = hybrid_search pg s prs a p (memories e)) \<and>
     (\<forall>i. get_by_id i p (memories d) = get_by_id i p (memories e)) \<and>
     (\<forall>ids. list_by_ids ids p (memories d) = list_by_ids ids p (memories e))"

lemma foreign_same_reads:
  assumes "\<not> is_superuser p" and "\<forall>m \<in> set foreign. m_org_id m \<noteq> p_org_id p" and "distinct (map m_id (memories d @ foreign))"
  shows "same_reads p (d\<lparr>memories := memories d @ foreign\<rparr>) d"
  using search_foreign [OF assms] by_id.foreign_rows_invisible [OF assms(1,2)] by_ids.foreign_rows_invisible [OF assms(1,2)]
  by (simp add: same_reads_def opt_list_inject)

lemma expand_same:
  assumes "same_reads p d e"
  shows "expand_links env p d types n seen = expand_links env p e types n seen"
proof -
  have get: "get_by_id i p (memories d) = get_by_id i p (memories e)" for i using assms by (simp add: same_reads_def)
  have "visit_link p (memories d) = visit_link p (memories e)"
    by (intro ext) (simp only: visit_link_def get)
  moreover have "links d = links e" using assms by (simp add: same_reads_def)
  ultimately have node: "visit_node p d = visit_node p e"
    by (intro ext) (simp only: visit_node_def)
  have "expand_depth env p d types n frontier st = expand_depth env p e types n frontier st" for frontier st
    by (induction n arbitrary: frontier st) (case_tac [!] st, auto simp: node Let_def split: prod.splits)
  then show ?thesis by (simp add: expand_links_def)
qed

lemma run_steps_same:
  assumes "same_reads p d e"
  shows "run_steps env p d scopes budget steps st = run_steps env p e scopes budget steps st"
proof (induction steps arbitrary: st)
  case (Cons step rest)
  have search: "run_search env p d scopes b q k st' = run_search env p e scopes b q k st'" for b q k st'
    using assms by (simp add: run_search_step same_reads_def)
  have rest: "run_steps env p d scopes budget rest = run_steps env p e scopes budget rest" using Cons.IH by (rule ext)
  show ?case
    by (cases step) (simp_all only: run_steps.simps plan_step.case search rest expand_same [OF assms])
qed simp

lemma rerank_pack_same:
  assumes "same_reads p d e"
  shows "rerank_pack env p d q cands mx per = rerank_pack env p e q cands mx per"
proof -
  have "annotate_conflicts p d hits = annotate_conflicts p e hits" for hits
    using assms unfolding annotate_conflicts_def Let_def same_reads_def by simp
  then show ?thesis by (simp only: rerank_pack_def)
qed

lemma fallback_same:
  assumes "same_reads p d e"
  shows "map_sum id fst (fallback_hybrid env p rq mx budget clock usage why d) =
     map_sum id fst (fallback_hybrid env p rq mx budget clock usage why e)"
proof (cases "query_vector env (rq_query rq)")
  case (Inr vu)
  obtain vec uv where "vu = (vec, uv)" by fastforce
  moreover have "hybrid_search pg s (projects d) a p (memories d) = hybrid_search pg s (projects e) a p (memories e)" for pg s a
    using assms by (simp add: same_reads_def)
  ultimately show ?thesis
    using Inr unfolding fallback_hybrid_def Let_def rerank_pack_same [OF assms]
    by (cases "rerank_pack env p e (rq_query rq) (hybrid_search (re_pg env) (re_settings env) (projects e)
        (loop_search p (request_scopes rq) (rq_query rq) vec 50) p (memories e)) mx (rq_per_item_max rq)") simp_all
qed (simp add: fallback_hybrid_def)

lemma map_fst_rbind: "map_sum id fst (rbind x f) = rbind x (\<lambda>v. map_sum id fst (f v))"
  by (simp add: rbind_def split: sum.split)

lemma agentic_same:
  assumes "same_reads p d e"
  shows "map_sum id fst (agentic_recall env p l sm rq mx budget plan usage d) =
     map_sum id fst (agentic_recall env p l sm rq mx budget plan usage e)"
proof -
  have loop: "agent_loop env p d scopes bud c pl = agent_loop env p e scopes bud c pl" for scopes bud c pl
    by (simp only: agent_loop_def run_steps_same [OF assms])
  show ?thesis
    unfolding agentic_recall_def Let_def map_fst_rbind rerank_pack_same [OF assms] split_def loop by simp
qed



section \<open>A recall returns\<close>

text \<open>The failures the code provides for: the embedder's and the models' own error classes.\<close>

definition embedder_ok :: "embedder option \<Rightarrow> bool" where
  "embedder_ok emb \<longleftrightarrow> (\<forall>e q err. emb = Some e \<longrightarrow> e q = Inl err \<longrightarrow> (\<exists>t. err = EmbeddingError t))"

definition llm_ok :: "llm \<Rightarrow> bool" where
  "llm_ok l \<longleftrightarrow> (\<forall>c err. l c = Inl err \<longrightarrow> (\<exists>t. err = LlmError t))"

lemma embed_step_returns:
  assumes "embedder_ok (ls_embedder st)"
  shows "\<exists>v st1. embed_step semantic q st = Inr (v, st1) \<and> embedder_ok (ls_embedder st1)"
proof (cases "if semantic then ls_embedder st else None")
  case None
  then show ?thesis using assms by (simp add: embed_step_def)
next
  case (Some e)
  then have e: "ls_embedder st = Some e" by (auto split: if_splits)
  show ?thesis
  proof (cases "e q")
    case (Inl err)
    then obtain t where "err = EmbeddingError t" using assms e by (auto simp: embedder_ok_def)
    then show ?thesis using Some Inl by (simp add: embed_step_def embedder_ok_def)
  next
    case (Inr v)
    then show ?thesis using Some assms by (simp add: embed_step_def)
  qed
qed

lemma run_steps_returns: "embedder_ok (ls_embedder st) \<Longrightarrow> \<exists>st' r. run_steps env p d scopes budget steps st = Inr (st', r)"
proof (induction steps arbitrary: st)
  case (Cons step rest)
  let ?st1 = "st\<lparr>ls_clock := ls_clock st + 1, ls_hops := ls_hops st + 1\<rparr>"
  have search: "\<exists>st' r. rbind (run_search env p d scopes b q k ?st1) (run_steps env p d scopes budget rest) = Inr (st', r)" for b q k
  proof -
    obtain v st2 where st2: "embed_step b q ?st1 = Inr (v, st2)" "embedder_ok (ls_embedder st2)"
      using embed_step_returns [of ?st1 b q] Cons.prems by auto
    then obtain st3 where "run_search env p d scopes b q k ?st1 = Inr st3" "embedder_ok (ls_embedder st3)"
      by (simp add: run_search_step split_def Let_def)
    then show ?thesis using Cons.IH [of st3] by auto
  qed
  show ?case
  proof (cases "stop_check env budget st")
    case None
    show ?thesis
    proof (cases step)
      case (SemanticSearch q k)
      then show ?thesis using search [of True q k] None by (simp add: Let_def)
    next
      case (KeywordSearch q k)
      then show ?thesis using search [of False q k] None by (simp add: Let_def)
    qed (use None Cons in \<open>simp_all add: Let_def split_def\<close>)
  qed (simp add: Let_def)
qed simp

lemma agent_loop_returns: "embedder_ok (re_embedder env) \<Longrightarrow> \<exists>res c'. agent_loop env p d scopes budget c plan = Inr (res, c')"
  using run_steps_returns [of "loop_start (re_embedder env) c" env p d scopes budget "qp_steps plan"]
  by (auto simp: agent_loop_def loop_start_def)

lemma rerank_pack_returns:
  assumes "\<forall>q cs. length (re_rerank env q cs) = length cs"
  shows "\<exists>bundle. rerank_pack env p d q cands mx per = Inr bundle"
  using assms by (auto simp: rerank_pack_def rerank_and_pack_def Let_def split_def)

lemma query_vector_returns:
  assumes "embedder_ok (re_embedder env)"
  shows "\<exists>v. query_vector env q = Inr v"
proof (cases "re_embedder env")
  case (Some e)
  show ?thesis
  proof (cases "e q")
    case (Inl err)
    then obtain t where "err = EmbeddingError t" using assms Some by (auto simp: embedder_ok_def)
    then show ?thesis using Some Inl by (intro exI [of _ "(None, False)"]) (simp add: query_vector_def)
  qed (auto simp: query_vector_def Some)
qed (auto simp: query_vector_def)

lemma fallback_returns:
  assumes "\<forall>q cs. length (re_rerank env q cs) = length cs" and "embedder_ok (re_embedder env)"
  shows "\<exists>out. fallback_hybrid env p rq mx budget clock usage why d = Inr out"
proof -
  obtain vec uv where "query_vector env (rq_query rq) = Inr (vec, uv)" using query_vector_returns [OF assms(2)] by fastforce
  moreover obtain kept where "rerank_pack env p d (rq_query rq) (hybrid_search (re_pg env) (re_settings env) (projects d)
      (loop_search p (request_scopes rq) (rq_query rq) vec 50) p (memories d)) mx (rq_per_item_max rq) = Inr kept"
    using rerank_pack_returns [OF assms(1)] by blast
  ultimately show ?thesis by (simp add: fallback_hybrid_def)
qed

lemma synthesize_returns: "llm_ok l \<Longrightarrow> \<exists>a u. synthesize env l budget clock rq bdl usage = Inr (a, u)"
  by (cases "l (synthesis_call (re_settings env) (rq_query rq) bdl)")
    (fastforce simp: synthesize_def Let_def llm_ok_def)+

lemma agentic_returns:
  assumes "\<forall>q cs. length (re_rerank env q cs) = length cs" and "embedder_ok (re_embedder env)"
    and "llm_ok l" and "\<forall>l'. sm = Some l' \<longrightarrow> llm_ok l'" and "step_ok (SemanticSearch (rq_query rq) 20)"
  shows "\<exists>out. agentic_recall env p l sm rq mx budget plan usage d = Inr out"
proof -
  obtain run1 c1 where run1: "agent_loop env p d (request_scopes rq) (Some budget) 2 plan = Inr (run1, c1)"
    using agent_loop_returns [OF assms(2)] by blast
  obtain run c2 where run: "(if al_candidates run1 = [] then rbind (seed_plan [] (rq_query rq)) (agent_loop env p d (request_scopes rq) (Some budget) c1)
      else Inr (run1, c1)) = Inr (run, c2)"
    using agent_loop_returns [OF assms(2)] assms(5) by (cases "al_candidates run1 = []") (simp_all add: seed_plan_def, blast)
  obtain kept where kept: "rerank_pack env p d (rq_query rq) (al_candidates run) mx (rq_per_item_max rq) = Inr kept"
    using rerank_pack_returns [OF assms(1)] by blast
  have "llm_ok (case sm of Some l' \<Rightarrow> l' | None \<Rightarrow> l)" using assms(3,4) by (cases sm) auto
  then obtain a u where "synthesize env (case sm of Some l' \<Rightarrow> l' | None \<Rightarrow> l) budget c2 rq kept usage = Inr (a, u)"
    using synthesize_returns by blast
  then show ?thesis using run1 run kept by (simp add: agentic_recall_def Let_def del: if_split)
qed

lemma make_plan_error:
  assumes "make_plan env l rq u = Inl e" and "llm_ok l" and "\<forall>resp. l (planner_call (re_settings env) rq) = Inr resp \<longrightarrow>
      (\<exists>plan. parse_plan env (lr_structured resp) = Inr plan)" and "step_ok (SemanticSearch (rq_query rq) 20)"
  shows "\<exists>t. e = LlmError t"
proof (cases "l (planner_call (re_settings env) rq)")
  case (Inl err)
  then show ?thesis using assms(1,2) by (simp add: make_plan_def llm_ok_def)
next
  case (Inr resp)
  then obtain plan where "parse_plan env (lr_structured resp) = Inr plan" using assms(3) by blast
  then have False using assms(1,4) Inr by (auto simp: make_plan_def seed_plan_def split: if_splits)
  then show ?thesis ..
qed

text \<open>
  C10.  A recall of a query of 1 to 500 characters always answers.  If the reranker scores every candidate, the embedder fails only with
  its own error class, the models only with theirs, and what the planner returns is a valid plan, then
  recall returns a bundle: with no planner, with no embedder, under any budget, on a planner or
  summariser outage, on an empty plan and on a plan that finds nothing.
\<close>

theorem recall_returns:
  assumes "\<forall>q cs. length (re_rerank env q cs) = length cs" and "embedder_ok (re_embedder env)"
    and "\<forall>l. own_planner = Some l \<or> own_summarizer = Some l \<or> re_llm env = Some l \<longrightarrow> llm_ok l"
    and "\<forall>l c resp. (own_planner = Some l \<or> re_llm env = Some l) \<longrightarrow> l c = Inr resp \<longrightarrow>
       (\<exists>plan. parse_plan env (lr_structured resp) = Inr plan)"
    and "1 \<le> length (rq_query rq)" and "length (rq_query rq) \<le> 500"
  shows "\<exists>b d'. recall env p own_planner own_summarizer rq d = Inr (b, d')"
proof -
  let ?s = "re_settings env"
  let ?budget = "\<lparr>latency_ms = rq_latency_budget_ms rq, tokens = rq_token_budget rq, start = re_clock env 0\<rparr>"
  let ?u = "fresh_usage\<lparr>u_mode := ''agentic''\<rparr>"
  define planner where "planner = (case own_planner of Some l \<Rightarrow> Some l | None \<Rightarrow> if agentic_retrieval ?s then re_llm env else None)"
  obtain plan_it why where sp: "should_plan ?budget (re_clock env 1) (planner \<noteq> None) (agentic_retrieval ?s)
      (retrieval_planner_min_budget_ms ?s) (retrieval_planner_min_budget_tokens ?s) = (plan_it, why)" by fastforce
  note run = recall_def [of env p own_planner own_summarizer rq d, unfolded Let_def planner_def [symmetric] sp prod.case]
  note fb = fallback_returns [OF assms(1,2)] and ag = agentic_returns [OF assms(1,2)]
  have "\<exists>out. recall env p own_planner own_summarizer rq d = Inr out"
  proof (cases "if plan_it then planner else None")
    case None
    show ?thesis unfolding run None option.case by (rule fb)
  next
    case (Some l)
    then have avail: "own_planner = Some l \<or> re_llm env = Some l" by (auto simp: planner_def split: if_splits option.splits)
    show ?thesis
    proof (cases "make_plan env l rq ?u")
      case (Inl e)
      then obtain t where t: "e = LlmError t"
        using make_plan_error [OF Inl] assms(3-6) avail by auto
      show ?thesis unfolding run Some option.case Inl sum.case t py_error.case by (rule fb)
    next
      case (Inr pu)
      obtain plan u where pu: "pu = (plan, u)" by fastforce
      show ?thesis unfolding run Some option.case Inr sum.case pu prod.case by (rule ag) (use assms(3,5,6) avail in auto)
    qed
  qed
  then show ?thesis by auto
qed


section \<open>Concrete recalls\<close>

lemma step_ok_code [code]:
  "step_ok (SemanticSearch q k) = (q \<noteq> [] \<and> int (length q) \<le> 500 \<and> 1 \<le> k \<and> int k \<le> 100)"
  "step_ok (KeywordSearch q k) = (q \<noteq> [] \<and> int (length q) \<le> 500 \<and> 1 \<le> k \<and> int k \<le> 100)"
  "step_ok (LinkExpand ts depth) = (1 \<le> depth \<and> depth \<le> 2)"
  "step_ok (TimeFilter a b) = True"
  "step_ok (StopAndAnswer r) = True"
  by (auto simp: Suc_le_eq)

definition follow_links :: query_plan where
  "follow_links = \<lparr>qp_rationale = ''links'', qp_steps = [KeywordSearch ''queue'' 5, LinkExpand [] 1]\<rparr>"

definition demo_env :: recall_env where
  "demo_env = \<lparr>re_settings = default_settings, re_pg = plain_engine, re_now = 500, re_clock = (\<lambda>_. 0), re_llm = None,
     re_embedder = None, re_rerank = heuristic_score, re_validate = (\<lambda>_. Inr follow_links), re_set_order = (\<lambda>xs. xs)\<rparr>"

definition demo_planner :: llm where
  "demo_planner = (\<lambda>_. Inr \<lparr>lr_text = [], lr_structured = Some [(''steps'', JList [])], lr_model = ''m'', lr_tokens_in = 10,
     lr_tokens_out = 5\<rparr>)"

definition demo_request :: recall_request where
  "demo_request = \<lparr>rq_query = ''queue'', rq_scopes = None, rq_synthesize = False, rq_max_tokens = 0, rq_per_item_max = 800,
     rq_latency_budget_ms = 0, rq_token_budget = 0\<rparr>"

text \<open>An approved internal memory linked to a secret one that waits for review.\<close>

definition linked_db :: db where
  "linked_db = (let m = hd (memories sample_db)
     in sample_db\<lparr>memories := [m\<lparr>m_id := 1\<rparr>, m\<lparr>m_id := 2, m_public_id := ''hidden'', m_sensitivity := SECRET, m_review_status := PENDING\<rparr>],
          links := [\<lparr>l_from = 1, l_to = 2, l_type = RELATED, l_weight = 1, l_created_at = 0\<rparr>], next_memory_id := 3\<rparr>)"

definition recalled :: "(context_bundle \<times> db) result \<Rightarrow> int list" where
  "recalled r = (case r of Inl _ \<Rightarrow> [] | Inr (b, _) \<Rightarrow> bundle_ids (cb_candidates b))"

lemma linked_db_wf: "wf_db linked_db"
  by code_simp

lemma recall_returns_witness:
  "\<exists>b d'. recall demo_env (member_of 1) (Some demo_planner) None demo_request linked_db = Inr (b, d')"
proof (rule recall_returns)
  show "\<forall>q cs. length (re_rerank demo_env q cs) = length cs" by (simp add: demo_env_def)
  show "embedder_ok (re_embedder demo_env)" by (simp add: demo_env_def embedder_ok_def)
  show "\<forall>l. Some demo_planner = Some l \<or> None = Some l \<or> re_llm demo_env = Some l \<longrightarrow> llm_ok l"
    by (simp add: demo_env_def demo_planner_def llm_ok_def)
  show "\<forall>l c resp. (Some demo_planner = Some l \<or> re_llm demo_env = Some l) \<longrightarrow> l c = Inr resp \<longrightarrow>
      (\<exists>plan. parse_plan demo_env (lr_structured resp) = Inr plan)"
    by (auto simp: demo_env_def demo_planner_def parse_plan_def)
  show "1 \<le> length (rq_query demo_request)" "length (rq_query demo_request) \<le> 500" by (simp_all add: demo_request_def)
qed

lemma demo_run: "(case recall demo_env (member_of 1) (Some demo_planner) None demo_request linked_db of Inl _ \<Rightarrow> False | Inr _ \<Rightarrow> True)"
  by code_simp



text \<open>
  Link expansion looks memories up by id, with no regard to sensitivity, review status, trust or the
  requested scopes: a member whose ceiling is internal recalls a secret memory that is still held for
  review, which the plain search of the same request does not return.
\<close>

lemma link_expansion_ignores_governance:
  "recalled (recall demo_env (member_of 1) (Some demo_planner) None demo_request linked_db) = [1, 2] \<and>
   recalled (recall demo_env (member_of 1) None None demo_request linked_db) = [1] \<and>
   map m_sensitivity (memories linked_db) = [INTERNAL, SECRET] \<and> max_sensitivity (member_of 1) = INTERNAL"
  by code_simp

text \<open>A planner answer that fails validation is not one of the failures that degrade: the recall raises.\<close>

lemma invalid_plan_raises:
  assumes "agentic_retrieval (re_settings env)" and "l (planner_call (re_settings env) rq) = Inr resp"
    and "parse_plan env (lr_structured resp) = Inl (ValidationError t)" and "rq_latency_budget_ms rq = 0" and "rq_token_budget rq = 0"
  shows "recall env p (Some l) sm rq d = Inl (ValidationError t)"
  using assms by (simp add: recall_def should_plan_def has_latency_cap_def has_token_cap_def make_plan_def)

text \<open>So does a query longer than 500 characters that the plan finds nothing for, which the code seeds a search with.\<close>

lemma long_query_raises:
  assumes "agentic_retrieval (re_settings env)" and "l (planner_call (re_settings env) rq) = Inr resp"
    and "lr_structured resp = None" and "rq_latency_budget_ms rq = 0" and "rq_token_budget rq = 0" and "length (rq_query rq) > 500"
  shows "\<exists>t. recall env p (Some l) sm rq d = Inl (ValidationError t)"
  using assms by (simp add: recall_def should_plan_def has_latency_cap_def has_token_cap_def make_plan_def parse_plan_def seed_plan_def)

end
