(* ===== verification/Memory_Tool.thy ===== *)
theory Memory_Tool
  imports Memory_Service
begin

text \<open>
  The memory-tool backend of \<^verbatim>\<open>memory_tool.py\<close>: six file commands executed against the memories of one
  scope that carry a path in their metadata.  A command is the JSON object the model sent.  A handler
  returns the text for the model with the service's caches and the database, or the exception it
  raises; \<open>execute\<close> turns a rejected command into an error text and lets every other exception through.
  A dash in two of the answers stands for the em dash the code prints.
\<close>

section \<open>Definitions\<close>

definition MEMORY_ROOT :: string where
  "MEMORY_ROOT = ''/memories''"

definition PATH_KEY :: string where
  "PATH_KEY = ''memory_tool_path''"

definition MAX_LINES :: nat where
  "MAX_LINES = 999999"

record tool_result =
  tr_content :: string
  tr_is_error :: bool

abbreviation slash :: char where
  "slash \<equiv> CHR ''/''"

subsection \<open>Paths\<close>

text \<open>\<open>posixpath.normpath\<close>.\<close>

definition normpath_step :: "bool \<Rightarrow> string \<Rightarrow> string list \<Rightarrow> string list" where
  "normpath_step absolute c comps =
     (if c = [] \<or> c = ''.'' then comps
      else if c \<noteq> ''..'' \<or> (\<not> absolute \<and> comps = []) \<or> (comps \<noteq> [] \<and> last comps = ''..'')
      then comps @ [c]
      else butlast comps)"

definition initial_slashes :: "string \<Rightarrow> nat" where
  "initial_slashes path =
     (if startswith path ''//'' \<and> \<not> startswith path ''///'' then 2
      else if startswith path ''/'' then 1 else 0)"

definition normpath :: "string \<Rightarrow> string" where
  "normpath path =
     (if path = [] then ''.''
      else
        let n = initial_slashes path;
            comps = fold (normpath_step (n > 0)) (split_on slash path) [];
            joined = replicate n slash @ py_join [slash] comps
        in if joined = [] then ''.'' else joined)"

definition contains :: "string \<Rightarrow> string \<Rightarrow> bool" where
  "contains sub s = list_ex (\<lambda>i. startswith (drop i s) sub) [0..<length s + 1]"

text \<open>The two patterns: a percent-encoded dot, slash or backslash; a \<open>..\<close> component.\<close>

definition encoded_traversal :: "string \<Rightarrow> bool" where
  "encoded_traversal path = list_ex (\<lambda>e. contains e (py_lower path)) [''%2e'', ''%2f'', ''%5c'']"

definition has_traversal :: "string \<Rightarrow> bool" where
  "has_traversal path = (''..'' \<in> set (split_on slash path))"

definition normalise_path :: "json option \<Rightarrow> string result" where
  "normalise_path raw =
     (case raw of
        Some (JStr s) \<Rightarrow>
          if py_strip s = [] then Inl (RejectedError ''Error: a path is required'')
          else
            let path = py_strip s
            in if encoded_traversal path
               then Inl (RejectedError (''Error: The path '' @ path @ '' is not permitted''))
               else if has_traversal path \<or> CHR 0x5C \<in> set path
               then Inl (RejectedError (''Error: The path '' @ path @ '' is not permitted''))
               else
                 let canonical = normpath path
                 in if canonical \<noteq> MEMORY_ROOT \<and> \<not> startswith canonical (MEMORY_ROOT @ ''/'')
                    then Inl (RejectedError (''Error: The path '' @ path @ '' is outside '' @ MEMORY_ROOT @
                           ''. All memory paths must start with '' @ MEMORY_ROOT @ ''/.''))
                    else Inr canonical
      | _ \<Rightarrow> Inl (RejectedError ''Error: a path is required''))"

subsection \<open>Rendering\<close>

text \<open>Rounding of \<open>:.1f\<close> on an exact binary quotient: to nearest, ties to even.\<close>

definition round_half_even :: "nat \<Rightarrow> nat \<Rightarrow> nat" where
  "round_half_even num den =
     (let q = num div den; r = num mod den
      in if 2 * r < den then q else if 2 * r > den then q + 1 else if even q then q else q + 1)"

definition show_tenths :: "nat \<Rightarrow> string" where
  "show_tenths t = show_nat (t div 10) @ ''.'' @ [digit_char (t mod 10)]"

definition human_size :: "string \<Rightarrow> string" where
  "human_size s =
     (let size = length s
      in if size < 1024 then show_nat (max size 1)
         else if size < 1024 * 1024 then show_tenths (round_half_even (size * 10) 1024) @ ''K''
         else show_tenths (round_half_even (size * 10) (1024 * 1024)) @ ''M'')"

definition pad6 :: "int \<Rightarrow> string" where
  "pad6 i = (let s = show_int i in replicate (6 - length s) CHR '' '' @ s)"

definition number_line :: "int \<Rightarrow> string \<Rightarrow> string" where
  "number_line i line = pad6 i @ [CHR 0x09] @ line"

definition numbered :: "string \<Rightarrow> int \<Rightarrow> string" where
  "numbered body first =
     py_join [newline] (map (\<lambda>(i, line). number_line (first + int i) line) (List.enumerate 0 (split_on newline body)))"

definition slice_lines :: "string \<Rightarrow> json \<Rightarrow> json \<Rightarrow> string \<times> int" where
  "slice_lines body w0 w1 =
     (let lines = split_on newline body; n = int (length lines)
      in case (py_int w0, py_int w1) of
           (Some a, Some b) \<Rightarrow>
             let start = max 1 a; stop = (if b = -1 then n else min b n)
             in if start > stop then (body, 1)
                else (py_join [newline] (take (nat (stop - (start - 1))) (drop (nat (start - 1)) lines)), start)
         | _ \<Rightarrow> (body, 1))"

subsection \<open>Backend\<close>

record tool_backend =
  tb_env :: service_env
  tb_principal :: principal
  tb_scope_type :: scope_type
  tb_scope_id :: int
  tb_sensitivity :: sensitivity
  tb_repr :: "json \<Rightarrow> string"

type_synonym command = "(string \<times> json) list"

type_synonym 'a tool = "service_cache \<times> db \<Rightarrow> ('a \<times> service_cache \<times> db) result"

definition tool_file :: "tool_backend \<Rightarrow> db \<Rightarrow> string \<Rightarrow> memory option" where
  "tool_file b d path =
     find_by_metadata (e_engine (tb_env b)) (tb_scope_type b) (tb_scope_id b) PATH_KEY path (tb_principal b) (memories d)"

definition tool_tree :: "tool_backend \<Rightarrow> db \<Rightarrow> memory list" where
  "tool_tree b d =
     list_by_metadata_key (e_engine (tb_env b)) (tb_scope_type b) (tb_scope_id b) PATH_KEY 1000 (tb_principal b) (memories d)"

text \<open>\<open>str(metadata.get(PATH_KEY, ""))\<close>; the text of a value that is not a string never starts with a slash.\<close>

definition path_of :: "memory \<Rightarrow> string" where
  "path_of m = (case map_of (m_metadata m) PATH_KEY of None \<Rightarrow> [] | Some (JStr s) \<Rightarrow> s | Some _ \<Rightarrow> ''None'')"

definition children :: "tool_backend \<Rightarrow> db \<Rightarrow> string \<Rightarrow> memory list" where
  "children b d path =
     (let prefix = rstrip_by (\<lambda>c. c = slash) path @ ''/''
      in filter (\<lambda>m. startswith (path_of m) prefix) (tool_tree b d))"

definition tool_listing :: "tool_backend \<Rightarrow> db \<Rightarrow> string \<Rightarrow> string option" where
  "tool_listing b d path =
     (let kids = children b d path
      in if kids = [] \<and> path \<noteq> MEMORY_ROOT then None
         else Some (''Here're the files and directories up to 2 levels deep in '' @ path @
                '', excluding hidden items and node_modules:'' @ [newline] @
                py_join [newline]
                  ((human_size (concat (map m_body kids)) @ [CHR 0x09] @ path) #
                   map (\<lambda>m. human_size (m_body m) @ [CHR 0x09] @ path_of m) (sort_key path_of kids))))"

definition ok_text :: "string \<Rightarrow> tool_result" where
  "ok_text s = \<lparr>tr_content = s, tr_is_error = False\<rparr>"

definition err_text :: "string \<Rightarrow> tool_result" where
  "err_text s = \<lparr>tr_content = s, tr_is_error = True\<rparr>"

definition tool_view :: "tool_backend \<Rightarrow> command \<Rightarrow> tool_result tool" where
  "tool_view b cmd = (\<lambda>(sv, d).
     rbind (normalise_path (dict_get cmd ''path'')) (\<lambda>path.
       Inr (case tool_file b d path of
              None \<Rightarrow>
                (case tool_listing b d path of
                   Some listing \<Rightarrow> ok_text listing
                 | None \<Rightarrow> err_text (''The path '' @ path @ '' does not exist. Please provide a valid path.''))
            | Some m \<Rightarrow>
                if m_review_status m = PENDING
                then ok_text (''The file '' @ path @ '' exists but is held for human review ('' @
                       (case truthy_str (m_review_reason m) of None \<Rightarrow> ''awaiting review'' | Some r \<Rightarrow> r) @
                       '') and cannot be read until it is approved.'')
                else if length (split_on newline (m_body m)) > MAX_LINES
                then err_text (''File '' @ path @ '' exceeds maximum line limit of '' @ show_grouped (int MAX_LINES) @ '' lines.'')
                else
                  let (body, first) = (case dict_get cmd ''view_range'' of
                        Some (JList [w0, w1]) \<Rightarrow> slice_lines (m_body m) w0 w1
                      | _ \<Rightarrow> (m_body m, 1))
                  in ok_text (''Here's the content of '' @ path @ '' with line numbers:'' @ [newline] @ numbered body first),
            sv, d)))"

definition no_changes :: field_changes where
  "no_changes = \<lparr>fc_title = None, fc_body = None, fc_kind = None, fc_sensitivity = None, fc_importance = None, fc_metadata = None\<rparr>"

definition require_file :: "tool_backend \<Rightarrow> db \<Rightarrow> string \<Rightarrow> string option \<Rightarrow> memory result" where
  "require_file b d path missing =
     (case tool_file b d path of
        None \<Rightarrow> Inl (RejectedError (case truthy_str missing of
                   Some t \<Rightarrow> t
                 | None \<Rightarrow> ''Error: The path '' @ path @ '' does not exist. Please provide a valid path.''))
      | Some m \<Rightarrow>
          if m_review_status m = PENDING
          then Inl (RejectedError (''Error: The file '' @ path @ '' is held for human review and cannot be edited until it is approved.''))
          else Inr m)"

definition file_payload :: "tool_backend \<Rightarrow> string \<Rightarrow> string \<Rightarrow> create_memory_input" where
  "file_payload b path txt = \<lparr>cm_scope_type = tb_scope_type b, cm_scope_id = tb_scope_id b, cm_body = txt,
     cm_title = path, cm_kind = FACT, cm_sensitivity = tb_sensitivity b, cm_source_type = TOOL_OUTPUT,
     cm_source_ref = Some [(''tool'', JStr ''memory_20250818''), (''path'', JStr path)],
     cm_importance = 1 / 2, cm_pinned = False,
     cm_metadata = Some [(PATH_KEY, JStr path), (''memory_tool'', JBool True)],
     cm_expires_at = None, cm_confidence = None\<rparr>"

definition tool_store :: "tool_backend \<Rightarrow> string \<Rightarrow> string \<Rightarrow> string \<Rightarrow> string tool" where
  "tool_store b path txt verb = (\<lambda>(sv, d).
     rbind (service_write (tb_env b) (tb_principal b) (file_payload b path txt) False False sv d) (\<lambda>(w, sv1, d1).
       Inr ((if mw_pending_review w
             then verb @ '': '' @ path @ '' - but it is held for human review ('' @
                  (if mw_review_reason w = [] then ''policy'' else mw_review_reason w) @
                  '') and will not be readable until approved.''
             else if mw_redacted w
             then verb @ '': '' @ path @ '' - personal data in it was redacted before storage.''
             else verb @ '': '' @ path), sv1, d1)))"

definition tool_update :: "tool_backend \<Rightarrow> memory \<Rightarrow> field_changes \<Rightarrow> tool_result \<Rightarrow> tool_result tool" where
  "tool_update b m c answer = (\<lambda>(sv, d).
     rbind (service_update (tb_principal b) (m_public_id m) c d) (\<lambda>(_, d1). Inr (answer, sv, d1)))"

definition tool_create :: "tool_backend \<Rightarrow> command \<Rightarrow> tool_result tool" where
  "tool_create b cmd = (\<lambda>(sv, d).
     rbind (normalise_path (dict_get cmd ''path'')) (\<lambda>path.
       if path = MEMORY_ROOT then Inl (RejectedError (''Error: '' @ MEMORY_ROOT @ '' is a directory, not a file''))
       else case dict_get cmd ''file_text'' of
         Some (JStr txt) \<Rightarrow>
           (case tool_file b d path of
              Some m \<Rightarrow> tool_update b m (no_changes\<lparr>fc_body := Some txt, fc_title := Some path\<rparr>)
                          (ok_text (''File created successfully at: '' @ path)) (sv, d)
            | None \<Rightarrow> rbind (tool_store b path txt ''File created successfully at'' (sv, d))
                        (\<lambda>(t, sv1, d1). Inr (ok_text t, sv1, d1)))
       | _ \<Rightarrow> Inl (RejectedError ''Error: file_text is required for create'')))"

definition tool_str_replace :: "tool_backend \<Rightarrow> command \<Rightarrow> tool_result tool" where
  "tool_str_replace b cmd = (\<lambda>(sv, d).
     rbind (normalise_path (dict_get cmd ''path'')) (\<lambda>path.
       rbind (require_file b d path None) (\<lambda>m.
         case dict_get cmd ''old_str'' of
           Some (JStr (o0 # os)) \<Rightarrow>
             let old = o0 # os;
                 new = (case dict_get cmd ''new_str'' of Some (JStr s) \<Rightarrow> s | _ \<Rightarrow> []);
                 occurrences = py_count (m_body m) old
             in if occurrences = 0
                then Inr (err_text (''No replacement was performed, old_str `'' @ old @ ''` did not appear verbatim in '' @ path @ ''.''), sv, d)
                else if occurrences > 1
                then let lines = map (\<lambda>(i, _). show_nat i) (filter (\<lambda>(i, line). contains old line)
                              (List.enumerate 1 (split_on newline (m_body m))))
                     in Inr (err_text (''No replacement was performed. Multiple occurrences of old_str `'' @ old @
                            ''` in lines: '' @ py_join '', '' lines @ ''. Please ensure it is unique''), sv, d)
                else let updated = py_replace1 (m_body m) old new
                     in tool_update b m (no_changes\<lparr>fc_body := Some updated\<rparr>)
                          (ok_text (''The memory file has been edited.'' @ [newline] @ numbered updated 1)) (sv, d)
         | _ \<Rightarrow> Inl (RejectedError ''Error: old_str is required for str_replace''))))"

definition insert_at :: "nat \<Rightarrow> 'a \<Rightarrow> 'a list \<Rightarrow> 'a list" where
  "insert_at n x xs = take n xs @ x # drop n xs"

definition tool_insert :: "tool_backend \<Rightarrow> command \<Rightarrow> tool_result tool" where
  "tool_insert b cmd = (\<lambda>(sv, d).
     rbind (normalise_path (dict_get cmd ''path'')) (\<lambda>path.
       rbind (require_file b d path (Some (''Error: The path '' @ path @ '' does not exist''))) (\<lambda>m.
         case dict_get cmd ''insert_line'' of
           Some (JInt line_no) \<Rightarrow>
             let lines = split_on newline (m_body m)
             in if line_no < 0 \<or> line_no > int (length lines)
                then Inr (err_text (''Error: Invalid `insert_line` parameter: '' @ show_int line_no @
                       ''. It should be within the range of lines of the file: [0, '' @ show_nat (length lines) @ '']''), sv, d)
                else (case dict_get cmd ''insert_text'' of
                        Some (JStr txt) \<Rightarrow>
                          tool_update b m
                            (no_changes\<lparr>fc_body := Some (py_join [newline]
                               (insert_at (nat line_no) (rstrip_by (\<lambda>c. c = newline) txt) lines))\<rparr>)
                            (ok_text (''The file '' @ path @ '' has been edited.'')) (sv, d)
                      | _ \<Rightarrow> Inl (RejectedError ''Error: insert_text is required for insert''))
         | _ \<Rightarrow> Inl (RejectedError ''Error: insert_line must be an integer''))))"

fun delete_all :: "tool_backend \<Rightarrow> memory list \<Rightarrow> db \<Rightarrow> db result" where
  "delete_all b [] d = Inr d"
| "delete_all b (m # ms) d =
     rbind (service_delete (tb_env b) (tb_principal b) (m_public_id m) d) (\<lambda>(_, d1). delete_all b ms d1)"

definition tool_delete :: "tool_backend \<Rightarrow> command \<Rightarrow> tool_result tool" where
  "tool_delete b cmd = (\<lambda>(sv, d).
     rbind (normalise_path (dict_get cmd ''path'')) (\<lambda>path.
       if path = MEMORY_ROOT then Inl (RejectedError (''Error: '' @ MEMORY_ROOT @ '' cannot be deleted''))
       else
         let targets = (case tool_file b d path of Some m \<Rightarrow> [m] | None \<Rightarrow> children b d path)
         in if targets = [] then Inr (err_text (''Error: The path '' @ path @ '' does not exist''), sv, d)
            else rbind (delete_all b targets d) (\<lambda>d1. Inr (ok_text (''Successfully deleted '' @ path), sv, d1))))"

definition tool_rename :: "tool_backend \<Rightarrow> command \<Rightarrow> tool_result tool" where
  "tool_rename b cmd = (\<lambda>(sv, d).
     rbind (normalise_path (dict_get cmd ''old_path'')) (\<lambda>old_path.
       rbind (normalise_path (dict_get cmd ''new_path'')) (\<lambda>new_path.
         if old_path = MEMORY_ROOT then Inl (RejectedError (''Error: '' @ MEMORY_ROOT @ '' cannot be renamed''))
         else case tool_file b d old_path of
           None \<Rightarrow> Inr (err_text (''Error: The path '' @ old_path @ '' does not exist''), sv, d)
         | Some m \<Rightarrow>
             if tool_file b d new_path \<noteq> None
             then Inr (err_text (''Error: The destination '' @ new_path @ '' already exists''), sv, d)
             else tool_update b m
                    (no_changes\<lparr>fc_title := Some new_path,
                       fc_metadata := Some (AList.update PATH_KEY (JStr new_path) (m_metadata m))\<rparr>)
                    (ok_text (''Successfully renamed '' @ old_path @ '' to '' @ new_path)) (sv, d))))"

text \<open>\<open>repr\<close> of the command name; \<open>show_other\<close> is the \<open>repr\<close> of a float, a list or an object.\<close>

definition py_repr :: "(json \<Rightarrow> string) \<Rightarrow> json option \<Rightarrow> string" where
  "py_repr show_other v = (case v of
      None \<Rightarrow> ''None''
    | Some JNull \<Rightarrow> ''None''
    | Some (JStr s) \<Rightarrow> py_repr_str s
    | Some (JInt i) \<Rightarrow> show_int i
    | Some (JBool x) \<Rightarrow> (if x then ''True'' else ''False'')
    | Some j \<Rightarrow> show_other j)"

definition tool_handler :: "tool_backend \<Rightarrow> json option \<Rightarrow> (command \<Rightarrow> tool_result tool) option" where
  "tool_handler b name =
     (case name of
        Some (JStr s) \<Rightarrow>
          map_of [(''view'', tool_view b), (''create'', tool_create b), (''str_replace'', tool_str_replace b),
                  (''insert'', tool_insert b), (''delete'', tool_delete b), (''rename'', tool_rename b)] s
      | _ \<Rightarrow> None)"

definition execute :: "tool_backend \<Rightarrow> command \<Rightarrow> tool_result tool" where
  "execute b cmd = (\<lambda>(sv, d).
     case tool_handler b (dict_get cmd ''command'') of
       None \<Rightarrow> Inr (err_text (''Error: unknown command '' @ py_repr (tb_repr b) (dict_get cmd ''command'')), sv, d)
     | Some h \<Rightarrow>
         (case h cmd (sv, d) of
            Inl (RejectedError t) \<Rightarrow> Inr (err_text t, sv, d)
          | r \<Rightarrow> r))"


section \<open>Canonical paths\<close>

abbreviation real_component :: "string \<Rightarrow> bool" where
  "real_component c \<equiv> c \<noteq> [] \<and> c \<noteq> ''.''"

definition components :: "string \<Rightarrow> string list" where
  "components s = filter real_component (split_on slash (py_strip s))"

lemma fold_normpath_step:
  "''..'' \<notin> set cs \<Longrightarrow> fold (normpath_step ab) cs acc = acc @ filter real_component cs"
  by (induction cs arbitrary: acc) (auto simp: normpath_step_def)

lemma join_hd:
  assumes "x \<noteq> []"
  shows "hd (py_join [slash] (x # xs)) = hd x" and "py_join [slash] (x # xs) \<noteq> []"
  using assms by (cases xs; simp)+

lemma join_components_eq:
  assumes "\<forall>x \<in> set xs. x \<noteq> [] \<and> slash \<notin> set x" and "slash \<notin> set a" and "a \<noteq> []"
  shows "py_join [slash] xs = a \<longleftrightarrow> xs = [a]"
    and "startswith (py_join [slash] xs) (a @ [slash]) \<Longrightarrow> \<exists>ys. xs = a # ys"
proof -
  have split: "split_on slash (py_join [slash] xs) = xs" if "xs \<noteq> []"
    using that assms(1) by (intro split_on_join) auto
  show "py_join [slash] xs = a \<longleftrightarrow> xs = [a]"
  proof
    assume eq: "py_join [slash] xs = a"
    then have "xs \<noteq> []" using assms(3) by auto
    then show "xs = [a]" using split eq split_on_no_sep [OF assms(2)] by simp
  qed simp
  assume "startswith (py_join [slash] xs) (a @ [slash])"
  then obtain r where r: "py_join [slash] xs = (a @ [slash]) @ r"
    by (auto simp: startswith_iff_prefix prefix_def)
  then have "xs \<noteq> []" by auto
  then have "xs = split_on slash (a @ slash # r)" using split r by simp
  then show "\<exists>ys. xs = a # ys" using split_on_append [OF assms(2)] by simp
qed

lemma components_real: "x \<in> set (components s) \<Longrightarrow> x \<noteq> [] \<and> x \<noteq> ''.'' \<and> slash \<notin> set x"
  by (auto simp: components_def dest: split_on_pieces)

lemma normalise_cases:
  assumes "normalise_path raw = Inr c"
  obtains s where "raw = Some (JStr s)" and "py_strip s \<noteq> []" and "\<not> has_traversal (py_strip s)"
    and "CHR 0x5C \<notin> set (py_strip s)" and "c = normpath (py_strip s)"
    and "c = MEMORY_ROOT \<or> startswith c (MEMORY_ROOT @ ''/'')"
  using assms by (auto simp: normalise_path_def Let_def split: option.splits json.splits if_splits)

lemma normpath_components:
  assumes "py_strip s \<noteq> []" and "\<not> has_traversal (py_strip s)"
  shows "normpath (py_strip s) =
     (let j = replicate (initial_slashes (py_strip s)) slash @ py_join [slash] (components s) in if j = [] then ''.'' else j)"
  using assms fold_normpath_step [of "split_on slash (py_strip s)"]
  by (simp add: normpath_def has_traversal_def components_def Let_def)

lemma startswith_Cons [simp]: "startswith (x # xs) (y # ys) \<longleftrightarrow> x = y \<and> startswith xs ys"
  by (simp add: startswith_def)

lemma startswith_Nil [simp]: "startswith [] (y # ys) = False" "startswith xs []"
  by (simp_all add: startswith_def)

lemma set_split_on: "x \<in> set (split_on c s) \<Longrightarrow> set x \<subseteq> set s"
proof (induction s arbitrary: x)
  case (Cons a s)
  show ?case
  proof (cases "split_on c s")
    case (Cons y ys)
    then show ?thesis
      using Cons.IH Cons.prems by (cases "a = c") (auto, blast+)
  qed simp
qed simp

lemma normalised_form:
  assumes "normalise_path raw = Inr c"
  shows "\<exists>s rest. raw = Some (JStr s) \<and> components s = ''memories'' # rest \<and> c = slash # py_join [slash] (components s) \<and>
     ''..'' \<notin> set (components s) \<and> CHR 0x5C \<notin> set c"
proof -
  obtain s where s: "raw = Some (JStr s)" "py_strip s \<noteq> []" "\<not> has_traversal (py_strip s)"
    "CHR 0x5C \<notin> set (py_strip s)" "c = normpath (py_strip s)" "c = MEMORY_ROOT \<or> startswith c (MEMORY_ROOT @ ''/'')"
    using normalise_cases [OF assms] .
  let ?n = "initial_slashes (py_strip s)" and ?j = "py_join [slash] (components s)"
  have comps: "\<forall>x \<in> set (components s). x \<noteq> [] \<and> slash \<notin> set x" using components_real by blast
  have c: "c = (if replicate ?n slash @ ?j = [] then ''.'' else replicate ?n slash @ ?j)"
    using s normpath_components by (simp add: Let_def)
  have head: "\<exists>t. c = slash # CHR ''m'' # t"
    using s(6) by (cases c; cases "tl c") (auto simp: MEMORY_ROOT_def)
  have nohead: "?j \<noteq> slash # t" for t
  proof (cases "components s")
    case (Cons x xs)
    then have "hd ?j = hd x" "hd x \<noteq> slash"
      using comps join_hd(1) [of x xs] by (auto simp: neq_Nil_conv)
    then show ?thesis by auto
  qed simp
  have "?n \<in> {0, 1, 2}" by (simp add: initial_slashes_def)
  then have j: "c = slash # ?j"
    using head c nohead by (auto simp: numeral_2_eq_2 split: if_splits)
  then have "?j = ''memories'' \<or> startswith ?j (''memories'' @ [slash])"
    using s(6) by (simp add: MEMORY_ROOT_def)
  then obtain rest where rest: "components s = ''memories'' # rest"
    using join_components_eq [OF comps, of "''memories''"] by auto
  have dots: "''..'' \<notin> set (components s)" using s(3) by (auto simp: components_def has_traversal_def)
  have sub: "x \<in> set (components s) \<Longrightarrow> set x \<subseteq> set (py_strip s)" for x
    using join_split_on [of slash "py_strip s"] set_split_on [of x slash "py_strip s"] by (auto simp: components_def)
  have "set (py_join [slash] xs) \<subseteq> insert slash (\<Union>x \<in> set xs. set x)" for xs
    by (induction xs rule: induct_list012) auto
  then have "CHR 0x5C \<notin> set c" using j sub s(4) by fastforce
  then show ?thesis using s(1) rest j dots by blast
qed

lemma canonical_split:
  assumes "normalise_path raw = Inr c"
  shows "\<exists>s. raw = Some (JStr s) \<and> split_on slash c = [] # components s"
proof -
  obtain s rest where s: "raw = Some (JStr s)" "components s = ''memories'' # rest" "c = slash # py_join [slash] (components s)"
    using normalised_form [OF assms] by blast
  have "split_on slash (py_join [slash] (components s)) = components s"
  proof (rule split_on_join)
    show "components s \<noteq> []" using s(2) by simp
    show "\<forall>x \<in> set (components s). slash \<notin> set x" using components_real by blast
  qed
  then show ?thesis using s(1,3) by simp
qed

text \<open>
  Paths do not alias.  A path the tool accepts is addressed by its canonical form, which lies under
  the memory root, has no empty, dot or dot-dot component and no backslash; two accepted paths name the
  same file exactly when they have the same components, however they are spelled.
\<close>

theorem paths_do_not_alias:
  assumes "normalise_path (Some (JStr s)) = Inr c" and "normalise_path (Some (JStr s')) = Inr c'"
  shows "(c = c' \<longleftrightarrow> components s = components s') \<and>
     (\<exists>rest. split_on slash c = [] # ''memories'' # rest \<and> (\<forall>x \<in> set rest. x \<notin> {[], ''.'', ''..''})) \<and>
     CHR 0x5C \<notin> set c"
proof -
  obtain rest where c: "components s = ''memories'' # rest" "c = slash # py_join [slash] (components s)"
    "''..'' \<notin> set (components s)" "CHR 0x5C \<notin> set c"
    using normalised_form [OF assms(1)] by auto
  have c': "c' = slash # py_join [slash] (components s')"
    using normalised_form [OF assms(2)] by auto
  have split: "split_on slash c = [] # components s" "split_on slash c' = [] # components s'"
    using canonical_split [OF assms(1)] canonical_split [OF assms(2)] by auto
  have "c = c' \<longleftrightarrow> components s = components s'"
  proof
    assume "c = c'"
    then show "components s = components s'" using split by simp
  next
    assume "components s = components s'"
    then show "c = c'" using c(2) c' by simp
  qed
  moreover have "x \<notin> {[], ''.'', ''..''}" if "x \<in> set rest" for x
  proof -
    have "x \<in> set (components s)" using that c(1) by simp
    then show ?thesis using components_real c(3) by blast
  qed
  ultimately show ?thesis using split(1) [unfolded c(1)] c(4) by blast
qed

lemma paths_do_not_alias_witness:
  "normalise_path (Some (JStr ''/memories/./a//b'')) = Inr ''/memories/a/b'' \<and>
   normalise_path (Some (JStr ''/memories/a/b/'')) = Inr ''/memories/a/b'' \<and>
   components ''/memories/./a//b'' = components ''/memories/a/b/''"
proof -
  have a: "normalise_path (Some (JStr ''/memories/./a//b'')) = Inr ''/memories/a/b''" by code_simp
  have b: "normalise_path (Some (JStr ''/memories/a/b/'')) = Inr ''/memories/a/b''" by code_simp
  show ?thesis using paths_do_not_alias [OF a b, THEN conjunct1] a b by (simp only: simp_thms)
qed

text \<open>
  The canonical form may keep a trailing space that a second pass strips: a file made with such a path
  is listed under a name that does not address it.
\<close>

lemma trailing_space_path:
  "normalise_path (Some (JStr ''/memories/a /'')) = Inr ''/memories/a '' \<and>
   normalise_path (Some (JStr ''/memories/a '')) = Inr ''/memories/a''"
  by code_simp


section \<open>Failed commands change nothing\<close>

lemma text_flags [simp]: "\<not> tr_is_error (ok_text s)" "tr_is_error (err_text s)"
  by (simp_all add: ok_text_def err_text_def)

text \<open>A handler's outcome is safe when an error text comes with the state it started from.\<close>

definition safe :: "service_cache \<times> db \<Rightarrow> (tool_result \<times> service_cache \<times> db) result \<Rightarrow> bool" where
  "safe st res \<longleftrightarrow> (\<forall>r st'. res = Inr (r, st') \<longrightarrow> tr_is_error r \<longrightarrow> st' = st)"

lemma safe_rules:
  "safe st (Inl e)"
  "safe st (Inr (r, st))"
  "safe st (Inr (ok_text t, st'))"
  "(\<And>v. safe st (f v)) \<Longrightarrow> safe st (rbind x f)"
  "safe st y \<Longrightarrow> safe st z \<Longrightarrow> safe st (if c then y else z)"
  "safe st y \<Longrightarrow> (\<And>v. safe st (g v)) \<Longrightarrow> safe st (case o' of None \<Rightarrow> y | Some v \<Rightarrow> g v)"
  by (auto simp: safe_def rbind_Inr split: option.split)

lemma safe_prod: "(\<And>u v. safe st (h u v)) \<Longrightarrow> safe st (case pr of (u, v) \<Rightarrow> h u v)"
  by (cases pr) simp

lemma safe_update: "safe st (tool_update b m c (ok_text t) st2)"
  by (cases st2) (auto simp: tool_update_def safe_def rbind_Inr)

lemma safe_json_str:
  assumes "\<And>x. safe st (a x)" and "safe st y"
  shows "safe st (case v of Some (JStr x) \<Rightarrow> a x | _ \<Rightarrow> y)"
  using assms by (auto split: option.split json.split)

lemma safe_json_str_ne:
  assumes "\<And>x xs. safe st (a x xs)" and "safe st y"
  shows "safe st (case v of Some (JStr (x # xs)) \<Rightarrow> a x xs | _ \<Rightarrow> y)"
  using assms by (auto split: option.split json.split list.split)

lemma safe_json_int:
  assumes "\<And>x. safe st (a x)" and "safe st y"
  shows "safe st (case v of Some (JInt x) \<Rightarrow> a x | _ \<Rightarrow> y)"
  using assms by (auto split: option.split json.split)

lemmas tool_safe = safe_rules safe_prod safe_update safe_json_str safe_json_str_ne safe_json_int

lemma handlers_safe:
  "safe (sv, d) (tool_view b cmd (sv, d))"
  "safe (sv, d) (tool_create b cmd (sv, d))"
  "safe (sv, d) (tool_str_replace b cmd (sv, d))"
  "safe (sv, d) (tool_insert b cmd (sv, d))"
  "safe (sv, d) (tool_delete b cmd (sv, d))"
  "safe (sv, d) (tool_rename b cmd (sv, d))"
  unfolding tool_view_def tool_create_def tool_str_replace_def tool_insert_def tool_delete_def tool_rename_def Let_def prod.case
  by (intro tool_safe)+

lemma tool_handler_cases:
  assumes "tool_handler b name = Some h"
  shows "h \<in> {tool_view b, tool_create b, tool_str_replace b, tool_insert b, tool_delete b, tool_rename b}"
  using assms by (auto simp: tool_handler_def split: option.splits json.splits if_splits)



section \<open>The files a scope holds\<close>

text \<open>
  The abstract view: a finite map from canonical path to text.  A row is a file when it is live, in the
  backend's scope and tenant, and carries a path; at most one row may carry a given path.
\<close>

definition file_row :: "tool_backend \<Rightarrow> memory \<Rightarrow> bool" where
  "file_row b m \<longleftrightarrow> live m \<and> m_scope_type m = tb_scope_type b \<and> m_scope_id m = tb_scope_id b \<and>
     (is_superuser (tb_principal b) \<or> m_org_id m = p_org_id (tb_principal b))"

definition row_path :: "memory \<Rightarrow> string option" where
  "row_path m = (case map_of (m_metadata m) PATH_KEY of Some (JStr s) \<Rightarrow> Some s | _ \<Rightarrow> None)"

definition files :: "tool_backend \<Rightarrow> db \<Rightarrow> string \<Rightarrow> string option" where
  "files b d path = map_option m_body (tool_file b d path)"

definition files_ok :: "tool_backend \<Rightarrow> db \<Rightarrow> bool" where
  "files_ok b d \<longleftrightarrow> wf_db d \<and>
     (\<forall>m \<in> set (memories d). file_row b m \<longrightarrow> map_of (m_metadata m) PATH_KEY \<in> {None} \<union> range (Some \<circ> JStr)) \<and>
     (\<forall>m \<in> set (memories d). \<forall>m' \<in> set (memories d). file_row b m \<longrightarrow> file_row b m' \<longrightarrow>
        row_path m \<noteq> None \<longrightarrow> row_path m = row_path m' \<longrightarrow> m = m')"

lemma meta_text_row_path:
  assumes "map_of (m_metadata m) PATH_KEY \<in> {None} \<union> range (Some \<circ> JStr)"
  shows "meta_text pg m PATH_KEY = row_path m"
  using assms by (auto simp: meta_text_def row_path_def json_text_def)

lemma file_found:
  assumes "files_ok b d"
  shows "tool_file b d path = Some m \<longleftrightarrow> m \<in> set (memories d) \<and> file_row b m \<and> row_path m = Some path"
proof -
  let ?sel = "filter (\<lambda>m. live m \<and> m_scope_type m = tb_scope_type b \<and> m_scope_id m = tb_scope_id b \<and>
      meta_text (e_engine (tb_env b)) m PATH_KEY = Some path) (tenant_query (tb_principal b) (memories d))"
  have sel: "x \<in> set ?sel \<longleftrightarrow> x \<in> set (memories d) \<and> file_row b x \<and> row_path x = Some path" for x
    using assms meta_text_row_path [of x]
    by (auto simp: set_tenant_rows file_row_def files_ok_def)
  have only: "x = y" if "x \<in> set ?sel" "y \<in> set ?sel" for x y
    using that assms unfolding sel files_ok_def by (metis option.distinct(1))
  show ?thesis
  proof
    assume "tool_file b d path = Some m"
    then have "m \<in> set (sort_key m_id ?sel)"
      unfolding tool_file_def find_by_metadata_def by (rule first_row_in)
    then show "m \<in> set (memories d) \<and> file_row b m \<and> row_path m = Some path" using sel by simp
  next
    assume "m \<in> set (memories d) \<and> file_row b m \<and> row_path m = Some path"
    then have m: "m \<in> set ?sel" using sel by blast
    then obtain x where x: "first_row (sort_key m_id ?sel) = Some x"
      by (cases "sort_key m_id ?sel") (auto simp: first_row_def simp flip: set_empty)
    then have "x \<in> set ?sel" using first_row_in by fastforce
    then show "tool_file b d path = Some m"
      using x only m by (simp add: tool_file_def find_by_metadata_def)
  qed
qed

lemma option_eqI: "(\<And>y. a = Some y \<longleftrightarrow> c = Some y) \<Longrightarrow> a = c"
  by (cases a; cases c) auto

lemma files_iff:
  "files_ok b d \<Longrightarrow> files b d path = Some y \<longleftrightarrow> (\<exists>m \<in> set (memories d). file_row b m \<and> row_path m = Some path \<and> m_body m = y)"
  by (auto simp: files_def file_found)

lemma rows_after_rewrite:
  assumes "wf_db d" and "m \<in> set (memories d)" and "keeps_identity f"
    and "memories d' = memories (update_where (\<lambda>x. m_id x = m_id m) f d)"
  shows "x \<in> set (memories d') \<longleftrightarrow> x = f m \<or> (x \<in> set (memories d) \<and> x \<noteq> m)"
proof -
  have dist: "distinct (map m_id (memories d))" using assms(1) by (simp add: wf_db_def)
  have "(if m_id y = m_id m then f y else y) = (if y = m then f m else y)" if "y \<in> set (memories d)" for y
    using id_unique [OF dist that assms(2)] by auto
  then have "memories d' = map (\<lambda>y. if y = m then f m else y) (memories d)"
    unfolding assms(4) update_where_def by simp
  then show ?thesis using assms(2) by (auto split: if_splits)
qed

text \<open>Rewriting one file's row: the other rows keep their files, the row contributes what it is now.\<close>

lemma rewrite_row:
  assumes ok: "files_ok b d" and m: "m \<in> set (memories d)" "file_row b m" "row_path m = Some path"
    and f: "keeps_identity f" "m_scope_type (f m) = m_scope_type m" "m_scope_id (f m) = m_scope_id m"
    and path: "map_of (m_metadata (f m)) PATH_KEY = Some (JStr new)"
    and free: "new = path \<or> files b d new = None"
    and mem: "memories d' = memories (update_where (\<lambda>x. m_id x = m_id m) f d)" and wf: "wf_db d'"
  shows "files_ok b d' \<and>
     files b d' = (if live (f m) then (files b d)(path := None, new \<mapsto> m_body (f m)) else (files b d)(path := None))"
proof -
  have rows: "x \<in> set (memories d') \<longleftrightarrow> x = f m \<or> (x \<in> set (memories d) \<and> x \<noteq> m)" for x
    using ok by (intro rows_after_rewrite [OF _ m(1) f(1) mem]) (simp add: files_ok_def)
  have row: "file_row b (f m) \<longleftrightarrow> live (f m)" "row_path (f m) = Some new"
    using m(2) f path by (auto simp: file_row_def keeps_identity_def row_path_def)
  have clash: "row_path x \<noteq> Some new" if "x \<in> set (memories d)" "x \<noteq> m" "file_row b x" for x
  proof
    assume x: "row_path x = Some new"
    then have "files b d new = Some (m_body x)" using that files_iff [OF ok] by blast
    then have "new = path" using free by simp
    then show False using ok that m x by (auto simp: files_ok_def)
  qed
  have strings: "map_of (m_metadata x) PATH_KEY \<in> {None} \<union> range (Some \<circ> JStr)" if "x \<in> set (memories d')" "file_row b x" for x
    using that rows path ok by (auto simp: files_ok_def)
  have unique: "x = y" if "x \<in> set (memories d')" "y \<in> set (memories d')" "file_row b x" "file_row b y"
      "row_path x \<noteq> None" "row_path x = row_path y" for x y
    using that rows row clash ok unfolding files_ok_def by metis
  have ok': "files_ok b d'" using wf strings unique unfolding files_ok_def by blast
  have eq: "files b d' x = Some y \<longleftrightarrow>
      (if live (f m) \<and> x = new then y = m_body (f m) else x \<noteq> path \<and> files b d x = Some y)" for x y
  proof -
    have "files b d' x = Some y \<longleftrightarrow> (live (f m) \<and> x = new \<and> y = m_body (f m)) \<or>
        (\<exists>r \<in> set (memories d). r \<noteq> m \<and> file_row b r \<and> row_path r = Some x \<and> m_body r = y)"
      unfolding files_iff [OF ok'] using rows row by auto
    moreover have "(\<exists>r \<in> set (memories d). r \<noteq> m \<and> file_row b r \<and> row_path r = Some x \<and> m_body r = y) \<longleftrightarrow>
        x \<noteq> path \<and> files b d x = Some y"
      unfolding files_iff [OF ok] using ok m unfolding files_ok_def by (metis option.inject option.distinct(1))
    moreover have "files b d new = None \<or> new = path" using free by blast
    ultimately show ?thesis by auto
  qed
  have "files b d' x = (if live (f m) then (files b d)(path := None, new \<mapsto> m_body (f m)) else (files b d)(path := None)) x" for x
    by (rule option_eqI) (auto simp: eq)
  then show ?thesis using ok' by blast
qed

lemma get_visible:
  assumes "wf_db d" and "m \<in> set (memories d)" and "live m" and "is_superuser p \<or> m_org_id m = p_org_id p"
  shows "get_by_public_id (m_public_id m) p (memories d) = Some m"
proof -
  have "m \<in> set (filter (\<lambda>x. m_public_id x = m_public_id m \<and> live x) (tenant_query p (memories d)))"
    using assms by (auto simp: set_tenant_rows)
  then have "get_by_public_id (m_public_id m) p (memories d) \<noteq> None"
    unfolding get_by_public_id_def first_row_None by (rule length_pos_if_in_set [THEN length_greater_0_conv [THEN iffD1]])
  then obtain x where x: "get_by_public_id (m_public_id m) p (memories d) = Some x" by blast
  then have "x \<in> set (memories d)" "m_public_id x = m_public_id m" using get_by_public_id_row by blast+
  then have "x = m" using assms(1,2) by (auto simp: wf_db_def distinct_map inj_on_def)
  then show ?thesis using x by simp
qed

lemma file_get:
  assumes "files_ok b d" and "m \<in> set (memories d)" and "file_row b m"
  shows "get_by_public_id (m_public_id m) (tb_principal b) (memories d) = Some m"
  using assms by (intro get_visible) (auto simp: files_ok_def file_row_def)

lemma update_file:
  assumes ok: "files_ok b d" and m: "m \<in> set (memories d)" "file_row b m" "row_path m = Some path"
    and run: "tool_update b m c answer (sv, d) = Inr (r, sv', d')"
    and keep: "fc_metadata c = None \<and> new = path \<or>
      fc_metadata c = Some (AList.update PATH_KEY (JStr new) (m_metadata m)) \<and> files b d new = None"
  shows "files_ok b d' \<and> files b d' = (files b d)(path := None, new \<mapsto> (case fc_body c of None \<Rightarrow> m_body m | Some t \<Rightarrow> t))"
proof -
  obtain x where x: "service_update (tb_principal b) (m_public_id m) c d = Inr (x, d')"
    using run by (auto simp: tool_update_def rbind_Inr)
  then have "update_change c (tb_principal b) m d = Inr (x, d')"
    using with_writable_cases [OF x [unfolded service_update_def]] file_get [OF ok m(1,2)] by simp
  then have mem: "d' = update_where (\<lambda>y. m_id y = m_id m) (apply_changes c) d"
    by (auto simp: update_change_def update_fields_def save_def split: if_splits)
  have wf: "wf_db d'" using ok update_where_wf [OF apply_changes_identity] unfolding mem by (simp add: files_ok_def)
  have path: "map_of (m_metadata m) PATH_KEY = Some (JStr path)"
    using m(3) by (simp add: row_path_def split: option.splits json.splits)
  have f: "m_scope_type (apply_changes c m) = m_scope_type m" "m_scope_id (apply_changes c m) = m_scope_id m"
    "m_deleted_at (apply_changes c m) = m_deleted_at m"
    "m_body (apply_changes c m) = (case fc_body c of None \<Rightarrow> m_body m | Some t \<Rightarrow> t)"
    "m_metadata (apply_changes c m) = (case fc_metadata c of None \<Rightarrow> m_metadata m | Some v \<Rightarrow> v)"
    by (simp_all add: apply_changes_def set_opt_def split: option.split)
  have new: "map_of (m_metadata (apply_changes c m)) PATH_KEY = Some (JStr new)"
    using keep path unfolding f(5) by auto
  have free: "new = path \<or> files b d new = None" using keep by (elim disjE conjE) simp_all
  from rewrite_row [OF ok m apply_changes_identity f(1,2) new free _ wf] m(2)
  show ?thesis unfolding f(3,4) by (simp add: mem file_row_def)
qed

lemma delete_file:
  assumes ok: "files_ok b d" and m: "m \<in> set (memories d)" "file_row b m" "row_path m = Some path"
    and run: "service_delete (tb_env b) (tb_principal b) (m_public_id m) d = Inr (r, d')"
  shows "files_ok b d' \<and> files b d' = (files b d)(path := None) \<and>
     (\<forall>x \<in> set (memories d). x \<noteq> m \<longrightarrow> x \<in> set (memories d'))"
proof -
  let ?f = "\<lambda>r. r\<lparr>m_deleted_at := Some (e_now (tb_env b))\<rparr>"
  have "delete_change (tb_env b) (tb_principal b) m d = Inr (r, d')"
    using with_writable_cases [OF run [unfolded service_delete_def]] file_get [OF ok m(1,2)] by simp
  from delete_change_eq [OF this]
  have mem: "memories d' = memories (update_where (\<lambda>y. m_id y = m_id m) ?f d)" by auto
  have wf0: "wf_db d" using ok by (simp add: files_ok_def)
  have wf: "wf_db d'" using deleting.keeps_wf [OF run [unfolded service_delete_def] wf0] .
  have path: "map_of (m_metadata (?f m)) PATH_KEY = Some (JStr path)"
    using m(3) by (simp add: row_path_def split: option.splits json.splits)
  have "files_ok b d' \<and> files b d' = (files b d)(path := None)"
    using rewrite_row [OF ok m identity_updates(1) _ _ path disjI1 mem wf] by simp
  then show ?thesis
    using rows_after_rewrite [OF wf0 m(1) identity_updates(1) mem] by blast
qed

lemma delete_files:
  assumes "files_ok b d" and "distinct ms" and "\<forall>m \<in> set ms. m \<in> set (memories d) \<and> file_row b m \<and> row_path m \<noteq> None"
    and "delete_all b ms d = Inr d'"
  shows "files_ok b d' \<and> files b d' = (\<lambda>x. if Some x \<in> row_path ` set ms then None else files b d x)"
  using assms
proof (induction ms arbitrary: d)
  case (Cons m ms)
  obtain x where x: "row_path m = Some x" using Cons.prems(3) by auto
  obtain r d1 where r: "service_delete (tb_env b) (tb_principal b) (m_public_id m) d = Inr (r, d1)" "delete_all b ms d1 = Inr d'"
    using Cons.prems(4) by (auto simp: rbind_Inr)
  note one = delete_file [OF Cons.prems(1) _ _ x r(1)]
  have "files_ok b d' \<and> files b d' = (\<lambda>x. if Some x \<in> row_path ` set ms then None else files b d1 x)"
    using one Cons.prems by (intro Cons.IH) (auto simp: r(2))
  then show ?case using one Cons.prems(3) x by (auto simp: fun_eq_iff)
qed simp

lemma insert_row:
  assumes ok: "files_ok b d" and mem: "memories d' = memories d @ [m]" and wf: "wf_db d'"
    and m: "file_row b m" "map_of (m_metadata m) PATH_KEY = Some (JStr path)" and free: "files b d path = None"
  shows "files_ok b d' \<and> files b d' = (files b d)(path \<mapsto> m_body m)"
proof -
  have path: "row_path m = Some path" using m(2) by (simp add: row_path_def)
  have clash: "row_path x \<noteq> Some path" if "x \<in> set (memories d)" "file_row b x" for x
    using that free files_iff [OF ok] by (metis option.distinct(1))
  have "x = y" if "x \<in> set (memories d')" "y \<in> set (memories d')" "file_row b x" "file_row b y"
      "row_path x \<noteq> None" "row_path x = row_path y" for x y
  proof (cases "x \<in> set (memories d) \<and> y \<in> set (memories d)")
    case True
    then show ?thesis using that ok unfolding files_ok_def by blast
  next
    case False
    then show ?thesis using that mem path clash by auto
  qed
  moreover have "map_of (m_metadata x) PATH_KEY \<in> {None} \<union> range (Some \<circ> JStr)" if "x \<in> set (memories d')" "file_row b x" for x
    using that mem m(2) ok by (auto simp: files_ok_def)
  ultimately have ok': "files_ok b d'" using wf unfolding files_ok_def by blast
  have "files b d' x = Some y \<longleftrightarrow> ((files b d)(path \<mapsto> m_body m)) x = Some y" for x y
  proof -
    have "files b d' x = Some y \<longleftrightarrow> (x = path \<and> y = m_body m) \<or> files b d x = Some y"
      unfolding files_iff [OF ok'] files_iff [OF ok] using mem m(1) path by auto
    then show ?thesis using free by auto
  qed
  then have "files b d' = (files b d)(path \<mapsto> m_body m)" by (intro ext option_eqI)
  then show ?thesis using ok' by simp
qed

lemma govern_keeps_text:
  "pii_policy_setting s \<noteq> REDACT \<Longrightarrow> g_body (govern s payload) = cm_body payload"
  by (auto simp: govern_def Let_def)

text \<open>What a create needs to be a plain new file: no redaction, no fold into an existing memory.\<close>

definition plain_write :: "tool_backend \<Rightarrow> db \<Rightarrow> string \<Rightarrow> string \<Rightarrow> bool" where
  "plain_write b d path txt \<longleftrightarrow> pii_policy_setting (e_settings (tb_env b)) \<noteq> REDACT \<and>
     write_target (tb_env b) (tb_principal b) (file_payload b path txt) False d = None \<and>
     e_public_id (tb_env b) \<notin> m_public_id ` set (memories d)"

lemma create_file:
  assumes ok: "files_ok b d" and free: "files b d path = None" and plain: "plain_write b d path txt"
    and run: "service_write (tb_env b) (tb_principal b) (file_payload b path txt) False False sv d = Inr (w, sv', d')"
  shows "files_ok b d' \<and> files b d' = (files b d)(path \<mapsto> txt)"
proof -
  let ?pl = "file_payload b path txt" and ?g = "govern (e_settings (tb_env b)) (file_payload b path txt)"
  obtain mode cfg sv1 where pc: "project_config (tb_principal b) ?pl sv d = ((mode, cfg), sv1)" by (metis prod.collapse)
  have none: "write_target (tb_env b) (tb_principal b) ?pl False d = None" using plain by (simp add: plain_write_def)
  note guards = write_guards [OF run]
  have "insert_memory (tb_env b) (tb_principal b) ?pl False ?g (review_of (e_settings (tb_env b)) mode ?pl ?g) cfg
      (if dedup_on_write (e_settings (tb_env b)) then Some (governed_hash (tb_env b) ?pl) else None) sv1 d = Inr (w, sv', d')"
    using run write_insert [OF guards [THEN conjunct1] guards [THEN conjunct2] none pc] by simp
  then obtain rv dg emb where d': "d' = snd (memory_create (tb_principal b) (e_public_id (tb_env b)) (e_now (tb_env b))
      (create_args_of (tb_principal b) ?pl ?g rv cfg dg emb) d)"
    using insert_memory_eq by blast
  let ?m = "fst (memory_create (tb_principal b) (e_public_id (tb_env b)) (e_now (tb_env b))
      (create_args_of (tb_principal b) ?pl ?g rv cfg dg emb) d)"
  have mem: "memories d' = memories d @ [?m]" unfolding d' by (rule memory_create_row)
  have wf: "wf_db d'" unfolding d' using ok plain by (intro memory_create_wf) (auto simp: files_ok_def plain_write_def)
  have m: "file_row b ?m" "map_of (m_metadata ?m) PATH_KEY = Some (JStr path)" "m_body ?m = g_body ?g"
    by (simp_all add: memory_create_def create_args_of_def file_payload_def file_row_def or_empty_def Let_def)
  have "g_body ?g = txt" using govern_keeps_text plain by (simp add: plain_write_def file_payload_def)
  then show ?thesis using insert_row [OF ok mem wf m(1,2) free] m(3) by simp
qed

text \<open>The specification: what each command does to the map of files.\<close>

definition fs_spec :: "(string \<Rightarrow> string option) \<Rightarrow> command \<Rightarrow> (string \<Rightarrow> string option)" where
  "fs_spec fs cmd =
     (case dict_get cmd ''command'' of
        Some (JStr name) \<Rightarrow>
          (if name = ''rename'' then
             (case (normalise_path (dict_get cmd ''old_path''), normalise_path (dict_get cmd ''new_path'')) of
                (Inr old, Inr new) \<Rightarrow> fs(old := None, new := fs old)
              | _ \<Rightarrow> fs)
           else
             (case normalise_path (dict_get cmd ''path'') of
                Inr path \<Rightarrow>
                  (if name = ''create'' then
                     (case dict_get cmd ''file_text'' of Some (JStr txt) \<Rightarrow> fs(path \<mapsto> txt) | _ \<Rightarrow> fs)
                   else if name = ''str_replace'' then
                     (case dict_get cmd ''old_str'' of
                        Some (JStr old) \<Rightarrow> fs(path \<mapsto> py_replace1 (the (fs path)) old
                          (case dict_get cmd ''new_str'' of Some (JStr s) \<Rightarrow> s | _ \<Rightarrow> []))
                      | _ \<Rightarrow> fs)
                   else if name = ''insert'' then
                     (case (dict_get cmd ''insert_line'', dict_get cmd ''insert_text'') of
                        (Some (JInt n), Some (JStr txt)) \<Rightarrow> fs(path \<mapsto> py_join [newline]
                          (insert_at (nat n) (rstrip_by (\<lambda>c. c = newline) txt) (split_on newline (the (fs path)))))
                      | _ \<Rightarrow> fs)
                   else if name = ''delete'' then
                     (if fs path \<noteq> None then fs(path := None)
                      else (\<lambda>x. if startswith x (path @ ''/'') then None else fs x))
                   else fs)
              | _ \<Rightarrow> fs))
      | _ \<Rightarrow> fs)"

definition small_tree :: "tool_backend \<Rightarrow> db \<Rightarrow> bool" where
  "small_tree b d \<longleftrightarrow> length (filter (\<lambda>m. file_row b m \<and> row_path m \<noteq> None) (memories d)) \<le> 1000"

lemma tree_rows:
  assumes "files_ok b d" and "small_tree b d"
  shows "set (tool_tree b d) = {m \<in> set (memories d). file_row b m \<and> row_path m \<noteq> None}" and "distinct (tool_tree b d)"
proof -
  let ?sel = "filter (\<lambda>m. live m \<and> m_scope_type m = tb_scope_type b \<and> m_scope_id m = tb_scope_id b \<and>
      meta_text (e_engine (tb_env b)) m PATH_KEY \<noteq> None) (tenant_query (tb_principal b) (memories d))"
  have "?sel = filter (\<lambda>m. file_row b m \<and> row_path m \<noteq> None) (memories d)"
    unfolding tenant_rows_def using assms(1)
    by (auto simp: files_ok_def file_row_def intro!: filter_cong simp del: not_None_eq simp: meta_text_row_path)
  moreover have "distinct (memories d)"
    using assms(1) by (auto simp: files_ok_def wf_db_def distinct_map)
  ultimately show "set (tool_tree b d) = {m \<in> set (memories d). file_row b m \<and> row_path m \<noteq> None}" "distinct (tool_tree b d)"
    using assms(2) by (auto simp: tool_tree_def list_by_metadata_key_def small_tree_def)
qed

lemma last_join: "xs \<noteq> [] \<Longrightarrow> \<forall>x \<in> set xs. x \<noteq> [] \<Longrightarrow> last (py_join sep xs) = last (last xs) \<and> py_join sep xs \<noteq> []"
  by (induction xs rule: induct_list012) auto

lemma canonical_rstrip:
  assumes "normalise_path raw = Inr c"
  shows "rstrip_by (\<lambda>x. x = slash) c = c"
proof -
  obtain s rest where s: "components s = ''memories'' # rest" "c = slash # py_join [slash] (components s)"
    using normalised_form [OF assms] by blast
  have "last (py_join [slash] (components s)) = last (last (components s)) \<and> py_join [slash] (components s) \<noteq> []"
  proof (rule last_join)
    show "components s \<noteq> []" using s(1) by simp
    show "\<forall>x \<in> set (components s). x \<noteq> []" using components_real by blast
  qed
  moreover have "last (last (components s)) \<noteq> slash"
    using components_real [of "last (components s)" s] s(1) last_in_set by (metis list.distinct(1))
  ultimately have "last c \<noteq> slash" "c \<noteq> []" using s(2) by auto
  then show ?thesis
    by (cases c rule: rev_cases) (auto simp: rstrip_by_def)
qed

lemma deleted_directory:
  assumes ok: "files_ok b d" and small: "small_tree b d" and path: "normalise_path raw = Inr path"
    and run: "delete_all b (children b d path) d = Inr d'"
  shows "files_ok b d' \<and> files b d' = (\<lambda>x. if startswith x (path @ ''/'') then None else files b d x)"
proof -
  have po: "row_path m = Some (path_of m)" if "m \<in> set (tool_tree b d)" for m
    using that tree_rows(1) [OF ok small] by (auto simp: row_path_def path_of_def split: option.splits json.splits)
  have kids: "children b d path = filter (\<lambda>m. startswith (path_of m) (path @ ''/'')) (tool_tree b d)"
    by (simp add: children_def canonical_rstrip [OF path])
  have "\<forall>m \<in> set (children b d path). m \<in> set (memories d) \<and> file_row b m \<and> row_path m \<noteq> None"
    using tree_rows(1) [OF ok small] by (auto simp: kids)
  moreover have "distinct (children b d path)" using tree_rows(2) [OF ok small] by (simp add: kids)
  ultimately have del: "files_ok b d' \<and> files b d' = (\<lambda>x. if Some x \<in> row_path ` set (children b d path) then None else files b d x)"
    using delete_files [OF ok _ _ run] by blast
  have "Some x \<in> row_path ` set (children b d path) \<longleftrightarrow> startswith x (path @ ''/'') \<and> files b d x \<noteq> None" for x
  proof
    assume "Some x \<in> row_path ` set (children b d path)"
    then obtain m where m: "m \<in> set (tool_tree b d)" "startswith (path_of m) (path @ ''/'')" "row_path m = Some x"
      by (auto simp: kids)
    then have "files b d x = Some (m_body m)"
      using files_iff [OF ok] tree_rows(1) [OF ok small] by blast
    then show "startswith x (path @ ''/'') \<and> files b d x \<noteq> None" using m po by auto
  next
    assume x: "startswith x (path @ ''/'') \<and> files b d x \<noteq> None"
    then obtain m where m: "m \<in> set (memories d)" "file_row b m" "row_path m = Some x"
      using files_iff [OF ok] by blast
    then have "m \<in> set (tool_tree b d)" using tree_rows(1) [OF ok small] by auto
    then show "Some x \<in> row_path ` set (children b d path)"
      using x po m(3) by (auto simp: kids intro!: image_eqI [of _ _ m])
  qed
  then show ?thesis using del by (auto simp: fun_eq_iff)
qed

lemma some_file:
  assumes "files_ok b d" and "tool_file b d path = Some m"
  shows "m \<in> set (memories d)" and "file_row b m" and "row_path m = Some path" and "files b d path = Some (m_body m)"
  using assms file_found [OF assms(1)] by (auto simp: files_def)

lemma upd_same: "f(x := None, x \<mapsto> y) = f(x \<mapsto> y)"
  by simp

abbreviation refines :: "tool_backend \<Rightarrow> db \<Rightarrow> (string \<Rightarrow> string option) \<Rightarrow> db \<Rightarrow> bool" where
  "refines b d fs' d' \<equiv> files_ok b d' \<and> files b d' = fs'"

subsection \<open>What each command does to the files\<close>

lemma first_occurrence:
  assumes "p \<noteq> []" and "py_count s p > 0"
  shows "\<exists>pre post. s = pre @ p @ post \<and> (\<forall>r. py_replace1 s p r = pre @ r @ post) \<and>
     (\<forall>i < length pre. \<not> startswith (drop i s) p) \<and> py_count s p = Suc (py_count post p)"
  using assms(2)
proof (induction s)
  case Nil
  then show ?case by (simp add: py_count.simps)
next
  case (Cons x s)
  show ?case
  proof (cases "startswith (x # s) p")
    case True
    then obtain post where post: "x # s = p @ post" by (auto simp: startswith_iff_prefix prefix_def)
    then have "py_count (x # s) p = Suc (py_count post p)"
      using assms(1) True by (subst py_count.simps) simp
    moreover have "drop (length p) (x # s) = post" using post by simp
    moreover have "py_replace1 (x # s) p r = r @ post" for r
      using True calculation(2) by simp
    ultimately show ?thesis using post by (metis append_Nil list.size(3) not_less_zero)
  next
    case False
    then have c: "py_count (x # s) p = py_count s p" by (subst py_count.simps) (simp add: assms(1))
    then obtain pre post where p: "s = pre @ p @ post" "\<forall>r. py_replace1 s p r = pre @ r @ post"
      "\<forall>i < length pre. \<not> startswith (drop i s) p" "py_count s p = Suc (py_count post p)"
      using Cons by auto
    have "\<forall>i < length (x # pre). \<not> startswith (drop i (x # s)) p"
      using False p(3) by (auto simp: less_Suc_eq_0_disj)
    then show ?thesis using False c p by (intro exI [of _ "x # pre"] exI [of _ post]) simp
  qed
qed

lemma split_on_join_any: "xs \<noteq> [] \<Longrightarrow> split_on c (py_join [c] xs) = concat (map (split_on c) xs)"
proof (induction xs rule: induct_list012)
  case (3 x y zs)
  have app: "split_on c (a @ c # t) = split_on c a @ split_on c t" for a t
    by (induction a) (auto split: list.split)
  show ?case using 3(2) app by simp
qed auto

lemma split_pieces_again: "concat (map (split_on c) (split_on c s)) = split_on c s"
  using split_on_join_any [of "split_on c s" c] join_split_on [of c s] by simp

lemma pieces_idem: "(\<And>x. x \<in> set xs \<Longrightarrow> c \<notin> set x) \<Longrightarrow> concat (map (split_on c) xs) = xs"
  by (induction xs) (simp_all add: split_on_no_sep)

lemma inserted_lines:
  "split_on c (py_join [c] (insert_at n x (split_on c s))) = take n (split_on c s) @ split_on c x @ drop n (split_on c s)"
proof -
  have "concat (map (split_on c) (take n (split_on c s))) = take n (split_on c s)"
    "concat (map (split_on c) (drop n (split_on c s))) = drop n (split_on c s)"
    by (rule pieces_idem; use split_on_pieces in_set_takeD in_set_dropD in metis)+
  then show ?thesis by (simp add: insert_at_def split_on_join_any)
qed

lemma create_refines:
  assumes ok: "files_ok b d" and run: "tool_create b cmd (sv, d) = Inr (r, sv', d')"
    and plain: "\<And>path tx. normalise_path (dict_get cmd ''path'') = Inr path \<Longrightarrow> dict_get cmd ''file_text'' = Some (JStr tx) \<Longrightarrow>
      files b d path = None \<Longrightarrow> plain_write b d path tx"
  obtains path tx where "normalise_path (dict_get cmd ''path'') = Inr path" and "dict_get cmd ''file_text'' = Some (JStr tx)"
    and "refines b d ((files b d)(path \<mapsto> tx)) d'"
proof -
  obtain path where path: "normalise_path (dict_get cmd ''path'') = Inr path"
    using run by (auto simp: tool_create_def rbind_Inr)
  obtain tx where tx: "dict_get cmd ''file_text'' = Some (JStr tx)"
    using run path by (auto simp: tool_create_def split: if_splits option.splits json.splits)
  have "refines b d ((files b d)(path \<mapsto> tx)) d'"
  proof (cases "tool_file b d path")
    case None
    obtain w sv1 where "service_write (tb_env b) (tb_principal b) (file_payload b path tx) False False sv d = Inr (w, sv1, d')"
      using run path tx None by (auto simp: tool_create_def tool_store_def rbind_Inr split: if_splits)
    moreover have "files b d path = None" using None by (simp add: files_def)
    ultimately show ?thesis using create_file [OF ok] plain [OF path tx] by blast
  next
    case (Some m)
    then have "tool_update b m (no_changes\<lparr>fc_body := Some tx, fc_title := Some path\<rparr>)
        (ok_text (''File created successfully at: '' @ path)) (sv, d) = Inr (r, sv', d')"
      using run path tx by (auto simp: tool_create_def split: if_splits)
    from update_file [OF ok some_file(1-3) [OF ok Some] this, of path] show ?thesis
      by (simp add: no_changes_def)
  qed
  then show thesis using that path tx by blast
qed

lemma require_file_some: "require_file b d path missing = Inr m \<Longrightarrow> tool_file b d path = Some m"
  by (auto simp: require_file_def split: option.splits if_splits)

lemma str_replace_run:
  assumes "tool_str_replace b cmd (sv, d) = Inr (r, sv', d')" and "\<not> tr_is_error r"
  obtains path m old where "normalise_path (dict_get cmd ''path'') = Inr path" and "tool_file b d path = Some m"
    and "dict_get cmd ''old_str'' = Some (JStr old)" and "old \<noteq> []" and "py_count (m_body m) old = 1"
    and "tool_update b m (no_changes\<lparr>fc_body := Some (py_replace1 (m_body m) old
           (case dict_get cmd ''new_str'' of Some (JStr s) \<Rightarrow> s | _ \<Rightarrow> []))\<rparr>) r (sv, d) = Inr (r, sv', d')"
proof -
  obtain path m where pm: "normalise_path (dict_get cmd ''path'') = Inr path" "require_file b d path None = Inr m"
    using assms(1) by (auto simp: tool_str_replace_def rbind_Inr)
  obtain o0 os where old: "dict_get cmd ''old_str'' = Some (JStr (o0 # os))"
    using assms(1) pm by (auto simp: tool_str_replace_def split: option.splits json.splits list.splits)
  have one: "py_count (m_body m) (o0 # os) = 1"
    using assms pm old by (cases "py_count (m_body m) (o0 # os)" "1 :: nat" rule: linorder_cases)
      (auto simp: tool_str_replace_def Let_def)
  then have "\<exists>t. tool_update b m (no_changes\<lparr>fc_body := Some (py_replace1 (m_body m) (o0 # os)
           (case dict_get cmd ''new_str'' of Some (JStr s) \<Rightarrow> s | _ \<Rightarrow> []))\<rparr>) t (sv, d) = Inr (r, sv', d') \<and> t = r"
    using assms(1) pm old by (auto simp: tool_str_replace_def Let_def tool_update_def rbind_Inr)
  then show thesis using that pm require_file_some old one by blast
qed

lemma insert_run:
  assumes "tool_insert b cmd (sv, d) = Inr (r, sv', d')" and "\<not> tr_is_error r"
  obtains path m n tx where "normalise_path (dict_get cmd ''path'') = Inr path" and "tool_file b d path = Some m"
    and "dict_get cmd ''insert_line'' = Some (JInt n)" and "0 \<le> n" and "nat n \<le> length (split_on newline (m_body m))"
    and "dict_get cmd ''insert_text'' = Some (JStr tx)"
    and "tool_update b m (no_changes\<lparr>fc_body := Some (py_join [newline]
           (insert_at (nat n) (rstrip_by (\<lambda>c. c = newline) tx) (split_on newline (m_body m))))\<rparr>) r (sv, d) = Inr (r, sv', d')"
proof -
  obtain path m where pm: "normalise_path (dict_get cmd ''path'') = Inr path" "require_file b d path (Some (''Error: The path '' @ path @ '' does not exist'')) = Inr m"
    using assms(1) by (auto simp: tool_insert_def rbind_Inr)
  obtain n where n: "dict_get cmd ''insert_line'' = Some (JInt n)"
    using assms(1) pm by (auto simp: tool_insert_def split: option.splits json.splits)
  have range: "\<not> (n < 0 \<or> n > int (length (split_on newline (m_body m))))"
    using assms pm n by (auto simp: tool_insert_def Let_def split: if_splits)
  obtain tx where tx: "dict_get cmd ''insert_text'' = Some (JStr tx)"
    using assms(1) pm n range by (auto simp: tool_insert_def Let_def split: option.splits json.splits)
  have "tool_update b m (no_changes\<lparr>fc_body := Some (py_join [newline]
           (insert_at (nat n) (rstrip_by (\<lambda>c. c = newline) tx) (split_on newline (m_body m))))\<rparr>) r (sv, d) = Inr (r, sv', d')"
    using assms(1) pm n range tx by (auto simp: tool_insert_def Let_def tool_update_def rbind_Inr)
  then show thesis using that pm(1) require_file_some [OF pm(2)] n range tx by auto
qed

lemma rename_run:
  assumes "tool_rename b cmd (sv, d) = Inr (r, sv', d')" and "\<not> tr_is_error r"
  obtains old new m where "normalise_path (dict_get cmd ''old_path'') = Inr old" and "normalise_path (dict_get cmd ''new_path'') = Inr new"
    and "tool_file b d old = Some m" and "tool_file b d new = None"
    and "tool_update b m (no_changes\<lparr>fc_title := Some new,
           fc_metadata := Some (AList.update PATH_KEY (JStr new) (m_metadata m))\<rparr>) r (sv, d) = Inr (r, sv', d')"
proof -
  obtain old new where p: "normalise_path (dict_get cmd ''old_path'') = Inr old" "normalise_path (dict_get cmd ''new_path'') = Inr new"
    using assms(1) by (auto simp: tool_rename_def rbind_Inr)
  obtain m where m: "tool_file b d old = Some m" "tool_file b d new = None"
    using assms p by (auto simp: tool_rename_def split: if_splits option.splits)
  have "tool_update b m (no_changes\<lparr>fc_title := Some new,
           fc_metadata := Some (AList.update PATH_KEY (JStr new) (m_metadata m))\<rparr>) r (sv, d) = Inr (r, sv', d')"
    using assms(1) p m by (auto simp: tool_rename_def tool_update_def rbind_Inr split: if_splits)
  then show thesis using that p m by blast
qed

abbreviation replacement :: "command \<Rightarrow> string" where
  "replacement cmd \<equiv> case dict_get cmd ''new_str'' of Some (JStr s) \<Rightarrow> s | _ \<Rightarrow> []"

lemma not_held:
  assumes "rbind (require_file b d path missing) f = Inr z" and "tool_file b d path = Some m"
  shows "m_review_status m \<noteq> PENDING"
  using assms by (auto simp: require_file_def rbind_Inr split: if_splits)

lemma str_replace_refines:
  assumes ok: "files_ok b d" and run: "tool_str_replace b cmd (sv, d) = Inr (r, sv', d')" and fine: "\<not> tr_is_error r"
  shows "\<exists>path m old pre post. normalise_path (dict_get cmd ''path'') = Inr path \<and> tool_file b d path = Some m \<and>
     m_review_status m \<noteq> PENDING \<and> dict_get cmd ''old_str'' = Some (JStr old) \<and> m_body m = pre @ old @ post \<and>
     (\<forall>i < length pre. \<not> startswith (drop i (m_body m)) old) \<and> py_count post old = 0 \<and>
     py_replace1 (m_body m) old (replacement cmd) = pre @ replacement cmd @ post \<and>
     refines b d ((files b d)(path \<mapsto> pre @ replacement cmd @ post)) d'"
proof (rule str_replace_run [OF run fine])
  fix path m old
  assume p: "normalise_path (dict_get cmd ''path'') = Inr path" and m: "tool_file b d path = Some m"
    and old: "dict_get cmd ''old_str'' = Some (JStr old)" "old \<noteq> []" and one: "py_count (m_body m) old = 1"
    and up: "tool_update b m (no_changes\<lparr>fc_body := Some (py_replace1 (m_body m) old (replacement cmd))\<rparr>) r (sv, d) = Inr (r, sv', d')"
  have "refines b d ((files b d)(path \<mapsto> py_replace1 (m_body m) old (replacement cmd))) d'"
    using update_file [OF ok some_file(1-3) [OF ok m] up, of path] by (simp add: no_changes_def)
  moreover have "m_review_status m \<noteq> PENDING"
    using run p m by (intro not_held [of b d path None _ "(r, sv', d')"]) (simp_all add: tool_str_replace_def)
  moreover obtain pre post where "m_body m = pre @ old @ post" "py_replace1 (m_body m) old (replacement cmd) = pre @ replacement cmd @ post"
    "\<forall>i < length pre. \<not> startswith (drop i (m_body m)) old" "py_count post old = 0"
    using first_occurrence [OF old(2), of "m_body m"] one by auto
  ultimately show ?thesis using p m old(1) by metis
qed

lemma insert_refines:
  assumes ok: "files_ok b d" and run: "tool_insert b cmd (sv, d) = Inr (r, sv', d')" and fine: "\<not> tr_is_error r"
  shows "\<exists>path m n tx. normalise_path (dict_get cmd ''path'') = Inr path \<and> tool_file b d path = Some m \<and>
     m_review_status m \<noteq> PENDING \<and> dict_get cmd ''insert_line'' = Some (JInt n) \<and> dict_get cmd ''insert_text'' = Some (JStr tx) \<and>
     0 \<le> n \<and> nat n \<le> length (split_on newline (m_body m)) \<and>
     refines b d ((files b d)(path \<mapsto> py_join [newline]
       (insert_at (nat n) (rstrip_by (\<lambda>c. c = newline) tx) (split_on newline (m_body m))))) d'"
proof (rule insert_run [OF run fine])
  fix path and m :: memory and n tx
  let ?body = "py_join [newline] (insert_at (nat n) (rstrip_by (\<lambda>c. c = newline) tx) (split_on newline (m_body m)))"
  assume p: "normalise_path (dict_get cmd ''path'') = Inr path" and m: "tool_file b d path = Some m"
    and n: "dict_get cmd ''insert_line'' = Some (JInt n)" "0 \<le> n" "nat n \<le> length (split_on newline (m_body m))"
    and tx: "dict_get cmd ''insert_text'' = Some (JStr tx)"
    and up: "tool_update b m (no_changes\<lparr>fc_body := Some ?body\<rparr>) r (sv, d) = Inr (r, sv', d')"
  have "refines b d ((files b d)(path \<mapsto> ?body)) d'"
    using update_file [OF ok some_file(1-3) [OF ok m] up, of path] by (simp add: no_changes_def)
  moreover have "m_review_status m \<noteq> PENDING"
    using run p m by (intro not_held [of b d path _ _ "(r, sv', d')"]) (simp_all add: tool_insert_def)
  ultimately show ?thesis using p m n tx by blast
qed

lemma rename_refines:
  assumes ok: "files_ok b d" and run: "tool_rename b cmd (sv, d) = Inr (r, sv', d')" and fine: "\<not> tr_is_error r"
  shows "\<exists>old new. normalise_path (dict_get cmd ''old_path'') = Inr old \<and> normalise_path (dict_get cmd ''new_path'') = Inr new \<and>
     refines b d ((files b d)(old := None, new := files b d old)) d'"
proof (rule rename_run [OF run fine])
  fix old new m
  assume p: "normalise_path (dict_get cmd ''old_path'') = Inr old" "normalise_path (dict_get cmd ''new_path'') = Inr new"
    and m: "tool_file b d old = Some m" and free: "tool_file b d new = None"
    and up: "tool_update b m (no_changes\<lparr>fc_title := Some new,
       fc_metadata := Some (AList.update PATH_KEY (JStr new) (m_metadata m))\<rparr>) r (sv, d) = Inr (r, sv', d')"
  have "files b d new = None" using free by (simp add: files_def)
  from update_file [OF ok some_file(1-3) [OF ok m] up, of new] this show ?thesis
    using p some_file(4) [OF ok m] by (simp add: no_changes_def)
qed

lemma delete_refines:
  assumes ok: "files_ok b d" and small: "small_tree b d" and run: "tool_delete b cmd (sv, d) = Inr (r, sv', d')" "\<not> tr_is_error r"
  obtains path where "normalise_path (dict_get cmd ''path'') = Inr path"
    and "refines b d (if files b d path \<noteq> None then (files b d)(path := None)
          else (\<lambda>x. if startswith x (path @ ''/'') then None else files b d x)) d'"
proof -
  obtain path where path: "normalise_path (dict_get cmd ''path'') = Inr path"
    using run(1) by (auto simp: tool_delete_def rbind_Inr)
  have del: "delete_all b (case tool_file b d path of Some m \<Rightarrow> [m] | None \<Rightarrow> children b d path) d = Inr d'"
    using run path by (auto simp: tool_delete_def Let_def rbind_Inr split: if_splits)
  have "refines b d (if files b d path \<noteq> None then (files b d)(path := None)
          else (\<lambda>x. if startswith x (path @ ''/'') then None else files b d x)) d'"
  proof (cases "tool_file b d path")
    case None
    then have "files b d path = None" by (simp add: files_def)
    then show ?thesis using deleted_directory [OF ok small path] del None by simp
  next
    case (Some m)
    obtain x where "service_delete (tb_env b) (tb_principal b) (m_public_id m) d = Inr (x, d')"
      using del Some by (auto simp: rbind_Inr)
    from delete_file [OF ok some_file(1-3) [OF ok Some] this] show ?thesis
      using some_file(4) [OF ok Some] by simp
  qed
  then show thesis using that path by blast
qed

text \<open>A create on a free path is plain when the write it makes is.\<close>

definition plain_create :: "tool_backend \<Rightarrow> db \<Rightarrow> command \<Rightarrow> bool" where
  "plain_create b d cmd \<longleftrightarrow>
     (case (normalise_path (dict_get cmd ''path''), dict_get cmd ''file_text'') of
        (Inr path, Some (JStr tx)) \<Rightarrow> files b d path = None \<longrightarrow> plain_write b d path tx
      | _ \<Rightarrow> True)"

lemma handler_named:
  assumes "tool_handler b (dict_get cmd ''command'') = Some h"
  obtains "dict_get cmd ''command'' = Some (JStr ''view'')" "h = tool_view b"
    | "dict_get cmd ''command'' = Some (JStr ''create'')" "h = tool_create b"
    | "dict_get cmd ''command'' = Some (JStr ''str_replace'')" "h = tool_str_replace b"
    | "dict_get cmd ''command'' = Some (JStr ''insert'')" "h = tool_insert b"
    | "dict_get cmd ''command'' = Some (JStr ''delete'')" "h = tool_delete b"
    | "dict_get cmd ''command'' = Some (JStr ''rename'')" "h = tool_rename b"
  using assms by (auto simp: tool_handler_def split: option.splits json.splits if_splits)

lemma executed_handler:
  assumes "execute b cmd (sv, d) = Inr (r, sv', d')" and "\<not> tr_is_error r"
  obtains h where "tool_handler b (dict_get cmd ''command'') = Some h" and "h cmd (sv, d) = Inr (r, sv', d')"
  using assms by (auto simp: execute_def split: option.splits sum.splits py_error.splits)

text \<open>
  C40.  The tool refines a map of files.  Take any command that is not answered with an error: the map
  from canonical path to text afterwards is what the specification makes of the map before (\<open>view\<close> leaves
  it, \<open>create\<close> binds the path, \<open>str_replace\<close> and \<open>insert\<close> rewrite the bound text, \<open>delete\<close> removes the
  file or everything below the directory, \<open>rename\<close> moves one binding), and no two live rows share a path.
  A create on a free path is assumed to be stored as a new memory, unredacted; a directory is assumed to
  fit in the listing query's limit of 1000 rows.
\<close>

theorem tool_refines_files:
  assumes ok: "files_ok b d" and small: "small_tree b d" and plain: "plain_create b d cmd"
    and run: "execute b cmd (sv, d) = Inr (r, sv', d')" and fine: "\<not> tr_is_error r"
  shows "files_ok b d' \<and> files b d' = fs_spec (files b d) cmd"
proof -
  obtain h where h: "tool_handler b (dict_get cmd ''command'') = Some h" "h cmd (sv, d) = Inr (r, sv', d')"
    using executed_handler [OF run fine] .
  from h(1) show ?thesis
  proof (cases rule: handler_named)
    case 1
    then have "d' = d" using h(2) by (auto simp: tool_view_def rbind_Inr)
    then show ?thesis using ok 1 by (simp add: fs_spec_def split: sum.split)
  next
    case 2
    have run: "tool_create b cmd (sv, d) = Inr (r, sv', d')" using 2(2) h(2) by simp
    obtain path tx where "normalise_path (dict_get cmd ''path'') = Inr path" "dict_get cmd ''file_text'' = Some (JStr tx)"
      "refines b d ((files b d)(path \<mapsto> tx)) d'"
      by (rule create_refines [OF ok run]) (use plain in \<open>simp_all add: plain_create_def\<close>)
    then show ?thesis using 2(1) by (simp add: fs_spec_def)
  next
    case 3
    have run: "tool_str_replace b cmd (sv, d) = Inr (r, sv', d')" using 3(2) h(2) by simp
    show ?thesis using str_replace_refines [OF ok run fine] 3(1) by (elim exE conjE) (simp add: fs_spec_def files_def)
  next
    case 4
    have run: "tool_insert b cmd (sv, d) = Inr (r, sv', d')" using 4(2) h(2) by simp
    show ?thesis using insert_refines [OF ok run fine] 4(1) by (elim exE conjE) (simp add: fs_spec_def files_def)
  next
    case 5
    have run: "tool_delete b cmd (sv, d) = Inr (r, sv', d')" using 5(2) h(2) by simp
    show ?thesis by (rule delete_refines [OF ok small run fine]) (simp add: fs_spec_def 5(1))
  next
    case 6
    have run: "tool_rename b cmd (sv, d) = Inr (r, sv', d')" using 6(2) h(2) by simp
    show ?thesis using rename_refines [OF ok run fine] 6(1) by (elim exE conjE) (simp add: fs_spec_def)
  qed
qed

text \<open>
  Edits are exact.  A successful \<open>str_replace\<close> cuts out one occurrence of the old text, the first,
  after which no further one follows, and puts the new text (nothing, when omitted) in its place; a
  successful \<open>insert\<close> leaves every line of the file as it was and in order, with the lines of the new
  text, its trailing newlines dropped, after the requested line.  Either was refused unless the file
  existed and was not held for review.
\<close>

theorem edits_exact:
  assumes ok: "files_ok b d" and run: "execute b cmd (sv, d) = Inr (r, sv', d')" and fine: "\<not> tr_is_error r"
    and name: "dict_get cmd ''command'' = Some (JStr name)" "name = ''str_replace'' \<or> name = ''insert''"
  shows "\<exists>path m body'. normalise_path (dict_get cmd ''path'') = Inr path \<and> tool_file b d path = Some m \<and>
     m_review_status m \<noteq> PENDING \<and> files b d' = (files b d)(path \<mapsto> body') \<and>
     (if name = ''str_replace'' then
        (\<exists>pre old post. dict_get cmd ''old_str'' = Some (JStr old) \<and> m_body m = pre @ old @ post \<and>
           (\<forall>i < length pre. \<not> startswith (drop i (m_body m)) old) \<and> py_count post old = 0 \<and>
           body' = pre @ (case dict_get cmd ''new_str'' of Some (JStr s) \<Rightarrow> s | _ \<Rightarrow> []) @ post)
      else
        (\<exists>n tx. dict_get cmd ''insert_line'' = Some (JInt n) \<and> dict_get cmd ''insert_text'' = Some (JStr tx) \<and>
           0 \<le> n \<and> nat n \<le> length (split_on newline (m_body m)) \<and>
           split_on newline body' = take (nat n) (split_on newline (m_body m)) @
             split_on newline (rstrip_by (\<lambda>c. c = newline) tx) @ drop (nat n) (split_on newline (m_body m))))"
proof -
  obtain h where h: "tool_handler b (dict_get cmd ''command'') = Some h" "h cmd (sv, d) = Inr (r, sv', d')"
    using executed_handler [OF run fine] .
  show ?thesis
  proof (cases "name = ''str_replace''")
    case True
    then have "h = tool_str_replace b" using h(1) name(1) by (simp add: tool_handler_def)
    then show ?thesis unfolding if_P [OF True] using str_replace_refines [OF ok _ fine] h(2) by blast
  next
    case False
    then have "h = tool_insert b" using h(1) name by (simp add: tool_handler_def)
    then show ?thesis unfolding if_not_P [OF False] using insert_refines [OF ok _ fine] h(2) inserted_lines by blast
  qed
qed

subsection \<open>Concrete runs\<close>

definition project_tool :: "time \<Rightarrow> string \<Rightarrow> tool_backend" where
  "project_tool now pid = \<lparr>tb_env = (lean_env now pid)\<lparr>e_settings := default_settings\<lparr>pii_detection := False, injection_quarantine := False\<rparr>\<rparr>,
     tb_principal = member_of 1, tb_scope_type = PROJECT,
     tb_scope_id = 5, tb_sensitivity = INTERNAL, tb_repr = (\<lambda>_. [])\<rparr>"

definition file_command :: "string \<Rightarrow> (string \<times> string) list \<Rightarrow> command" where
  "file_command name args = (''command'', JStr name) # map (\<lambda>(k, v). (k, JStr v)) args"

definition tool_db :: "tool_backend \<Rightarrow> command \<Rightarrow> db \<Rightarrow> db" where
  "tool_db b cmd d = (case execute b cmd (fresh_cache, d) of Inr (_, _, d') \<Rightarrow> d' | Inl _ \<Rightarrow> d)"

definition tool_answer :: "tool_backend \<Rightarrow> command \<Rightarrow> db \<Rightarrow> tool_result option" where
  "tool_answer b cmd d = (case execute b cmd (fresh_cache, d) of Inr (r, _, _) \<Rightarrow> Some r | Inl _ \<Rightarrow> None)"

lemma tool_run:
  assumes "tool_answer b cmd d = Some r"
  shows "\<exists>sv'. execute b cmd (fresh_cache, d) = Inr (r, sv', tool_db b cmd d)"
  using assms by (auto simp: tool_answer_def tool_db_def split: sum.splits)

definition one_file :: db where
  "one_file = tool_db (project_tool 200 ''f1'')
     (file_command ''create'' [(''path'', ''/memories/a''), (''file_text'', ''x'' @ [newline] @ ''z'')]) empty_db"

lemma files_ok_empty: "files_ok b empty_db"
  by (simp add: files_ok_def wf_db_def empty_db_def)

abbreviation t1 :: tool_backend where
  "t1 \<equiv> project_tool 200 ''f1''"

abbreviation make :: "string \<Rightarrow> string \<Rightarrow> command" where
  "make path tx \<equiv> file_command ''create'' [(''path'', path), (''file_text'', tx)]"

abbreviation move :: "string \<Rightarrow> string \<Rightarrow> command" where
  "move old new \<equiv> file_command ''rename'' [(''old_path'', old), (''new_path'', new)]"

lemma one_file_ok: "files_ok t1 one_file"
proof -
  let ?cmd = "make ''/memories/a'' (''x'' @ [newline] @ ''z'')"
  have h: "(case tool_create t1 ?cmd (fresh_cache, empty_db) of Inl _ \<Rightarrow> False | Inr _ \<Rightarrow> True)"
    "tool_handler t1 (dict_get ?cmd ''command'') = Some (tool_create t1)"
    by code_simp (simp add: file_command_def dict_get_def tool_handler_def)
  then obtain r sv' d' where run: "tool_create t1 ?cmd (fresh_cache, empty_db) = Inr (r, sv', d')"
    by (auto split: sum.splits)
  have d': "d' = one_file" using run h(2) by (simp add: one_file_def tool_db_def execute_def)
  have "plain_create t1 empty_db ?cmd" by code_simp
  then obtain path tx where "refines t1 empty_db ((files t1 empty_db)(path \<mapsto> tx)) d'"
    by (rule_tac create_refines [OF files_ok_empty run]) (simp_all add: plain_create_def)
  then show ?thesis by (simp add: d')
qed


lemma answered:
  assumes "(case tool_answer b cmd d of None \<Rightarrow> False | Some r \<Rightarrow> \<not> tr_is_error r)"
  obtains r sv' where "execute b cmd (fresh_cache, d) = Inr (r, sv', tool_db b cmd d)" and "\<not> tr_is_error r"
proof -
  obtain r where "tool_answer b cmd d = Some r" "\<not> tr_is_error r" using assms by (auto split: option.splits)
  then show thesis using that tool_run by blast
qed

lemma tool_refines_files_witness:
  "files t1 (tool_db t1 (move ''/memories/a'' ''/memories/b'') one_file) =
     fs_spec (files t1 one_file) (move ''/memories/a'' ''/memories/b'')"
proof -
  let ?cmd = "move ''/memories/a'' ''/memories/b''"
  have "(case tool_answer t1 ?cmd one_file of None \<Rightarrow> False | Some r \<Rightarrow> \<not> tr_is_error r)" by code_simp
  then obtain r sv' where run: "execute t1 ?cmd (fresh_cache, one_file) = Inr (r, sv', tool_db t1 ?cmd one_file)" "\<not> tr_is_error r"
    by (rule answered)
  have small: "small_tree t1 one_file" and plain: "plain_create t1 one_file ?cmd" by code_simp+
  show ?thesis using tool_refines_files [OF one_file_ok small plain run] by blast
qed

lemma edits_exact_witness:
  "\<exists>path body'. files t1 (tool_db t1 (file_command ''str_replace'' [(''path'', ''/memories/a''), (''old_str'', ''z'')]) one_file) =
     (files t1 one_file)(path \<mapsto> body')"
proof -
  let ?cmd = "file_command ''str_replace'' [(''path'', ''/memories/a''), (''old_str'', ''z'')]"
  have "(case tool_answer t1 ?cmd one_file of None \<Rightarrow> False | Some r \<Rightarrow> \<not> tr_is_error r)" by code_simp
  then obtain r sv' where run: "execute t1 ?cmd (fresh_cache, one_file) = Inr (r, sv', tool_db t1 ?cmd one_file)" "\<not> tr_is_error r"
    by (rule answered)
  have name: "dict_get ?cmd ''command'' = Some (JStr ''str_replace'')" by code_simp
  show ?thesis using edits_exact [OF one_file_ok run name disjI1 [OF refl]] by blast
qed

text \<open>
  The fingerprint of a memory is taken when it is written and a rename leaves it.  So a file that is
  renamed, and then written afresh under its old path with its old text, is folded into the renamed row,
  which takes the old path back: the renamed file disappears.
\<close>

abbreviation renamed_file :: db where
  "renamed_file \<equiv> tool_db t1 (move ''/memories/a'' ''/memories/b'') (tool_db t1 (make ''/memories/a'' ''x'') empty_db)"

lemma recreate_steals_renamed_file:
  "files t1 renamed_file ''/memories/b'' = Some ''x'' \<and>
   files t1 (tool_db (project_tool 300 ''f2'') (make ''/memories/a'' ''x'') renamed_file) ''/memories/b'' = None"
  by code_simp

text \<open>
  A view withholds a pending file only: whoever the caller is, and although a reviewer rejected the
  memory, its body is shown.
\<close>

lemma rejected_file_is_shown:
  assumes "normalise_path (dict_get cmd ''path'') = Inr path" and "tool_file b d path = Some m" and "m_review_status m = REJECTED"
    and "length (split_on newline (m_body m)) \<le> MAX_LINES" and "dict_get cmd ''view_range'' = None"
  shows "tool_view b cmd (sv, d) =
     Inr (ok_text (''Here's the content of '' @ path @ '' with line numbers:'' @ [newline] @ numbered (m_body m) 1), sv, d)"
  using assms by (simp add: tool_view_def)

text \<open>The root cannot be created, deleted or renamed, but a file can be renamed onto it.\<close>

lemma rename_onto_root:
  "files t1 (tool_db t1 (move ''/memories/a'' ''/memories'') one_file) MEMORY_ROOT = Some (''x'' @ [newline] @ ''z'')"
  by code_simp

end
