(* ===== verification/Chunker.thy ===== *)
theory Chunker
  imports Kortex_Prelude
begin

text \<open>
  The sentence-aware chunker (\<^verbatim>\<open>attachments/chunker.py\<close>).  The local function \<open>flush\<close> and the variables it
  shares with the generator are the record \<open>chunker\<close>; what was yielded so far is its \<open>ck_out\<close>.  The regular
  expression \<open>(?<=[.!?])\s+|\n\n+\<close> is the function \<open>sent_split\<close>, whose flag says that the character before is one of the three.
\<close>

section \<open>Definitions\<close>

fun add_char :: "char \<Rightarrow> string list \<Rightarrow> string list" where
  "add_char c [] = [[c]]"
| "add_char c (p # ps) = (c # p) # ps"

function sent_split :: "bool \<Rightarrow> string \<Rightarrow> string list" where
  "sent_split stop [] = [[]]"
| "sent_split stop (c # cs) =
     (if stop \<and> py_isspace c then [] # sent_split False (dropWhile py_isspace cs)
      else if c = newline \<and> take 1 cs = [newline] then [] # sent_split False (dropWhile (\<lambda>x. x = newline) cs)
      else add_char c (sent_split (c \<in> {CHR ''.'', CHR ''!'', CHR ''?''}) cs))"
  by pat_completeness auto
termination by (relation "measure (\<lambda>(_, s). length s)") (auto simp: le_imp_less_Suc length_dropWhile_le)

definition split_sentences :: "string \<Rightarrow> string list" where
  "split_sentences s =
     (let parts = map py_strip (filter (\<lambda>p. p \<noteq> [] \<and> py_strip p \<noteq> []) (sent_split False s))
      in if parts \<noteq> [] then parts else if py_strip s \<noteq> [] then [py_strip s] else [])"

text \<open>The slices of a sentence longer than a chunk.\<close>

function hard_pieces :: "nat \<Rightarrow> string \<Rightarrow> string list" where
  "hard_pieces n s = (if n = 0 \<or> s = [] then [] else take n s # hard_pieces n (drop n s))"
  by pat_completeness auto
termination by (relation "measure (\<lambda>(_, s). length s)") auto

declare hard_pieces.simps [simp del]

record chunker =
  ck_out :: "(nat \<times> string) list"
  ck_index :: nat
  ck_buffer :: "string list"
  ck_chars :: int

definition tail_of :: "int \<Rightarrow> string \<Rightarrow> string" where
  "tail_of ov body = (if ov > 0 then last_n (nat ov) body else [])"

definition flush :: "int \<Rightarrow> chunker \<Rightarrow> chunker" where
  "flush ov k =
     (if ck_buffer k = [] then k
      else let body = py_strip (py_join '' '' (ck_buffer k)); t = tail_of ov body
           in \<lparr>ck_out = ck_out k @ [(ck_index k, body)], ck_index = ck_index k + 1,
               ck_buffer = (if t = [] then [] else [t]), ck_chars = int (length t)\<rparr>)"

definition make_room :: "int \<Rightarrow> int \<Rightarrow> string \<Rightarrow> chunker \<Rightarrow> chunker" where
  "make_room mx ov s k = (if ck_chars k + int (length s) + 1 > mx \<and> ck_buffer k \<noteq> [] then flush ov k else k)"

definition push :: "string \<Rightarrow> chunker \<Rightarrow> chunker" where
  "push s k = k\<lparr>ck_buffer := ck_buffer k @ [s], ck_chars := ck_chars k + int (length s) + 1\<rparr>"

definition add_piece :: "int \<Rightarrow> int \<Rightarrow> string \<Rightarrow> chunker \<Rightarrow> chunker" where
  "add_piece mx ov s k =
     (let k1 = push s (make_room mx ov s k) in if ck_chars k1 \<ge> mx then flush ov k1 else k1)"

definition add_sentence :: "int \<Rightarrow> int \<Rightarrow> string \<Rightarrow> chunker \<Rightarrow> chunker" where
  "add_sentence mx ov s k =
     (if int (length s) > mx then fold (add_piece mx ov) (hard_pieces (nat mx) s) k
      else push s (make_room mx ov s k))"

text \<open>A maximum of zero makes \<open>range\<close> raise on the first sentence.\<close>

definition chunk_text :: "int \<Rightarrow> int \<Rightarrow> string \<Rightarrow> (nat \<times> string) list result" where
  "chunk_text max_tokens overlap_tokens s =
     (if py_strip s = [] then Inr []
      else if max_tokens = 0 then Inl (ValueError ''range() arg 3 must not be zero'')
      else let mx = max_tokens * 4; ov = overlap_tokens * 4
           in Inr (ck_out (flush ov (fold (add_sentence mx ov) (split_sentences s)
                \<lparr>ck_out = [], ck_index = 0, ck_buffer = [], ck_chars = 0\<rparr>))))"

text \<open>The specification: consecutive groups of pieces, each joined behind the tail of the chunk before it.\<close>

definition carry :: "int \<Rightarrow> string \<Rightarrow> string list" where
  "carry ov body = (if tail_of ov body = [] then [] else [tail_of ov body])"

definition chunk_body :: "string list \<Rightarrow> string list \<Rightarrow> string" where
  "chunk_body c g = py_strip (py_join '' '' (c @ g))"

fun bodies :: "int \<Rightarrow> string list \<Rightarrow> string list list \<Rightarrow> string list" where
  "bodies ov c [] = []"
| "bodies ov c (g # gs) = chunk_body c g # bodies ov (carry ov (chunk_body c g)) gs"

definition cut :: "int \<Rightarrow> string \<Rightarrow> string list" where
  "cut mx s = (if int (length s) > mx then hard_pieces (nat mx) s else [s])"

section \<open>Sentences and pieces\<close>

abbreviation ink :: "string \<Rightarrow> string" where
  "ink \<equiv> filter (\<lambda>c. \<not> py_isspace c)"

lemma newline_space: "py_isspace newline"
  by (simp add: py_isspace_def code_def)

lemma ink_dropWhile: "(\<And>c. P c \<Longrightarrow> py_isspace c) \<Longrightarrow> ink (dropWhile P s) = ink s"
  by (induction s) auto

lemma ink_rev: "ink (rev s) = rev (ink s)"
  by (simp add: rev_filter)

lemma ink_strip [simp]: "ink (py_strip s) = ink s"
  by (simp add: py_strip_def rstrip_by_def lstrip_by_def ink_rev ink_dropWhile)

lemma concat_add_char: "concat (add_char c ps) = c # concat ps"
  by (cases ps) auto

lemma ink_newlines: "ink (dropWhile (\<lambda>x. x = newline) s) = ink s"
  by (rule ink_dropWhile) (simp add: newline_space)

lemma ink_spaces: "ink (dropWhile py_isspace s) = ink s"
  by (rule ink_dropWhile)

lemma ink_sent_split: "ink (concat (sent_split b s)) = ink s"
  by (induction b s rule: sent_split.induct) (auto simp: concat_add_char ink_newlines ink_spaces newline_space)

lemma strip_empty: "py_strip s = [] \<longleftrightarrow> ink s = []"
proof
  show "py_strip s = [] \<Longrightarrow> ink s = []" using ink_strip [of s] by simp
next
  assume "ink s = []"
  then have "dropWhile py_isspace s = []" by (simp add: filter_empty_conv)
  then show "py_strip s = []" by (simp add: py_strip_def rstrip_by_def lstrip_by_def del: dropWhile_eq_Nil_conv)
qed

lemma ink_stripped: "ink (concat (map py_strip (filter (\<lambda>p. p \<noteq> [] \<and> py_strip p \<noteq> []) ps))) = ink (concat ps)"
  by (induction ps) (auto simp del: filter_concat simp: strip_empty)

text \<open>The sentences hold every character of the text that is not a space, in order.\<close>

lemma ink_sentences: "ink (concat (split_sentences s)) = ink s"
proof -
  let ?parts = "map py_strip (filter (\<lambda>p. p \<noteq> [] \<and> py_strip p \<noteq> []) (sent_split False s))"
  have parts: "ink (concat ?parts) = ink s" by (simp only: ink_stripped ink_sent_split)
  show ?thesis
  proof (cases "?parts = []")
    case True
    then have "ink s = []" using parts by (metis concat.simps(1) filter.simps(1))
    then have "split_sentences s = []" using True by (simp add: split_sentences_def Let_def strip_empty)
    then show ?thesis using \<open>ink s = []\<close> by simp
  next
    case False
    then have "split_sentences s = ?parts" by (simp add: split_sentences_def Let_def)
    then show ?thesis using parts by metis
  qed
qed

lemma sentences_empty: "split_sentences s = [] \<longleftrightarrow> py_strip s = []"
proof
  show "split_sentences s = [] \<Longrightarrow> py_strip s = []" using ink_sentences [of s] by (simp add: strip_empty)
next
  assume blank: "py_strip s = []"
  then have "ink (concat (sent_split False s)) = []" by (simp add: ink_sent_split strip_empty)
  then have "\<forall>p \<in> set (sent_split False s). py_strip p = []" by (auto simp: strip_empty filter_concat)
  then have "filter (\<lambda>p. p \<noteq> [] \<and> py_strip p \<noteq> []) (sent_split False s) = []" by (simp add: filter_empty_conv)
  then show "split_sentences s = []" using blank by (simp add: split_sentences_def)
qed

lemma hard_pieces_concat: "n \<noteq> 0 \<Longrightarrow> concat (hard_pieces n s) = s"
  by (induction n s rule: hard_pieces.induct) (subst hard_pieces.simps, simp)

lemma hard_pieces_length: "p \<in> set (hard_pieces n s) \<Longrightarrow> length p \<le> n"
proof (induction n s rule: hard_pieces.induct)
  case (1 n s)
  show ?case
  proof (cases "n = 0 \<or> s = []")
    case True
    then show ?thesis using 1(2) by (simp add: hard_pieces.simps)
  next
    case False
    then have "hard_pieces n s = take n s # hard_pieces n (drop n s)" by (subst hard_pieces.simps) simp
    then show ?thesis using 1(1) [OF False] 1(2) by auto
  qed
qed

lemma cut_concat: "0 < mx \<Longrightarrow> concat (cut mx s) = s"
  by (simp add: cut_def hard_pieces_concat)

lemma ink_cut: "0 < mx \<Longrightarrow> ink (concat (concat (map (cut mx) ss))) = ink (concat ss)"
  by (induction ss) (simp_all add: cut_concat)

section \<open>What the loop keeps\<close>

definition end_carry :: "int \<Rightarrow> string list \<Rightarrow> string list list \<Rightarrow> string list" where
  "end_carry ov c gs = fold (\<lambda>g c. carry ov (chunk_body c g)) gs c"

lemma bodies_snoc: "bodies ov c (gs @ [g]) = bodies ov c gs @ [chunk_body (end_carry ov c gs) g]"
  by (induction gs arbitrary: c) (simp_all add: end_carry_def)

lemma end_carry_snoc: "end_carry ov c (gs @ [g]) = carry ov (chunk_body (end_carry ov c gs) g)"
  by (simp add: end_carry_def)

lemma tail_length: "int (length (tail_of ov body)) \<le> max 0 ov"
  by (cases "length body \<le> nat ov") (auto simp: tail_of_def last_n_def)

text \<open>
  Between two pieces: the chunks so far are the bodies of the groups \<open>gs\<close>, the buffer holds the tail of the last one
  and the group being filled, and the counter bounds what joining the buffer gives.
\<close>

definition filled :: "int \<Rightarrow> int \<Rightarrow> string list \<Rightarrow> chunker \<Rightarrow> bool" where
  "filled mx ov ps k \<longleftrightarrow>
     (\<exists>gs g. concat gs @ g = ps \<and> map snd (ck_out k) = bodies ov [] gs \<and> ck_buffer k = end_carry ov [] gs @ g) \<and>
     map fst (ck_out k) = [0..<ck_index k] \<and>
     (\<forall>b \<in> snd ` set (ck_out k). int (length b) \<le> mx + max 0 ov + 1) \<and>
     int (length (py_join '' '' (ck_buffer k))) \<le> ck_chars k \<and> ck_chars k \<le> mx + max 0 ov + 1 \<and>
     (ck_buffer k = [] \<longrightarrow> ck_chars k = 0)"

lemma filledD:
  assumes "filled mx ov ps k"
  shows "int (length (py_join '' '' (ck_buffer k))) \<le> ck_chars k" and "ck_chars k \<le> mx + max 0 ov + 1"
    and "ck_buffer k = [] \<Longrightarrow> ck_chars k = 0" and "map fst (ck_out k) = [0..<ck_index k]"
    and "\<forall>b \<in> snd ` set (ck_out k). int (length b) \<le> mx + max 0 ov + 1"
  using assms by (simp_all add: filled_def)

lemma flush_filled:
  assumes "filled mx ov ps k" and "0 < mx"
  shows "filled mx ov ps (flush ov k)" and "ck_chars (flush ov k) \<le> max 0 ov"
proof -
  show "filled mx ov ps (flush ov k)"
  proof (cases "ck_buffer k = []")
    case True
    then show ?thesis using assms by (simp add: flush_def)
  next
    case False
    from assms(1) obtain gs g where groups: "concat gs @ g = ps" "map snd (ck_out k) = bodies ov [] gs"
        "ck_buffer k = end_carry ov [] gs @ g"
      unfolding filled_def by blast
    let ?b = "chunk_body (end_carry ov [] gs) g"
    have k': "flush ov k = \<lparr>ck_out = ck_out k @ [(ck_index k, ?b)], ck_index = ck_index k + 1,
        ck_buffer = carry ov ?b, ck_chars = int (length (tail_of ov ?b))\<rparr>"
      unfolding chunk_body_def groups(3) [symmetric] using False by (simp add: flush_def Let_def carry_def)
    have "int (length ?b) \<le> mx + max 0 ov + 1"
      using assms(1) length_py_strip [of "py_join '' '' (ck_buffer k)"]
      by (simp add: filled_def chunk_body_def groups(3))
    moreover have "concat (gs @ [g]) @ [] = ps \<and> map snd (ck_out k @ [(ck_index k, ?b)]) = bodies ov [] (gs @ [g]) \<and>
        carry ov ?b = end_carry ov [] (gs @ [g]) @ []"
      using groups by (simp add: bodies_snoc end_carry_snoc)
    moreover have "int (length (py_join '' '' (carry ov ?b))) \<le> int (length (tail_of ov ?b))"
      by (simp add: carry_def)
    moreover have "carry ov ?b = [] \<longrightarrow> int (length (tail_of ov ?b)) = 0"
      by (simp add: carry_def)
    moreover have "int (length (tail_of ov ?b)) \<le> mx + max 0 ov + 1"
      using tail_length [of ov ?b] assms(2) by linarith
    ultimately show ?thesis
      using assms(1) unfolding filled_def k' chunker.simps by (auto simp del: concat_append)
  qed
  show "ck_chars (flush ov k) \<le> max 0 ov"
    using assms tail_length by (auto simp: flush_def Let_def filled_def)
qed

lemma push_filled:
  assumes "filled mx ov ps k" and "ck_chars k + int (length s) + 1 \<le> mx + max 0 ov + 1"
  shows "filled mx ov (ps @ [s]) (push s k)"
proof -
  from assms(1) obtain gs g where groups: "concat gs @ g = ps" "map snd (ck_out k) = bodies ov [] gs"
      "ck_buffer k = end_carry ov [] gs @ g"
    unfolding filled_def by blast
  then have "concat gs @ (g @ [s]) = ps @ [s] \<and> map snd (ck_out k) = bodies ov [] gs \<and>
      ck_buffer k @ [s] = end_carry ov [] gs @ (g @ [s])"
    by simp
  moreover have "int (length (py_join '' '' (ck_buffer k @ [s]))) \<le> ck_chars k + int (length s) + 1"
    using filledD(1) [OF assms(1)] by (cases "ck_buffer k") (simp_all add: length_py_join)
  ultimately show ?thesis
    using assms(2) filledD(4,5) [OF assms(1)] unfolding filled_def push_def
    by (intro conjI exI [of _ gs] exI [of _ "g @ [s]"]) simp_all
qed

lemma room_filled:
  assumes "filled mx ov ps k" and "0 < mx" and "int (length s) \<le> mx"
  shows "filled mx ov (ps @ [s]) (push s (make_room mx ov s k))"
proof (cases "ck_chars k + int (length s) + 1 > mx \<and> ck_buffer k \<noteq> []")
  case True
  then have eq: "make_room mx ov s k = flush ov k" by (simp add: make_room_def)
  show ?thesis unfolding eq
    using flush_filled [OF assms(1,2)] assms(3) by (intro push_filled) auto
next
  case False
  then have eq: "make_room mx ov s k = k" by (auto simp: make_room_def)
  have "ck_chars k + int (length s) + 1 \<le> mx + max 0 ov + 1"
  proof (cases "ck_buffer k = []")
    case True
    then show ?thesis using filledD(3) [OF assms(1)] assms(3) by linarith
  next
    case not_empty: False
    then show ?thesis using False by linarith
  qed
  then show ?thesis unfolding eq by (rule push_filled [OF assms(1)])
qed

lemma piece_filled:
  "filled mx ov ps k \<Longrightarrow> 0 < mx \<Longrightarrow> int (length s) \<le> mx \<Longrightarrow> filled mx ov (ps @ [s]) (add_piece mx ov s k)"
  using room_filled flush_filled(1) by (simp add: add_piece_def Let_def)

lemma pieces_filled:
  assumes "0 < mx"
  shows "filled mx ov ps k \<Longrightarrow> \<forall>s \<in> set ss. int (length s) \<le> mx \<Longrightarrow> filled mx ov (ps @ ss) (fold (add_piece mx ov) ss k)"
proof (induction ss arbitrary: ps k)
  case (Cons s ss)
  then have "filled mx ov (ps @ [s]) (add_piece mx ov s k)" using piece_filled assms by simp
  from Cons.IH [OF this] Cons.prems(2) show ?case by simp
qed simp

lemma sentence_filled:
  assumes "filled mx ov ps k" and "0 < mx"
  shows "filled mx ov (ps @ cut mx s) (add_sentence mx ov s k)"
proof (cases "int (length s) > mx")
  case True
  have "\<forall>p \<in> set (hard_pieces (nat mx) s). int (length p) \<le> mx"
    using hard_pieces_length [of _ "nat mx" s] assms(2) by (simp add: le_nat_iff)
  then show ?thesis using True pieces_filled [OF assms(2,1)] by (simp add: cut_def add_sentence_def)
next
  case False
  then show ?thesis using room_filled [OF assms] by (simp add: cut_def add_sentence_def)
qed

lemma sentences_filled:
  "0 < mx \<Longrightarrow> filled mx ov ps k \<Longrightarrow> filled mx ov (ps @ concat (map (cut mx) ss)) (fold (add_sentence mx ov) ss k)"
proof (induction ss arbitrary: ps k)
  case (Cons s ss)
  from Cons.IH [OF Cons.prems(1) sentence_filled [OF Cons.prems(2,1)]] show ?case by simp
qed simp

lemma flush_emptied: "filled mx ov ps k \<Longrightarrow> 0 < mx \<Longrightarrow>
   \<exists>gs. concat gs = ps \<and> map snd (ck_out (flush ov k)) = bodies ov [] gs"
proof -
  assume k: "filled mx ov ps k" "0 < mx"
  then obtain gs g where groups: "concat gs @ g = ps" "map snd (ck_out k) = bodies ov [] gs"
      "ck_buffer k = end_carry ov [] gs @ g"
    unfolding filled_def by blast
  show ?thesis
  proof (cases "ck_buffer k = []")
    case True
    then show ?thesis using groups by (intro exI [of _ gs]) (simp add: flush_def)
  next
    case False
    then show ?thesis using groups
      by (intro exI [of _ "gs @ [g]"]) (simp add: flush_def Let_def bodies_snoc chunk_body_def)
  qed
qed

lemma chunk_text_run:
  assumes "chunk_text mt ot s = Inr cs" and "0 < mt"
  shows "map fst cs = [0..<length cs]" and "\<forall>b \<in> snd ` set cs. int (length b) \<le> 4 * mt + max 0 (4 * ot) + 1"
    and "\<exists>gs. concat gs = concat (map (cut (4 * mt)) (split_sentences s)) \<and> map snd cs = bodies (4 * ot) [] gs"
proof -
  let ?start = "\<lparr>ck_out = [], ck_index = 0, ck_buffer = [], ck_chars = 0\<rparr>"
  let ?k = "fold (add_sentence (4 * mt) (4 * ot)) (split_sentences s) ?start"
  have "filled (4 * mt) (4 * ot) [] ?start"
    unfolding filled_def using assms(2) by (intro conjI exI [of _ "[]"]) (simp_all add: end_carry_def)
  from sentences_filled [OF _ this, of "split_sentences s"] assms(2)
  have k: "filled (4 * mt) (4 * ot) (concat (map (cut (4 * mt)) (split_sentences s))) ?k"
    by simp
  have cs: "cs = ck_out (flush (4 * ot) ?k)"
  proof (cases "py_strip s = []")
    case True
    then have "split_sentences s = []" by (simp add: sentences_empty)
    then show ?thesis using True assms(1) by (simp add: chunk_text_def flush_def)
  next
    case False
    then show ?thesis using assms by (simp add: chunk_text_def Let_def mult.commute)
  qed
  have f: "filled (4 * mt) (4 * ot) (concat (map (cut (4 * mt)) (split_sentences s))) (flush (4 * ot) ?k)"
    using flush_filled(1) [OF k] assms(2) by simp
  then have "map fst cs = [0..<ck_index (flush (4 * ot) ?k)]" by (simp add: filled_def cs)
  then show "map fst cs = [0..<length cs]" by (metis diff_zero length_map length_upt)
  show "\<forall>b \<in> snd ` set cs. int (length b) \<le> 4 * mt + max 0 (4 * ot) + 1" using f by (simp add: filled_def cs)
  show "\<exists>gs. concat gs = concat (map (cut (4 * mt)) (split_sentences s)) \<and> map snd cs = bodies (4 * ot) [] gs"
    unfolding cs by (rule flush_emptied [OF k]) (use assms(2) in simp)
qed

text \<open>
  C19.  Chunking loses nothing and keeps its bound.  The indices count from zero; every chunk has at most
  \<open>max_tokens\<close> tokens of characters and, before them, the overlap and one space; there are no chunks exactly
  when the text is blank.  The chunks are the bodies of consecutive groups of pieces, each joined
  behind the tail of the chunk before it, the pieces are the sentences in order, cut where one is longer than a chunk,
  and together they hold every character of the text that is not a space, in order.
\<close>

theorem chunk_text_complete:
  assumes "chunk_text mt ot s = Inr cs" and "0 < mt"
  shows "map fst cs = [0..<length cs] \<and>
    (\<forall>b \<in> set (map snd cs). int (length b) \<le> 4 * mt + max 0 (4 * ot) + 1) \<and>
    (cs = [] \<longleftrightarrow> py_strip s = []) \<and>
    (\<exists>gs. map snd cs = bodies (4 * ot) [] gs \<and> concat gs = concat (map (cut (4 * mt)) (split_sentences s)) \<and>
       filter (\<lambda>c. \<not> py_isspace c) (concat (concat gs)) = filter (\<lambda>c. \<not> py_isspace c) s)"
proof -
  note run = chunk_text_run [OF assms]
  from run(3) obtain gs where gs: "concat gs = concat (map (cut (4 * mt)) (split_sentences s))" "map snd cs = bodies (4 * ot) [] gs"
    by blast
  have inked: "ink (concat (concat gs)) = ink s"
    using assms(2) by (simp only: gs(1) ink_cut zero_less_mult_iff zero_less_numeral ink_sentences simp_thms)
  have "gs = []" if "cs = []" using gs(2) that by (cases gs) simp_all
  then have "cs = [] \<longleftrightarrow> py_strip s = []" using inked assms(1) by (auto simp: strip_empty chunk_text_def)
  moreover have "\<forall>b \<in> set (map snd cs). int (length b) \<le> 4 * mt + max 0 (4 * ot) + 1" using run(2) by simp
  ultimately show ?thesis using run(1) gs inked by blast
qed

lemma chunk_text_complete_witness:
  "\<exists>cs gs. chunk_text 2 1 ''One two. Three four!'' = Inr cs \<and> map fst cs = [0..<length cs] \<and> map snd cs = bodies 4 [] gs \<and>
     filter (\<lambda>c. \<not> py_isspace c) (concat (concat gs)) = ''Onetwo.Threefour!''"
proof -
  have run: "chunk_text 2 1 ''One two. Three four!'' = Inr [(0, ''One two.''), (1, ''two. Three fo''), (2, ''e fo ur!''), (3, ''ur!'')]"
    by code_simp
  have "filter (\<lambda>c. \<not> py_isspace c) ''One two. Three four!'' = ''Onetwo.Threefour!''" by code_simp
  then show ?thesis using chunk_text_complete [OF run] run by auto
qed

section \<open>What the code leaves open\<close>

text \<open>A chunk is longer than \<open>max_tokens\<close> allows: the overlap is put before a sentence that already fills a chunk.\<close>

lemma chunk_over_max:
  "chunk_text 2 1 ''aaaaaaa. bbbbbbb.'' = Inr [(0, ''aaaaaaa.''), (1, ''aaa. bbbbbbb.'')]"
  by code_simp

text \<open>A chunk that repeats the tail of the one before it and nothing else.\<close>

lemma chunk_tail_only:
  "chunk_text 2 1 ''aaaabbbbccccdddd'' = Inr [(0, ''aaaabbbb''), (1, ''bbbb''), (2, ''bbbb ccccdddd''), (3, ''dddd'')]"
  by code_simp

end
