(* ===== verification/Authentication.thy ===== *)
theory Authentication
  imports Memory_Service
begin

text \<open>
  Credentials: API keys (\<^verbatim>\<open>security/api_keys.py\<close>, \<^verbatim>\<open>repositories/api_key_repo.py\<close>,
  \<^verbatim>\<open>services/api_key_service.py\<close>), tokens (\<^verbatim>\<open>security/jwt.py\<close>, \<^verbatim>\<open>security/token_denylist.py\<close>), users and
  memberships (\<^verbatim>\<open>repositories/user_repo.py\<close>, \<^verbatim>\<open>repositories/membership_repo.py\<close>,
  \<^verbatim>\<open>services/user_service.py\<close>), login, refresh and principals (\<^verbatim>\<open>services/auth_service.py\<close>), password
  reset and verification (\<^verbatim>\<open>services/account_service.py\<close>), and the API's credential resolution and login
  endpoint (\<^verbatim>\<open>kortex_api/deps.py\<close>, \<^verbatim>\<open>kortex_api/routers/auth.py\<close>).

  Parameters: Argon2 (a hash and a verifier), PyJWT (an encoder and a decoder that takes the time),
  whether Redis answers, the random tokens and UUIDs drawn.  The laws used of them are named predicates.
\<close>

section \<open>Definitions\<close>

record user_row =
  us_id :: int
  us_public_id :: string
  us_email :: string
  us_password_hash :: "string option"
  us_display_name :: string
  us_is_superuser :: bool
  us_email_verified :: bool
  us_last_login_at :: "time option"
  us_deleted_at :: "time option"

record membership =
  mb_user_id :: int
  mb_scope_type :: scope_type
  mb_scope_id :: int
  mb_role :: role

record api_key =
  ak_id :: int
  ak_public_id :: string
  ak_org_id :: int
  ak_prefix :: string
  ak_key_hash :: string
  ak_name :: string
  ak_scope_type :: "scope_type option"
  ak_scope_id :: "int option"
  ak_scopes :: "string list"
  ak_created_by :: "int option"
  ak_expires_at :: "time option"
  ak_last_used_at :: "time option"
  ak_revoked_at :: "time option"
  ak_created_at :: time

text \<open>The tables, and Redis: each revoked \<open>jti\<close> with the instant its key expires.\<close>

record auth_db =
  users :: "user_row list"
  memberships :: "membership list"
  api_keys :: "api_key list"
  auth_audit :: "audit_entry list"
  denylist :: "(string \<times> time) list"
  next_user_id :: int
  next_key_id :: int

type_synonym claims = "(string \<times> json) list"

record auth_env =
  ae_settings :: settings
  ae_hash :: "string \<Rightarrow> string"
  ae_verify :: "string \<Rightarrow> string \<Rightarrow> bool"
  ae_jwt_encode :: "claims \<Rightarrow> string"
  ae_jwt_decode :: "time \<Rightarrow> string \<Rightarrow> claims result"
  ae_redis :: bool
  ae_audit_hash :: "json \<Rightarrow> string"
  ae_origin :: "string option \<times> string option"

subsection \<open>API keys\<close>

definition KEY_PREFIX :: string where
  "KEY_PREFIX = ''kx''"

definition ALPHABET :: string where
  "ALPHABET = ''abcdefghijklmnopqrstuvwxyzABCDEFGHIJKLMNOPQRSTUVWXYZ0123456789''"

record api_key_material =
  km_plaintext :: string
  km_prefix :: string
  km_secret :: string
  km_secret_hash :: string

text \<open>The prefix and the secret are what \<open>_random_token\<close> drew.\<close>

definition random_token :: "nat \<Rightarrow> string \<Rightarrow> bool" where
  "random_token n s = (length s = n \<and> list_all (\<lambda>c. c \<in> set ALPHABET) s)"

definition generate_api_key :: "auth_env \<Rightarrow> string \<Rightarrow> string \<Rightarrow> api_key_material" where
  "generate_api_key env pre secret =
     \<lparr>km_plaintext = KEY_PREFIX @ ''_'' @ pre @ ''_'' @ secret, km_prefix = pre, km_secret = secret,
      km_secret_hash = ae_hash env secret\<rparr>"

definition parse_api_key :: "settings \<Rightarrow> string \<Rightarrow> (string \<times> string) option" where
  "parse_api_key s plaintext =
     (case split_max 2 CHR ''_'' plaintext of
        [k, pre, secret] \<Rightarrow>
          if k \<noteq> KEY_PREFIX then None
          else if length pre \<noteq> api_key_prefix_length s \<or> length secret \<noteq> api_key_secret_length s then None
          else Some (pre, secret)
      | _ \<Rightarrow> None)"

text \<open>\<open>scalar_one_or_none\<close> on a column that is not unique.\<close>

definition one_or_none :: "'a list \<Rightarrow> 'a option result" where
  "one_or_none rows =
     (case rows of [] \<Rightarrow> Inr None | [r] \<Rightarrow> Inr (Some r)
      | _ \<Rightarrow> Inl (RuntimeError ''Multiple rows were found when one or none was required''))"

definition key_active :: "time \<Rightarrow> api_key \<Rightarrow> bool" where
  "key_active now k = (ak_revoked_at k = None \<and> (case ak_expires_at k of None \<Rightarrow> True | Some t \<Rightarrow> t > now))"

definition get_active_by_prefix :: "time \<Rightarrow> string \<Rightarrow> api_key list \<Rightarrow> api_key option result" where
  "get_active_by_prefix now pre keys = one_or_none (filter (\<lambda>k. ak_prefix k = pre \<and> key_active now k) keys)"

definition list_keys_for_org :: "principal \<Rightarrow> api_key list \<Rightarrow> api_key list" where
  "list_keys_for_org p keys = sort_key (\<lambda>k. - ak_created_at k) (tenant_rows ak_org_id p keys)"

definition key_by_public_id :: "string \<Rightarrow> principal \<Rightarrow> api_key list \<Rightarrow> api_key option" where
  "key_by_public_id pid p keys = first_row (filter (\<lambda>k. ak_public_id k = pid) (tenant_rows ak_org_id p keys))"

definition save_key :: "api_key \<Rightarrow> (api_key \<Rightarrow> api_key) \<Rightarrow> auth_db \<Rightarrow> auth_db" where
  "save_key k f d = d\<lparr>api_keys := map (\<lambda>x. if ak_id x = ak_id k then f x else x) (api_keys d)\<rparr>"

definition touch_used :: "time \<Rightarrow> api_key \<Rightarrow> auth_db \<Rightarrow> auth_db" where
  "touch_used now k d = save_key k (\<lambda>x. x\<lparr>ak_last_used_at := Some now\<rparr>) d"

definition repo_revoke_key :: "time \<Rightarrow> string \<Rightarrow> principal \<Rightarrow> auth_db \<Rightarrow> api_key option \<times> auth_db" where
  "repo_revoke_key now pid p d =
     (case key_by_public_id pid p (api_keys d) of
        None \<Rightarrow> (None, d)
      | Some k \<Rightarrow>
          if ak_revoked_at k = None
          then (Some (k\<lparr>ak_revoked_at := Some now\<rparr>), save_key k (\<lambda>x. x\<lparr>ak_revoked_at := Some now\<rparr>) d)
          else (Some k, d))"

definition repo_create_key ::
    "principal \<Rightarrow> time \<Rightarrow> string \<Rightarrow> string \<Rightarrow> string \<Rightarrow> string \<Rightarrow> string list \<Rightarrow> scope_type option \<Rightarrow> int option
     \<Rightarrow> time option \<Rightarrow> int option \<Rightarrow> auth_db \<Rightarrow> api_key \<times> auth_db" where
  "repo_create_key p now pid pre key_hash name scopes st sid expires_at created_by d =
     (let k = \<lparr>ak_id = next_key_id d, ak_public_id = pid, ak_org_id = p_org_id p, ak_prefix = pre, ak_key_hash = key_hash,
               ak_name = name, ak_scope_type = st, ak_scope_id = sid, ak_scopes = scopes, ak_created_by = created_by,
               ak_expires_at = expires_at, ak_last_used_at = None, ak_revoked_at = None, ak_created_at = now\<rparr>
      in (k, d\<lparr>api_keys := api_keys d @ [k], next_key_id := next_key_id d + 1\<rparr>))"

definition auth_audit_append ::
    "auth_env \<Rightarrow> time \<Rightarrow> principal option \<Rightarrow> audit_request \<Rightarrow> auth_db \<Rightarrow> auth_db result" where
  "auth_audit_append env now p req d =
     rbind (audit_append (ae_audit_hash env) p (ae_origin env) now req (auth_audit d)) (\<lambda>(_, rows).
       Inr (d\<lparr>auth_audit := rows\<rparr>))"

definition key_audit :: "principal \<Rightarrow> audit_action \<Rightarrow> api_key \<Rightarrow> (string \<times> json) list \<Rightarrow> audit_request" where
  "key_audit p action k meta = \<lparr>ar_actor_kind = actor_kind p, ar_actor_id = Some (actor_id p),
     ar_action = audit_action_value action, ar_target_type = Some ''api_key'', ar_target_id = Some (ak_id k),
     ar_metadata = meta, ar_ip = None, ar_user_agent = None, ar_org_id = None\<rparr>"

abbreviation seconds :: "int \<Rightarrow> time" where
  "seconds n \<equiv> n * 1000000"

record mint_request =
  mr_name :: string
  mr_scopes :: "string list"
  mr_scope_type :: "scope_type option"
  mr_scope_id :: "int option"
  mr_expires_in_days :: "int option"

definition mint ::
    "auth_env \<Rightarrow> time \<Rightarrow> principal \<Rightarrow> string \<Rightarrow> string \<Rightarrow> string \<Rightarrow> mint_request \<Rightarrow> auth_db \<Rightarrow> (string \<times> api_key \<times> auth_db) result" where
  "mint env now p pid pre secret rq d =
     (if actor_kind p = API_KEY \<and> key_scopes p \<noteq> {} \<and> \<not> set (mr_scopes rq) \<subseteq> key_scopes p
      then Inl (AccessDeniedError ''cannot mint an api key with broader scopes than the caller'')
      else
        let material = generate_api_key env pre secret;
            expires_at = (case mr_expires_in_days rq of
               None \<Rightarrow> None | Some n \<Rightarrow> if n = 0 then None else Some (now + seconds (n * 86400)));
            (k, d1) = repo_create_key p now pid (km_prefix material) (km_secret_hash material) (mr_name rq) (mr_scopes rq)
               (mr_scope_type rq) (mr_scope_id rq) expires_at (if actor_kind p = USER then Some (actor_id p) else None) d
        in rbind (auth_audit_append env now (Some p)
              (key_audit p API_KEY_CREATED k [(''name'', JStr (mr_name rq)), (''prefix'', JStr (km_prefix material)),
                 (''scopes'', JList (map JStr (sort (mr_scopes rq))))]) d1)
             (\<lambda>d2. Inr (km_plaintext material, k, d2)))"

definition revoke_key :: "auth_env \<Rightarrow> time \<Rightarrow> principal \<Rightarrow> string \<Rightarrow> auth_db \<Rightarrow> (api_key option \<times> auth_db) result" where
  "revoke_key env now p pid d =
     (case repo_revoke_key now pid p d of
        (None, d1) \<Rightarrow> Inr (None, d1)
      | (Some k, d1) \<Rightarrow>
          rbind (auth_audit_append env now (Some p)
              (key_audit p API_KEY_REVOKED k [(''name'', JStr (ak_name k)), (''prefix'', JStr (ak_prefix k))]) d1)
            (\<lambda>d2. Inr (Some k, d2)))"

subsection \<open>Users and memberships\<close>

text \<open>The \<open>email\<close> column is case-insensitive text.\<close>

definition user_by_email :: "string \<Rightarrow> auth_db \<Rightarrow> user_row option" where
  "user_by_email email d = first_row (filter (\<lambda>u. py_lower (us_email u) = py_lower email \<and> us_deleted_at u = None) (users d))"

definition user_by_id :: "int \<Rightarrow> auth_db \<Rightarrow> user_row option" where
  "user_by_id uid d = first_row (filter (\<lambda>u. us_id u = uid \<and> us_deleted_at u = None) (users d))"

definition create_user ::
    "string \<Rightarrow> string \<Rightarrow> string option \<Rightarrow> string \<Rightarrow> bool \<Rightarrow> auth_db \<Rightarrow> (user_row \<times> auth_db) result" where
  "create_user pid email password_hash display_name superuser d =
     (if \<exists>u \<in> set (users d). py_lower (us_email u) = py_lower email
      then Inl (IntegrityError ''duplicate key value violates unique constraint'')
      else let u = \<lparr>us_id = next_user_id d, us_public_id = pid, us_email = email, us_password_hash = password_hash,
                    us_display_name = display_name, us_is_superuser = superuser, us_email_verified = False,
                    us_last_login_at = None, us_deleted_at = None\<rparr>
           in Inr (u, d\<lparr>users := users d @ [u], next_user_id := next_user_id d + 1\<rparr>))"

definition update_user :: "int \<Rightarrow> (user_row \<Rightarrow> user_row) \<Rightarrow> auth_db \<Rightarrow> auth_db" where
  "update_user uid f d = d\<lparr>users := map (\<lambda>u. if us_id u = uid \<and> us_deleted_at u = None then f u else u) (users d)\<rparr>"

definition touch_login :: "time \<Rightarrow> int \<Rightarrow> auth_db \<Rightarrow> auth_db" where
  "touch_login now uid = update_user uid (\<lambda>u. u\<lparr>us_last_login_at := Some now\<rparr>)"

definition set_password :: "int \<Rightarrow> string \<Rightarrow> auth_db \<Rightarrow> auth_db" where
  "set_password uid h = update_user uid (\<lambda>u. u\<lparr>us_password_hash := Some h\<rparr>)"

definition set_email_verified :: "int \<Rightarrow> bool \<Rightarrow> auth_db \<Rightarrow> auth_db" where
  "set_email_verified uid v = update_user uid (\<lambda>u. u\<lparr>us_email_verified := v\<rparr>)"

definition list_for_user :: "int \<Rightarrow> auth_db \<Rightarrow> membership list" where
  "list_for_user uid d = filter (\<lambda>m. mb_user_id m = uid) (memberships d)"

definition list_org_members :: "int \<Rightarrow> auth_db \<Rightarrow> (user_row \<times> role) list" where
  "list_org_members org d =
     sort_key (\<lambda>(u, _). us_id u)
       (concat (map (\<lambda>u. map (\<lambda>m. (u, mb_role m))
          (filter (\<lambda>m. mb_user_id m = us_id u \<and> mb_scope_type m = ORG \<and> mb_scope_id m = org) (memberships d)))
        (filter (\<lambda>u. us_deleted_at u = None) (users d))))"

definition is_membership :: "int \<Rightarrow> scope_type \<Rightarrow> int \<Rightarrow> membership \<Rightarrow> bool" where
  "is_membership uid st sid m = (mb_user_id m = uid \<and> mb_scope_type m = st \<and> mb_scope_id m = sid)"

definition repo_grant :: "int \<Rightarrow> scope_type \<Rightarrow> int \<Rightarrow> role \<Rightarrow> auth_db \<Rightarrow> auth_db" where
  "repo_grant uid st sid r d =
     (if list_ex (is_membership uid st sid) (memberships d)
      then d\<lparr>memberships := map (\<lambda>m. if is_membership uid st sid m then m\<lparr>mb_role := r\<rparr> else m) (memberships d)\<rparr>
      else d\<lparr>memberships := memberships d @ [\<lparr>mb_user_id = uid, mb_scope_type = st, mb_scope_id = sid, mb_role = r\<rparr>]\<rparr>)"

definition repo_revoke :: "int \<Rightarrow> scope_type \<Rightarrow> int \<Rightarrow> auth_db \<Rightarrow> bool \<times> auth_db" where
  "repo_revoke uid st sid d =
     (if list_ex (is_membership uid st sid) (memberships d)
      then (True, d\<lparr>memberships := filter (\<lambda>m. \<not> is_membership uid st sid m) (memberships d)\<rparr>)
      else (False, d))"

definition member_audit :: "principal \<Rightarrow> audit_action \<Rightarrow> int \<Rightarrow> scope_type \<Rightarrow> int \<Rightarrow> role option \<Rightarrow> audit_request" where
  "member_audit p action uid st sid r = \<lparr>ar_actor_kind = actor_kind p, ar_actor_id = Some (actor_id p),
     ar_action = audit_action_value action, ar_target_type = Some ''user'', ar_target_id = Some uid,
     ar_metadata = [(''scope_type'', JStr (scope_type_value st)), (''scope_id'', JInt sid)] @
       (case r of None \<Rightarrow> [] | Some x \<Rightarrow> [(''role'', JStr (role_value x))]),
     ar_ip = None, ar_user_agent = None, ar_org_id = None\<rparr>"

definition grant :: "auth_env \<Rightarrow> time \<Rightarrow> principal \<Rightarrow> int \<Rightarrow> scope_type \<Rightarrow> int \<Rightarrow> role \<Rightarrow> auth_db \<Rightarrow> auth_db result" where
  "grant env now p uid st sid r d =
     (let target = \<lparr>ref_type = st, ref_id = sid\<rparr>;
          allowed = (if r = OWNER then can_own p target else can_admin p target)
      in if \<not> allowed
         then Inl (AccessDeniedError (''not authorized to grant '' @ role_value r @ '' on '' @ show_scope_ref target))
         else auth_audit_append env now (Some p) (member_audit p MEMBER_GRANTED uid st sid (Some r)) (repo_grant uid st sid r d))"

definition revoke_membership :: "auth_env \<Rightarrow> time \<Rightarrow> principal \<Rightarrow> int \<Rightarrow> scope_type \<Rightarrow> int \<Rightarrow> auth_db \<Rightarrow> (bool \<times> auth_db) result" where
  "revoke_membership env now p uid st sid d =
     (let target = \<lparr>ref_type = st, ref_id = sid\<rparr>
      in if \<not> can_admin p target
         then Inl (AccessDeniedError (''not authorized to revoke on '' @ show_scope_ref target))
         else case repo_revoke uid st sid d of
                (False, d1) \<Rightarrow> Inr (False, d1)
              | (True, d1) \<Rightarrow> rbind (auth_audit_append env now (Some p) (member_audit p MEMBER_REVOKED uid st sid None) d1)
                               (\<lambda>d2. Inr (True, d2)))"

definition create_with_password ::
    "auth_env \<Rightarrow> principal \<Rightarrow> string \<Rightarrow> string \<Rightarrow> string \<Rightarrow> string \<Rightarrow> bool \<Rightarrow> auth_db \<Rightarrow> (user_row \<times> auth_db) result" where
  "create_with_password env p pid email password display_name superuser d =
     (if \<not> is_admin_anywhere p then Inl (AccessDeniedError ''not authorized to create users'')
      else create_user pid email (Some (ae_hash env password)) display_name superuser d)"

definition invite_member ::
    "auth_env \<Rightarrow> time \<Rightarrow> principal \<Rightarrow> string \<Rightarrow> string \<Rightarrow> string \<Rightarrow> role \<Rightarrow> auth_db \<Rightarrow> (user_row \<times> auth_db) result" where
  "invite_member env now p pid temp_password email r d =
     rbind (case user_by_email email d of
              Some u \<Rightarrow> Inr (u, d)
            | None \<Rightarrow> create_with_password env p pid email temp_password [] False d)
       (\<lambda>(u, d1). rbind (grant env now p (us_id u) ORG (p_org_id p) r d1) (\<lambda>d2. Inr (u, d2)))"

subsection \<open>Tokens\<close>

definition encode_jwt :: "auth_env \<Rightarrow> time \<Rightarrow> string \<Rightarrow> claims \<Rightarrow> int option \<Rightarrow> string \<Rightarrow> string" where
  "encode_jwt env now subject extra ttl_seconds token_type =
     (let ttl = (case ttl_seconds of Some n \<Rightarrow> if n = 0 then jwt_access_ttl_seconds (ae_settings env) else n
                 | None \<Rightarrow> jwt_access_ttl_seconds (ae_settings env))
      in ae_jwt_encode env (dict_merge
           [(''sub'', JStr subject), (''iat'', JInt (now div 1000000)), (''exp'', JInt ((now + seconds ttl) div 1000000)),
            (''type'', JStr token_type)] extra))"

text \<open>The \<open>repr\<close> of a claim in an error text; of values no token of this service carries only the kind is kept.\<close>

definition claim_repr :: "json option \<Rightarrow> string" where
  "claim_repr v = (case v of
      None \<Rightarrow> ''None'' | Some JNull \<Rightarrow> ''None'' | Some (JStr s) \<Rightarrow> py_repr_str s | Some (JInt i) \<Rightarrow> show_int i
    | Some (JBool b) \<Rightarrow> (if b then ''True'' else ''False'') | Some (JFloat x) \<Rightarrow> ''float'' | Some (JList xs) \<Rightarrow> ''list''
    | Some (JObj kvs) \<Rightarrow> ''dict'')"

definition decode_jwt :: "auth_env \<Rightarrow> time \<Rightarrow> string \<Rightarrow> string option \<Rightarrow> claims result" where
  "decode_jwt env now token expected_type =
     rbind (ae_jwt_decode env now token) (\<lambda>payload.
       case expected_type of
         None \<Rightarrow> Inr payload
       | Some t \<Rightarrow> if dict_get payload ''type'' \<noteq> Some (JStr t) 
                   then Inl (JwtError (''expected '' @ py_repr_str t @ '' token, got '' @ claim_repr (dict_get payload ''type'')))
                   else Inr payload)"

definition claim_str :: "claims \<Rightarrow> string \<Rightarrow> string" where
  "claim_str payload k = (case dict_get payload k of Some (JStr s) \<Rightarrow> s | _ \<Rightarrow> [])"

text \<open>The denylist: a key set with \<open>ex\<close> is gone once that many seconds have passed.\<close>

definition revoke_jti :: "auth_env \<Rightarrow> time \<Rightarrow> string \<Rightarrow> int \<Rightarrow> auth_db \<Rightarrow> auth_db" where
  "revoke_jti env now jti ttl_seconds d =
     (if \<not> ae_redis env \<or> jti = [] then d
      else d\<lparr>denylist := AList.update jti (now + seconds (max 1 ttl_seconds)) (denylist d)\<rparr>)"

definition is_revoked :: "auth_env \<Rightarrow> time \<Rightarrow> string \<Rightarrow> auth_db \<Rightarrow> bool" where
  "is_revoked env now jti d =
     (ae_redis env \<and> jti \<noteq> [] \<and> (case map_of (denylist d) jti of None \<Rightarrow> False | Some t \<Rightarrow> now < t))"

record login_result =
  lo_user_id :: int
  lo_user_public_id :: string
  lo_access_token :: string
  lo_refresh_token :: string
  lo_expires_in :: int

definition issue_tokens :: "auth_env \<Rightarrow> time \<Rightarrow> string \<Rightarrow> string \<Rightarrow> int \<Rightarrow> string \<Rightarrow> login_result" where
  "issue_tokens env now jti1 jti2 uid pid =
     (let s = ae_settings env
      in \<lparr>lo_user_id = uid, lo_user_public_id = pid,
          lo_access_token = encode_jwt env now (show_int uid) [(''jti'', JStr jti1)] (Some (jwt_access_ttl_seconds s)) ''access'',
          lo_refresh_token = encode_jwt env now (show_int uid) [(''jti'', JStr jti2)] (Some (jwt_refresh_ttl_seconds s)) ''refresh'',
          lo_expires_in = jwt_access_ttl_seconds s\<rparr>)"

definition org_for_user :: "int \<Rightarrow> auth_db \<Rightarrow> int option" where
  "org_for_user uid d = map_option mb_scope_id (find (\<lambda>m. mb_scope_type m = ORG) (list_for_user uid d))"

definition audit_auth :: "auth_env \<Rightarrow> time \<Rightarrow> int \<Rightarrow> audit_action \<Rightarrow> auth_db \<Rightarrow> auth_db result" where
  "audit_auth env now uid action d =
     (case org_for_user uid d of
        None \<Rightarrow> Inr d
      | Some org \<Rightarrow> auth_audit_append env now None
          \<lparr>ar_actor_kind = USER, ar_actor_id = Some uid, ar_action = audit_action_value action,
           ar_target_type = Some ''user'', ar_target_id = Some uid, ar_metadata = [],
           ar_ip = None, ar_user_agent = None, ar_org_id = Some org\<rparr> d)"

text \<open>An operation that may raise after it has written: its outcome and the session's state.\<close>

definition login_with_password ::
    "auth_env \<Rightarrow> time \<Rightarrow> string \<Rightarrow> string \<Rightarrow> string \<Rightarrow> string \<Rightarrow> auth_db \<Rightarrow> login_result result \<times> auth_db" where
  "login_with_password env now jti1 jti2 email password d =
     (case user_by_email email d of
        None \<Rightarrow> (Inl (AuthError ''invalid credentials''), d)
      | Some u \<Rightarrow>
          (case us_password_hash u of
             None \<Rightarrow> (Inl (AuthError ''invalid credentials''), d)
           | Some h \<Rightarrow>
               if \<not> ae_verify env h password
               then (case audit_auth env now (us_id u) LOGIN_FAILED d of
                       Inl e \<Rightarrow> (Inl e, d)
                     | Inr d1 \<Rightarrow> (Inl (AuthError ''invalid credentials''), d1))
               else (case audit_auth env now (us_id u) LOGIN (touch_login now (us_id u) d) of
                       Inl e \<Rightarrow> (Inl e, touch_login now (us_id u) d)
                     | Inr d1 \<Rightarrow> (Inr (issue_tokens env now jti1 jti2 (us_id u) (us_public_id u)), d1))))"

definition revoke_payload :: "auth_env \<Rightarrow> time \<Rightarrow> claims \<Rightarrow> auth_db \<Rightarrow> auth_db" where
  "revoke_payload env now payload d =
     (let ttl = (case dict_get payload ''exp'' of
           Some (JInt e) \<Rightarrow> max 1 ((seconds e - now) div 1000000)
         | Some (JFloat x) \<Rightarrow> max 1 \<lfloor>x - real_of_int now / 1000000\<rfloor>
         | _ \<Rightarrow> jwt_refresh_ttl_seconds (ae_settings env))
      in revoke_jti env now (claim_str payload ''jti'') ttl d)"

text \<open>\<open>int(sub)\<close> where \<open>sub\<close> is present and not empty.\<close>

definition subject_id :: "claims \<Rightarrow> int result" where
  "subject_id payload =
     (case dict_get payload ''sub'' of
        None \<Rightarrow> Inl (AuthError ''token missing subject'')
      | Some v \<Rightarrow>
          if v \<in> {JNull, JStr [], JInt 0, JBool False, JFloat 0, JList [], JObj []} then Inl (AuthError ''token missing subject'')
          else (case py_int v of None \<Rightarrow> Inl (AuthError ''token subject not an integer'') | Some i \<Rightarrow> Inr i))"

definition auth_error :: "string \<Rightarrow> 'a result \<Rightarrow> 'a result" where
  "auth_error msg r = (case r of Inl (JwtError e) \<Rightarrow> Inl (AuthError (msg @ e)) | _ \<Rightarrow> r)"

definition refresh ::
    "auth_env \<Rightarrow> time \<Rightarrow> string \<Rightarrow> string \<Rightarrow> string \<Rightarrow> auth_db \<Rightarrow> (login_result \<times> auth_db) result" where
  "refresh env now jti1 jti2 token d =
     rbind (auth_error ''invalid refresh token: '' (decode_jwt env now token (Some ''refresh''))) (\<lambda>payload.
       if is_revoked env now (claim_str payload ''jti'') d then Inl (AuthError ''refresh token has been revoked'')
       else rbind (subject_id payload) (\<lambda>uid.
         case user_by_id uid d of
           None \<Rightarrow> Inl (AuthError ''user not found'')
         | Some u \<Rightarrow> Inr (issue_tokens env now jti1 jti2 (us_id u) (us_public_id u), revoke_payload env now payload d)))"

definition revoke_refresh :: "auth_env \<Rightarrow> time \<Rightarrow> string \<Rightarrow> auth_db \<Rightarrow> auth_db result" where
  "revoke_refresh env now token d =
     (case decode_jwt env now token (Some ''refresh'') of
        Inl (JwtError _) \<Rightarrow> Inr d
      | Inl e \<Rightarrow> Inl e
      | Inr payload \<Rightarrow> Inr (revoke_payload env now payload d))"

subsection \<open>Principals\<close>

definition roles_of :: "membership list \<Rightarrow> (scope_ref \<times> role) list" where
  "roles_of ms = fold (\<lambda>m rs. AList.update \<lparr>ref_type = mb_scope_type m, ref_id = mb_scope_id m\<rparr> (mb_role m) rs) ms []"

definition principal_from_jwt :: "auth_env \<Rightarrow> time \<Rightarrow> string \<Rightarrow> auth_db \<Rightarrow> principal result" where
  "principal_from_jwt env now token d =
     rbind (auth_error ''invalid token: '' (decode_jwt env now token (Some ''access''))) (\<lambda>payload.
       rbind (subject_id payload) (\<lambda>uid.
         case user_by_id uid d of
           None \<Rightarrow> Inl (AuthError ''user not found'')
         | Some u \<Rightarrow>
             let rs = roles_of (list_for_user (us_id u) d)
             in Inr \<lparr>actor_id = us_id u, actor_kind = USER,
                     p_org_id = (case find (\<lambda>(sc, _). ref_type sc = ORG) rs of None \<Rightarrow> 0 | Some (sc, _) \<Rightarrow> ref_id sc),
                     p_scope = None, roles = rs, key_scopes = {}, max_sensitivity = max_sensitivity_of (map snd rs),
                     is_superuser = us_is_superuser u\<rparr>))"

definition principal_from_api_key :: "auth_env \<Rightarrow> time \<Rightarrow> string \<Rightarrow> auth_db \<Rightarrow> (principal \<times> auth_db) result" where
  "principal_from_api_key env now plaintext d =
     (case parse_api_key (ae_settings env) plaintext of
        None \<Rightarrow> Inl (AuthError ''malformed api key'')
      | Some (pre, secret) \<Rightarrow>
          rbind (get_active_by_prefix now pre (api_keys d)) (\<lambda>found.
            case found of
              None \<Rightarrow> Inl (AuthError ''invalid api key'')
            | Some k \<Rightarrow>
                if \<not> ae_verify env (ak_key_hash k) secret then Inl (AuthError ''invalid api key'')
                else
                  let rs = (case (ak_scope_type k, ak_scope_id k) of
                        (Some st, Some sid) \<Rightarrow> if sid = 0 then [] else [(\<lparr>ref_type = st, ref_id = sid\<rparr>, MEMBER)]
                      | _ \<Rightarrow> [])
                  in Inr (\<lparr>actor_id = ak_id k, actor_kind = API_KEY, p_org_id = ak_org_id k,
                          p_scope = (case rs of [] \<Rightarrow> None | (sc, _) # _ \<Rightarrow> Some sc), roles = rs,
                          key_scopes = set (ak_scopes k), max_sensitivity = max_sensitivity_of (map snd rs),
                          is_superuser = False\<rparr>, touch_used now k d)))"

subsection \<open>Account self-service\<close>

definition RESET_TTL :: int where
  "RESET_TTL = 1800"

definition VERIFY_TTL :: int where
  "VERIFY_TTL = 86400"

definition INVITE_TTL :: int where
  "INVITE_TTL = 604800"

text \<open>The mail a flow sends: the address and the token in its link.\<close>

definition request_password_reset :: "auth_env \<Rightarrow> time \<Rightarrow> string \<Rightarrow> auth_db \<Rightarrow> (string \<times> string) list" where
  "request_password_reset env now email d =
     (case user_by_email email d of
        None \<Rightarrow> []
      | Some u \<Rightarrow> if us_password_hash u = None then []
                  else [(us_email u, encode_jwt env now (show_int (us_id u)) [] (Some RESET_TTL) ''reset'')])"

definition send_invite :: "auth_env \<Rightarrow> time \<Rightarrow> string \<Rightarrow> auth_db \<Rightarrow> (string \<times> string) list" where
  "send_invite env now email d =
     (case user_by_email email d of
        None \<Rightarrow> [] | Some u \<Rightarrow> [(email, encode_jwt env now (show_int (us_id u)) [] (Some INVITE_TTL) ''reset'')])"

definition send_verification :: "auth_env \<Rightarrow> time \<Rightarrow> int \<Rightarrow> string \<Rightarrow> (string \<times> string) list" where
  "send_verification env now uid email = [(email, encode_jwt env now (show_int uid) [] (Some VERIFY_TTL) ''verify'')]"

definition resend_verification :: "auth_env \<Rightarrow> time \<Rightarrow> string \<Rightarrow> auth_db \<Rightarrow> (string \<times> string) list" where
  "resend_verification env now email d =
     (case user_by_email email d of
        None \<Rightarrow> [] | Some u \<Rightarrow> if us_email_verified u then [] else send_verification env now (us_id u) (us_email u))"

definition account_subject :: "auth_env \<Rightarrow> time \<Rightarrow> string \<Rightarrow> string \<Rightarrow> int result" where
  "account_subject env now token expected_type =
     (case decode_jwt env now token (Some expected_type) of
        Inl (JwtError e) \<Rightarrow> Inl (AccountError (''invalid or expired token: '' @ e))
      | Inl e \<Rightarrow> Inl e
      | Inr payload \<Rightarrow>
          (case subject_id payload of
             Inr i \<Rightarrow> Inr i
           | Inl e \<Rightarrow> if e = AuthError ''token missing subject'' then Inr 0 else Inl (AccountError ''malformed token subject'')))"

definition confirm_password_reset :: "auth_env \<Rightarrow> time \<Rightarrow> string \<Rightarrow> string \<Rightarrow> auth_db \<Rightarrow> auth_db result" where
  "confirm_password_reset env now token new_password d =
     rbind (account_subject env now token ''reset'') (\<lambda>uid. Inr (set_password uid (ae_hash env new_password) d))"

definition confirm_verification :: "auth_env \<Rightarrow> time \<Rightarrow> string \<Rightarrow> auth_db \<Rightarrow> auth_db result" where
  "confirm_verification env now token d =
     rbind (account_subject env now token ''verify'') (\<lambda>uid. Inr (set_email_verified uid True d))"

subsection \<open>The API's side\<close>

text \<open>Header resolution: an API key wins over a bearer token; an empty key header counts as none.\<close>

definition bearer :: "string option \<Rightarrow> string \<Rightarrow> string option" where
  "bearer authorization start =
     (case authorization of
        Some a \<Rightarrow> if a \<noteq> [] \<and> startswith (py_lower a) start then Some (last (split_max 1 CHR '' '' a)) else None
      | None \<Rightarrow> None)"

definition authenticated_principal ::
    "auth_env \<Rightarrow> time \<Rightarrow> string option \<Rightarrow> string option \<Rightarrow> auth_db \<Rightarrow> (principal \<times> auth_db) result" where
  "authenticated_principal env now authorization x_api_key d =
     (let key = (case x_api_key of Some k \<Rightarrow> Some k | None \<Rightarrow> bearer authorization ''bearer kx_'')
      in case truthy_str key of
           Some k \<Rightarrow> principal_from_api_key env now k d
         | None \<Rightarrow>
             (case bearer authorization ''bearer '' of
                Some token \<Rightarrow> rbind (principal_from_jwt env now token d) (\<lambda>p. Inr (p, d))
              | None \<Rightarrow> Inl (AuthError ''missing Authorization or X-API-Key header'')))"

text \<open>The login endpoint: what it commits.  A failed login raises, and the session is rolled back.\<close>

definition api_login :: "auth_env \<Rightarrow> time \<Rightarrow> string \<Rightarrow> string \<Rightarrow> string \<Rightarrow> string \<Rightarrow> auth_db \<Rightarrow> login_result result \<times> auth_db" where
  "api_login env now jti1 jti2 email password d =
     (case login_with_password env now jti1 jti2 email password d of
        (Inl e, _) \<Rightarrow> (Inl e, d)
      | (Inr r, d1) \<Rightarrow> (Inr r, d1))"

section \<open>The service as a step relation\<close>

text \<open>
  One step is one request, at an instant not before the previous one, in any order and with any
  arguments; the random values are whatever was drawn.
\<close>

inductive auth_step :: "auth_env \<Rightarrow> time \<times> auth_db \<Rightarrow> time \<times> auth_db \<Rightarrow> bool" for env where
  step_wait: "t \<le> t' \<Longrightarrow> auth_step env (t, d) (t', d)"
| step_login: "t \<le> t' \<Longrightarrow> auth_step env (t, d) (t', snd (login_with_password env t' j1 j2 email password d))"
| step_refresh: "t \<le> t' \<Longrightarrow> refresh env t' j1 j2 token d = Inr (r, d') \<Longrightarrow> auth_step env (t, d) (t', d')"
| step_logout: "t \<le> t' \<Longrightarrow> revoke_refresh env t' token d = Inr d' \<Longrightarrow> auth_step env (t, d) (t', d')"
| step_key: "t \<le> t' \<Longrightarrow> principal_from_api_key env t' plaintext d = Inr (p, d') \<Longrightarrow> auth_step env (t, d) (t', d')"
| step_mint: "t \<le> t' \<Longrightarrow> mint env t' p pid pre secret rq d = Inr (plain, k, d') \<Longrightarrow> auth_step env (t, d) (t', d')"
| step_revoke_key: "t \<le> t' \<Longrightarrow> revoke_key env t' p pid d = Inr (k, d') \<Longrightarrow> auth_step env (t, d) (t', d')"
| step_grant: "t \<le> t' \<Longrightarrow> grant env t' p uid st sid r d = Inr d' \<Longrightarrow> auth_step env (t, d) (t', d')"
| step_revoke: "t \<le> t' \<Longrightarrow> revoke_membership env t' p uid st sid d = Inr (b, d') \<Longrightarrow> auth_step env (t, d) (t', d')"
| step_create: "t \<le> t' \<Longrightarrow> create_with_password env p pid email password nm su d = Inr (u, d') \<Longrightarrow> auth_step env (t, d) (t', d')"
| step_invite: "t \<le> t' \<Longrightarrow> invite_member env t' p pid pw email r d = Inr (u, d') \<Longrightarrow> auth_step env (t, d) (t', d')"
| step_reset: "t \<le> t' \<Longrightarrow> confirm_password_reset env t' token pw d = Inr d' \<Longrightarrow> auth_step env (t, d) (t', d')"
| step_verify: "t \<le> t' \<Longrightarrow> confirm_verification env t' token d = Inr d' \<Longrightarrow> auth_step env (t, d) (t', d')"

abbreviation auth_reach :: "auth_env \<Rightarrow> time \<times> auth_db \<Rightarrow> time \<times> auth_db \<Rightarrow> bool" where
  "auth_reach env \<equiv> (auth_step env)\<^sup>*\<^sup>*"

text \<open>What is assumed of the libraries: PyJWT returns what was signed and only before it expires; Argon2
  accepts exactly the hashed secret; a token identifier names one expiry.\<close>

definition jwt_faithful :: "auth_env \<Rightarrow> bool" where
  "jwt_faithful env = (\<forall>c t payload. ae_jwt_decode env t (ae_jwt_encode env c) = Inr payload \<longrightarrow>
     payload = c \<and> (\<forall>e. dict_get c ''exp'' = Some (JInt e) \<longrightarrow> t < seconds e))"

definition argon2_exact :: "auth_env \<Rightarrow> bool" where
  "argon2_exact env = (\<forall>s s'. ae_verify env (ae_hash env s) s' = (s' = s))"

definition jti_expiry :: "auth_env \<Rightarrow> string \<Rightarrow> int \<Rightarrow> bool" where
  "jti_expiry env jti e = (\<forall>t token payload. ae_jwt_decode env t token = Inr payload \<and> claim_str payload ''jti'' = jti \<longrightarrow>
     dict_get payload ''exp'' = Some (JInt e))"

definition role_on :: "auth_db \<Rightarrow> int \<Rightarrow> scope_type \<Rightarrow> int \<Rightarrow> role option" where
  "role_on d uid st sid = map_option mb_role (find (is_membership uid st sid) (memberships d))"

section \<open>What each operation leaves alone\<close>

lemma auth_audit_append_frame:
  assumes "auth_audit_append env now p req d = Inr d'"
  shows "users d' = users d" "memberships d' = memberships d" "api_keys d' = api_keys d" "denylist d' = denylist d"
    "\<exists>e. auth_audit d' = auth_audit d @ [e] \<and> a_action e = ar_action req \<and> a_actor_id e = ar_actor_id req \<and>
       a_target_id e = ar_target_id req \<and> a_created_at e = now"
proof -
  obtain e rows where app: "audit_append (ae_audit_hash env) p (ae_origin env) now req (auth_audit d) = Inr (e, rows)"
    and d': "d' = d\<lparr>auth_audit := rows\<rparr>"
    using assms by (auto simp: auth_audit_append_def rbind_def split: sum.splits)
  show "users d' = users d" "memberships d' = memberships d" "api_keys d' = api_keys d" "denylist d' = denylist d"
    by (simp_all add: d')
  have "rows = auth_audit d @ [e]" "a_action e = ar_action req" "a_actor_id e = ar_actor_id req"
    "a_target_id e = ar_target_id req" "a_created_at e = now"
    using app by (auto simp: audit_append_def Let_def split: option.splits if_splits)
  then show "\<exists>e. auth_audit d' = auth_audit d @ [e] \<and> a_action e = ar_action req \<and> a_actor_id e = ar_actor_id req \<and>
       a_target_id e = ar_target_id req \<and> a_created_at e = now"
    by (auto simp: d')
qed

lemma revoke_payload_frame [simp]:
  "api_keys (revoke_payload env now payload d) = api_keys d"
  "next_key_id (revoke_payload env now payload d) = next_key_id d"
  by (simp_all add: revoke_payload_def revoke_jti_def Let_def)

lemma refresh_effect:
  assumes "refresh env now j1 j2 token d = Inr (r, d')"
  shows "\<exists>payload. ae_jwt_decode env now token = Inr payload \<and> dict_get payload ''type'' = Some (JStr ''refresh'') \<and>
    \<not> is_revoked env now (claim_str payload ''jti'') d \<and> d' = revoke_payload env now payload d"
  using assms
  by (auto simp: refresh_def rbind_def auth_error_def decode_jwt_def split: sum.splits option.splits if_splits py_error.splits)

lemma revoke_refresh_effect:
  assumes "revoke_refresh env now token d = Inr d'"
  shows "d' = d \<or> (\<exists>payload. ae_jwt_decode env now token = Inr payload \<and> d' = revoke_payload env now payload d)"
  using assms
  by (auto simp: revoke_refresh_def decode_jwt_def rbind_def split: sum.splits if_splits py_error.splits)

lemma principal_from_api_key_cases:
  assumes "principal_from_api_key env now plaintext d = Inr (p, d')"
  obtains pre secret k where "parse_api_key (ae_settings env) plaintext = Some (pre, secret)"
    and "filter (\<lambda>k. ak_prefix k = pre \<and> key_active now k) (api_keys d) = [k]"
    and "ae_verify env (ak_key_hash k) secret" and "d' = touch_used now k d"
    and "actor_id p = ak_id k" "actor_kind p = API_KEY" "p_org_id p = ak_org_id k" "key_scopes p = set (ak_scopes k)"
    and "\<not> is_superuser p" "max_sensitivity p = max_sensitivity_of (map snd (roles p))"
    and "roles p = (case (ak_scope_type k, ak_scope_id k) of
        (Some st, Some sid) \<Rightarrow> if sid = 0 then [] else [(\<lparr>ref_type = st, ref_id = sid\<rparr>, MEMBER)] | _ \<Rightarrow> [])"
proof -
  obtain pre secret where parse: "parse_api_key (ae_settings env) plaintext = Some (pre, secret)"
    using assms by (auto simp: principal_from_api_key_def split: option.splits)
  let ?rows = "filter (\<lambda>k. ak_prefix k = pre \<and> key_active now k) (api_keys d)"
  obtain k where rows: "?rows = [k]"
    using assms parse
    by (auto simp: principal_from_api_key_def rbind_def get_active_by_prefix_def one_or_none_def split: sum.splits list.splits)
  then have get: "get_active_by_prefix now pre (api_keys d) = Inr (Some k)"
    by (simp add: get_active_by_prefix_def one_or_none_def)
  show thesis
    by (rule that [OF parse rows]) (use assms parse get in
      \<open>auto simp: principal_from_api_key_def rbind_def Let_def split: if_splits\<close>)
qed

definition credentials_kept :: "auth_db \<Rightarrow> auth_db \<Rightarrow> bool" where
  "credentials_kept d d' = (api_keys d' = api_keys d \<and> next_key_id d' = next_key_id d \<and> denylist d' = denylist d)"

lemma credentials_kept_refl [simp]: "credentials_kept d d"
  by (simp add: credentials_kept_def)

lemma credentials_kept_trans: "credentials_kept d d1 \<Longrightarrow> credentials_kept d1 d2 \<Longrightarrow> credentials_kept d d2"
  by (simp add: credentials_kept_def)

lemma credentials_kept_audit: "auth_audit_append env now p req d = Inr d' \<Longrightarrow> credentials_kept d d'"
  by (auto simp: auth_audit_append_def credentials_kept_def rbind_def split: sum.splits)

lemma credentials_kept_update_user: "credentials_kept d (update_user uid f d)"
  by (simp add: credentials_kept_def update_user_def)

lemma credentials_kept_audit_auth: "audit_auth env now uid action d = Inr d' \<Longrightarrow> credentials_kept d d'"
  by (auto simp: audit_auth_def credentials_kept_audit split: option.splits)

lemma credentials_kept_login: "credentials_kept d (snd (login_with_password env now j1 j2 email password d))"
  by (auto simp: login_with_password_def touch_login_def credentials_kept_update_user
      intro: credentials_kept_trans credentials_kept_update_user credentials_kept_audit_auth
      split: option.splits sum.splits)

lemma credentials_kept_grant: "grant env now p uid st sid r d = Inr d' \<Longrightarrow> credentials_kept d d'"
  by (auto simp: grant_def Let_def repo_grant_def credentials_kept_def dest!: credentials_kept_audit split: if_splits)

lemma credentials_kept_revoke: "revoke_membership env now p uid st sid d = Inr (b, d') \<Longrightarrow> credentials_kept d d'"
  by (auto simp: revoke_membership_def Let_def repo_revoke_def rbind_def credentials_kept_def dest!: credentials_kept_audit
      split: if_splits sum.splits)

lemma credentials_kept_create: "create_with_password env p pid email pw nm su d = Inr (u, d') \<Longrightarrow> credentials_kept d d'"
  by (auto simp: create_with_password_def create_user_def Let_def credentials_kept_def split: if_splits)

lemma credentials_kept_invite:
  assumes "invite_member env now p pid pw email r d = Inr (u, d')"
  shows "credentials_kept d d'"
proof -
  have "\<exists>d1. credentials_kept d d1 \<and> grant env now p (us_id u) ORG (p_org_id p) r d1 = Inr d'"
  proof (cases "user_by_email email d")
    case None
    then show ?thesis
      using assms by (auto simp: invite_member_def rbind_def split: sum.splits dest: credentials_kept_create)
  next
    case (Some v)
    then show ?thesis
      using assms by (auto simp: invite_member_def rbind_def split: sum.splits intro!: exI [of _ d])
  qed
  then show ?thesis
    by (blast intro: credentials_kept_trans credentials_kept_grant)
qed

lemma credentials_kept_account:
  "confirm_password_reset env now token pw d = Inr d' \<Longrightarrow> credentials_kept d d'"
  "confirm_verification env now token d = Inr d' \<Longrightarrow> credentials_kept d d'"
  by (auto simp: confirm_password_reset_def confirm_verification_def set_password_def set_email_verified_def rbind_def
      credentials_kept_update_user split: sum.splits)

lemma touch_used_frame: "denylist (touch_used now k d) = denylist d" "next_key_id (touch_used now k d) = next_key_id d"
  by (simp_all add: touch_used_def save_key_def)

lemma mint_effect:
  assumes "mint env now p pid pre secret rq d = Inr (plain, k, d')"
  shows "api_keys d' = api_keys d @ [k]" "next_key_id d' = next_key_id d + 1" "denylist d' = denylist d"
    "ak_id k = next_key_id d" "plain = KEY_PREFIX @ ''_'' @ pre @ ''_'' @ secret" "ak_prefix k = pre"
    "ak_key_hash k = ae_hash env secret" "ak_org_id k = p_org_id p" "ak_scopes k = mr_scopes rq"
    "ak_scope_type k = mr_scope_type rq" "ak_scope_id k = mr_scope_id rq" "ak_revoked_at k = None"
    "ak_expires_at k = (case mr_expires_in_days rq of
        None \<Rightarrow> None | Some n \<Rightarrow> if n = 0 then None else Some (now + seconds (n * 86400)))"
  using assms
  by (auto simp: mint_def Let_def rbind_def generate_api_key_def repo_create_key_def credentials_kept_def
      dest!: credentials_kept_audit split: if_splits sum.splits)

lemma revoke_key_effect:
  assumes "revoke_key env now p pid d = Inr (ko, d')"
  shows "next_key_id d' = next_key_id d" "denylist d' = denylist d"
    "api_keys d' = api_keys d \<and> (\<forall>k. ko = Some k \<longrightarrow> k \<in> set (api_keys d) \<and> ak_revoked_at k \<noteq> None) \<or>
     (\<exists>k0 \<in> set (api_keys d). ko = Some (k0\<lparr>ak_revoked_at := Some now\<rparr>) \<and>
        api_keys d' = map (\<lambda>x. if ak_id x = ak_id k0 then x\<lparr>ak_revoked_at := Some now\<rparr> else x) (api_keys d))"
proof -
  have found: "k \<in> set (api_keys d)" if "key_by_public_id pid p (api_keys d) = Some k" for k
    using first_row_in [OF that [unfolded key_by_public_id_def]] by (auto simp: tenant_rows_def split: if_splits)
  show "next_key_id d' = next_key_id d" "denylist d' = denylist d"
    "api_keys d' = api_keys d \<and> (\<forall>k. ko = Some k \<longrightarrow> k \<in> set (api_keys d) \<and> ak_revoked_at k \<noteq> None) \<or>
     (\<exists>k0 \<in> set (api_keys d). ko = Some (k0\<lparr>ak_revoked_at := Some now\<rparr>) \<and>
        api_keys d' = map (\<lambda>x. if ak_id x = ak_id k0 then x\<lparr>ak_revoked_at := Some now\<rparr> else x) (api_keys d))"
    using assms found
    by (auto simp: revoke_key_def repo_revoke_key_def save_key_def rbind_def credentials_kept_def
        dest!: credentials_kept_audit split: option.splits if_splits sum.splits)
qed

section \<open>Invariants of the reachable states\<close>

definition burned :: "string \<Rightarrow> int \<Rightarrow> auth_db \<Rightarrow> bool" where
  "burned jti e d = (\<exists>te. map_of (denylist d) jti = Some te \<and> seconds e - seconds 1 < te)"

lemma revoke_payload_burns:
  assumes "ae_redis env" and "jti \<noteq> []" and "claim_str payload ''jti'' = jti"
    and "dict_get payload ''exp'' = Some (JInt e)"
  shows "burned jti e (revoke_payload env now payload d)"
proof -
  let ?n = "max 1 ((seconds e - now) div 1000000)"
  have "seconds e - now < seconds ((seconds e - now) div 1000000) + seconds 1"
    using div_mod_decomp_int [of "seconds e - now" 1000000] pos_mod_bound [of 1000000 "seconds e - now"] by simp
  then have "seconds e - seconds 1 < now + seconds ?n" by (auto simp: max_def)
  then show ?thesis
    using assms by (simp add: burned_def revoke_payload_def revoke_jti_def Let_def update_Some_unfold)
qed

lemma revoke_payload_keeps_burned:
  assumes "burned jti e d" and "jti_expiry env jti e" and "ae_redis env" and "jti \<noteq> []"
    and "ae_jwt_decode env now token = Inr payload"
  shows "burned jti e (revoke_payload env now payload d)"
proof (cases "claim_str payload ''jti'' = jti")
  case True
  then have "dict_get payload ''exp'' = Some (JInt e)"
    using assms(2,5) by (auto simp: jti_expiry_def)
  with True assms(3,4) show ?thesis by (intro revoke_payload_burns) auto
next
  case False
  then show ?thesis
    using assms(1) by (auto simp: burned_def revoke_payload_def revoke_jti_def Let_def update_conv')
qed

lemma burned_kept: "credentials_kept d d' \<Longrightarrow> burned jti e d \<Longrightarrow> burned jti e d'"
  by (simp add: credentials_kept_def burned_def)

lemma step_burned:
  assumes "auth_step env s s'" and "jti_expiry env jti e" and "ae_redis env" and "jti \<noteq> []"
    and "burned jti e (snd s)"
  shows "burned jti e (snd s')"
  using assms
proof (induction rule: auth_step.induct)
  case (step_refresh t t' j1 j2 token d r d')
  then show ?case by (auto dest!: refresh_effect intro: revoke_payload_keeps_burned)
next
  case (step_logout t t' token d d')
  then show ?case by (auto dest!: revoke_refresh_effect intro: revoke_payload_keeps_burned)
next
  case (step_key t t' plaintext d p d')
  then have "denylist d' = denylist d"
    by (auto elim!: principal_from_api_key_cases simp: touch_used_frame)
  with step_key show ?case by (simp add: burned_def)
next
  case (step_mint t t' p pid pre secret rq d plain k d')
  then show ?case by (simp add: burned_def mint_effect)
next
  case (step_revoke_key t t' p pid d k d')
  then show ?case by (simp add: burned_def revoke_key_effect)
qed (auto intro: burned_kept credentials_kept_login credentials_kept_grant credentials_kept_revoke
    credentials_kept_create credentials_kept_invite credentials_kept_account)

lemma reach_burned:
  assumes "auth_reach env s s'" and "jti_expiry env jti e" and "ae_redis env" and "jti \<noteq> []"
    and "burned jti e (snd s)"
  shows "burned jti e (snd s')"
  using assms by (induction rule: rtranclp_induct) (auto intro: step_burned)

text \<open>Key ids are given out in order; a revoked key keeps its mark.\<close>

definition key_ids_ok :: "auth_db \<Rightarrow> bool" where
  "key_ids_ok d = (distinct (map ak_id (api_keys d)) \<and> (\<forall>k \<in> set (api_keys d). ak_id k < next_key_id d))"

definition dead_key :: "int \<Rightarrow> auth_db \<Rightarrow> bool" where
  "dead_key kid d = (kid < next_key_id d \<and> (\<forall>k \<in> set (api_keys d). ak_id k = kid \<longrightarrow> ak_revoked_at k \<noteq> None))"

lemma dead_kept: "credentials_kept d d' \<Longrightarrow> dead_key kid d \<Longrightarrow> dead_key kid d'"
  by (simp add: credentials_kept_def dead_key_def)

lemma step_dead:
  assumes "auth_step env s s'" and "dead_key kid (snd s)"
  shows "dead_key kid (snd s')"
  using assms
proof (induction rule: auth_step.induct)
  case (step_refresh t t' j1 j2 token d r d')
  then show ?case
    by (auto dest!: refresh_effect simp: dead_key_def)
next
  case (step_logout t t' token d d')
  then show ?case
    by (auto dest!: revoke_refresh_effect simp: dead_key_def)
next
  case (step_key t t' plaintext d p d')
  then obtain k where "d' = touch_used t' k d" by (auto elim!: principal_from_api_key_cases)
  with step_key show ?case by (auto simp: dead_key_def touch_used_def save_key_def)
next
  case (step_mint t t' p pid pre secret rq d plain k d')
  then show ?case by (auto simp: dead_key_def mint_effect)
next
  case (step_revoke_key t t' p pid d k d')
  then show ?case using revoke_key_effect [OF step_revoke_key(2)] by (auto simp: dead_key_def)
qed (auto intro: dead_kept credentials_kept_login credentials_kept_grant credentials_kept_revoke
    credentials_kept_create credentials_kept_invite credentials_kept_account)

lemma reach_dead:
  "auth_reach env s s' \<Longrightarrow> dead_key kid (snd s) \<Longrightarrow> dead_key kid (snd s')"
  by (induction rule: rtranclp_induct) (auto intro: step_dead)

section \<open>Properties\<close>

lemma refresh_token_claims:
  obtains c where "lo_refresh_token (issue_tokens env t0 ja jb uid pid) = ae_jwt_encode env c"
    and "claim_str c ''jti'' = jb" and "dict_get c ''type'' = Some (JStr ''refresh'')"
    and "dict_get c ''exp'' = Some (JInt ((t0 + seconds (if jwt_refresh_ttl_seconds (ae_settings env) = 0
           then jwt_access_ttl_seconds (ae_settings env) else jwt_refresh_ttl_seconds (ae_settings env))) div 1000000))"
proof -
  let ?ttl = "if jwt_refresh_ttl_seconds (ae_settings env) = 0 then jwt_access_ttl_seconds (ae_settings env)
    else jwt_refresh_ttl_seconds (ae_settings env)"
  let ?c = "dict_merge [(''sub'', JStr (show_int uid)), (''iat'', JInt (t0 div 1000000)),
      (''exp'', JInt ((t0 + seconds ?ttl) div 1000000)), (''type'', JStr ''refresh'')] [(''jti'', JStr jb)]"
  show thesis
    by (rule that [of ?c]) (simp_all add: issue_tokens_def encode_jwt_def Let_def dict_merge_def claim_str_def dict_get_def)
qed

lemma ALPHABET_no_sep: "CHR ''_'' \<notin> set ALPHABET"
  by code_simp

lemma burned_rejects:
  assumes "burned jti e d" and "ae_redis env" and "jti \<noteq> []" and "t \<le> seconds e - seconds 1"
  shows "is_revoked env t jti d"
  using assms by (auto simp: burned_def is_revoked_def)

text \<open>
  C11. A refresh token is single-use: once it has been exchanged, or given up at logout, no later
  request succeeds with it, whatever other requests (logins, refreshes and logouts of other tokens or
  of this one, key and membership operations, resets) came in between and however long that took,
  while Redis answers.  The instants this leaves out are those of the last second before the token's expiry,
  where the denylist entry, whose lifetime is cut to whole seconds, may be gone already.
\<close>

theorem refresh_single_use:
  assumes "jwt_faithful env" and "ae_redis env" and "jb \<noteq> []"
    and tok: "token = lo_refresh_token (issue_tokens env t0 ja jb uid pid)"
    and e: "e = (t0 + seconds (if jwt_refresh_ttl_seconds (ae_settings env) = 0
          then jwt_access_ttl_seconds (ae_settings env) else jwt_refresh_ttl_seconds (ae_settings env))) div 1000000"
    and "jti_expiry env jb e"
    and spent: "(\<exists>r. refresh env t j1 j2 token d = Inr (r, d1)) \<or>
      revoke_refresh env t token d = Inr d1 \<and> (\<exists>c. ae_jwt_decode env t token = Inr c)"
    and later: "auth_reach env (t, d1) (t', d2)"
    and time: "t' \<le> seconds e - seconds 1 \<or> seconds e \<le> t'"
  shows "\<exists>err. refresh env t' j3 j4 token d2 = Inl err"
proof -
  obtain c where c: "token = ae_jwt_encode env c" "claim_str c ''jti'' = jb" "dict_get c ''type'' = Some (JStr ''refresh'')"
    "dict_get c ''exp'' = Some (JInt e)"
    using refresh_token_claims [of env t0 ja jb uid pid] tok e by metis
  have decoded: "payload = c \<and> x < seconds e" if "ae_jwt_decode env x token = Inr payload" for x payload
    using assms(1) that c by (auto simp: jwt_faithful_def)
  have "d1 = revoke_payload env t c d"
    using spent
  proof
    assume "\<exists>r. refresh env t j1 j2 token d = Inr (r, d1)"
    then show ?thesis using refresh_effect decoded by blast
  next
    assume "revoke_refresh env t token d = Inr d1 \<and> (\<exists>c. ae_jwt_decode env t token = Inr c)"
    then show ?thesis
      using decoded c(3) by (auto simp: revoke_refresh_def decode_jwt_def rbind_def)
  qed
  then have "burned jb e d1"
    using c assms(2,3) by (auto intro: revoke_payload_burns)
  then have burn: "burned jb e d2"
    using reach_burned [OF later assms(6,2,3)] by simp
  have "\<nexists>x. refresh env t' j3 j4 token d2 = Inr x"
  proof
    assume "\<exists>x. refresh env t' j3 j4 token d2 = Inr x"
    then obtain payload where "ae_jwt_decode env t' token = Inr payload" "\<not> is_revoked env t' (claim_str payload ''jti'') d2"
      by (metis refresh_effect surj_pair)
    then show False
      using decoded c(2) time burned_rejects [OF burn assms(2,3)] by fastforce
  qed
  then show ?thesis by (cases "refresh env t' j3 j4 token d2") auto
qed

text \<open>
  C12. A revoked key stays revoked: after a revocation no request, at any later time and after any
  other requests, is authenticated as that key.
\<close>

theorem revoked_key_rejected:
  assumes "key_ids_ok d" and "revoke_key env t p pid d = Inr (Some k, d1)"
    and "auth_reach env (t, d1) (t', d2)" and "principal_from_api_key env t' plaintext d2 = Inr (q, d3)"
  shows "actor_id q \<noteq> ak_id k"
proof -
  have "dead_key (ak_id k) d1"
    using revoke_key_effect [OF assms(2)] assms(1)
    by (auto simp: key_ids_ok_def dead_key_def distinct_map dest: inj_onD)
  then have dead: "dead_key (ak_id k) d2" using reach_dead [OF assms(3)] by simp
  obtain k' pre where one: "filter (\<lambda>k. ak_prefix k = pre \<and> key_active t' k) (api_keys d2) = [k']"
    and "actor_id q = ak_id k'"
    using assms(4) by (auto elim: principal_from_api_key_cases)
  moreover from one have "k' \<in> set (api_keys d2)" "key_active t' k'"
    by (auto dest!: arg_cong [where f = set])
  ultimately show ?thesis using dead by (auto simp: dead_key_def key_active_def)
qed

text \<open>
  C13. An authenticated API key is one unrevoked, unexpired row whose prefix and secret were
  presented; the principal acts in that row's organisation with its key scopes, never as
  administrator, owner or superuser, reads and writes at most confidential memories and only those of
  the bound scope; only the time of last use of that key changes.
\<close>

theorem api_key_principal_bounded:
  assumes "principal_from_api_key env now plaintext d = Inr (p, d')"
  shows "\<exists>k secret. k \<in> set (api_keys d) \<and> parse_api_key (ae_settings env) plaintext = Some (ak_prefix k, secret) \<and>
     key_active now k \<and> ae_verify env (ak_key_hash k) secret \<and>
     p_org_id p = ak_org_id k \<and> actor_id p = ak_id k \<and> key_scopes p = set (ak_scopes k) \<and>
     \<not> is_superuser p \<and> \<not> is_admin_anywhere p \<and> (\<forall>sc. \<not> can_admin p sc \<and> \<not> can_own p sc) \<and>
     max_sensitivity p \<le> CONFIDENTIAL \<and>
     (\<forall>r. can_read p r \<longrightarrow> res_sensitivity r \<le> CONFIDENTIAL \<and> ak_scope_type k = Some (ref_type (res_scope r)) \<and>
        ak_scope_id k = Some (ref_id (res_scope r))) \<and>
     d' = d\<lparr>api_keys := map (\<lambda>x. if ak_id x = ak_id k then x\<lparr>ak_last_used_at := Some now\<rparr> else x) (api_keys d)\<rparr>"
proof -
  obtain pre secret k where k: "parse_api_key (ae_settings env) plaintext = Some (pre, secret)"
    "filter (\<lambda>k. ak_prefix k = pre \<and> key_active now k) (api_keys d) = [k]"
    "ae_verify env (ak_key_hash k) secret" "d' = touch_used now k d"
    "actor_id p = ak_id k" "actor_kind p = API_KEY" "p_org_id p = ak_org_id k" "key_scopes p = set (ak_scopes k)"
    "\<not> is_superuser p" "max_sensitivity p = max_sensitivity_of (map snd (roles p))"
    "roles p = (case (ak_scope_type k, ak_scope_id k) of
        (Some st, Some sid) \<Rightarrow> if sid = 0 then [] else [(\<lparr>ref_type = st, ref_id = sid\<rparr>, MEMBER)] | _ \<Rightarrow> [])"
    using assms by (rule principal_from_api_key_cases)
  have row: "k \<in> set (api_keys d)" "ak_prefix k = pre" "key_active now k"
    using k(2) by (auto dest!: arg_cong [where f = set])
  have roles: "roles p = [] \<or> (\<exists>st sid. ak_scope_type k = Some st \<and> ak_scope_id k = Some sid \<and>
      roles p = [(\<lparr>ref_type = st, ref_id = sid\<rparr>, MEMBER)])"
    using k(11) by (auto split: option.splits if_splits)
  have ceiling: "max_sensitivity p \<le> CONFIDENTIAL"
    using roles k(10) by (auto simp: max_sensitivity_of_def less_eq_sensitivity_def)
  have rights: "\<not> is_admin_anywhere p" "\<not> can_admin p sc" "\<not> can_own p sc" for sc
    using roles k(9) by (auto simp: is_admin_anywhere_def access_defs principal_role_for_def split: if_splits)
  have reads: "res_sensitivity r \<le> CONFIDENTIAL \<and> ak_scope_type k = Some (ref_type (res_scope r)) \<and>
      ak_scope_id k = Some (ref_id (res_scope r))" if "can_read p r" for r
    using that roles k(9) by (auto simp: access_defs principal_role_for_def less_eq_sensitivity_def split: if_splits)
  show ?thesis
    using k row ceiling rights reads by (intro exI [of _ k] exI [of _ secret]) (auto simp: touch_used_def save_key_def)
qed

text \<open>
  Minting and authenticating are inverse: the plaintext a caller is given parses back to the
  prefix and secret that were drawn, and, until the key expires, authenticates as the minted row, with
  the minter's organisation and the requested key scopes; any other secret with the same prefix is refused.
\<close>

theorem api_key_roundtrip:
  assumes "argon2_exact env" and "random_token (api_key_prefix_length (ae_settings env)) pre"
    and "random_token (api_key_secret_length (ae_settings env)) secret"
    and fresh: "\<forall>k \<in> set (api_keys d). ak_prefix k \<noteq> pre"
    and minted: "mint env t p pid pre secret rq d = Inr (plain, k, d1)"
    and live: "case mr_expires_in_days rq of None \<Rightarrow> True | Some n \<Rightarrow> n = 0 \<or> t' < t + seconds (n * 86400)"
  shows "parse_api_key (ae_settings env) plain = Some (pre, secret) \<and>
    (\<exists>q. principal_from_api_key env t' plain d1 = Inr (q, touch_used t' k d1) \<and> actor_id q = ak_id k \<and>
       p_org_id q = p_org_id p \<and> key_scopes q = set (mr_scopes rq)) \<and>
    (\<forall>s. s \<noteq> secret \<longrightarrow> (\<exists>err. principal_from_api_key env t' (KEY_PREFIX @ ''_'' @ pre @ ''_'' @ s) d1 = Inl err))"
proof -
  note m = mint_effect [OF minted]
  have no_sep: "CHR ''_'' \<notin> set pre"
    using assms(2) ALPHABET_no_sep by (auto simp: random_token_def list_all_iff)
  have parse: "parse_api_key (ae_settings env) (KEY_PREFIX @ ''_'' @ pre @ ''_'' @ s) =
      (if length s \<noteq> api_key_secret_length (ae_settings env) then None else Some (pre, s))" for s
    using no_sep assms(2) split_max_Suc [of "CHR ''_''" KEY_PREFIX 1 "pre @ ''_'' @ s"] split_max_Suc [of "CHR ''_''" pre 0 s]
    by (auto simp: parse_api_key_def KEY_PREFIX_def random_token_def eval_nat_numeral simp del: split_max.simps(2))
  have act: "key_active t' k"
    using live m by (auto simp: key_active_def split: option.splits)
  have "filter (\<lambda>x. ak_prefix x = pre \<and> key_active t' x) (api_keys d1) = [k]"
    using fresh act m by (auto simp: filter_empty_conv)
  then have get: "get_active_by_prefix t' pre (api_keys d1) = Inr (Some k)"
    by (simp add: get_active_by_prefix_def one_or_none_def)
  have len: "length secret = api_key_secret_length (ae_settings env)"
    using assms(3) by (simp add: random_token_def)
  have ver: "ae_verify env (ak_key_hash k) s = (s = secret)" for s
    using assms(1) m by (simp add: argon2_exact_def)
  show ?thesis
    using parse len get ver m by (simp add: principal_from_api_key_def rbind_def Let_def)
qed

lemma role_map:
  "map_option mb_role (find (is_membership u' st' sid') (map (\<lambda>m. if is_membership uid st sid m then m\<lparr>mb_role := r\<rparr> else m) ms)) =
   (if (u', st', sid') = (uid, st, sid) then if list_ex (is_membership uid st sid) ms then Some r else None
    else map_option mb_role (find (is_membership u' st' sid') ms))"
  by (induction ms) (auto simp: is_membership_def [abs_def])

lemma role_snoc:
  "\<not> list_ex (is_membership uid st sid) ms \<Longrightarrow>
   map_option mb_role (find (is_membership u' st' sid')
     (ms @ [\<lparr>mb_user_id = uid, mb_scope_type = st, mb_scope_id = sid, mb_role = r\<rparr>])) =
   (if (u', st', sid') = (uid, st, sid) then Some r else map_option mb_role (find (is_membership u' st' sid') ms))"
  by (induction ms) (auto simp: is_membership_def [abs_def])

lemma role_drop:
  "find (is_membership u' st' sid') (filter (\<lambda>m. \<not> is_membership uid st sid m) ms) =
   (if (u', st', sid') = (uid, st, sid) then None else find (is_membership u' st' sid') ms)"
  by (induction ms) (auto simp: is_membership_def [abs_def])

lemma has_role: "list_ex P ms = (find P ms \<noteq> None)"
  by (induction ms) auto

lemma repo_grant_role:
  "role_on (repo_grant uid st sid r d) u' st' sid' = (if (u', st', sid') = (uid, st, sid) then Some r else role_on d u' st' sid')"
proof (cases "list_ex (is_membership uid st sid) (memberships d)")
  case True
  then have ms: "memberships (repo_grant uid st sid r d) =
      map (\<lambda>m. if is_membership uid st sid m then m\<lparr>mb_role := r\<rparr> else m) (memberships d)"
    by (simp add: repo_grant_def)
  show ?thesis unfolding role_on_def ms role_map using True by simp
next
  case False
  then have ms: "memberships (repo_grant uid st sid r d) =
      memberships d @ [\<lparr>mb_user_id = uid, mb_scope_type = st, mb_scope_id = sid, mb_role = r\<rparr>]"
    by (simp add: repo_grant_def)
  show ?thesis unfolding role_on_def ms role_snoc [OF False] by simp
qed

lemma repo_revoke_role:
  assumes "repo_revoke uid st sid d = (b, d')"
  shows "role_on d' u' st' sid' = (if (u', st', sid') = (uid, st, sid) then None else role_on d u' st' sid')"
    "b = (role_on d uid st sid \<noteq> None)"
  using assms by (auto simp: role_on_def repo_revoke_def role_drop has_role split: if_splits)

text \<open>
  C14. Memberships change only by the administrators of the scope, and only its owners create
  owners; a grant gives exactly the named user exactly the named role there, a revocation takes exactly that
  one away and reports whether there was one, every other role of every user stays, and each change leaves one audit entry
  naming the actor and the user.
\<close>

theorem membership_changes_authorized:
  "(grant env now p uid st sid r d = Inr d' \<longrightarrow>
      can_admin p \<lparr>ref_type = st, ref_id = sid\<rparr> \<and> (r = OWNER \<longrightarrow> can_own p \<lparr>ref_type = st, ref_id = sid\<rparr>) \<and>
      (\<forall>u' st' sid'. role_on d' u' st' sid' = (if (u', st', sid') = (uid, st, sid) then Some r else role_on d u' st' sid')) \<and>
      (\<exists>e. auth_audit d' = auth_audit d @ [e] \<and> a_action e = ''member.granted'' \<and> a_actor_id e = Some (actor_id p) \<and>
         a_target_id e = Some uid)) \<and>
   (revoke_membership env now p uid st sid d = Inr (b, d') \<longrightarrow>
      can_admin p \<lparr>ref_type = st, ref_id = sid\<rparr> \<and> b = (role_on d uid st sid \<noteq> None) \<and>
      (\<forall>u' st' sid'. role_on d' u' st' sid' = (if (u', st', sid') = (uid, st, sid) then None else role_on d u' st' sid')) \<and>
      (if b then \<exists>e. auth_audit d' = auth_audit d @ [e] \<and> a_action e = ''member.revoked'' \<and>
         a_actor_id e = Some (actor_id p) \<and> a_target_id e = Some uid
       else d' = d))"
proof (intro conjI impI)
  assume g: "grant env now p uid st sid r d = Inr d'"
  then have ok: "if r = OWNER then can_own p \<lparr>ref_type = st, ref_id = sid\<rparr> else can_admin p \<lparr>ref_type = st, ref_id = sid\<rparr>"
    and app: "auth_audit_append env now (Some p) (member_audit p MEMBER_GRANTED uid st sid (Some r)) (repo_grant uid st sid r d) = Inr d'"
    by (auto simp: grant_def Let_def split: if_splits)
  have same: "auth_audit (repo_grant uid st sid r d) = auth_audit d" by (simp add: repo_grant_def)
  note a = auth_audit_append_frame [OF app, unfolded same]
  show "can_admin p \<lparr>ref_type = st, ref_id = sid\<rparr>" "r = OWNER \<Longrightarrow> can_own p \<lparr>ref_type = st, ref_id = sid\<rparr>"
    using ok rbac.own_admin by (auto split: if_splits)
  show "\<forall>u' st' sid'. role_on d' u' st' sid' = (if (u', st', sid') = (uid, st, sid) then Some r else role_on d u' st' sid')"
    using repo_grant_role [of uid st sid r d] a(2) by (simp add: role_on_def)
  show "\<exists>e. auth_audit d' = auth_audit d @ [e] \<and> a_action e = ''member.granted'' \<and> a_actor_id e = Some (actor_id p) \<and>
      a_target_id e = Some uid"
    using a(5) by (auto simp: member_audit_def)
next
  assume v: "revoke_membership env now p uid st sid d = Inr (b, d')"
  then show "can_admin p \<lparr>ref_type = st, ref_id = sid\<rparr>"
    by (auto simp: revoke_membership_def Let_def split: if_splits)
  obtain d1 where rr: "repo_revoke uid st sid d = (b, d1)"
    and rest: "if b then auth_audit_append env now (Some p) (member_audit p MEMBER_REVOKED uid st sid None) d1 = Inr d' else d' = d1"
    using v by (auto simp: revoke_membership_def Let_def rbind_def split: if_splits sum.splits prod.splits bool.splits)
  have same: "auth_audit d1 = auth_audit d" "\<not> b \<Longrightarrow> d1 = d"
    using rr by (auto simp: repo_revoke_def split: if_splits)
  show "b = (role_on d uid st sid \<noteq> None)" by (rule repo_revoke_role(2) [OF rr])
  have "memberships d' = memberships d1" using rest auth_audit_append_frame(2) by (auto split: if_splits)
  then show "\<forall>u' st' sid'. role_on d' u' st' sid' = (if (u', st', sid') = (uid, st, sid) then None else role_on d u' st' sid')"
    using repo_revoke_role(1) [OF rr] by (simp add: role_on_def)
  show "if b then \<exists>e. auth_audit d' = auth_audit d @ [e] \<and> a_action e = ''member.revoked'' \<and>
      a_actor_id e = Some (actor_id p) \<and> a_target_id e = Some uid else d' = d"
  proof (cases b)
    case True
    then show ?thesis
      using rest auth_audit_append_frame(5) [of env now "Some p" "member_audit p MEMBER_REVOKED uid st sid None" d1 d'] same
      by (auto simp: member_audit_def)
  qed (use rest same in auto)
qed

section \<open>Concrete instances\<close>

definition demo_claims :: claims where
  "demo_claims = [(''sub'', JStr ''7''), (''iat'', JInt 0), (''exp'', JInt (jwt_refresh_ttl_seconds default_settings)),
     (''type'', JStr ''refresh''), (''jti'', JStr ''j'')]"

definition demo_auth_env :: auth_env where
  "demo_auth_env = \<lparr>ae_settings = default_settings, ae_hash = (\<lambda>s. s), ae_verify = (\<lambda>h s. s = h),
     ae_jwt_encode = (\<lambda>c. if c = demo_claims then ''tok'' else ''other''),
     ae_jwt_decode = (\<lambda>t token. if token = ''tok'' \<and> t < seconds (jwt_refresh_ttl_seconds default_settings)
        then Inr demo_claims else Inl (JwtError ''Signature has expired'')),
     ae_redis = True, ae_audit_hash = stamp_hash, ae_origin = (None, None)\<rparr>"

definition demo_user :: user_row where
  "demo_user = \<lparr>us_id = 7, us_public_id = ''u'', us_email = ''a@b.c'', us_password_hash = Some ''pw'', us_display_name = [],
     us_is_superuser = False, us_email_verified = True, us_last_login_at = None, us_deleted_at = None\<rparr>"

definition demo_auth :: auth_db where
  "demo_auth = \<lparr>users = [demo_user],
     memberships = [\<lparr>mb_user_id = 7, mb_scope_type = ORG, mb_scope_id = 1, mb_role = OWNER\<rparr>],
     api_keys = [], auth_audit = [], denylist = [], next_user_id = 8, next_key_id = 1\<rparr>"

lemma demo_token: "lo_refresh_token (issue_tokens demo_auth_env 0 ''i'' ''j'' 7 ''u'') = ''tok''"
proof -
  have "show_int 7 = ''7''" by code_simp
  then show ?thesis
    by (simp add: issue_tokens_def encode_jwt_def Let_def dict_merge_def demo_auth_env_def demo_claims_def default_settings_def)
qed

lemma demo_laws: "jwt_faithful demo_auth_env" "argon2_exact demo_auth_env"
    "jti_expiry demo_auth_env ''j'' (jwt_refresh_ttl_seconds default_settings)"
  by (auto simp: jwt_faithful_def argon2_exact_def jti_expiry_def demo_auth_env_def demo_claims_def dict_get_def split: if_splits)

lemma demo_env_simps [simp]:
  "ae_settings demo_auth_env = default_settings" "ae_redis demo_auth_env" "ae_origin demo_auth_env = (None, None)"
  "ae_hash demo_auth_env s = s" "ae_verify demo_auth_env h s = (s = h)"
  by (simp_all add: demo_auth_env_def)

lemma demo_ttl: "jwt_refresh_ttl_seconds default_settings = 2592000"
  by (simp add: default_settings_def)

lemma demo_refresh:
  "\<not> is_revoked demo_auth_env t ''j'' d \<Longrightarrow> users d = users demo_auth \<Longrightarrow> t < seconds (jwt_refresh_ttl_seconds default_settings) \<Longrightarrow>
   refresh demo_auth_env t j1 j2 ''tok'' d = Inr (issue_tokens demo_auth_env t j1 j2 7 ''u'', revoke_payload demo_auth_env t demo_claims d)"
proof -
  assume a: "\<not> is_revoked demo_auth_env t ''j'' d" "users d = users demo_auth" "t < seconds (jwt_refresh_ttl_seconds default_settings)"
  have "ae_jwt_decode demo_auth_env t ''tok'' = Inr demo_claims" using a(3) by (simp add: demo_auth_env_def)
  moreover have "claim_str demo_claims ''jti'' = ''j''" "dict_get demo_claims ''type'' = Some (JStr ''refresh'')"
    by (simp_all add: demo_claims_def claim_str_def dict_get_def)
  moreover have "subject_id demo_claims = Inr 7" by code_simp
  moreover have "user_by_id 7 d = Some demo_user"
    using a(2) by (simp add: user_by_id_def demo_auth_def demo_user_def first_row_def)
  ultimately show ?thesis
    using a(1) by (simp add: refresh_def decode_jwt_def rbind_def auth_error_def demo_user_def)
qed

theorem refresh_single_use_witness:
  "\<exists>d1 err. snd (projr (refresh demo_auth_env (seconds 10) ''a'' ''b'' ''tok'' demo_auth)) = d1 \<and>
     refresh demo_auth_env (seconds 20) ''c'' ''d'' ''tok'' d1 = Inl err"
proof -
  let ?d1 = "revoke_payload demo_auth_env (seconds 10) demo_claims demo_auth"
  have ok: "refresh demo_auth_env (seconds 10) ''a'' ''b'' ''tok'' demo_auth =
      Inr (issue_tokens demo_auth_env (seconds 10) ''a'' ''b'' 7 ''u'', ?d1)"
    by (rule demo_refresh) (simp_all add: is_revoked_def demo_auth_def default_settings_def)
  have later: "auth_reach demo_auth_env (seconds 10, ?d1) (seconds 20, ?d1)"
    by (rule r_into_rtranclp, rule step_wait) simp
  have "\<exists>err. refresh demo_auth_env (seconds 20) ''c'' ''d'' ''tok'' ?d1 = Inl err"
  proof (rule refresh_single_use [OF demo_laws(1) _ _ demo_token [symmetric] _ demo_laws(3) _ later])
    show "(\<exists>r. refresh demo_auth_env (seconds 10) ''a'' ''b'' ''tok'' demo_auth = Inr (r, ?d1)) \<or>
        revoke_refresh demo_auth_env (seconds 10) ''tok'' demo_auth = Inr ?d1 \<and>
        (\<exists>c. ae_jwt_decode demo_auth_env (seconds 10) ''tok'' = Inr c)"
      using ok by blast
  qed (simp_all add: demo_ttl)
  then show ?thesis using ok by simp
qed

definition demo_pre :: string where "demo_pre = replicate 8 CHR ''a''"
definition demo_secret :: string where "demo_secret = replicate 43 CHR ''s''"

definition demo_mint :: mint_request where
  "demo_mint = \<lparr>mr_name = ''ci'', mr_scopes = [''memory:read''], mr_scope_type = Some PROJECT, mr_scope_id = Some 9,
     mr_expires_in_days = None\<rparr>"

definition minted_key :: api_key where
  "minted_key = \<lparr>ak_id = 1, ak_public_id = ''k'', ak_org_id = 1, ak_prefix = demo_pre, ak_key_hash = demo_secret, ak_name = ''ci'',
     ak_scope_type = Some PROJECT, ak_scope_id = Some 9, ak_scopes = [''memory:read''], ak_created_by = Some 7,
     ak_expires_at = None, ak_last_used_at = None, ak_revoked_at = None, ak_created_at = 5\<rparr>"

definition minted_plain :: string where
  "minted_plain = KEY_PREFIX @ ''_'' @ demo_pre @ ''_'' @ demo_secret"

lemma audit_append_total:
  "principal_org p = Some org \<Longrightarrow> org \<noteq> 0 \<Longrightarrow> ar_org_id req = None \<Longrightarrow>
   \<exists>d'. auth_audit_append env now p req d = Inr d'"
  by (auto simp: auth_audit_append_def audit_append_def Let_def rbind_def)

lemma member_org [simp]: "principal_org (Some (member_of 1)) = Some 1"
  by (simp add: principal_org_def member_of_def superuser_principal_def)

lemma demo_minted:
  obtains d1 where "mint demo_auth_env 5 (member_of 1) ''k'' demo_pre demo_secret demo_mint demo_auth = Inr (minted_plain, minted_key, d1)"
    and "api_keys d1 = [minted_key]" "next_key_id d1 = 2"
proof -
  let ?d = "demo_auth\<lparr>api_keys := [minted_key], next_key_id := 2\<rparr>"
  let ?req = "key_audit (member_of 1) API_KEY_CREATED minted_key [(''name'', JStr ''ci''), (''prefix'', JStr demo_pre),
      (''scopes'', JList [JStr ''memory:read''])]"
  obtain d1 where d1: "auth_audit_append demo_auth_env 5 (Some (member_of 1)) ?req ?d = Inr d1"
    using audit_append_total [of "Some (member_of 1)" 1 ?req demo_auth_env 5 ?d] by (auto simp: key_audit_def)
  have "mint demo_auth_env 5 (member_of 1) ''k'' demo_pre demo_secret demo_mint demo_auth = Inr (minted_plain, minted_key, d1)"
    using d1 by (simp add: mint_def Let_def rbind_def generate_api_key_def repo_create_key_def demo_mint_def member_of_def
        superuser_principal_def demo_auth_def minted_key_def minted_plain_def)
  then show thesis
    using that credentials_kept_audit [OF d1] by (simp add: credentials_kept_def)
qed

lemma demo_random:
  "random_token (api_key_prefix_length default_settings) demo_pre"
  "random_token (api_key_secret_length default_settings) demo_secret"
proof -
  have "CHR ''a'' \<in> set ALPHABET" "CHR ''s'' \<in> set ALPHABET" by code_simp+
  then show "random_token (api_key_prefix_length default_settings) demo_pre"
    "random_token (api_key_secret_length default_settings) demo_secret"
    by (simp_all add: random_token_def default_settings_def demo_pre_def demo_secret_def list_all_iff)
qed

theorem api_key_roundtrip_witness:
  "\<exists>d1 q. api_keys d1 = [minted_key] \<and>
     principal_from_api_key demo_auth_env 6 minted_plain d1 = Inr (q, touch_used 6 minted_key d1) \<and>
     p_org_id q = 1 \<and> key_scopes q = {''memory:read''}"
proof -
  obtain d1 where m: "mint demo_auth_env 5 (member_of 1) ''k'' demo_pre demo_secret demo_mint demo_auth =
      Inr (minted_plain, minted_key, d1)" and keys: "api_keys d1 = [minted_key]"
    by (rule demo_minted)
  have "parse_api_key default_settings minted_plain = Some (demo_pre, demo_secret) \<and>
    (\<exists>q. principal_from_api_key demo_auth_env 6 minted_plain d1 = Inr (q, touch_used 6 minted_key d1) \<and> actor_id q = ak_id minted_key \<and>
       p_org_id q = p_org_id (member_of 1) \<and> key_scopes q = set (mr_scopes demo_mint)) \<and>
    (\<forall>s. s \<noteq> demo_secret \<longrightarrow> (\<exists>err. principal_from_api_key demo_auth_env 6 (KEY_PREFIX @ ''_'' @ demo_pre @ ''_'' @ s) d1 = Inl err))"
    using api_key_roundtrip [OF demo_laws(2) _ _ _ m, of 6] demo_random
    by (simp add: demo_auth_def demo_mint_def)
  then show ?thesis using keys by (auto simp: member_of_def superuser_principal_def demo_mint_def)
qed

lemma minted_parse: "parse_api_key default_settings minted_plain = Some (demo_pre, demo_secret)"
  by code_simp

lemma minted_principal:
  assumes "api_keys d1 = [minted_key]"
  shows "\<exists>q. principal_from_api_key demo_auth_env 6 minted_plain d1 = Inr (q, touch_used 6 minted_key d1) \<and>
    roles q = [(\<lparr>ref_type = PROJECT, ref_id = 9\<rparr>, MEMBER)] \<and> \<not> is_superuser q"
  using assms minted_parse
  by (simp add: principal_from_api_key_def get_active_by_prefix_def one_or_none_def rbind_def Let_def minted_key_def key_active_def)

theorem api_key_principal_bounded_witness:
  "\<exists>d1 q d2. principal_from_api_key demo_auth_env 6 minted_plain d1 = Inr (q, d2) \<and> \<not> is_superuser q \<and>
     (\<forall>sc. \<not> can_admin q sc)"
proof -
  let ?d1 = "demo_auth\<lparr>api_keys := [minted_key]\<rparr>"
  obtain q where "principal_from_api_key demo_auth_env 6 minted_plain ?d1 = Inr (q, touch_used 6 minted_key ?d1)"
    using minted_principal [of ?d1] by auto
  then show ?thesis using api_key_principal_bounded by blast
qed

definition keyed_auth :: auth_db where
  "keyed_auth = demo_auth\<lparr>api_keys := [minted_key], next_key_id := 2\<rparr>"

lemma demo_revoked:
  obtains d1 where "revoke_key demo_auth_env 8 (member_of 1) ''k'' keyed_auth = Inr (Some (minted_key\<lparr>ak_revoked_at := Some 8\<rparr>), d1)"
proof -
  let ?k = "minted_key\<lparr>ak_revoked_at := Some 8\<rparr>"
  let ?d = "keyed_auth\<lparr>api_keys := [?k]\<rparr>"
  let ?req = "key_audit (member_of 1) API_KEY_REVOKED ?k [(''name'', JStr ''ci''), (''prefix'', JStr demo_pre)]"
  obtain d1 where d1: "auth_audit_append demo_auth_env 8 (Some (member_of 1)) ?req ?d = Inr d1"
    using audit_append_total [of "Some (member_of 1)" 1 ?req demo_auth_env 8 ?d] by (auto simp: key_audit_def)
  have found: "key_by_public_id ''k'' (member_of 1) (api_keys keyed_auth) = Some minted_key"
    by (simp add: key_by_public_id_def tenant_rows_def member_of_def superuser_principal_def keyed_auth_def minted_key_def first_row_def)
  have key: "ak_revoked_at minted_key = None" "ak_name minted_key = ''ci''" "ak_prefix minted_key = demo_pre"
    "api_keys keyed_auth = [minted_key]"
    by (simp_all add: minted_key_def keyed_auth_def)
  show thesis
    by (rule that [of d1]) (use d1 found key in \<open>simp add: revoke_key_def repo_revoke_key_def save_key_def rbind_def\<close>)
qed

theorem revoked_key_rejected_witness:
  "\<exists>d1. revoke_key demo_auth_env 8 (member_of 1) ''k'' keyed_auth = Inr (Some (minted_key\<lparr>ak_revoked_at := Some 8\<rparr>), d1) \<and>
     (\<forall>plaintext q d3. principal_from_api_key demo_auth_env 9 plaintext d1 = Inr (q, d3) \<longrightarrow> actor_id q \<noteq> 1)"
proof -
  obtain d1 where r: "revoke_key demo_auth_env 8 (member_of 1) ''k'' keyed_auth = Inr (Some (minted_key\<lparr>ak_revoked_at := Some 8\<rparr>), d1)"
    by (rule demo_revoked)
  have ok: "key_ids_ok keyed_auth" by (simp add: key_ids_ok_def keyed_auth_def minted_key_def)
  have later: "auth_reach demo_auth_env (8, d1) (9, d1)"
    by (rule r_into_rtranclp, rule step_wait) simp
  have "ak_id (minted_key\<lparr>ak_revoked_at := Some 8\<rparr>) = 1" by (simp add: minted_key_def)
  then show ?thesis
    using revoked_key_rejected [OF ok r later] r by (intro exI [of _ d1]) auto
qed

definition org_admin :: principal where
  "org_admin = (member_of 1)\<lparr>actor_id := 8, roles := [(\<lparr>ref_type = ORG, ref_id = 1\<rparr>, ADMIN)]\<rparr>"

lemma org_admin_org [simp]: "principal_org (Some org_admin) = Some 1"
  by (simp add: principal_org_def org_admin_def member_of_def superuser_principal_def)

lemma org_admin_may: "can_admin org_admin \<lparr>ref_type = ORG, ref_id = 1\<rparr>"
  by code_simp

theorem membership_changes_authorized_witness:
  "\<exists>d'. revoke_membership demo_auth_env 9 org_admin 7 ORG 1 demo_auth = Inr (True, d') \<and> role_on d' 7 ORG 1 = None"
proof -
  let ?d = "demo_auth\<lparr>memberships := []\<rparr>"
  let ?req = "member_audit org_admin MEMBER_REVOKED 7 ORG 1 None"
  obtain d' where d': "auth_audit_append demo_auth_env 9 (Some org_admin) ?req ?d = Inr d'"
    using audit_append_total [of "Some org_admin" 1 ?req demo_auth_env 9 ?d] by (auto simp: member_audit_def)
  have "repo_revoke 7 ORG 1 demo_auth = (True, ?d)"
    by (simp add: repo_revoke_def demo_auth_def is_membership_def)
  then have "revoke_membership demo_auth_env 9 org_admin 7 ORG 1 demo_auth = Inr (True, d')"
    using d' org_admin_may by (simp add: revoke_membership_def rbind_def)
  then show ?thesis
    using membership_changes_authorized [of demo_auth_env 9 org_admin 7 ORG 1 undefined demo_auth d' True] by auto
qed

section \<open>Behaviour worth knowing\<close>

text \<open>An administrator can take the owner's membership away or lower it.\<close>

lemma admin_demotes_owner:
  "role_on demo_auth 7 ORG 1 = Some OWNER \<and> \<not> can_own org_admin \<lparr>ref_type = ORG, ref_id = 1\<rparr> \<and>
   (\<exists>d'. grant demo_auth_env 9 org_admin 7 ORG 1 VIEWER demo_auth = Inr d')"
proof (intro conjI)
  show "role_on demo_auth 7 ORG 1 = Some OWNER" by code_simp
  show "\<not> can_own org_admin \<lparr>ref_type = ORG, ref_id = 1\<rparr>" by code_simp
  show "\<exists>d'. grant demo_auth_env 9 org_admin 7 ORG 1 VIEWER demo_auth = Inr d'"
    using org_admin_may audit_append_total [of "Some org_admin" 1 "member_audit org_admin MEMBER_GRANTED 7 ORG 1 (Some VIEWER)"
        demo_auth_env 9 "repo_grant 7 ORG 1 VIEWER demo_auth"]
    by (simp add: grant_def member_audit_def)
qed

text \<open>Minting asks for no role on the scope: a member of project 5 mints a key that writes in project 9.\<close>

lemma mint_escalates_scope:
  "\<exists>d1 q. mint demo_auth_env 5 (member_of 1) ''k'' demo_pre demo_secret demo_mint demo_auth = Inr (minted_plain, minted_key, d1) \<and>
     principal_from_api_key demo_auth_env 6 minted_plain d1 = Inr (q, touch_used 6 minted_key d1) \<and>
     can_write q \<lparr>res_scope = \<lparr>ref_type = PROJECT, ref_id = 9\<rparr>, res_sensitivity = CONFIDENTIAL\<rparr> \<and>
     \<not> can_read (member_of 1) \<lparr>res_scope = \<lparr>ref_type = PROJECT, ref_id = 9\<rparr>, res_sensitivity = PUBLIC\<rparr>"
proof -
  obtain d1 where m: "mint demo_auth_env 5 (member_of 1) ''k'' demo_pre demo_secret demo_mint demo_auth =
      Inr (minted_plain, minted_key, d1)" and keys: "api_keys d1 = [minted_key]"
    by (rule demo_minted)
  obtain q where q: "principal_from_api_key demo_auth_env 6 minted_plain d1 = Inr (q, touch_used 6 minted_key d1)"
    "roles q = [(\<lparr>ref_type = PROJECT, ref_id = 9\<rparr>, MEMBER)]" "\<not> is_superuser q"
    using minted_principal [OF keys] by auto
  have "can_write q \<lparr>res_scope = \<lparr>ref_type = PROJECT, ref_id = 9\<rparr>, res_sensitivity = CONFIDENTIAL\<rparr>"
    using q(2,3) by (simp add: access_defs principal_role_for_def)
  moreover have "\<not> can_read (member_of 1) \<lparr>res_scope = \<lparr>ref_type = PROJECT, ref_id = 9\<rparr>, res_sensitivity = PUBLIC\<rparr>"
    by code_simp
  ultimately show ?thesis using m q(1) by blast
qed

text \<open>A key limited to some scopes mints one with an empty list, which counts as unlimited.\<close>

lemma mint_unlimited_key:
  assumes "p_org_id p \<noteq> 0"
  shows "\<exists>plain k d'. mint env now p pid pre secret
      \<lparr>mr_name = nm, mr_scopes = [], mr_scope_type = st, mr_scope_id = sid, mr_expires_in_days = None\<rparr> d = Inr (plain, k, d') \<and>
    ak_scopes k = []"
proof -
  let ?rq = "\<lparr>mr_name = nm, mr_scopes = [], mr_scope_type = st, mr_scope_id = sid, mr_expires_in_days = None\<rparr>"
  have "principal_org (Some p) = Some (p_org_id p)" using assms by (simp add: principal_org_def)
  then have "auth_audit_append env t (Some p) (key_audit p a k meta) x \<noteq> Inl e" for t a k meta x e
    using audit_append_total [of "Some p" "p_org_id p" "key_audit p a k meta" env t x] assms by (auto simp: key_audit_def)
  then have "\<exists>plain k d'. mint env now p pid pre secret ?rq d = Inr (plain, k, d')"
    by (auto simp: mint_def Let_def rbind_def repo_create_key_def split: sum.split)
  then show ?thesis
    using mint_effect(9) [of env now p pid pre secret ?rq d] by fastforce
qed

text \<open>A spent refresh token works again in the last second of its life.\<close>

lemma spent_token_replayed:
  "\<exists>r d1 r' d2. refresh demo_auth_env 2591998500000 ''a'' ''b'' ''tok'' demo_auth = Inr (r, d1) \<and>
     refresh demo_auth_env 2591999600000 ''c'' ''d'' ''tok'' d1 = Inr (r', d2)"
proof -
  let ?d1 = "revoke_payload demo_auth_env 2591998500000 demo_claims demo_auth"
  have deny: "denylist ?d1 = [(''j'', 2591999500000)]" and us: "users ?d1 = users demo_auth"
    by (simp_all add: revoke_payload_def revoke_jti_def demo_claims_def claim_str_def dict_get_def demo_ttl demo_auth_def)
  have "refresh demo_auth_env 2591998500000 ''a'' ''b'' ''tok'' demo_auth =
      Inr (issue_tokens demo_auth_env 2591998500000 ''a'' ''b'' 7 ''u'', ?d1)"
    by (rule demo_refresh) (simp_all add: is_revoked_def demo_auth_def demo_ttl)
  moreover have "refresh demo_auth_env 2591999600000 ''c'' ''d'' ''tok'' ?d1 =
      Inr (issue_tokens demo_auth_env 2591999600000 ''c'' ''d'' 7 ''u'', revoke_payload demo_auth_env 2591999600000 demo_claims ?d1)"
    by (rule demo_refresh) (simp_all add: is_revoked_def deny us demo_ttl)
  ultimately show ?thesis by blast
qed

text \<open>The login endpoint never commits the audit entry of a failed login.\<close>

lemma failed_login_unaudited:
  "fst (api_login env now j1 j2 email password d) = Inl err \<Longrightarrow> snd (api_login env now j1 j2 email password d) = d"
  by (auto simp: api_login_def split: prod.splits sum.splits)

end
