(* ===== verification/Tenancy.thy ===== *)
theory Tenancy
  imports Authentication
begin

text \<open>
  The tenant hierarchy: organisations, workspaces and projects (\<^verbatim>\<open>models/org.py\<close>, \<^verbatim>\<open>repositories/org_repo.py\<close>,
  \<^verbatim>\<open>workspace_repo.py\<close>, \<^verbatim>\<open>project_repo.py\<close>, the services over them, the review-mode endpoint of
  \<^verbatim>\<open>kortex_api/routers/projects.py\<close>), self-serve signup (\<^verbatim>\<open>services/signup_service.py\<close>) and billing
  (\<^verbatim>\<open>services/billing_service.py\<close>).

  A unique column rejects a row whose value exists, deleted rows included; the widths of the text columns
  are left to the request schemas.  Stripe is a parameter: whether its library is installed, the customer id it
  assigns and the addresses it answers with.  A webhook event is the JSON object Stripe signed.  The dash of one
  message, which is not ASCII, is written with two hyphens.
\<close>

section \<open>Definitions\<close>

subsection \<open>Organisations\<close>

definition own_org_only :: "principal \<Rightarrow> org_row option \<Rightarrow> org_row option" where
  "own_org_only p found =
     (case found of None \<Rightarrow> None | Some o' \<Rightarrow> if \<not> is_superuser p \<and> o_id o' \<noteq> p_org_id p then None else Some o')"

definition org_by_slug :: "string \<Rightarrow> principal \<Rightarrow> org_row list \<Rightarrow> org_row option" where
  "org_by_slug slug p os = own_org_only p (first_row (filter (\<lambda>r. o_slug r = slug \<and> o_deleted_at r = None) os))"

definition org_by_public_id :: "string \<Rightarrow> principal \<Rightarrow> org_row list \<Rightarrow> org_row option" where
  "org_by_public_id pid p os = own_org_only p (first_row (filter (\<lambda>r. o_public_id r = pid \<and> o_deleted_at r = None) os))"

text \<open>\<open>settings or {}\<close> and its \<open>billing\<close> object; the code keeps no other kind of value there.\<close>

definition billing_of :: "org_row \<Rightarrow> (string \<times> json) list" where
  "billing_of r = (case dict_get (o_settings r) ''billing'' of Some (JObj b) \<Rightarrow> b | _ \<Rightarrow> [])"

definition org_by_stripe_customer :: "string \<Rightarrow> principal \<Rightarrow> org_row list \<Rightarrow> org_row option result" where
  "org_by_stripe_customer cid p os =
     (if \<not> is_superuser p then Inl (TenantViolationError ''stripe lookup is superuser-only'')
      else one_or_none (filter (\<lambda>r. dict_get (billing_of r) ''stripe_customer_id'' = Some (JStr cid) \<and> o_deleted_at r = None) os))"

definition list_orgs_for_principal :: "principal \<Rightarrow> org_row list \<Rightarrow> org_row list" where
  "list_orgs_for_principal p os =
     (if is_superuser p then sort_key o_id (filter (\<lambda>r. o_deleted_at r = None) os)
      else filter (\<lambda>r. o_id r = p_org_id p \<and> o_deleted_at r = None) os)"

definition org_create :: "principal \<Rightarrow> string \<Rightarrow> string \<Rightarrow> string \<Rightarrow> string \<Rightarrow> db \<Rightarrow> (org_row \<times> db) result" where
  "org_create p pid slug name plan d =
     (if \<not> is_superuser p then Inl (TenantViolationError ''only superusers may create orgs'')
      else if slug \<in> o_slug ` set (orgs d) then Inl (IntegrityError ''duplicate key value violates unique constraint'')
      else let r = \<lparr>o_id = next_org_id d, o_public_id = pid, o_slug = slug, o_name = name, o_plan = plan,
                    o_settings = [], o_deleted_at = None\<rparr>
           in Inr (r, d\<lparr>orgs := orgs d @ [r], next_org_id := next_org_id d + 1\<rparr>))"

subsection \<open>Workspaces\<close>

abbreviation live_ws :: "workspace \<Rightarrow> bool" where
  "live_ws w \<equiv> ws_deleted_at w = None"

definition ws_list_for_org :: "principal \<Rightarrow> workspace list \<Rightarrow> workspace list" where
  "ws_list_for_org p ws = sort_key ws_id (filter live_ws (tenant_rows ws_org_id p ws))"

text \<open>The slug is unique within an org only, and a superuser's query is not confined to one.\<close>

definition ws_by_slug :: "string \<Rightarrow> principal \<Rightarrow> workspace list \<Rightarrow> workspace option result" where
  "ws_by_slug slug p ws = one_or_none (filter (\<lambda>w. ws_slug w = slug \<and> live_ws w) (tenant_rows ws_org_id p ws))"

definition ws_by_public_id :: "string \<Rightarrow> principal \<Rightarrow> workspace list \<Rightarrow> workspace option" where
  "ws_by_public_id pid p ws = first_row (filter (\<lambda>w. ws_public_id w = pid \<and> live_ws w) (tenant_rows ws_org_id p ws))"

definition ws_by_id :: "int \<Rightarrow> principal \<Rightarrow> workspace list \<Rightarrow> workspace option" where
  "ws_by_id i p ws = first_row (filter (\<lambda>w. ws_id w = i \<and> live_ws w) (tenant_rows ws_org_id p ws))"

definition ws_count_for_org :: "int \<Rightarrow> workspace list \<Rightarrow> nat" where
  "ws_count_for_org org ws = count_where (\<lambda>w. ws_org_id w = org \<and> live_ws w) ws"

definition ws_create :: "principal \<Rightarrow> string \<Rightarrow> string \<Rightarrow> string \<Rightarrow> db \<Rightarrow> (workspace \<times> db) result" where
  "ws_create p pid slug name d =
     (if \<exists>w \<in> set (workspaces d). ws_org_id w = p_org_id p \<and> ws_slug w = slug
      then Inl (IntegrityError ''duplicate key value violates unique constraint'')
      else let w = \<lparr>ws_id = next_workspace_id d, ws_public_id = pid, ws_org_id = p_org_id p, ws_slug = slug,
                    ws_name = name, ws_deleted_at = None\<rparr>
           in Inr (w, d\<lparr>workspaces := workspaces d @ [w], next_workspace_id := next_workspace_id d + 1\<rparr>))"

definition enforce_workspace_quota :: "principal \<Rightarrow> db \<Rightarrow> unit result" where
  "enforce_workspace_quota p d =
     rbind (org_get_by_id (p_org_id p) p (orgs d)) (\<lambda>org.
       let plan = (case org of None \<Rightarrow> ''free'' | Some r \<Rightarrow> o_plan r); cap = max_workspaces plan
       in if cap < 0 then Inr ()
          else if int (ws_count_for_org (p_org_id p) (workspaces d)) \<ge> cap
          then Inl (QuotaExceededError (''workspace limit reached for the '' @ plan @ '' plan ('' @ show_int cap @
                 ''). Upgrade your plan to add workspaces.''))
          else Inr ())"

definition workspace_service_create :: "principal \<Rightarrow> string \<Rightarrow> string \<Rightarrow> string \<Rightarrow> db \<Rightarrow> (workspace \<times> db) result" where
  "workspace_service_create p pid slug name d = rbind (enforce_workspace_quota p d) (\<lambda>_. ws_create p pid slug name d)"

subsection \<open>Projects\<close>

abbreviation live_project :: "project \<Rightarrow> bool" where
  "live_project r \<equiv> pr_deleted_at r = None"

definition projects_for_workspace :: "int \<Rightarrow> principal \<Rightarrow> project list \<Rightarrow> project list" where
  "projects_for_workspace wid p prs =
     sort_key pr_id (filter (\<lambda>r. pr_workspace_id r = wid \<and> live_project r) (tenant_rows pr_org_id p prs))"

definition project_by_public_id :: "string \<Rightarrow> principal \<Rightarrow> project list \<Rightarrow> project option" where
  "project_by_public_id pid p prs = first_row (filter (\<lambda>r. pr_public_id r = pid \<and> live_project r) (tenant_rows pr_org_id p prs))"

definition project_by_slug :: "int \<Rightarrow> string \<Rightarrow> principal \<Rightarrow> project list \<Rightarrow> project option" where
  "project_by_slug wid slug p prs =
     first_row (filter (\<lambda>r. pr_workspace_id r = wid \<and> pr_slug r = slug \<and> live_project r) (tenant_rows pr_org_id p prs))"

definition project_create :: "principal \<Rightarrow> string \<Rightarrow> int \<Rightarrow> string \<Rightarrow> string \<Rightarrow> db \<Rightarrow> (project \<times> db) result" where
  "project_create p pid wid slug name d =
     (if \<exists>r \<in> set (projects d). pr_workspace_id r = wid \<and> pr_slug r = slug
      then Inl (IntegrityError ''duplicate key value violates unique constraint'')
      else let r = \<lparr>pr_id = next_project_id d, pr_public_id = pid, pr_org_id = p_org_id p, pr_workspace_id = wid,
                    pr_slug = slug, pr_name = name, pr_text_search_config = DEFAULT_TS_CONFIG,
                    pr_review_mode = REVIEW_OFF, pr_deleted_at = None\<rparr>
           in Inr (r, d\<lparr>projects := projects d @ [r], next_project_id := next_project_id d + 1\<rparr>))"

definition project_service_create ::
    "principal \<Rightarrow> string \<Rightarrow> string \<Rightarrow> string \<Rightarrow> string \<Rightarrow> db \<Rightarrow> (project option \<times> db) result" where
  "project_service_create p ws_pid pid slug name d =
     (case ws_by_public_id ws_pid p (workspaces d) of
        None \<Rightarrow> Inr (None, d)
      | Some w \<Rightarrow> rbind (project_create p pid (ws_id w) slug name d) (\<lambda>(r, d1). Inr (Some r, d1)))"

definition project_service_list :: "principal \<Rightarrow> string \<Rightarrow> db \<Rightarrow> project list" where
  "project_service_list p ws_pid d =
     (case ws_by_public_id ws_pid p (workspaces d) of None \<Rightarrow> [] | Some w \<Rightarrow> projects_for_workspace (ws_id w) p (projects d))"

text \<open>The endpoint that switches a project's review gate.\<close>

definition set_review_mode :: "principal \<Rightarrow> string \<Rightarrow> review_mode \<Rightarrow> db \<Rightarrow> (project \<times> db) result" where
  "set_review_mode p pid mode d =
     (case project_by_public_id pid p (projects d) of
        None \<Rightarrow> Inl (NotFoundError ''project not found'')
      | Some r \<Rightarrow> Inr (r\<lparr>pr_review_mode := mode\<rparr>,
          d\<lparr>projects := map (\<lambda>x. if pr_id x = pr_id r then x\<lparr>pr_review_mode := mode\<rparr> else x) (projects d)\<rparr>))"

subsection \<open>Signup\<close>

definition slug_char :: "char \<Rightarrow> bool" where
  "slug_char c = (py_islower c \<or> py_isdigit c)"

text \<open>\<open>re.sub(r"[^a-z0-9]+", "-", s)\<close>; the flag says that the run before was replaced already.\<close>

fun dash_runs :: "bool \<Rightarrow> string \<Rightarrow> string" where
  "dash_runs b [] = []"
| "dash_runs b (c # cs) =
     (if slug_char c then c # dash_runs False cs
      else if b then dash_runs True cs else CHR ''-'' # dash_runs True cs)"

definition slugify :: "string \<Rightarrow> string" where
  "slugify s =
     (let t = rstrip_by (\<lambda>c. c = CHR ''-'') (lstrip_by (\<lambda>c. c = CHR ''-'') (dash_runs False (py_lower s)))
      in take 56 (if t = [] then ''org'' else t))"

record signup_ids =
  su_hex :: string
  su_org :: string
  su_ws :: string
  su_project :: string
  su_user :: string
  su_jti1 :: string
  su_jti2 :: string

fun grant_all ::
    "auth_env \<Rightarrow> time \<Rightarrow> principal \<Rightarrow> int \<Rightarrow> role \<Rightarrow> (scope_type \<times> int) list \<Rightarrow> auth_db \<Rightarrow> auth_db result" where
  "grant_all env now p uid r [] a = Inr a"
| "grant_all env now p uid r ((st, sid) # scopes) a =
     rbind (grant env now p uid st sid r a) (grant_all env now p uid r scopes)"

definition signup_rows ::
    "auth_env \<Rightarrow> time \<Rightarrow> signup_ids \<Rightarrow> string \<Rightarrow> string \<Rightarrow> string \<Rightarrow> string \<Rightarrow> db \<Rightarrow> auth_db \<Rightarrow> (user_row \<times> db \<times> auth_db) result" where
  "signup_rows env now ids email password org_name display_name d a =
     rbind (org_create (superuser_principal 0) (su_org ids) (slugify org_name @ ''-'' @ su_hex ids) org_name ''free'' d)
       (\<lambda>(org, d1).
         let admin = superuser_principal (o_id org)
         in rbind (workspace_service_create admin (su_ws ids) ''default'' ''Default workspace'' d1) (\<lambda>(ws, d2).
              rbind (project_service_create admin (ws_public_id ws) (su_project ids) ''default'' ''Default project'' d2) (\<lambda>(project, d3).
                case project of
                  None \<Rightarrow> Inl (RuntimeError ''assertion failed'')
                | Some pr \<Rightarrow>
                    rbind (create_with_password env admin (su_user ids) email password display_name False a) (\<lambda>(u, a1).
                      rbind (grant_all env now admin (us_id u) OWNER
                          [(ORG, o_id org), (WORKSPACE, ws_id ws), (PROJECT, pr_id pr)] a1)
                        (\<lambda>a2. Inr (u, d3, a2))))))"

text \<open>The tokens, the verification mail and the two databases; an exception leaves both as they were.\<close>

definition register ::
    "auth_env \<Rightarrow> time \<Rightarrow> signup_ids \<Rightarrow> string \<Rightarrow> string \<Rightarrow> string \<Rightarrow> string \<Rightarrow> db \<times> auth_db
     \<Rightarrow> (login_result \<times> (string \<times> string) list \<times> db \<times> auth_db) result" where
  "register env now ids email password org_name display_name = (\<lambda>(d, a).
     if user_by_email email a \<noteq> None then Inl (SignupError ''an account with this email already exists'')
     else case signup_rows env now ids email password org_name display_name d a of
            Inl (IntegrityError e) \<Rightarrow> Inl (SignupError ''email or org name already in use'')
          | Inl e \<Rightarrow> Inl e
          | Inr (u, d1, a1) \<Rightarrow>
              Inr (issue_tokens env now (su_jti1 ids) (su_jti2 ids) (us_id u) (us_public_id u),
                   send_verification env now (us_id u) (us_email u), d1, a1))"

subsection \<open>Billing\<close>

definition truthy :: "json \<Rightarrow> bool" where
  "truthy v = (v \<notin> {JNull, JBool False, JInt 0, JFloat 0, JStr [], JList [], JObj []})"

record stripe_api =
  st_installed :: bool
  st_customer :: "org_row \<Rightarrow> string"
  st_checkout :: "string \<Rightarrow> string \<Rightarrow> string \<Rightarrow> int \<Rightarrow> string"
  st_portal :: "string \<Rightarrow> string"

record billing_plan =
  bp_id :: string
  bp_name :: string
  bp_price_usd :: int
  bp_features :: "string list"

definition PLANS :: "billing_plan list" where
  "PLANS =
     [\<lparr>bp_id = ''free'', bp_name = ''Free'', bp_price_usd = 0,
       bp_features = [''1 workspace'', ''25k memories'', ''Community support'']\<rparr>,
      \<lparr>bp_id = ''pro'', bp_name = ''Pro'', bp_price_usd = 20,
       bp_features = [''Unlimited workspaces'', ''100k memories'', ''Agentic recall'', ''Email support'']\<rparr>,
      \<lparr>bp_id = ''team'', bp_name = ''Team'', bp_price_usd = 99,
       bp_features = [''Everything in Pro'', ''SSO & RBAC'', ''1M memories'', ''Priority support'']\<rparr>]"

definition stripe_ready :: "settings \<Rightarrow> stripe_api \<Rightarrow> unit result" where
  "stripe_ready s api =
     (if stripe_secret_key s = None then Inl (BillingUnavailableError ''billing is not configured on this server'')
      else if \<not> st_installed api then Inl (BillingUnavailableError ''stripe library not installed'')
      else Inr ())"

definition require_org :: "bool \<Rightarrow> principal \<Rightarrow> db \<Rightarrow> org_row result" where
  "require_org admin p d =
     rbind (org_get_by_id (p_org_id p) p (orgs d)) (\<lambda>found.
       case found of
         None \<Rightarrow> Inl (BillingError ''no organization bound to this account'')
       | Some r \<Rightarrow> if admin \<and> \<not> can_admin p \<lparr>ref_type = ORG, ref_id = o_id r\<rparr>
                   then Inl (AccessDeniedError ''org admin required to manage billing'')
                   else Inr r)"

definition save_org :: "org_row \<Rightarrow> db \<Rightarrow> db" where
  "save_org r' d = d\<lparr>orgs := map (\<lambda>r. if o_id r = o_id r' then r' else r) (orgs d)\<rparr>"

definition with_billing :: "(string \<times> json) list \<Rightarrow> org_row \<Rightarrow> org_row" where
  "with_billing b r = r\<lparr>o_settings := AList.update ''billing'' (JObj b) (o_settings r)\<rparr>"

record subscription =
  sb_plan :: string
  sb_status :: json
  sb_current_period_end :: json
  sb_billing_enabled :: bool
  sb_memories :: nat
  sb_max_memories :: int
  sb_workspaces :: nat
  sb_max_workspaces :: int

definition subscription_of :: "settings \<Rightarrow> principal \<Rightarrow> db \<Rightarrow> subscription result" where
  "subscription_of s p d =
     rbind (require_org False p d) (\<lambda>r.
       Inr \<lparr>sb_plan = o_plan r,
            sb_status = (case dict_get (billing_of r) ''status'' of
               Some v \<Rightarrow> v | None \<Rightarrow> JStr (if o_plan r = ''free'' then ''active'' else ''unknown'')),
            sb_current_period_end = (case dict_get (billing_of r) ''current_period_end'' of Some v \<Rightarrow> v | None \<Rightarrow> JNull),
            sb_billing_enabled = (stripe_secret_key s \<noteq> None),
            sb_memories = count_for_org (o_id r) (memories d), sb_max_memories = max_memories (o_plan r),
            sb_workspaces = ws_count_for_org (o_id r) (workspaces d), sb_max_workspaces = max_workspaces (o_plan r)\<rparr>)"

definition ensure_customer :: "stripe_api \<Rightarrow> org_row \<Rightarrow> db \<Rightarrow> string \<times> db" where
  "ensure_customer api r d =
     (case dict_get (billing_of r) ''stripe_customer_id'' of
        Some (JStr (c # cs)) \<Rightarrow> (c # cs, d)
      | _ \<Rightarrow> (let cid = st_customer api r
              in (cid, save_org (with_billing (AList.update ''stripe_customer_id'' (JStr cid) (billing_of r)) r) d)))"

definition create_checkout :: "settings \<Rightarrow> stripe_api \<Rightarrow> principal \<Rightarrow> string \<Rightarrow> db \<Rightarrow> (string \<times> db) result" where
  "create_checkout s api p plan d =
     rbind (require_org True p d) (\<lambda>r.
       if plan \<notin> set (map bp_id PLANS) \<or> plan = ''free''
       then Inl (BillingError (''cannot checkout plan '' @ py_repr_str plan))
       else case (if plan = ''pro'' then stripe_price_pro s else if plan = ''team'' then stripe_price_team s else None) of
              Some (c # cs) \<Rightarrow>
                rbind (stripe_ready s api) (\<lambda>_.
                  let (cid, d1) = ensure_customer api r d
                  in Inr (st_checkout api cid (c # cs) plan (o_id r), d1))
            | _ \<Rightarrow> Inl (BillingError (''no Stripe price configured for plan '' @ py_repr_str plan)))"

definition create_portal :: "settings \<Rightarrow> stripe_api \<Rightarrow> principal \<Rightarrow> db \<Rightarrow> string result" where
  "create_portal s api p d =
     rbind (require_org True p d) (\<lambda>r.
       case dict_get (billing_of r) ''stripe_customer_id'' of
         Some (JStr (c # cs)) \<Rightarrow> rbind (stripe_ready s api) (\<lambda>_. Inr (st_portal api (c # cs)))
       | _ \<Rightarrow> Inl (BillingError ''no billing account yet -- subscribe to a plan first''))"

text \<open>The webhook, which runs as a superuser.\<close>

definition event_object :: "(string \<times> json) list \<Rightarrow> (string \<times> json) list result" where
  "event_object event =
     (case dict_get event ''data'' of
        None \<Rightarrow> Inr []
      | Some (JObj dat) \<Rightarrow> (case dict_get dat ''object'' of
            None \<Rightarrow> Inr [] | Some (JObj obj) \<Rightarrow> Inr obj | Some _ \<Rightarrow> Inl (AttributeError ''object has no attribute get''))
      | Some _ \<Rightarrow> Inl (AttributeError ''object has no attribute get''))"

definition event_metadata :: "(string \<times> json) list \<Rightarrow> (string \<times> json) list result" where
  "event_metadata obj =
     (case dict_get obj ''metadata'' of
        None \<Rightarrow> Inr []
      | Some (JObj m) \<Rightarrow> Inr m
      | Some v \<Rightarrow> if truthy v then Inl (AttributeError ''object has no attribute get'') else Inr [])"

definition resolve_org :: "(string \<times> json) list \<Rightarrow> db \<Rightarrow> org_row option result" where
  "resolve_org obj d =
     rbind (event_metadata obj) (\<lambda>m.
       case dict_get m ''org_id'' of
         Some v \<Rightarrow>
           if truthy v
           then (case py_int v of
                   Some i \<Rightarrow> org_get_by_id i (superuser_principal 0) (orgs d)
                 | None \<Rightarrow> Inl (case v of JStr s \<Rightarrow> ValueError ''invalid literal for int()'' | _ \<Rightarrow> TypeError ''int() argument''))
           else (case dict_get obj ''customer'' of
                   Some (JStr c) \<Rightarrow> org_by_stripe_customer c (superuser_principal 0) (orgs d) | _ \<Rightarrow> Inr None)
       | None \<Rightarrow> (case dict_get obj ''customer'' of
                   Some (JStr c) \<Rightarrow> org_by_stripe_customer c (superuser_principal 0) (orgs d) | _ \<Rightarrow> Inr None))"

definition extra :: "string \<Rightarrow> json option \<Rightarrow> (string \<times> json) list" where
  "extra k v = (if v = None \<or> v = Some JNull then [] else [(k, the v)])"

definition set_billing :: "string \<Rightarrow> string \<Rightarrow> (string \<times> json) list \<Rightarrow> org_row \<Rightarrow> org_row" where
  "set_billing plan status extras r =
     with_billing (dict_merge (AList.update ''status'' (JStr status) (billing_of r)) extras) (r\<lparr>o_plan := plan\<rparr>)"

definition applied :: "string \<Rightarrow> (string \<times> json) list \<Rightarrow> org_row \<Rightarrow> org_row result" where
  "applied etype obj r =
     (if etype \<in> {''checkout.session.completed'', ''customer.subscription.updated''}
      then rbind (event_metadata obj) (\<lambda>m.
             let sub = (case dict_get obj ''subscription'' of
                   Some v \<Rightarrow> if truthy v then Some v else dict_get obj ''id'' | None \<Rightarrow> dict_get obj ''id'');
                 write = (\<lambda>plan. Inr (set_billing plan ''active''
                   (extra ''stripe_subscription_id'' sub @ extra ''current_period_end'' (dict_get obj ''current_period_end'')) r))
             in case dict_get m ''plan'' of
                  None \<Rightarrow> write (o_plan r)
                | Some (JStr plan) \<Rightarrow> write plan
                | Some JNull \<Rightarrow> Inl (IntegrityError ''null value in column plan'')
                | Some _ \<Rightarrow> Inl (DataError ''invalid input for query argument''))
      else if etype = ''invoice.payment_failed'' then Inr (set_billing (o_plan r) ''past_due'' [] r)
      else if etype = ''customer.subscription.deleted'' then Inr (set_billing ''free'' ''canceled'' [] r)
      else Inr r)"

definition seen_events :: "org_row \<Rightarrow> json list" where
  "seen_events r = (case dict_get (billing_of r) ''seen_events'' of Some (JList xs) \<Rightarrow> xs | _ \<Rightarrow> [])"

definition mark_seen :: "json list \<Rightarrow> json option \<Rightarrow> org_row \<Rightarrow> org_row" where
  "mark_seen seen event_id r =
     (case event_id of
        Some i \<Rightarrow> if truthy i then with_billing (AList.update ''seen_events'' (JList (last_n 50 (seen @ [i]))) (billing_of r)) r else r
      | None \<Rightarrow> r)"

definition apply_webhook_event :: "(string \<times> json) list \<Rightarrow> db \<Rightarrow> db result" where
  "apply_webhook_event event d =
     (let etype = (case dict_get event ''type'' of Some (JStr t) \<Rightarrow> t | _ \<Rightarrow> []); event_id = dict_get event ''id''
      in rbind (event_object event) (\<lambda>obj.
           rbind (resolve_org obj d) (\<lambda>found.
             case found of
               None \<Rightarrow> Inr d
             | Some r \<Rightarrow>
                 let seen = seen_events r
                 in if (case event_id of Some i \<Rightarrow> truthy i \<and> i \<in> set seen | None \<Rightarrow> False) then Inr d
                    else rbind (applied etype obj r) (\<lambda>r1. Inr (save_org (mark_seen seen event_id r1) d)))))"

section \<open>Tenant reads\<close>

text \<open>The readers of workspaces and projects keep the contract the memory readers keep.\<close>

interpretation ws_listing: tenant_reader ws_org_id ws_list_for_org
  by unfold_locales (auto simp: ws_list_for_org_def)

interpretation ws_named: tenant_reader ws_org_id "\<lambda>p ws. opt_list (ws_by_public_id pid p ws)" for pid
  by unfold_locales (auto simp: ws_by_public_id_def dest!: set_opt_list [THEN subsetD])

interpretation project_listing: tenant_reader pr_org_id "projects_for_workspace wid" for wid
  by unfold_locales (auto simp: projects_for_workspace_def)

interpretation project_named: tenant_reader pr_org_id "\<lambda>p prs. opt_list (project_by_public_id pid p prs)" for pid
  by unfold_locales (auto simp: project_by_public_id_def dest!: set_opt_list [THEN subsetD])

interpretation project_slugged: tenant_reader pr_org_id "\<lambda>p prs. opt_list (project_by_slug wid slug p prs)" for wid slug
  by unfold_locales (auto simp: project_by_slug_def dest!: set_opt_list [THEN subsetD])

section \<open>Signup\<close>

lemma dash_runs_chars: "c \<in> set (dash_runs b s) \<Longrightarrow> slug_char c \<or> c = CHR ''-''"
  by (induction b s rule: dash_runs.induct) (auto split: if_splits)

text \<open>The slug of a new organisation always fits its column of 64 characters.\<close>

lemma slugify_fits:
  assumes "length hex = 6"
  shows "length (slugify s @ ''-'' @ hex) \<le> 64 \<and> slugify s \<noteq> [] \<and> (\<forall>c \<in> set (slugify s). slug_char c \<or> c = CHR ''-'')"
proof -
  let ?t = "rstrip_by (\<lambda>c. c = CHR ''-'') (lstrip_by (\<lambda>c. c = CHR ''-'') (dash_runs False (py_lower s)))"
  have "set ?t \<subseteq> set (dash_runs False (py_lower s))"
    by (auto simp: rstrip_by_def lstrip_by_def dest!: set_dropWhileD)
  then have "\<forall>c \<in> set ?t. slug_char c \<or> c = CHR ''-''" using dash_runs_chars by blast
  moreover have "\<forall>c \<in> set ''org''. slug_char c" by code_simp
  ultimately show ?thesis using assms by (auto simp: slugify_def Let_def dest: in_set_takeD)
qed

text \<open>Ids still to be given out belong to nobody.\<close>

definition fresh_accounts :: "auth_db \<Rightarrow> bool" where
  "fresh_accounts a \<longleftrightarrow> (\<forall>u \<in> set (users a). us_id u < next_user_id a) \<and> (\<forall>m \<in> set (memberships a). mb_user_id m < next_user_id a)"

lemma grant_effect:
  assumes "grant env now p uid st sid r a = Inr a'"
  shows "users a' = users a \<and> memberships a' = memberships (repo_grant uid st sid r a)"
  using assms auth_audit_append_frame(1,2) [of env now "Some p" _ "repo_grant uid st sid r a" a']
  by (auto simp: grant_def Let_def repo_grant_def split: if_splits)

lemma new_grant:
  assumes "grant env now p uid st sid r a = Inr a'" and "\<not> list_ex (is_membership uid st sid) (memberships a)"
  shows "users a' = users a \<and> memberships a' = memberships a @ [\<lparr>mb_user_id = uid, mb_scope_type = st, mb_scope_id = sid, mb_role = r\<rparr>]"
  using grant_effect [OF assms(1)] assms(2) by (simp add: repo_grant_def)

lemma three_grants:
  assumes "grant_all env now p uid r [(ORG, i), (WORKSPACE, j), (PROJECT, k)] a = Inr a'"
    and "\<forall>m \<in> set (memberships a). mb_user_id m \<noteq> uid"
  shows "users a' = users a \<and> memberships a' = memberships a @
    [\<lparr>mb_user_id = uid, mb_scope_type = ORG, mb_scope_id = i, mb_role = r\<rparr>,
     \<lparr>mb_user_id = uid, mb_scope_type = WORKSPACE, mb_scope_id = j, mb_role = r\<rparr>,
     \<lparr>mb_user_id = uid, mb_scope_type = PROJECT, mb_scope_id = k, mb_role = r\<rparr>]"
proof -
  obtain a1 a2 where g: "grant env now p uid ORG i r a = Inr a1" "grant env now p uid WORKSPACE j r a1 = Inr a2"
    "grant env now p uid PROJECT k r a2 = Inr a'"
    using assms(1) by (auto simp: rbind_def split: sum.splits)
  have none: "\<not> list_ex (is_membership uid st sid) (memberships a)" for st sid
    using assms(2) by (auto simp: list_ex_iff is_membership_def)
  note 1 = new_grant [OF g(1) none]
  then have "\<not> list_ex (is_membership uid WORKSPACE j) (memberships a1)" using none by (simp add: is_membership_def)
  note 2 = new_grant [OF g(2) this]
  then have "\<not> list_ex (is_membership uid PROJECT k) (memberships a2)" using 1 none by (simp add: is_membership_def)
  from new_grant [OF g(3) this] show ?thesis using 1 2 by simp
qed

lemma access_token_claims:
  obtains c where "lo_access_token (issue_tokens env t0 ja jb uid pid) = ae_jwt_encode env c"
    and "dict_get c ''type'' = Some (JStr ''access'')" and "dict_get c ''sub'' = Some (JStr (show_int uid))"
proof -
  let ?ttl = "if jwt_access_ttl_seconds (ae_settings env) = 0 then jwt_access_ttl_seconds (ae_settings env)
    else jwt_access_ttl_seconds (ae_settings env)"
  let ?c = "dict_merge [(''sub'', JStr (show_int uid)), (''iat'', JInt (t0 div 1000000)),
      (''exp'', JInt ((t0 + seconds ?ttl) div 1000000)), (''type'', JStr ''access'')] [(''jti'', JStr ja)]"
  show thesis
    by (rule that [of ?c]) (simp_all add: issue_tokens_def encode_jwt_def Let_def dict_merge_def dict_get_def)
qed

lemma subject_of_user: "dict_get c ''sub'' = Some (JStr (show_int uid)) \<Longrightarrow> subject_id c = Inr uid"
proof -
  assume sub: "dict_get c ''sub'' = Some (JStr (show_int uid))"
  have "show_int uid \<noteq> []" using py_int_show_int [of uid] by (auto simp: py_int_def signed_def parse_digits_def py_strip_def lstrip_by_def rstrip_by_def)
  then show ?thesis using sub py_int_show_int [of uid] by (simp add: subject_id_def)
qed

text \<open>Whom an access token authenticates.\<close>

lemma token_principal:
  assumes "jwt_faithful env" and "ae_jwt_decode env t (lo_access_token (issue_tokens env t0 ja jb uid pid)) = Inr payload"
    and "user_by_id uid a = Some u" and "us_id u = uid"
  shows "principal_from_jwt env t (lo_access_token (issue_tokens env t0 ja jb uid pid)) a =
    Inr \<lparr>actor_id = uid, actor_kind = USER,
         p_org_id = (case find (\<lambda>(sc, _). ref_type sc = ORG) (roles_of (list_for_user uid a)) of None \<Rightarrow> 0 | Some (sc, _) \<Rightarrow> ref_id sc),
         p_scope = None, roles = roles_of (list_for_user uid a), key_scopes = {},
         max_sensitivity = max_sensitivity_of (map snd (roles_of (list_for_user uid a))), is_superuser = us_is_superuser u\<rparr>"
proof -
  obtain c where c: "lo_access_token (issue_tokens env t0 ja jb uid pid) = ae_jwt_encode env c"
    "dict_get c ''type'' = Some (JStr ''access'')" "dict_get c ''sub'' = Some (JStr (show_int uid))"
    by (rule access_token_claims)
  have "payload = c" using assms(1,2) c(1) by (auto simp: jwt_faithful_def)
  then show ?thesis
    using assms(2-4) c subject_of_user [OF c(3)]
    by (simp add: principal_from_jwt_def decode_jwt_def auth_error_def rbind_def Let_def)
qed

text \<open>The rows a signup adds.\<close>

lemma signup_rows_effect:
  assumes run: "signup_rows env now ids email password org_name display_name d a = Inr (u, d', a')"
    and fresh: "fresh_accounts a" "su_ws ids \<notin> ws_public_id ` set (workspaces d)"
  shows "\<exists>org ws pr. d' = d\<lparr>orgs := orgs d @ [org], workspaces := workspaces d @ [ws], projects := projects d @ [pr],
      next_org_id := next_org_id d + 1, next_workspace_id := next_workspace_id d + 1, next_project_id := next_project_id d + 1\<rparr> \<and>
    o_id org = next_org_id d \<and> o_plan org = ''free'' \<and> o_name org = org_name \<and> o_deleted_at org = None \<and>
    ws_org_id ws = o_id org \<and> pr_org_id pr = o_id org \<and> pr_workspace_id pr = ws_id ws \<and>
    users a' = users a @ [u] \<and> us_id u = next_user_id a \<and> us_email u = email \<and> us_deleted_at u = None \<and> \<not> us_is_superuser u \<and>
    memberships a' = memberships a @
      [\<lparr>mb_user_id = us_id u, mb_scope_type = ORG, mb_scope_id = o_id org, mb_role = OWNER\<rparr>,
       \<lparr>mb_user_id = us_id u, mb_scope_type = WORKSPACE, mb_scope_id = ws_id ws, mb_role = OWNER\<rparr>,
       \<lparr>mb_user_id = us_id u, mb_scope_type = PROJECT, mb_scope_id = pr_id pr, mb_role = OWNER\<rparr>]"
proof -
  obtain org d1 where org: "org_create (superuser_principal 0) (su_org ids) (slugify org_name @ ''-'' @ su_hex ids) org_name ''free'' d = Inr (org, d1)"
    using run by (auto simp: signup_rows_def rbind_def split: sum.splits)
  let ?p = "superuser_principal (o_id org)"
  obtain ws d2 where ws: "workspace_service_create ?p (su_ws ids) ''default'' ''Default workspace'' d1 = Inr (ws, d2)"
    using run org by (auto simp: signup_rows_def rbind_def Let_def split: sum.splits)
  obtain pr d3 where pr: "project_service_create ?p (ws_public_id ws) (su_project ids) ''default'' ''Default project'' d2 = Inr (Some pr, d3)"
    using run org ws by (auto simp: signup_rows_def rbind_def Let_def split: sum.splits option.splits)
  obtain u' a1 where u': "create_with_password env ?p (su_user ids) email password display_name False a = Inr (u', a1)"
    using run org ws pr by (auto simp: signup_rows_def rbind_def Let_def split: sum.splits)
  have g: "grant_all env now ?p (us_id u) OWNER [(ORG, o_id org), (WORKSPACE, ws_id ws), (PROJECT, pr_id pr)] a1 = Inr a'"
    and eq: "u' = u" "d' = d3"
    using run org ws pr u' by (auto simp: signup_rows_def rbind_def Let_def split: sum.splits)
  have O: "d1 = d\<lparr>orgs := orgs d @ [org], next_org_id := next_org_id d + 1\<rparr>" "o_id org = next_org_id d"
    "o_plan org = ''free''" "o_name org = org_name" "o_deleted_at org = None"
    using org by (auto simp: org_create_def Let_def split: if_splits)
  have "ws_create ?p (su_ws ids) ''default'' ''Default workspace'' d1 = Inr (ws, d2)"
    using ws by (auto simp: workspace_service_create_def rbind_def split: sum.splits)
  then have W: "d2 = d1\<lparr>workspaces := workspaces d1 @ [ws], next_workspace_id := next_workspace_id d1 + 1\<rparr>"
    "ws_org_id ws = o_id org" "ws_public_id ws = su_ws ids" "ws_deleted_at ws = None"
    by (auto simp: ws_create_def Let_def superuser_principal_def split: if_splits)
  have "filter (\<lambda>w. ws_public_id w = su_ws ids \<and> live_ws w) (workspaces d) = []"
    using fresh(2) by (auto simp: filter_empty_conv image_iff)
  then have "ws_by_public_id (ws_public_id ws) ?p (workspaces d2) = Some ws"
    using W O(1) by (simp add: ws_by_public_id_def tenant_rows_def superuser_principal_def first_row_def)
  then have "project_create ?p (su_project ids) (ws_id ws) ''default'' ''Default project'' d2 = Inr (pr, d3)"
    using pr by (auto simp: project_service_create_def rbind_def split: sum.splits)
  then have R: "d3 = d2\<lparr>projects := projects d2 @ [pr], next_project_id := next_project_id d2 + 1\<rparr>"
    "pr_org_id pr = o_id org" "pr_workspace_id pr = ws_id ws"
    by (auto simp: project_create_def Let_def superuser_principal_def split: if_splits)
  have U: "users a1 = users a @ [u]" "memberships a1 = memberships a" "us_id u = next_user_id a" "us_email u = email"
    "us_deleted_at u = None" "\<not> us_is_superuser u"
    using u' eq(1) by (auto simp: create_with_password_def create_user_def Let_def split: if_splits)
  have "\<forall>m \<in> set (memberships a1). mb_user_id m \<noteq> us_id u" using fresh(1) U(2,3) by (auto simp: fresh_accounts_def)
  note M = three_grants [OF g this]
  show ?thesis
    by (rule exI [of _ org], rule exI [of _ ws], rule exI [of _ pr]) (simp add: eq(2) R W O U M)
qed


section \<open>Billing\<close>

lemma filter_single: "filter P xs = [r] \<Longrightarrow> r \<in> set xs \<and> P r"
proof -
  assume f: "filter P xs = [r]"
  have "r \<in> set (filter P xs)" unfolding f by simp
  then show ?thesis by simp
qed

lemma unique_filter_update:
  assumes "distinct (map o_id os)" and "filter P os = [r]" and "o_id r' = o_id r" and "P r'"
  shows "filter P (map (\<lambda>x. if o_id x = o_id r' then r' else x) os) = [r']"
  using assms(1,2)
proof (induction os)
  case (Cons x os)
  show ?case
  proof (cases "P x")
    case True
    then have x: "x = r" "filter P os = []" using Cons.prems(2) by simp_all
    then have "map (\<lambda>x. if o_id x = o_id r' then r' else x) os = os"
      using Cons.prems(1) assms(3) by (intro map_idI) (auto simp: image_iff)
    then show ?thesis using x assms(3,4) by simp
  next
    case False
    then have "filter P os = [r]" using Cons.prems(2) by simp
    moreover from this have "r \<in> set os" by (rule filter_single [THEN conjunct1])
    ultimately show ?thesis using False Cons assms(3) by auto
  qed
qed simp

lemma filter_by_id:
  assumes "distinct (map o_id os)" and "first_row (filter (\<lambda>x. o_id x = i \<and> Q x) os) = Some r"
  shows "filter (\<lambda>x. o_id x = i \<and> Q x) os = [r]"
proof -
  let ?f = "filter (\<lambda>x. o_id x = i \<and> Q x) os"
  obtain rest where f: "?f = r # rest" using assms(2) by (auto simp: first_row_def split: list.splits)
  have "distinct (map o_id ?f)" by (rule distinct_map_filter [OF assms(1)])
  then have dist: "distinct (map o_id (r # rest))" unfolding f .
  have ids: "o_id x = i" if "x \<in> set (r # rest)" for x
  proof -
    have "x \<in> set ?f" unfolding f by (rule that)
    then show ?thesis by simp
  qed
  have "rest = []"
  proof (cases rest)
    case (Cons y ys)
    then have "o_id r = o_id y" using ids [of r] ids [of y] by simp
    then show ?thesis using dist Cons by simp
  qed
  then show ?thesis unfolding f by simp
qed

lemma billing_of_with [simp]: "billing_of (with_billing b r) = b"
  by (simp add: billing_of_def with_billing_def dict_get_def)

lemma with_billing_frame [simp]: "o_id (with_billing b r) = o_id r" "o_deleted_at (with_billing b r) = o_deleted_at r"
    "o_plan (with_billing b r) = o_plan r"
  by (simp_all add: with_billing_def)

text \<open>Only plan and settings of a row change, and the customer it belongs to stays.\<close>

definition same_customer :: "org_row \<Rightarrow> org_row \<Rightarrow> bool" where
  "same_customer r r' \<longleftrightarrow> r' = r\<lparr>o_plan := o_plan r', o_settings := o_settings r'\<rparr> \<and>
     dict_get (billing_of r') ''stripe_customer_id'' = dict_get (billing_of r) ''stripe_customer_id''"

lemma same_customer_trans: "same_customer r r1 \<Longrightarrow> same_customer r1 r2 \<Longrightarrow> same_customer r r2"
  by (cases r; cases r1; cases r2) (simp add: same_customer_def)

lemma set_billing_customer:
  assumes "\<forall>e \<in> set extras. fst e \<noteq> ''stripe_customer_id''"
  shows "same_customer r (set_billing plan status extras r)"
proof -
  have "dict_get (dict_merge b extras) ''stripe_customer_id'' = dict_get b ''stripe_customer_id''" for b
    using assms
  proof (induction extras arbitrary: b)
    case (Cons e extras)
    then show ?case by (cases e) (auto simp: dict_merge_def dict_get_def)
  qed (simp add: dict_merge_def)
  then have "dict_get (billing_of (set_billing plan status extras r)) ''stripe_customer_id'' = dict_get (billing_of r) ''stripe_customer_id''"
    by (simp add: set_billing_def) (simp add: dict_get_def)
  then show ?thesis by (simp add: same_customer_def) (simp add: set_billing_def with_billing_def)
qed

lemma extra_key: "e \<in> set (extra k v) \<Longrightarrow> fst e = k"
  by (auto simp: extra_def split: if_splits)

lemma applied_effect:
  assumes "applied etype obj r = Inr r1"
  shows "same_customer r r1 \<and> (o_plan r1 = o_plan r \<or>
    etype = ''customer.subscription.deleted'' \<and> o_plan r1 = ''free'' \<or>
    etype \<in> {''checkout.session.completed'', ''customer.subscription.updated''} \<and>
      (\<exists>m. event_metadata obj = Inr m \<and> dict_get m ''plan'' = Some (JStr (o_plan r1))))"
proof -
  have plan: "o_plan (set_billing plan status extras r) = plan" for plan status extras
    by (simp add: set_billing_def)
  let ?ex = "\<lambda>sub. extra ''stripe_subscription_id'' sub @ extra ''current_period_end'' (dict_get obj ''current_period_end'')"
  have ex: "same_customer r (set_billing plan ''active'' (?ex sub) r)" for plan sub
    by (rule set_billing_customer) (auto dest: extra_key)
  have no: "same_customer r (set_billing plan status [] r)" for plan status
    by (rule set_billing_customer) simp
  show ?thesis
  proof (cases "etype \<in> {''checkout.session.completed'', ''customer.subscription.updated''}")
    case True
    then obtain m where m: "event_metadata obj = Inr m"
      using assms by (cases "event_metadata obj") (simp_all add: applied_def rbind_def)
    obtain sub plan where "r1 = set_billing plan ''active'' (?ex sub) r"
      "plan = o_plan r \<or> dict_get m ''plan'' = Some (JStr plan)"
      using assms m unfolding applied_def if_P [OF True] by (auto simp: rbind_def Let_def split: option.splits json.splits)
    then show ?thesis using True m ex plan by metis
  next
    case upd: False
    show ?thesis
    proof (cases "etype = ''invoice.payment_failed''")
      case True
      then show ?thesis using assms no plan unfolding applied_def if_not_P [OF upd] by auto
    next
      case False
      then show ?thesis using assms no plan unfolding applied_def if_not_P [OF upd] if_not_P [OF False]
        by (auto simp: same_customer_def split: if_splits)
    qed
  qed
qed

lemma mark_seen_effect:
  assumes "truthy i"
  shows "same_customer r (mark_seen seen (Some i) r) \<and> o_plan (mark_seen seen (Some i) r) = o_plan r \<and>
    seen_events (mark_seen seen (Some i) r) = last_n 50 (seen @ [i])"
proof -
  have "dict_get (AList.update ''seen_events'' x b) ''stripe_customer_id'' = dict_get b ''stripe_customer_id''" for x b
    by (simp add: dict_get_def)
  then show ?thesis
    using assms by (simp add: mark_seen_def same_customer_def seen_events_def) (simp add: dict_get_def with_billing_def)
qed

lemma last_seen: "i \<in> set (last_n 50 (seen @ [i])) \<and> length (last_n 50 (seen @ [i])) \<le> 50"
  by (simp add: last_n_def)

lemma resolve_again:
  assumes "distinct (map o_id (orgs d))" and "resolve_org obj d = Inr (Some r)" and "same_customer r r'"
  shows "resolve_org obj (save_org r' d) = Inr (Some r') \<and> r \<in> set (orgs d)"
proof -
  have id: "o_id r' = o_id r" "o_deleted_at r' = o_deleted_at r"
    "dict_get (billing_of r') ''stripe_customer_id'' = dict_get (billing_of r) ''stripe_customer_id''"
    using assms(3) by (cases r; cases r'; simp add: same_customer_def)+
  have again: "filter P (orgs (save_org r' d)) = [r']" if "filter P (orgs d) = [r]" "P r'" for P
    using unique_filter_update [OF assms(1) that(1) id(1) that(2)] by (simp add: save_org_def)
  have in_d: "r \<in> set (orgs d)" if "filter P (orgs d) = [r]" for P
    by (rule filter_single [OF that, THEN conjunct1])
  have by_id: "org_get_by_id i (superuser_principal 0) (orgs (save_org r' d)) = Inr (Some r') \<and> r \<in> set (orgs d)"
    if "org_get_by_id i (superuser_principal 0) (orgs d) = Inr (Some r)" for i
  proof -
    have "first_row (filter (\<lambda>x. o_id x = i \<and> o_deleted_at x = None) (orgs d)) = Some r"
      using that by (simp add: org_get_by_id_def superuser_principal_def)
    then have f: "filter (\<lambda>x. o_id x = i \<and> o_deleted_at x = None) (orgs d) = [r]" by (rule filter_by_id [OF assms(1)])
    then have "o_id r = i \<and> o_deleted_at r = None" by (rule filter_single [THEN conjunct2])
    then show ?thesis using again [OF f] in_d [OF f] id by (simp add: org_get_by_id_def superuser_principal_def first_row_def)
  qed
  have by_customer: "org_by_stripe_customer c (superuser_principal 0) (orgs (save_org r' d)) = Inr (Some r') \<and> r \<in> set (orgs d)"
    if "org_by_stripe_customer c (superuser_principal 0) (orgs d) = Inr (Some r)" for c
  proof -
    let ?P = "\<lambda>x. dict_get (billing_of x) ''stripe_customer_id'' = Some (JStr c) \<and> o_deleted_at x = None"
    have f: "filter ?P (orgs d) = [r]"
      using that by (auto simp: org_by_stripe_customer_def superuser_principal_def one_or_none_def split: list.splits)
    then have "?P r" by (rule filter_single [THEN conjunct2])
    then show ?thesis using again [OF f] in_d [OF f] id
      by (simp add: org_by_stripe_customer_def superuser_principal_def one_or_none_def)
  qed
  show ?thesis
    using assms(2) by_id by_customer
    by (auto simp: resolve_org_def rbind_def split: sum.splits option.splits if_splits json.splits)
qed

text \<open>What an event that was not seen before does to the row it resolves to.\<close>

lemma webhook_run:
  assumes "apply_webhook_event event d = Inr d1" and "dict_get event ''id'' = Some i" and "truthy i"
  obtains "d1 = d" and "\<And>d2. d2 = d \<Longrightarrow> apply_webhook_event event d2 = Inr d2"
  | obj r r1 where "event_object event = Inr obj" and "resolve_org obj d = Inr (Some r)"
      and "applied (case dict_get event ''type'' of Some (JStr t) \<Rightarrow> t | _ \<Rightarrow> []) obj r = Inr r1"
      and "d1 = save_org (mark_seen (seen_events r) (Some i) r1) d"
proof -
  let ?etype = "case dict_get event ''type'' of Some (JStr t) \<Rightarrow> t | _ \<Rightarrow> []"
  obtain obj where obj: "event_object event = Inr obj"
    using assms(1) by (cases "event_object event") (simp_all add: apply_webhook_event_def rbind_def)
  obtain found where found: "resolve_org obj d = Inr found"
    using assms(1) obj by (cases "resolve_org obj d") (simp_all add: apply_webhook_event_def rbind_def)
  show thesis
  proof (cases found)
    case None
    then have "d1 = d" using assms(1) obj found by (simp add: apply_webhook_event_def rbind_def)
    then show thesis using that(1) assms(1) by blast
  next
    case (Some r)
    show thesis
    proof (cases "i \<in> set (seen_events r)")
      case True
      then have "d1 = d" using assms obj found Some by (simp add: apply_webhook_event_def rbind_def Let_def)
      then show thesis using that(1) assms(1) by blast
    next
      case False
      obtain r1 where r1: "applied ?etype obj r = Inr r1"
        using assms obj found Some False
        by (cases "applied ?etype obj r") (simp_all add: apply_webhook_event_def rbind_def Let_def)
      have "d1 = save_org (mark_seen (seen_events r) (Some i) r1) d"
        using assms obj found Some False r1 by (simp add: apply_webhook_event_def rbind_def Let_def)
      then show thesis using that(2) obj found Some r1 by blast
    qed
  qed
qed


section \<open>What the code leaves open\<close>

text \<open>Any principal of the organisation, with or without a role on the project, switches its review gate off.\<close>

lemma review_gate_unguarded:
  assumes "project_by_public_id pid p (projects d) = Some r"
  shows "\<exists>r' d'. set_review_mode p pid REVIEW_OFF d = Inr (r', d') \<and> pr_review_mode r' = REVIEW_OFF"
  using assms by (simp add: set_review_mode_def)

text \<open>An update that tells of an unpaid or past-due subscription marks the account active.\<close>

lemma unpaid_update_activates:
  assumes "event_metadata obj = Inr []"
  shows "\<exists>r1. applied ''customer.subscription.updated'' ((''status'', JStr ''unpaid'') # obj) r = Inr r1 \<and>
    dict_get (billing_of r1) ''status'' = Some (JStr ''active'')"
proof -
  have meta: "event_metadata ((''status'', JStr ''unpaid'') # obj) = Inr []"
    using assms by (simp add: event_metadata_def dict_get_def)
  have "dict_get (dict_merge (AList.update ''status'' x b) (extra ''stripe_subscription_id'' u @ extra ''current_period_end'' v)) ''status'' = Some x" for x b u v
    by (simp add: extra_def dict_merge_def dict_get_def)
  then show ?thesis using meta
    by (simp add: applied_def rbind_def Let_def set_billing_def) (simp add: dict_get_def)
qed

section \<open>Concrete instances\<close>

definition signup_claims :: claims where
  "signup_claims = [(''sub'', JStr ''8''), (''iat'', JInt 0), (''exp'', JInt 3600), (''type'', JStr ''access''), (''jti'', JStr ''a'')]"

definition signup_env :: auth_env where
  "signup_env = demo_auth_env\<lparr>ae_jwt_encode := (\<lambda>c. if c = signup_claims then ''tok'' else ''other''),
     ae_jwt_decode := (\<lambda>t token. if token = ''tok'' \<and> t < seconds 3600 then Inr signup_claims else Inl (JwtError ''Signature has expired''))\<rparr>"

definition signup_demo_ids :: signup_ids where
  "signup_demo_ids = \<lparr>su_hex = ''0a1b2c'', su_org = ''o'', su_ws = ''w'', su_project = ''p'', su_user = ''v'', su_jti1 = ''a'', su_jti2 = ''b''\<rparr>"

definition paid_event :: "(string \<times> json) list" where
  "paid_event = [(''id'', JStr ''evt_1''), (''type'', JStr ''checkout.session.completed''),
     (''data'', JObj [(''object'', JObj [(''metadata'', JObj [(''org_id'', JStr ''1''), (''plan'', JStr ''pro'')]),
        (''subscription'', JStr ''sub_1'')])])]"

definition free_org_db :: db where
  "free_org_db = empty_db\<lparr>orgs := [\<lparr>o_id = 1, o_public_id = ''o'', o_slug = ''acme'', o_name = ''Acme'', o_plan = ''free'',
     o_settings = [], o_deleted_at = None\<rparr>], next_org_id := 2\<rparr>"

lemma super_simps: "p_org_id (superuser_principal org) = org" "is_superuser (superuser_principal org)"
  by (simp_all add: superuser_principal_def)

lemma super_grants:
  assumes "org \<noteq> 0"
  shows "\<exists>a'. grant_all env now (superuser_principal org) uid r scopes a = Inr a'"
proof (induction scopes arbitrary: a)
  case (Cons sc scopes)
  obtain st sid where sc: "sc = (st, sid)" by force
  have "\<exists>a'. grant env now (superuser_principal org) uid st sid r a = Inr a'"
    using assms audit_append_total [of "Some (superuser_principal org)" org]
    by (simp add: grant_def Let_def can_own_def can_admin_def superuser_principal_def member_audit_def principal_org_def)
  then show ?case using Cons.IH by (auto simp: sc rbind_def)
qed simp

lemma demo_signup:
  "\<exists>tokens mails d' a'. register signup_env 0 signup_demo_ids ''n@b.c'' ''pw'' ''Acme'' [] (empty_db, demo_auth) = Inr (tokens, mails, d', a') \<and>
     lo_access_token tokens = ''tok''"
proof -
  let ?p = "superuser_principal 1"
  let ?u = "\<lparr>us_id = 8, us_public_id = ''v'', us_email = ''n@b.c'', us_password_hash = Some ''pw'', us_display_name = [],
     us_is_superuser = False, us_email_verified = False, us_last_login_at = None, us_deleted_at = None\<rparr>"
  have user: "create_with_password signup_env ?p ''v'' ''n@b.c'' ''pw'' [] False demo_auth =
      Inr (?u, demo_auth\<lparr>users := [demo_user, ?u], next_user_id := 9\<rparr>)"
  proof -
    have "py_lower ''a@b.c'' \<noteq> py_lower ''n@b.c''" by code_simp
    then show ?thesis
      by (simp add: create_with_password_def create_user_def is_admin_anywhere_def superuser_principal_def signup_env_def
          demo_auth_def demo_user_def demo_auth_env_def Let_def)
  qed
  have "\<exists>a'. grant_all signup_env 0 ?p 8 OWNER [(ORG, 1), (WORKSPACE, 1), (PROJECT, 1)]
      (demo_auth\<lparr>users := [demo_user, ?u], next_user_id := 9\<rparr>) = Inr a'"
    by (rule super_grants) simp
  then obtain a' where g: "grant_all signup_env 0 ?p 8 OWNER [(ORG, 1), (WORKSPACE, 1), (PROJECT, 1)]
      (demo_auth\<lparr>users := [demo_user, ?u], next_user_id := 9\<rparr>) = Inr a'" ..
  have "\<exists>d'. signup_rows signup_env 0 signup_demo_ids ''n@b.c'' ''pw'' ''Acme'' [] empty_db demo_auth = Inr (?u, d', a')"
    using user g
    by (simp add: signup_rows_def rbind_def org_create_def workspace_service_create_def enforce_workspace_quota_def ws_create_def
        project_service_create_def ws_by_public_id_def project_create_def org_get_by_id_def super_simps empty_db_def
        Let_def ws_count_for_org_def count_where_def tenant_rows_def first_row_def signup_demo_ids_def max_workspaces_def limits_for_def
        del: grant_all.simps)
  moreover have "lo_access_token (issue_tokens signup_env 0 ''a'' ''b'' 8 ''v'') = ''tok''"
  proof -
    have "show_int 8 = ''8''" by code_simp
    then show ?thesis
      by (simp add: issue_tokens_def encode_jwt_def Let_def dict_merge_def signup_env_def signup_claims_def demo_auth_env_def default_settings_def)
  qed
  moreover have "user_by_email ''n@b.c'' demo_auth = None" by code_simp
  ultimately show ?thesis by (auto simp: register_def signup_demo_ids_def)
qed



end
