(* ===== verification/Request_Limits.thy ===== *)
theory Request_Limits
  imports Authentication
begin

text \<open>
  What stands between a request and its handler: the token bucket (\<^verbatim>\<open>security/rate_limit.py\<close>), the daily
  quota (\<^verbatim>\<open>security/quota.py\<close>), and the rate-limit and idempotency middleware
  (\<^verbatim>\<open>kortex_api/middleware/ratelimit.py\<close>, \<^verbatim>\<open>kortex_api/middleware/idempotency.py\<close>).

  The state is Redis': buckets, counters and cached responses with the instant each key expires.  The
  Lua script is translated over the reals.  Parameters: whether Redis answers, SHA-256, and what a body
  becomes when it is decoded as UTF-8 with replacement.
\<close>

section \<open>Definitions\<close>

record http_request =
  rq_method :: string
  rq_path :: string
  rq_x_api_key :: "string option"
  rq_authorization :: "string option"
  rq_client_host :: "string option"
  rq_idempotency_key :: "string option"
  rq_body :: string

record http_response =
  rs_status :: int
  rs_body :: string
  rs_media_type :: "string option"
  rs_headers :: "(string \<times> string) list"

subsection \<open>Token bucket\<close>

text \<open>A bucket's tokens, the instant they were counted and the instant the key expires, in milliseconds.\<close>

record token_bucket =
  tb_tokens :: real
  tb_ts :: int
  tb_expires :: int

record rate_limit_decision =
  rl_allowed :: bool
  rl_retry_after_ms :: int

definition bucket_script :: "real \<Rightarrow> real \<Rightarrow> int \<Rightarrow> real \<Rightarrow> token_bucket option \<Rightarrow> rate_limit_decision \<times> token_bucket" where
  "bucket_script capacity refill now cost b =
     (let (tokens0, ts) = (case b of None \<Rightarrow> (capacity, now) | Some x \<Rightarrow> (tb_tokens x, tb_ts x));
          elapsed = real_of_int (max 0 (now - ts)) / 1000;
          tokens = min capacity (tokens0 + elapsed * refill);
          expires = now + (\<lceil>(capacity / refill) * 1000\<rceil> + 1000)
      in if tokens \<ge> cost
         then (\<lparr>rl_allowed = True, rl_retry_after_ms = 0\<rparr>, \<lparr>tb_tokens = tokens - cost, tb_ts = now, tb_expires = expires\<rparr>)
         else (\<lparr>rl_allowed = False, rl_retry_after_ms = \<lceil>((cost - tokens) / refill) * 1000\<rceil>\<rparr>,
               \<lparr>tb_tokens = tokens, tb_ts = now, tb_expires = expires\<rparr>))"

definition live_bucket :: "int \<Rightarrow> string \<Rightarrow> (string \<times> token_bucket) list \<Rightarrow> token_bucket option" where
  "live_bucket now key bs = (case map_of bs key of None \<Rightarrow> None | Some b \<Rightarrow> if now < tb_expires b then Some b else None)"

definition limiter_check ::
    "string \<Rightarrow> int \<Rightarrow> int \<Rightarrow> int \<Rightarrow> int \<Rightarrow> (string \<times> token_bucket) list \<Rightarrow> rate_limit_decision \<times> (string \<times> token_bucket) list" where
  "limiter_check key capacity window_seconds cost now bs =
     (let refill = real_of_int capacity / real_of_int (max window_seconds 1);
          (dec, b) = bucket_script (real_of_int capacity) refill now (real_of_int cost) (live_bucket now (''rl:'' @ key) bs)
      in (dec, AList.update (''rl:'' @ key) b bs))"

subsection \<open>Rate-limit middleware\<close>

definition bucket_for :: "string \<Rightarrow> string \<Rightarrow> string option" where
  "bucket_for path method =
     (if startswith path ''/livez'' \<or> startswith path ''/readyz'' \<or> path = ''/metrics'' then None
      else if path = ''/v1/search/recall'' then Some ''recall''
      else if method \<in> {''GET'', ''HEAD''} then Some ''read''
      else Some ''write'')"

text \<open>The subject of a token is a string: PyJWT accepts no other.\<close>

definition extract_key_id :: "auth_env \<Rightarrow> time \<Rightarrow> http_request \<Rightarrow> string option" where
  "extract_key_id env now rq =
     (let raw = (case truthy_str (rq_x_api_key rq) of Some k \<Rightarrow> Some k | None \<Rightarrow> bearer (rq_authorization rq) ''bearer kx_'')
      in case truthy_str raw of
           Some k \<Rightarrow> map_option (\<lambda>(pre, _). ''key:'' @ pre) (parse_api_key (ae_settings env) k)
         | None \<Rightarrow>
             (case bearer (rq_authorization rq) ''bearer '' of
                None \<Rightarrow> None
              | Some token \<Rightarrow>
                  (case decode_jwt env now token None of
                     Inr payload \<Rightarrow>
                       if claim_str payload ''sub'' \<noteq> [] then Some (''user:'' @ claim_str payload ''sub'')
                       else Some (''ip:'' @ (case rq_client_host rq of Some h \<Rightarrow> h | None \<Rightarrow> ''unknown''))
                   | Inl e \<Rightarrow> Some (''ip:'' @ (case rq_client_host rq of Some h \<Rightarrow> h | None \<Rightarrow> ''unknown'')))))"

definition bucket_capacity :: "settings \<Rightarrow> string \<Rightarrow> int" where
  "bucket_capacity s b = (if b = ''read'' then rate_limit_read_per_min s
     else if b = ''write'' then rate_limit_write_per_min s else rate_limit_recall_per_min s)"

text \<open>Either the handler runs, or the caller is told to wait that many seconds.\<close>

datatype gate = Passed | TooMany string int

definition ratelimit_dispatch ::
    "auth_env \<Rightarrow> time \<Rightarrow> int \<Rightarrow> http_request \<Rightarrow> (string \<times> token_bucket) list \<Rightarrow> gate \<times> (string \<times> token_bucket) list" where
  "ratelimit_dispatch env now now_ms rq bs =
     (case bucket_for (rq_path rq) (rq_method rq) of
        None \<Rightarrow> (Passed, bs)
      | Some b \<Rightarrow>
          (case extract_key_id env now rq of
             None \<Rightarrow> (Passed, bs)
           | Some key_id \<Rightarrow>
               if \<not> ae_redis env then (Passed, bs)
               else
                 let (dec, bs') = limiter_check (b @ '':'' @ key_id) (bucket_capacity (ae_settings env) b) 60 1 now_ms bs
                 in if rl_allowed dec then (Passed, bs')
                    else (TooMany b (max 1 (rl_retry_after_ms dec div 1000)), bs')))"

subsection \<open>Daily quota\<close>

text \<open>A counter per bucket, org and UTC day; each counter outlives its day.\<close>

type_synonym quota_counts = "((string \<times> int \<times> int) \<times> int) list"

definition check_daily_quota :: "bool \<Rightarrow> time \<Rightarrow> string \<Rightarrow> int \<Rightarrow> int \<Rightarrow> quota_counts \<Rightarrow> bool \<times> quota_counts" where
  "check_daily_quota redis now bucket org limit q =
     (if limit \<le> 0 then (True, q)
      else if \<not> redis then (True, q)
      else let k = (bucket, org, now div 86400000000);
               count = (case map_of q k of None \<Rightarrow> 0 | Some n \<Rightarrow> n) + 1
           in (count \<le> limit, AList.update k count q))"

subsection \<open>Idempotency middleware\<close>

datatype cached = Inflight | Stored http_response

text \<open>The store: what each key holds, with the second it expires.\<close>

type_synonym idem_store = "(string \<times> cached \<times> int) list"

definition INFLIGHT_TTL :: int where "INFLIGHT_TTL = 60"
definition CACHE_TTL :: int where "CACHE_TTL = 24 * 3600"

definition principal_token :: "settings \<Rightarrow> http_request \<Rightarrow> string" where
  "principal_token s rq =
     (case truthy_str (rq_x_api_key rq) of
        Some raw \<Rightarrow> ''k:'' @ (case parse_api_key s raw of Some (pre, _) \<Rightarrow> pre | None \<Rightarrow> take 12 raw)
      | None \<Rightarrow> (case bearer (rq_authorization rq) ''bearer '' of Some token \<Rightarrow> ''j:'' @ take 12 token | None \<Rightarrow> ''anon''))"

definition cache_key :: "settings \<Rightarrow> (string \<Rightarrow> string) \<Rightarrow> http_request \<Rightarrow> string" where
  "cache_key s sha256 rq = ''idem:'' @ principal_token s rq @ '':'' @ rq_method rq @ '':'' @ rq_path rq @ '':'' @
     the (rq_idempotency_key rq) @ '':'' @ take 16 (sha256 (rq_body rq))"

text \<open>The requests the middleware looks at: mutating, with a key of 1 to 200 characters.\<close>

definition guarded :: "http_request \<Rightarrow> bool" where
  "guarded rq = (rq_method rq \<in> {''POST'', ''PATCH'', ''PUT'', ''DELETE''} \<and>
     (case rq_idempotency_key rq of None \<Rightarrow> False | Some k \<Rightarrow> k \<noteq> [] \<and> length k \<le> 200))"

definition stored_at :: "int \<Rightarrow> string \<Rightarrow> idem_store \<Rightarrow> cached option" where
  "stored_at now k st = (case map_of st k of None \<Rightarrow> None | Some (v, e) \<Rightarrow> if now < e then Some v else None)"

definition replayed :: "http_response \<Rightarrow> http_response" where
  "replayed r = r\<lparr>rs_media_type := (case truthy_str (rs_media_type r) of Some m \<Rightarrow> Some m | None \<Rightarrow> Some ''application/json''),
     rs_headers := rs_headers r @ [(''Idempotent-Replay'', ''true'')]\<rparr>"

definition try_replay :: "int \<Rightarrow> string \<Rightarrow> idem_store \<Rightarrow> http_response option" where
  "try_replay now k st = (case stored_at now k st of Some (Stored r) \<Rightarrow> Some (replayed r) | _ \<Rightarrow> None)"

definition reserve :: "int \<Rightarrow> string \<Rightarrow> idem_store \<Rightarrow> bool \<times> idem_store" where
  "reserve now k st =
     (if stored_at now k st = None then (True, AList.update k (Inflight, now + INFLIGHT_TTL) st) else (False, st))"

definition storable :: "(string \<Rightarrow> string) \<Rightarrow> http_response \<Rightarrow> http_response" where
  "storable utf8 r = r\<lparr>rs_body := utf8 (rs_body r),
     rs_headers := filter (\<lambda>(h, _). py_lower h \<notin> {''content-length'', ''transfer-encoding''}) (rs_headers r)\<rparr>"

definition is_success :: "http_response \<Rightarrow> bool" where
  "is_success r = (200 \<le> rs_status r \<and> rs_status r < 300)"

definition complete :: "(string \<Rightarrow> string) \<Rightarrow> int \<Rightarrow> string \<Rightarrow> http_response \<Rightarrow> idem_store \<Rightarrow> idem_store" where
  "complete utf8 now k r st =
     (if is_success r then AList.update k (Stored (storable utf8 r), now + CACHE_TTL) st else AList.delete k st)"

definition conflict_response :: http_response where
  "conflict_response = \<lparr>rs_status = 409, rs_body = ''a request with this Idempotency-Key is in progress'',
     rs_media_type = Some ''application/problem+json'', rs_headers = []\<rparr>"

text \<open>One request on its own: the handler takes the service's state and may raise.\<close>

definition idempotent_dispatch ::
    "settings \<Rightarrow> (string \<Rightarrow> string) \<Rightarrow> (string \<Rightarrow> string) \<Rightarrow> bool \<Rightarrow> int \<Rightarrow> int \<Rightarrow> http_request
     \<Rightarrow> ('st \<Rightarrow> http_response result \<times> 'st) \<Rightarrow> idem_store \<Rightarrow> 'st \<Rightarrow> http_response result \<times> idem_store \<times> 'st" where
  "idempotent_dispatch s sha256 utf8 redis now later rq handler st x =
     (if \<not> guarded rq \<or> \<not> redis then (let (r, x') = handler x in (r, st, x'))
      else
        let k = cache_key s sha256 rq
        in case try_replay now k st of
             Some r \<Rightarrow> (Inr r, st, x)
           | None \<Rightarrow>
               (case reserve now k st of
                  (False, st1) \<Rightarrow> (Inr (case try_replay now k st1 of Some r \<Rightarrow> r | None \<Rightarrow> conflict_response), st1, x)
                | (True, st1) \<Rightarrow>
                    (case handler x of
                       (Inl e, x') \<Rightarrow> (Inl e, AList.delete k st1, x')
                     | (Inr r, x') \<Rightarrow> (Inr r, complete utf8 later k r st1, x'))))"

subsection \<open>Concurrent requests\<close>

text \<open>
  Requests run concurrently, and each Redis command is a step of its own.  A request is about to
  look the key up, has missed, was refused the reservation, runs its handler, or is over.
\<close>

datatype idem_pc = Arrived | Missed | Refused | Running int | Replayed http_response | Busy | Done http_response | Raised

record idem_config =
  ic_now :: int
  ic_store :: idem_store
  ic_pc :: "nat \<Rightarrow> idem_pc"

inductive idem_step :: "(string \<Rightarrow> string) \<Rightarrow> (nat \<Rightarrow> string) \<Rightarrow> idem_config \<Rightarrow> idem_config \<Rightarrow> bool"
  for utf8 and key where
  idem_look: "ic_pc c i = Arrived \<Longrightarrow>
     idem_step utf8 key c (c\<lparr>ic_pc := (ic_pc c)(i := case try_replay (ic_now c) (key i) (ic_store c) of
       Some r \<Rightarrow> Replayed r | None \<Rightarrow> Missed)\<rparr>)"
| idem_reserve: "ic_pc c i = Missed \<Longrightarrow> reserve (ic_now c) (key i) (ic_store c) = (ok, st) \<Longrightarrow>
     idem_step utf8 key c (c\<lparr>ic_store := st, ic_pc := (ic_pc c)(i := if ok then Running (ic_now c) else Refused)\<rparr>)"
| idem_look_again: "ic_pc c i = Refused \<Longrightarrow>
     idem_step utf8 key c (c\<lparr>ic_pc := (ic_pc c)(i := case try_replay (ic_now c) (key i) (ic_store c) of
       Some r \<Rightarrow> Replayed r | None \<Rightarrow> Busy)\<rparr>)"
| idem_complete: "ic_pc c i = Running t \<Longrightarrow>
     idem_step utf8 key c (c\<lparr>ic_store := complete utf8 (ic_now c) (key i) r (ic_store c), ic_pc := (ic_pc c)(i := Done r)\<rparr>)"
| idem_raise: "ic_pc c i = Running t \<Longrightarrow>
     idem_step utf8 key c (c\<lparr>ic_store := AList.delete (key i) (ic_store c), ic_pc := (ic_pc c)(i := Raised)\<rparr>)"
| idem_tick: "ic_now c \<le> t \<Longrightarrow> (\<And>i t0. ic_pc c i = Running t0 \<Longrightarrow> t < t0 + INFLIGHT_TTL) \<Longrightarrow>
     idem_step utf8 key c (c\<lparr>ic_now := t\<rparr>)"

abbreviation idem_reach :: "(string \<Rightarrow> string) \<Rightarrow> (nat \<Rightarrow> string) \<Rightarrow> idem_config \<Rightarrow> idem_config \<Rightarrow> bool" where
  "idem_reach utf8 key \<equiv> (idem_step utf8 key)\<^sup>*\<^sup>*"

definition idem_start :: "int \<Rightarrow> idem_config" where
  "idem_start t = \<lparr>ic_now = t, ic_store = [], ic_pc = (\<lambda>_. Arrived)\<rparr>"

text \<open>A request whose handler is running or has succeeded.\<close>

definition executed :: "idem_pc \<Rightarrow> bool" where
  "executed pc = (case pc of Running _ \<Rightarrow> True | Done r \<Rightarrow> is_success r | _ \<Rightarrow> False)"

section \<open>The token bucket\<close>

text \<open>The tokens a bucket holds at an instant; a missing or expired bucket is full.\<close>

definition level :: "real \<Rightarrow> real \<Rightarrow> int \<Rightarrow> token_bucket option \<Rightarrow> real" where
  "level cap refill now b = (case b of None \<Rightarrow> cap
     | Some x \<Rightarrow> if now < tb_expires x then min cap (tb_tokens x + real_of_int (max 0 (now - tb_ts x)) / 1000 * refill) else cap)"

definition bucket_ok :: "real \<Rightarrow> real \<Rightarrow> int \<Rightarrow> token_bucket option \<Rightarrow> bool" where
  "bucket_ok cap refill now b = (case b of None \<Rightarrow> True
     | Some x \<Rightarrow> 0 \<le> tb_tokens x \<and> tb_ts x \<le> now \<and> tb_ts x + \<lceil>(cap / refill) * 1000\<rceil> \<le> tb_expires x)"

lemma level_le: "level cap refill now b \<le> cap"
  by (simp add: level_def split: option.split)

lemma level_nonneg: "0 < refill \<Longrightarrow> 0 \<le> cap \<Longrightarrow> bucket_ok cap refill now b \<Longrightarrow> 0 \<le> level cap refill now b"
  by (auto simp: level_def bucket_ok_def split: option.split intro!: add_nonneg_nonneg mult_nonneg_nonneg)

lemma min_drift: "A = B + D \<Longrightarrow> 0 \<le> D \<Longrightarrow> min c (k + A) \<le> min c (k + B) + D"
  and min_full: "c \<le> A \<Longrightarrow> A = B + D \<Longrightarrow> 0 \<le> k \<Longrightarrow> 0 \<le> D \<Longrightarrow> c \<le> min c (k + B) + D" for A :: real
  by (simp_all add: min_def)

lemma level_drift:
  assumes "0 < refill" and "bucket_ok cap refill t b" and "t \<le> t'"
  shows "level cap refill t' b \<le> level cap refill t b + refill * real_of_int (t' - t) / 1000"
proof (cases b)
  case None
  then show ?thesis using assms by (simp add: level_def)
next
  case (Some x)
  have x: "0 \<le> tb_tokens x" "tb_ts x \<le> t" "tb_ts x + \<lceil>(cap / refill) * 1000\<rceil> \<le> tb_expires x"
    using assms(2) Some by (simp_all add: bucket_ok_def)
  have split: "real_of_int (t' - tb_ts x) / 1000 * refill =
      real_of_int (t - tb_ts x) / 1000 * refill + refill * real_of_int (t' - t) / 1000"
    by (simp add: field_simps)
  have drift: "0 \<le> refill * real_of_int (t' - t) / 1000"
    using assms by simp
  have full: "cap \<le> real_of_int (t' - tb_ts x) / 1000 * refill" if "tb_expires x \<le> t'"
  proof -
    have "(cap / refill) * 1000 \<le> real_of_int (t' - tb_ts x)"
      using x(3) that by linarith
    then show ?thesis using assms(1) by (simp add: field_simps)
  qed
  have m: "max 0 (t' - tb_ts x) = t' - tb_ts x" "max 0 (t - tb_ts x) = t - tb_ts x"
    using x(2) assms(3) by auto
  consider "t' < tb_expires x" | "t < tb_expires x" "tb_expires x \<le> t'" | "tb_expires x \<le> t" by linarith
  then show ?thesis
  proof cases
    case 1
    then have "t < tb_expires x" using assms(3) by simp
    with 1 show ?thesis
      using Some min_drift [OF split drift, of cap "tb_tokens x"] by (simp only: level_def m option.case if_True)
  next
    case 2
    then show ?thesis
      using Some min_full [OF full [OF 2(2)] split x(1) drift] by (simp add: level_def m)
  next
    case 3
    then show ?thesis using Some assms(3) drift by (simp add: level_def)
  qed
qed

lemma limiter_check_level:
  assumes b_def: "b = map_of bs (''rl:'' @ key)" and cap0: "0 < capacity" and win0: "0 < window" and ok: "bucket_ok (real_of_int capacity) (real_of_int capacity / real_of_int window) now b"
    and check: "limiter_check key capacity window 1 now bs = (dec, bs')"
    and l_def: "l = level (real_of_int capacity) (real_of_int capacity / real_of_int window) now b"
  shows "rl_allowed dec = (1 \<le> l)"
    and "\<exists>x. map_of bs' (''rl:'' @ key) = Some x \<and> tb_tokens x = (if rl_allowed dec then l - 1 else l) \<and> tb_ts x = now \<and> now < tb_expires x"
    and "bucket_ok (real_of_int capacity) (real_of_int capacity / real_of_int window) now (map_of bs' (''rl:'' @ key))"
    and "level (real_of_int capacity) (real_of_int capacity / real_of_int window) now (map_of bs' (''rl:'' @ key)) =
      (if rl_allowed dec then l - 1 else l)"
    and "\<not> rl_allowed dec \<Longrightarrow> rl_retry_after_ms dec = \<lceil>((1 - l) / (real_of_int capacity / real_of_int window)) * 1000\<rceil>"
    and "k \<noteq> ''rl:'' @ key \<Longrightarrow> map_of bs' k = map_of bs k"
proof -
  let ?r = "real_of_int capacity / real_of_int window"
  have r: "0 < ?r" using cap0 win0 by simp
  have cap: "0 < real_of_int capacity" using cap0 by simp
  obtain x where upd: "bs' = AList.update (''rl:'' @ key) x bs"
    and script: "bucket_script (real_of_int capacity) ?r now 1 (live_bucket now (''rl:'' @ key) bs) = (dec, x)"
  proof -
    have "max window 1 = window" using win0 by simp
    then show thesis
      using check that by (auto simp: limiter_check_def Let_def split: prod.splits)
  qed
  have l0: "0 \<le> l" "l \<le> real_of_int capacity"
    using level_nonneg [OF r _ ok] cap level_le by (simp_all add: l_def)
  have script': "bucket_script (real_of_int capacity) ?r now 1 (live_bucket now (''rl:'' @ key) bs) =
     (if 1 \<le> l then (\<lparr>rl_allowed = True, rl_retry_after_ms = 0\<rparr>,
         \<lparr>tb_tokens = l - 1, tb_ts = now, tb_expires = now + (\<lceil>(real_of_int capacity / ?r) * 1000\<rceil> + 1000)\<rparr>)
      else (\<lparr>rl_allowed = False, rl_retry_after_ms = \<lceil>((1 - l) / ?r) * 1000\<rceil>\<rparr>,
         \<lparr>tb_tokens = l, tb_ts = now, tb_expires = now + (\<lceil>(real_of_int capacity / ?r) * 1000\<rceil> + 1000)\<rparr>))"
    by (auto simp: bucket_script_def live_bucket_def l_def level_def b_def Let_def split: option.split)
  have nn: "0 \<le> \<lceil>(real_of_int capacity / ?r) * 1000\<rceil>"
  proof -
    have "0 \<le> (real_of_int capacity / ?r) * 1000" using win0 cap0 by simp
    then show ?thesis by linarith
  qed
  have x: "rl_allowed dec = (1 \<le> l)" "tb_tokens x = (if 1 \<le> l then l - 1 else l)" "tb_ts x = now"
    "tb_expires x = now + (\<lceil>(real_of_int capacity / ?r) * 1000\<rceil> + 1000)"
    "\<not> 1 \<le> l \<Longrightarrow> rl_retry_after_ms dec = \<lceil>((1 - l) / ?r) * 1000\<rceil>"
    using script script' by (auto split: if_splits)
  have exp: "now < tb_expires x" using x(4) nn by linarith
  have look: "map_of bs' (''rl:'' @ key) = Some x" by (simp add: upd update_Some_unfold)
  show "rl_allowed dec = (1 \<le> l)" by (rule x(1))
  show "\<exists>x. map_of bs' (''rl:'' @ key) = Some x \<and> tb_tokens x = (if rl_allowed dec then l - 1 else l) \<and> tb_ts x = now \<and> now < tb_expires x"
    using look x exp by simp
  show "bucket_ok (real_of_int capacity) ?r now (map_of bs' (''rl:'' @ key))"
    unfolding look bucket_ok_def using x l0 by simp
  show "level (real_of_int capacity) ?r now (map_of bs' (''rl:'' @ key)) = (if rl_allowed dec then l - 1 else l)"
    unfolding look level_def using x(1,2,3) exp l0 by simp
  show "\<not> rl_allowed dec \<Longrightarrow> rl_retry_after_ms dec = \<lceil>((1 - l) / ?r) * 1000\<rceil>"
    using x by simp
  show "k \<noteq> ''rl:'' @ key \<Longrightarrow> map_of bs' k = map_of bs k"
    by (simp add: upd update_conv')
qed

text \<open>A run of requests, and the requests of one caller in one bucket.\<close>

fun run_limiter :: "auth_env \<Rightarrow> (time \<times> int \<times> http_request) list \<Rightarrow> (string \<times> token_bucket) list
    \<Rightarrow> gate list \<times> (string \<times> token_bucket) list" where
  "run_limiter env [] bs = ([], bs)"
| "run_limiter env ((now, ms, rq) # rs) bs =
     (let (g, bs1) = ratelimit_dispatch env now ms rq bs; (gs, bs2) = run_limiter env rs bs1 in (g # gs, bs2))"

definition from_caller :: "auth_env \<Rightarrow> string \<Rightarrow> string \<Rightarrow> time \<times> int \<times> http_request \<Rightarrow> bool" where
  "from_caller env b kid x = (case x of (now, _, rq) \<Rightarrow>
     bucket_for (rq_path rq) (rq_method rq) = Some b \<and> extract_key_id env now rq = Some kid)"

definition passed_of :: "auth_env \<Rightarrow> string \<Rightarrow> string \<Rightarrow> (time \<times> int \<times> http_request) list \<Rightarrow> gate list \<Rightarrow> nat" where
  "passed_of env b kid rs gs = length (filter (\<lambda>(x, g). from_caller env b kid x \<and> g = Passed) (zip rs gs))"

lemma bucket_for_cases: "bucket_for path method = Some b \<Longrightarrow> b \<in> {''recall'', ''read'', ''write''}"
  by (auto simp: bucket_for_def split: if_splits)

lemma limiter_key_inj:
  "b \<in> {''recall'', ''read'', ''write''} \<Longrightarrow> b' \<in> {''recall'', ''read'', ''write''} \<Longrightarrow>
   b @ '':'' @ k = b' @ '':'' @ k' \<Longrightarrow> b = b' \<and> k = k'"
  by auto

definition limiter_key :: "string \<Rightarrow> string \<Rightarrow> string" where
  "limiter_key b kid = ''rl:'' @ b @ '':'' @ kid"

lemma dispatch_other:
  assumes "ratelimit_dispatch env now ms rq bs = (g, bs')" and "\<not> from_caller env b kid (now, ms, rq)"
    and "b \<in> {''recall'', ''read'', ''write''}"
  shows "map_of bs' (limiter_key b kid) = map_of bs (limiter_key b kid)"
proof -
  have "\<exists>x. bs' = AList.update (limiter_key b' k') x bs \<and> (b' \<noteq> b \<or> k' \<noteq> kid)"
    if "bucket_for (rq_path rq) (rq_method rq) = Some b'" "extract_key_id env now rq = Some k'" "bs' \<noteq> bs" for b' k'
    using assms(1,2) that
    by (auto simp: ratelimit_dispatch_def limiter_check_def from_caller_def limiter_key_def Let_def split: prod.splits if_splits)
  moreover have "bs' = bs" if "bucket_for (rq_path rq) (rq_method rq) = None \<or> extract_key_id env now rq = None"
    using assms(1) that by (auto simp: ratelimit_dispatch_def split: option.splits)
  ultimately consider "bs' = bs" | b' k' x where "bs' = AList.update (limiter_key b' k') x bs" "b' \<noteq> b \<or> k' \<noteq> kid"
      "bucket_for (rq_path rq) (rq_method rq) = Some b'"
    by (metis option.exhaust)
  then show ?thesis
  proof cases
    case 2
    then have "limiter_key b' k' \<noteq> limiter_key b kid"
      using limiter_key_inj [of b' b k' kid] bucket_for_cases assms(3) by (auto simp: limiter_key_def)
    then show ?thesis using 2(1) by (simp add: update_conv')
  qed simp
qed

lemma dispatch_caller:
  assumes "from_caller env b kid (now, ms, rq)" and "ae_redis env" and "0 < bucket_capacity (ae_settings env) b"
  defines "cap \<equiv> real_of_int (bucket_capacity (ae_settings env) b)"
  assumes "bucket_ok cap (cap / 60) ms (map_of bs (limiter_key b kid))"
    and "ratelimit_dispatch env now ms rq bs = (g, bs')"
  shows "bucket_ok cap (cap / 60) ms (map_of bs' (limiter_key b kid))"
    and "level cap (cap / 60) ms (map_of bs' (limiter_key b kid)) + (if g = Passed then 1 else 0) =
      level cap (cap / 60) ms (map_of bs (limiter_key b kid))"
proof -
  obtain dec where chk: "limiter_check (b @ '':'' @ kid) (bucket_capacity (ae_settings env) b) 60 1 ms bs = (dec, bs')"
    and g: "g = (if rl_allowed dec then Passed else TooMany b (max 1 (rl_retry_after_ms dec div 1000)))"
    using assms(1,2,6) by (auto simp: from_caller_def ratelimit_dispatch_def split: prod.splits if_splits)
  have ok: "bucket_ok (real_of_int (bucket_capacity (ae_settings env) b))
      (real_of_int (bucket_capacity (ae_settings env) b) / real_of_int 60) ms (map_of bs (''rl:'' @ b @ '':'' @ kid))"
    using assms(5) by (simp add: cap_def limiter_key_def)
  note f = limiter_check_level [OF refl assms(3) _ ok chk refl]
  show "bucket_ok cap (cap / 60) ms (map_of bs' (limiter_key b kid))"
    using f(3) by (simp add: cap_def limiter_key_def)
  show "level cap (cap / 60) ms (map_of bs' (limiter_key b kid)) + (if g = Passed then 1 else 0) =
      level cap (cap / 60) ms (map_of bs (limiter_key b kid))"
    using f(4) by (simp add: cap_def limiter_key_def g)
qed

lemma bucket_ok_later: "bucket_ok cap refill t b \<Longrightarrow> t \<le> t' \<Longrightarrow> bucket_ok cap refill t' b"
  by (auto simp: bucket_ok_def split: option.splits)

lemma run_limiter_bound:
  assumes "ae_redis env" and "0 < bucket_capacity (ae_settings env) b" and "b \<in> {''recall'', ''read'', ''write''}"
  defines "cap \<equiv> real_of_int (bucket_capacity (ae_settings env) b)"
  assumes "sorted (map (\<lambda>(_, ms, _). ms) rs)" and "\<forall>(_, ms, _) \<in> set rs. t \<le> ms \<and> ms \<le> t'" and "t \<le> t'"
    and "bucket_ok cap (cap / 60) t (map_of bs (limiter_key b kid))"
  shows "real (passed_of env b kid rs (fst (run_limiter env rs bs))) + level cap (cap / 60) t' (map_of (snd (run_limiter env rs bs)) (limiter_key b kid))
      \<le> level cap (cap / 60) t (map_of bs (limiter_key b kid)) + cap / 60 * real_of_int (t' - t) / 1000 \<and>
    bucket_ok cap (cap / 60) t' (map_of (snd (run_limiter env rs bs)) (limiter_key b kid))"
  using assms(5-8)
proof (induction rs arbitrary: t bs)
  case Nil
  have "0 < cap / 60" using assms(2) by (simp add: cap_def)
  from level_drift [OF this Nil.prems(4,3)] bucket_ok_later [OF Nil.prems(4,3)] show ?case
    by (simp add: passed_of_def)
next
  case (Cons x rs)
  obtain now ms rq where x: "x = (now, ms, rq)" by (cases x)
  obtain g bs1 where disp: "ratelimit_dispatch env now ms rq bs = (g, bs1)" by fastforce
  have pos: "0 < cap / 60" using assms(2) by (simp add: cap_def)
  have tms: "t \<le> ms" "ms \<le> t'" using Cons.prems(2) x by auto
  have ok: "bucket_ok cap (cap / 60) ms (map_of bs (limiter_key b kid))"
    by (rule bucket_ok_later [OF Cons.prems(4) tms(1)])
  have step: "bucket_ok cap (cap / 60) ms (map_of bs1 (limiter_key b kid)) \<and>
      level cap (cap / 60) ms (map_of bs1 (limiter_key b kid)) +
        (if from_caller env b kid x \<and> g = Passed then 1 else 0) = level cap (cap / 60) ms (map_of bs (limiter_key b kid))"
  proof (cases "from_caller env b kid x")
    case True
    then show ?thesis
      using dispatch_caller [of env b kid now ms rq bs g bs1] assms(1,2) ok disp x by (simp add: cap_def)
  next
    case False
    then show ?thesis using dispatch_other [OF disp _ assms(3)] ok x by simp
  qed
  have tail: "sorted (map (\<lambda>(_, ms, _). ms) rs)" "\<forall>(_, ms', _) \<in> set rs. ms \<le> ms' \<and> ms' \<le> t'"
    using Cons.prems(1,2) x by auto
  have count: "real (passed_of env b kid (x # rs) (g # gs)) =
      (if from_caller env b kid x \<and> g = Passed then 1 else 0) + real (passed_of env b kid rs gs)" for gs
    by (simp add: passed_of_def)
  have run: "run_limiter env (x # rs) bs = (g # fst (run_limiter env rs bs1), snd (run_limiter env rs bs1))"
    by (simp add: x disp split: prod.split)
  have "cap / 60 * real_of_int (t' - t) / 1000 = cap / 60 * real_of_int (ms - t) / 1000 + cap / 60 * real_of_int (t' - ms) / 1000"
    by (simp add: field_simps)
  then show ?case
    using Cons.IH [OF tail tms(2) conjunct1 [OF step]] level_drift [OF pos Cons.prems(4) tms(1)] step
    unfolding run fst_conv snd_conv count by linarith
qed

lemma run_limiter_append:
  "run_limiter env (xs @ ys) bs = (let (g1, bs1) = run_limiter env xs bs; (g2, bs2) = run_limiter env ys bs1 in (g1 @ g2, bs2))"
proof (induction xs arbitrary: bs)
  case (Cons x xs)
  then show ?case by (cases x) (simp add: Let_def split: prod.split)
qed simp

lemma limiter_wait:
  assumes "0 < capacity"
    and ok: "bucket_ok (real_of_int capacity) (real_of_int capacity / 60) now (map_of bs (''rl:'' @ key))"
    and deny: "limiter_check key capacity 60 1 now bs = (dec, bs')" "\<not> rl_allowed dec"
    and wait: "now + rl_retry_after_ms dec \<le> t"
  shows "rl_allowed (fst (limiter_check key capacity 60 1 t bs'))"
proof -
  let ?cap = "real_of_int capacity"
  let ?r = "?cap / 60"
  have cap: "1 \<le> ?cap" using assms(1) by simp
  then have r: "0 < ?r" by simp
  define l where "l = level ?cap ?r now (map_of bs (''rl:'' @ key))"
  have ok': "bucket_ok ?cap (?cap / real_of_int 60) now (map_of bs (''rl:'' @ key))" using ok by simp
  note f = limiter_check_level [OF refl assms(1) _ ok' deny(1) refl]
  have l: "l < 1" using f(1) deny(2) by (simp add: l_def)
  obtain x where x: "map_of bs' (''rl:'' @ key) = Some x" "tb_tokens x = l" "tb_ts x = now"
    using f(2) deny(2) by (auto simp: l_def)
  have retry: "rl_retry_after_ms dec = \<lceil>((1 - l) / ?r) * 1000\<rceil>"
    using f(5) deny(2) by (simp add: l_def)
  have l0: "0 \<le> l" using level_nonneg [OF r _ ok] cap by (simp add: l_def)
  have "((1 - l) / ?r) * 1000 \<le> real_of_int (t - now)" using wait retry by linarith
  then have gain: "1 - l \<le> real_of_int (t - now) / 1000 * ?r" using r by (simp add: field_simps)
  have "0 \<le> ((1 - l) / ?r) * 1000" using l r by simp
  then have later: "now \<le> t" using wait retry by linarith
  have "1 \<le> level ?cap ?r t (map_of bs' (''rl:'' @ key))"
    using x gain cap later by (simp add: level_def)
  moreover have ok2: "bucket_ok ?cap (?cap / real_of_int 60) t (map_of bs' (''rl:'' @ key))"
    using bucket_ok_later [OF _ later] f(3) by simp
  moreover obtain dec2 bs2 where chk: "limiter_check key capacity 60 1 t bs' = (dec2, bs2)" by fastforce
  ultimately show ?thesis
    using limiter_check_level(1) [OF refl assms(1) _ ok2 chk refl] by simp
qed


section \<open>Idempotent requests\<close>

text \<open>
  The invariant of the concurrent requests, for the day after \<open>t0\<close>: a running handler owns an
  unexpired reservation, a success is in the store, no two executed requests share a key, and what is stored or replayed is
  the response of a success with that key.
\<close>

definition answered :: "(string \<Rightarrow> string) \<Rightarrow> (nat \<Rightarrow> string) \<Rightarrow> idem_config \<Rightarrow> string \<Rightarrow> http_response \<Rightarrow> bool" where
  "answered utf8 key c k v = (\<exists>j r. key j = k \<and> ic_pc c j = Done r \<and> is_success r \<and> v = storable utf8 r)"

definition idem_inv :: "(string \<Rightarrow> string) \<Rightarrow> (nat \<Rightarrow> string) \<Rightarrow> int \<Rightarrow> idem_config \<Rightarrow> bool" where
  "idem_inv utf8 key t0 c = (t0 \<le> ic_now c \<and>
     (\<forall>i t. ic_pc c i = Running t \<longrightarrow> map_of (ic_store c) (key i) = Some (Inflight, t + INFLIGHT_TTL) \<and> ic_now c < t + INFLIGHT_TTL) \<and>
     (\<forall>i r. ic_pc c i = Done r \<and> is_success r \<longrightarrow>
        (\<exists>e. map_of (ic_store c) (key i) = Some (Stored (storable utf8 r), e) \<and> t0 + CACHE_TTL \<le> e)) \<and>
     (\<forall>i j. i \<noteq> j \<and> key i = key j \<longrightarrow> \<not> (executed (ic_pc c i) \<and> executed (ic_pc c j))) \<and>
     (\<forall>k v e. map_of (ic_store c) k = Some (Stored v, e) \<longrightarrow> answered utf8 key c k v) \<and>
     (\<forall>i r. ic_pc c i = Replayed r \<longrightarrow> (\<exists>v. answered utf8 key c (key i) v \<and> r = replayed v)))"

lemma idem_invD:
  assumes "idem_inv utf8 key t0 c"
  shows "t0 \<le> ic_now c"
    and "ic_pc c i = Running t \<Longrightarrow> map_of (ic_store c) (key i) = Some (Inflight, t + INFLIGHT_TTL) \<and> ic_now c < t + INFLIGHT_TTL"
    and "ic_pc c i = Done r \<Longrightarrow> is_success r \<Longrightarrow>
      \<exists>e. map_of (ic_store c) (key i) = Some (Stored (storable utf8 r), e) \<and> t0 + CACHE_TTL \<le> e"
    and "i \<noteq> j \<Longrightarrow> key i = key j \<Longrightarrow> executed (ic_pc c i) \<Longrightarrow> \<not> executed (ic_pc c j)"
    and "map_of (ic_store c) k = Some (Stored v, e) \<Longrightarrow> answered utf8 key c k v"
    and "ic_pc c i = Replayed x \<Longrightarrow> \<exists>v. answered utf8 key c (key i) v \<and> x = replayed v"
  using assms unfolding idem_inv_def by blast+

lemma idem_invI:
  assumes "t0 \<le> ic_now c"
    and "\<And>i t. ic_pc c i = Running t \<Longrightarrow> map_of (ic_store c) (key i) = Some (Inflight, t + INFLIGHT_TTL) \<and> ic_now c < t + INFLIGHT_TTL"
    and "\<And>i r. ic_pc c i = Done r \<Longrightarrow> is_success r \<Longrightarrow>
      \<exists>e. map_of (ic_store c) (key i) = Some (Stored (storable utf8 r), e) \<and> t0 + CACHE_TTL \<le> e"
    and "\<And>i j. i \<noteq> j \<Longrightarrow> key i = key j \<Longrightarrow> executed (ic_pc c i) \<Longrightarrow> \<not> executed (ic_pc c j)"
    and "\<And>k v e. map_of (ic_store c) k = Some (Stored v, e) \<Longrightarrow> answered utf8 key c k v"
    and "\<And>i r. ic_pc c i = Replayed r \<Longrightarrow> \<exists>v. answered utf8 key c (key i) v \<and> r = replayed v"
  shows "idem_inv utf8 key t0 c"
  unfolding idem_inv_def by (intro conjI allI impI) (use assms in blast)+

lemma executed_simps [simp]:
  "executed (Running t)" "executed (Done r) = is_success r" "\<not> executed Arrived" "\<not> executed Missed" "\<not> executed Refused"
  "\<not> executed (Replayed x)" "\<not> executed Busy" "\<not> executed Raised"
  by (simp_all add: executed_def)

text \<open>A step that moves one request that executes neither before nor after.\<close>

lemma idem_inv_idle:
  assumes inv: "idem_inv utf8 key t0 c" and "\<not> executed (ic_pc c i)" and "\<not> executed pc"
    and "\<And>r. pc = Replayed r \<Longrightarrow> \<exists>v. answered utf8 key c (key i) v \<and> r = replayed v"
  shows "idem_inv utf8 key t0 (c\<lparr>ic_pc := (ic_pc c)(i := pc)\<rparr>)"
proof -
  note d = idem_invD [OF inv]
  have keep: "answered utf8 key (c\<lparr>ic_pc := (ic_pc c)(i := pc)\<rparr>) k v" if ans: "answered utf8 key c k v" for k v
  proof -
    obtain j r where "key j = k" "ic_pc c j = Done r" "is_success r" "v = storable utf8 r"
      using ans by (auto simp: answered_def)
    moreover from this have "j \<noteq> i" using assms(2) by auto
    ultimately show ?thesis by (auto simp: answered_def)
  qed
  show ?thesis
  proof (rule idem_invI)
    fix j r
    assume "ic_pc (c\<lparr>ic_pc := (ic_pc c)(i := pc)\<rparr>) j = Replayed r"
    then have "\<exists>v. answered utf8 key c (key j) v \<and> r = replayed v"
      using d(6) assms(4) by (cases "j = i") auto
    then show "\<exists>v. answered utf8 key (c\<lparr>ic_pc := (ic_pc c)(i := pc)\<rparr>) (key j) v \<and> r = replayed v"
      using keep by blast
  next
    fix j r
    assume "ic_pc (c\<lparr>ic_pc := (ic_pc c)(i := pc)\<rparr>) j = Done r" "is_success r"
    moreover from this have "j \<noteq> i" using assms(3) by auto
    ultimately show "\<exists>e. map_of (ic_store (c\<lparr>ic_pc := (ic_pc c)(i := pc)\<rparr>)) (key j) = Some (Stored (storable utf8 r), e) \<and>
        t0 + CACHE_TTL \<le> e"
      using d(3) by simp
  next
    fix j t
    assume "ic_pc (c\<lparr>ic_pc := (ic_pc c)(i := pc)\<rparr>) j = Running t"
    moreover from this have "j \<noteq> i" using assms(3) by auto
    ultimately show "map_of (ic_store (c\<lparr>ic_pc := (ic_pc c)(i := pc)\<rparr>)) (key j) = Some (Inflight, t + INFLIGHT_TTL) \<and>
        ic_now (c\<lparr>ic_pc := (ic_pc c)(i := pc)\<rparr>) < t + INFLIGHT_TTL"
      using d(2) by simp
  next
    fix j k
    assume "j \<noteq> k" "key j = key k" "executed (ic_pc (c\<lparr>ic_pc := (ic_pc c)(i := pc)\<rparr>) j)"
    then show "\<not> executed (ic_pc (c\<lparr>ic_pc := (ic_pc c)(i := pc)\<rparr>) k)"
      using d(4) [of j k] assms(3) by (auto split: if_splits)
  qed (use d(1,5) keep in auto)
qed

lemma try_replay_answered:
  "idem_inv utf8 key t0 c \<Longrightarrow> try_replay (ic_now c) k (ic_store c) = Some r \<Longrightarrow> \<exists>v. answered utf8 key c k v \<and> r = replayed v"
  by (auto simp: try_replay_def stored_at_def dest: idem_invD(5) split: option.splits cached.splits if_splits prod.splits)

lemma reserved_free:
  assumes inv: "idem_inv utf8 key t0 c" and day: "ic_now c < t0 + CACHE_TTL"
    and "reserve (ic_now c) (key i) (ic_store c) = (True, st)" and "key j = key i"
  shows "\<not> executed (ic_pc c j)"
proof
  assume ex: "executed (ic_pc c j)"
  have free: "stored_at (ic_now c) (key i) (ic_store c) = None"
    using assms(3) by (auto simp: reserve_def split: if_splits)
  show False
  proof (cases "ic_pc c j")
    case (Running t)
    then show False using idem_invD(2) [OF inv Running] free assms(4) by (simp add: stored_at_def)
  next
    case (Done r)
    then show False using idem_invD(3) [OF inv Done] ex free day assms(4) by (auto simp: stored_at_def split: if_splits)
  qed (use ex in auto)
qed

lemma answered_keep:
  assumes "answered utf8 key c k v" and "\<And>r. ic_pc c i = Done r \<Longrightarrow> \<not> is_success r"
    and "\<And>j. j \<noteq> i \<Longrightarrow> ic_pc c' j = ic_pc c j"
  shows "answered utf8 key c' k v"
  using assms unfolding answered_def by metis

lemma idem_inv_reserve:
  assumes inv: "idem_inv utf8 key t0 c" and day: "ic_now c < t0 + CACHE_TTL" and pc: "ic_pc c i = Missed"
    and res: "reserve (ic_now c) (key i) (ic_store c) = (True, st)"
  shows "idem_inv utf8 key t0 (c\<lparr>ic_store := st, ic_pc := (ic_pc c)(i := Running (ic_now c))\<rparr>)" (is "idem_inv _ _ _ ?c")
proof -
  note d = idem_invD [OF inv] and free = reserved_free [OF inv day res]
  have st: "st = AList.update (key i) (Inflight, ic_now c + INFLIGHT_TTL) (ic_store c)"
    using res by (auto simp: reserve_def split: if_splits)
  have look: "map_of st k = (if k = key i then Some (Inflight, ic_now c + INFLIGHT_TTL) else map_of (ic_store c) k)" for k
    by (simp add: st update_conv')
  have keep: "answered utf8 key c k v \<Longrightarrow> answered utf8 key ?c k v" for k v
    by (rule answered_keep [where i = i]) (use pc in auto)
  have other: "key j \<noteq> key i" if "executed (ic_pc c j)" for j using free that by blast
  show ?thesis
  proof (rule idem_invI)
    fix j t
    assume j: "ic_pc ?c j = Running t"
    show "map_of (ic_store ?c) (key j) = Some (Inflight, t + INFLIGHT_TTL) \<and> ic_now ?c < t + INFLIGHT_TTL"
    proof (cases "j = i")
      case True
      then show ?thesis using j by (simp add: look INFLIGHT_TTL_def)
    next
      case False
      then have run: "ic_pc c j = Running t" using j by simp
      then have "key j \<noteq> key i" using other by simp
      then show ?thesis using d(2) [OF run] by (simp add: look)
    qed
  next
    fix j r
    assume "ic_pc ?c j = Done r" "is_success r"
    then have run: "ic_pc c j = Done r" "is_success r" by (auto split: if_splits)
    then have "key j \<noteq> key i" using other by simp
    then show "\<exists>e. map_of (ic_store ?c) (key j) = Some (Stored (storable utf8 r), e) \<and> t0 + CACHE_TTL \<le> e"
      using d(3) [OF run] by (simp add: look)
  next
    fix j k
    assume "j \<noteq> k" "key j = key k" "executed (ic_pc ?c j)"
    then show "\<not> executed (ic_pc ?c k)" using d(4) [of j k] other by (auto split: if_splits)
  next
    fix k v e
    assume "map_of (ic_store ?c) k = Some (Stored v, e)"
    then show "answered utf8 key ?c k v" using d(5) keep by (auto simp: look split: if_splits)
  next
    fix j r
    assume "ic_pc ?c j = Replayed r"
    then show "\<exists>v. answered utf8 key ?c (key j) v \<and> r = replayed v"
      using d(6) [of j r] keep by (auto split: if_splits)
  qed (use d(1) in simp)
qed

lemma idem_inv_release:
  assumes inv: "idem_inv utf8 key t0 c" and pc: "ic_pc c i = Running t" and "\<not> executed pc'" and "\<And>r. pc' \<noteq> Replayed r"
  shows "idem_inv utf8 key t0 (c\<lparr>ic_store := AList.delete (key i) (ic_store c), ic_pc := (ic_pc c)(i := pc')\<rparr>)" (is "idem_inv _ _ _ ?c")
proof -
  note d = idem_invD [OF inv]
  have look: "map_of (AList.delete (key i) (ic_store c)) k = (if k = key i then None else map_of (ic_store c) k)" for k
    by (simp add: delete_conv')
  have keep: "answered utf8 key c k v \<Longrightarrow> answered utf8 key ?c k v" for k v
    by (rule answered_keep [where i = i]) (use pc in auto)
  have other: "key j \<noteq> key i" if "executed (ic_pc c j)" "j \<noteq> i" for j
    using d(4) [of j i] that pc by auto
  show ?thesis
  proof (rule idem_invI)
    fix j t
    assume "ic_pc ?c j = Running t"
    then have run: "ic_pc c j = Running t" "j \<noteq> i" using assms(3) by (auto split: if_splits)
    then have "key j \<noteq> key i" using other by simp
    then show "map_of (ic_store ?c) (key j) = Some (Inflight, t + INFLIGHT_TTL) \<and> ic_now ?c < t + INFLIGHT_TTL"
      using d(2) [OF run(1)] by (simp add: look)
  next
    fix j r
    assume "ic_pc ?c j = Done r" "is_success r"
    then have run: "ic_pc c j = Done r" "is_success r" "j \<noteq> i" using assms(3) by (auto split: if_splits)
    then have "key j \<noteq> key i" using other by simp
    then show "\<exists>e. map_of (ic_store ?c) (key j) = Some (Stored (storable utf8 r), e) \<and> t0 + CACHE_TTL \<le> e"
      using d(3) [OF run(1,2)] by (simp add: look)
  next
    fix j k
    assume "j \<noteq> k" "key j = key k" "executed (ic_pc ?c j)"
    then show "\<not> executed (ic_pc ?c k)" using d(4) [of j k] assms(3) by (auto split: if_splits)
  next
    fix k v e
    assume "map_of (ic_store ?c) k = Some (Stored v, e)"
    then show "answered utf8 key ?c k v" using d(5) keep by (auto simp: look split: if_splits)
  next
    fix j r
    assume "ic_pc ?c j = Replayed r"
    then show "\<exists>v. answered utf8 key ?c (key j) v \<and> r = replayed v"
      using d(6) [of j r] keep assms(4) by (auto split: if_splits)
  qed (use d(1) in simp)
qed

lemma idem_inv_success:
  assumes inv: "idem_inv utf8 key t0 c" and pc: "ic_pc c i = Running t" and ok: "is_success r"
  shows "idem_inv utf8 key t0 (c\<lparr>ic_store := AList.update (key i) (Stored (storable utf8 r), ic_now c + CACHE_TTL) (ic_store c),
     ic_pc := (ic_pc c)(i := Done r)\<rparr>)" (is "idem_inv _ _ _ ?c")
proof -
  note d = idem_invD [OF inv]
  have look: "map_of (ic_store ?c) k = (if k = key i then Some (Stored (storable utf8 r), ic_now c + CACHE_TTL) else map_of (ic_store c) k)" for k
    by (simp add: update_conv')
  have keep: "answered utf8 key c k v \<Longrightarrow> answered utf8 key ?c k v" for k v
    by (rule answered_keep [where i = i]) (use pc in auto)
  have new: "answered utf8 key ?c (key i) (storable utf8 r)"
    unfolding answered_def by (intro exI [of _ i] exI [of _ r]) (simp add: ok)
  have other: "key j \<noteq> key i" if "executed (ic_pc c j)" "j \<noteq> i" for j
    using d(4) [of j i] that pc by auto
  show ?thesis
  proof (rule idem_invI)
    fix j t
    assume "ic_pc ?c j = Running t"
    then have run: "ic_pc c j = Running t" "j \<noteq> i" by (auto split: if_splits)
    then have "key j \<noteq> key i" using other by simp
    then show "map_of (ic_store ?c) (key j) = Some (Inflight, t + INFLIGHT_TTL) \<and> ic_now ?c < t + INFLIGHT_TTL"
      using d(2) [OF run(1)] unfolding look by simp
  next
    fix j x
    assume j: "ic_pc ?c j = Done x" "is_success x"
    show "\<exists>e. map_of (ic_store ?c) (key j) = Some (Stored (storable utf8 x), e) \<and> t0 + CACHE_TTL \<le> e"
    proof (cases "j = i")
      case True
      then show ?thesis using j d(1) unfolding look by simp
    next
      case False
      then have run: "ic_pc c j = Done x" using j by simp
      then have "key j \<noteq> key i" using other j(2) False by simp
      then show ?thesis using d(3) [OF run j(2)] unfolding look by simp
    qed
  next
    fix j k
    assume "j \<noteq> k" "key j = key k" "executed (ic_pc ?c j)"
    then show "\<not> executed (ic_pc ?c k)" using d(4) [of j k] other by (auto split: if_splits)
  next
    fix k v e
    assume "map_of (ic_store ?c) k = Some (Stored v, e)"
    then show "answered utf8 key ?c k v" unfolding look using d(5) keep new by (auto split: if_splits)
  next
    fix j x
    assume "ic_pc ?c j = Replayed x"
    then show "\<exists>v. answered utf8 key ?c (key j) v \<and> x = replayed v"
      using d(6) [of j x] keep by (auto split: if_splits)
  qed (use d(1) in simp)
qed

lemma idem_step_inv:
  assumes "idem_step utf8 key c c'" and "idem_inv utf8 key t0 c" and "ic_now c' < t0 + CACHE_TTL"
  shows "idem_inv utf8 key t0 c'"
  using assms
proof (induction rule: idem_step.induct)
  case (idem_look c i)
  then show ?case
    by (intro idem_inv_idle) (auto split: option.splits dest: try_replay_answered)
next
  case (idem_reserve c i ok st)
  show ?case
  proof (cases ok)
    case True
    then show ?thesis using idem_reserve idem_inv_reserve [of utf8 key t0 c i st] by simp
  next
    case False
    then have "st = ic_store c" using idem_reserve(2) by (auto simp: reserve_def split: if_splits)
    then show ?thesis
      using idem_inv_idle [of utf8 key t0 c i Refused] idem_reserve False by simp
  qed
next
  case (idem_look_again c i)
  then show ?case
    by (intro idem_inv_idle) (auto split: option.splits dest: try_replay_answered)
next
  case (idem_complete c i t r)
  then show ?case
    using idem_inv_success [of utf8 key t0 c i t r] idem_inv_release [of utf8 key t0 c i t "Done r"]
    by (cases "is_success r") (simp_all add: complete_def)
next
  case (idem_raise c i t)
  then show ?case using idem_inv_release [of utf8 key t0 c i t Raised] by simp
next
  case (idem_tick c t)
  note d = idem_invD [OF idem_tick(3)]
  have keep: "answered utf8 key (c\<lparr>ic_now := t\<rparr>) k v = answered utf8 key c k v" for k v
    by (simp add: answered_def)
  show ?case
  proof (rule idem_invI)
    show "t0 \<le> ic_now (c\<lparr>ic_now := t\<rparr>)" using d(1) idem_tick(1) by simp
  qed (use d idem_tick(2) in \<open>auto simp: keep\<close>)
qed

lemma idem_now_mono: "idem_step utf8 key c c' \<Longrightarrow> ic_now c \<le> ic_now c'"
  by (induction rule: idem_step.induct) simp_all

lemma idem_reach_inv:
  assumes "idem_reach utf8 key (idem_start t0) c" and "ic_now c < t0 + CACHE_TTL"
  shows "idem_inv utf8 key t0 c"
  using assms
proof (induction rule: rtranclp_induct)
  case base
  then show ?case by (simp add: idem_inv_def idem_start_def)
next
  case (step c c')
  then show ?case using idem_now_mono idem_step_inv by fastforce
qed


section \<open>Daily quota\<close>

definition used_today :: "string \<Rightarrow> int \<Rightarrow> time \<Rightarrow> quota_counts \<Rightarrow> int" where
  "used_today bucket org now q = (case map_of q (bucket, org, now div 86400000000) of None \<Rightarrow> 0 | Some n \<Rightarrow> n)"

lemma check_daily_quota_effect:
  assumes "check_daily_quota redis now bucket org limit q = (ok, q')"
  shows "ok = (limit \<le> 0 \<or> \<not> redis \<or> used_today bucket org now q < limit)"
    and "used_today b o' now q' = used_today b o' now q + (if 0 < limit \<and> redis \<and> b = bucket \<and> o' = org then 1 else 0)"
  using assms by (auto simp: check_daily_quota_def used_today_def Let_def update_conv' split: if_splits option.splits)

section \<open>Concrete instances\<close>

definition recall_post :: http_request where
  "recall_post = \<lparr>rq_method = ''POST'', rq_path = ''/v1/search/recall'', rq_x_api_key = Some minted_plain, rq_authorization = None,
     rq_client_host = None, rq_idempotency_key = Some ''k'', rq_body = ''q''\<rparr>"


definition created :: http_response where
  "created = \<lparr>rs_status = 201, rs_body = ''{}'', rs_media_type = Some ''application/json'', rs_headers = []\<rparr>"


section \<open>Behaviour worth knowing\<close>

text \<open>Tokens of one service begin with the same header, so twelve characters do not tell two users apart:
  the second user's request is answered with the first one's response, and its handler never runs.\<close>

definition jwt_post :: "string \<Rightarrow> string \<Rightarrow> string \<Rightarrow> http_request" where
  "jwt_post path body token = \<lparr>rq_method = ''POST'', rq_path = path, rq_x_api_key = None,
     rq_authorization = Some (''Bearer '' @ token), rq_client_host = None, rq_idempotency_key = Some ''k'', rq_body = body\<rparr>"

lemma jwt_users_share_replay:
  assumes "take 12 t1 = take 12 t2" and "CHR '' '' \<notin> set t1" and "CHR '' '' \<notin> set t2"
  shows "cache_key s sha256 (jwt_post p body t1) = cache_key s sha256 (jwt_post p body t2) \<and>
    idempotent_dispatch s sha256 utf8 True now later (jwt_post p body t2) handler [(cache_key s sha256 (jwt_post p body t1), Stored r, now + 1)] x =
      (Inr (replayed r), [(cache_key s sha256 (jwt_post p body t1), Stored r, now + 1)], x)"
proof -
  have tok: "bearer (Some (''Bearer '' @ t)) ''bearer '' = Some t" if "CHR '' '' \<notin> set t" for t
  proof -
    have "split_max 1 CHR '' '' (''Bearer'' @ CHR '' '' # t) = [''Bearer'', t]"
      using split_max_Suc [of "CHR '' ''" "''Bearer''" 0 t] by simp
    moreover have "startswith (py_lower (''Bearer'' @ CHR '' '' # t)) ''bearer ''"
      by (simp add: startswith_def py_lower_def) code_simp
    ultimately show ?thesis by (simp add: bearer_def)
  qed
  have "principal_token s (jwt_post p body t1) = principal_token s (jwt_post p body t2)"
    using assms(1) tok [OF assms(2), simplified] tok [OF assms(3), simplified]
    by (simp add: principal_token_def jwt_post_def truthy_str_def)
  then have key: "cache_key s sha256 (jwt_post p body t2) = cache_key s sha256 (jwt_post p body t1)"
    by (simp add: cache_key_def jwt_post_def)
  have "guarded (jwt_post p body t2)" by (simp add: guarded_def jwt_post_def)
  then show ?thesis
    using key by (simp add: idempotent_dispatch_def try_replay_def stored_at_def Let_def)
qed

text \<open>\<open>Retry-After\<close> is cut to whole seconds: a caller who waits that long is refused again.\<close>

lemma retry_after_too_short:
  defines "b \<equiv> \<lparr>tb_tokens = 1 / 5, tb_ts = 0, tb_expires = 61000\<rparr>"
  shows "rl_retry_after_ms (fst (bucket_script 30 (1 / 2) 0 1 (Some b))) = 1600 \<and> max 1 (1600 div 1000) = (1 :: int) \<and>
    \<not> rl_allowed (fst (bucket_script 30 (1 / 2) 1000 1 (Some (snd (bucket_script 30 (1 / 2) 0 1 (Some b))))))"
  by (simp add: bucket_script_def b_def)

end
