(* ===== verification/Workers.thy ===== *)
theory Workers
  imports Conflicts Request_Limits
begin

text \<open>
  The background tasks: embedding of pending memories (\<^verbatim>\<open>kortex_worker/tasks/embedding.py\<close>), conflict
  detection (\<^verbatim>\<open>tasks/conflict.py\<close>), the decay tick (\<^verbatim>\<open>tasks/decay.py\<close>) and consolidation
  (\<^verbatim>\<open>tasks/consolidate.py\<close>, \<^verbatim>\<open>skills/consolidator.py\<close>).  A task runs in one database session, committed when it
  returns and rolled back when it raises; Redis counters are not rolled back.

  Parameters: the embedder, the language models, the clustering library, fresh identifiers and the
  clock.  The embedder may answer the same text differently from call to call.
\<close>

section \<open>Definitions\<close>

record embedder =
  em_model_id :: string
  em_embed :: "nat \<Rightarrow> string list \<Rightarrow> real list list result"

record worker_env =
  we_settings :: settings
  we_pg :: pg_engine
  we_redis :: bool
  we_embedder :: "embedder result"
  we_llm :: "llm option"
  we_to_str :: "json \<Rightarrow> string"
  we_cluster :: "real list list \<Rightarrow> int list"
  we_uuid :: "int \<Rightarrow> string"

subsection \<open>Embedding\<close>

definition text_of :: "memory \<Rightarrow> string" where
  "text_of m = (if m_title m \<noteq> [] then py_strip (m_title m @ newline # m_body m) else m_body m)"

record embed_report =
  er_embedded :: int
  er_retrying :: int
  er_parked :: int
  er_note :: string

abbreviation worker :: "int \<Rightarrow> principal" where
  "worker org \<equiv> superuser_principal org"

fun embed_one_by_one ::
    "settings \<Rightarrow> embedder \<Rightarrow> time \<Rightarrow> nat \<Rightarrow> memory list \<Rightarrow> db \<Rightarrow> ((int \<times> int \<times> int) \<times> db) result" where
  "embed_one_by_one s em now k [] d = Inr ((0, 0, 0), d)"
| "embed_one_by_one s em now k (m # ms) d =
     (case em_embed em k [text_of m] of
        Inl (EmbeddingError e) \<Rightarrow>
          (let (failed, d1) = record_embed_failure (worker 0) [m_id m] e (embed_max_attempts s) (embed_retry_base_seconds s) now d
           in rbind (embed_one_by_one s em now (Suc k) ms d1) (\<lambda>((a, b, c), d2).
                Inr ((a, b + (1 - int failed), c + int failed), d2)))
      | Inl e \<Rightarrow> Inl e
      | Inr [] \<Rightarrow> Inl (IndexError ''list index out of range'')
      | Inr (v # _) \<Rightarrow>
          rbind (embed_one_by_one s em now (Suc k) ms (set_embedding (m_id m) v (em_model_id em) d)) (\<lambda>((a, b, c), d2).
            Inr ((a + 1, b, c), d2)))"

definition degraded :: "string \<Rightarrow> ((int \<times> int \<times> int) \<times> db) result \<Rightarrow> (embed_report \<times> db) result" where
  "degraded why r = rbind r (\<lambda>((a, b, c), d).
     Inr (\<lparr>er_embedded = a, er_retrying = b, er_parked = c, er_note = why\<rparr>, d))"

definition embed_batch :: "worker_env \<Rightarrow> time \<Rightarrow> db \<Rightarrow> (embed_report \<times> db) result" where
  "embed_batch env now d =
     (let s = we_settings env;
          skip = (\<lambda>why. Inr (\<lparr>er_embedded = 0, er_retrying = 0, er_parked = 0, er_note = why\<rparr>, d))
      in case we_embedder env of
           Inl (KeyError _) \<Rightarrow> skip ''embedder_unavailable''
         | Inl (EmbeddingError _) \<Rightarrow> skip ''embedder_unavailable''
         | Inl e \<Rightarrow> Inl e
         | Inr em \<Rightarrow>
             let pending = list_pending_embedding s now (embedder_batch_size s) (worker 0) (memories d)
             in if pending = [] then skip ''nothing_pending''
                else case em_embed em 0 (map text_of pending) of
                       Inl (EmbeddingError _) \<Rightarrow> degraded ''per_item'' (embed_one_by_one s em now 1 pending d)
                     | Inl e \<Rightarrow> Inl e
                     | Inr vs \<Rightarrow>
                         if length vs \<noteq> length pending
                         then degraded ''length_mismatch'' (embed_one_by_one s em now 1 pending d)
                         else Inr (\<lparr>er_embedded = int (length pending), er_retrying = 0, er_parked = 0, er_note = []\<rparr>,
                                   fold (\<lambda>(m, v). set_embedding (m_id m) v (em_model_id em)) (zip pending vs) d))"

definition retry_failed :: "int option \<Rightarrow> db \<Rightarrow> nat \<times> db" where
  "retry_failed org d = reset_embed_failures (worker 0) org d"

subsection \<open>Conflict detection\<close>

definition JUDGED_KINDS :: "memory_kind list" where
  "JUDGED_KINDS = [FACT, PREFERENCE, DECISION]"

definition relation_to_link :: "string \<Rightarrow> memory_link_type option" where
  "relation_to_link r = (if r = ''supersedes'' then Some SUPERSEDES else if r = ''contradicts'' then Some CONTRADICTS else None)"

definition as_candidate :: "memory \<Rightarrow> conflict_candidate" where
  "as_candidate m = \<lparr>cc_memory_id = m_id m, cc_public_id = m_public_id m, cc_title = m_title m, cc_body = m_body m,
     cc_created_at = m_created_at m\<rparr>"

fun write_verdicts :: "time \<Rightarrow> int \<Rightarrow> conflict_verdict list \<Rightarrow> db \<Rightarrow> (nat \<times> db) result" where
  "write_verdicts now mid [] d = Inr (0, d)"
| "write_verdicts now mid (v # vs) d =
     (case relation_to_link (cv_relation v) of
        None \<Rightarrow> write_verdicts now mid vs d
      | Some t \<Rightarrow> rbind (link_create now mid (cv_memory_id v) t (cv_confidence v) d) (\<lambda>(_, d1).
          rbind (write_verdicts now mid vs d1) (\<lambda>(n, d2). Inr (n + 1, d2))))"

definition judge_one :: "worker_env \<Rightarrow> time \<Rightarrow> memory \<Rightarrow> db \<Rightarrow> (nat \<times> db) result" where
  "judge_one env now m d =
     (let s = we_settings env;
          candidates = list_conflict_candidates (we_pg env) m (conflict_max_candidates s) (conflict_similarity_threshold s)
            (worker 0) (memories d)
      in if candidates = [] then Inr (0, d)
         else rbind (llm_judge s (we_to_str env) None (we_llm env) (as_candidate m) (map (as_candidate \<circ> fst) candidates))
                (\<lambda>vs. write_verdicts now (m_id m) vs d))"

text \<open>The memories judged, the links written and the number of blocked ones; the counters are kept in any case.\<close>

fun detect_loop ::
    "worker_env \<Rightarrow> time \<Rightarrow> memory list \<Rightarrow> db \<Rightarrow> quota_counts \<Rightarrow> (memory list \<times> nat \<times> nat \<times> db) result \<times> quota_counts" where
  "detect_loop env now [] d q = (Inr ([], 0, 0, d), q)"
| "detect_loop env now (m # ms) d q =
     (let (ok, q1) = check_daily_quota (we_redis env) now ''conflict'' (m_org_id m) (conflict_daily_quota_per_org (we_settings env)) q
      in if \<not> ok
         then (let (r, q2) = detect_loop env now ms d q1
               in (rbind r (\<lambda>(checked, n, blocked, d2). Inr (checked, n, blocked + 1, d2)), q2))
         else case judge_one env now m d of
                Inl e \<Rightarrow> (Inl e, q1)
              | Inr (n1, d1) \<Rightarrow>
                  (let (r, q2) = detect_loop env now ms d1 q1
                   in (rbind r (\<lambda>(checked, n, blocked, d2). Inr (m # checked, n1 + n, blocked, d2)), q2)))"

record conflict_report =
  cr_checked :: nat
  cr_links :: nat
  cr_blocked :: nat
  cr_note :: string

definition detect_batch :: "worker_env \<Rightarrow> time \<Rightarrow> db \<Rightarrow> quota_counts \<Rightarrow> conflict_report result \<times> db \<times> quota_counts" where
  "detect_batch env now d q =
     (let s = we_settings env;
          skip = (\<lambda>why. (Inr \<lparr>cr_checked = 0, cr_links = 0, cr_blocked = 0, cr_note = why\<rparr>, d, q));
          pending = list_pending_conflict_check JUDGED_KINDS (conflict_batch_size s) (worker 0) (memories d)
      in if \<not> conflict_detection s then skip ''disabled''
         else if pending = [] then skip ''no_pending''
         else case detect_loop env now pending d q of
                (Inl e, q1) \<Rightarrow> (Inl e, d, q1)
              | (Inr (checked, n, blocked, d1), q1) \<Rightarrow>
                  (Inr \<lparr>cr_checked = length checked, cr_links = n, cr_blocked = blocked, cr_note = []\<rparr>,
                   mark_conflict_checked now (map m_id checked) d1, q1))"

subsection \<open>Decay\<close>

definition decay_decide :: "settings \<Rightarrow> time \<Rightarrow> int \<Rightarrow> memory \<Rightarrow> decay_decision" where
  "decay_decide s now median m = evaluate_decay s
     \<lparr>di_importance = m_importance m, di_access_count = m_access_count m, di_last_accessed_at = m_last_accessed_at m,
      di_created_at = m_created_at m, di_tier = m_tier m, di_pinned = m_pinned m\<rparr> now median"

definition decay_row :: "settings \<Rightarrow> time \<Rightarrow> int \<Rightarrow> memory \<Rightarrow> db \<Rightarrow> db" where
  "decay_row s now median m d =
     (let dec = decay_decide s now median m
      in if should_hard_delete dec then snd (soft_delete now m d)
         else if should_archive dec then apply_decay (m_id m) (new_decay_score dec) (Some LONG) d
         else apply_decay (m_id m) (new_decay_score dec) (new_tier dec) d)"

record decay_report =
  dr_org :: int
  dr_scored :: nat
  dr_promoted :: nat
  dr_archived :: nat
  dr_deleted :: nat

definition decay_org :: "settings \<Rightarrow> time \<Rightarrow> int \<Rightarrow> int \<Rightarrow> db \<Rightarrow> decay_report \<times> db" where
  "decay_org s now org median d =
     (let rows = iter_for_decay org 500 (worker org) (memories d);
          dec = decay_decide s now median;
          deleted = (\<lambda>m. should_hard_delete (dec m));
          archived = (\<lambda>m. \<not> deleted m \<and> should_archive (dec m))
      in (\<lparr>dr_org = org, dr_scored = length rows,
           dr_promoted = count_where (\<lambda>m. \<not> deleted m \<and> \<not> archived m \<and> new_tier (dec m) \<noteq> None) rows,
           dr_archived = count_where archived rows, dr_deleted = count_where deleted rows\<rparr>,
          fold (decay_row s now median) rows d))"

definition tick_one_org :: "settings \<Rightarrow> time \<Rightarrow> int \<Rightarrow> db \<Rightarrow> (decay_report \<times> db) result" where
  "tick_one_org s now org d =
     rbind (median_access_count org (memories d)) (\<lambda>median. Inr (decay_org s now org median d))"

text \<open>Each org is its own session: what was committed before an org raises stays.\<close>

fun tick_orgs :: "settings \<Rightarrow> time \<Rightarrow> int list \<Rightarrow> db \<Rightarrow> decay_report list result \<times> db" where
  "tick_orgs s now [] d = (Inr [], d)"
| "tick_orgs s now (org # rest) d =
     (case tick_one_org s now org d of
        Inl e \<Rightarrow> (Inl e, d)
      | Inr (r, d1) \<Rightarrow> (let (rs, d2) = tick_orgs s now rest d1 in (rbind rs (\<lambda>xs. Inr (r # xs)), d2)))"

definition tick_all :: "settings \<Rightarrow> time \<Rightarrow> db \<Rightarrow> decay_report list result \<times> db" where
  "tick_all s now d = tick_orgs s now (list_orgs_with_memories (memories d)) d"

subsection \<open>Consolidation\<close>

record consolidation_result =
  co_title :: string
  co_body :: string
  co_derived_from_ids :: "int list"

text \<open>\<open>(payload.get(k) or alternative or "").strip()\<close> on a payload of strings.\<close>

definition payload_str :: "(string \<times> json) list \<Rightarrow> string \<Rightarrow> string \<Rightarrow> string result" where
  "payload_str payload k alternative =
     (case dict_get payload k of
        Some (JStr x) \<Rightarrow> Inr (py_strip (if x = [] then alternative else x))
      | None \<Rightarrow> Inr (py_strip alternative)
      | Some v \<Rightarrow> if v \<in> {JNull, JInt 0, JBool False, JFloat 0, JList [], JObj []} then Inr (py_strip alternative)
                  else Inl (AttributeError ''object has no attribute strip''))"

definition consolidate :: "settings \<Rightarrow> llm option \<Rightarrow> memory list \<Rightarrow> consolidation_result option result" where
  "consolidate s l cluster =
     (if cluster = [] then Inr None
      else case l of
             None \<Rightarrow> Inl (KeyError ''llm'')
           | Some llm \<Rightarrow>
               (case llm \<lparr>lc_system = CONSOLIDATOR_SYSTEM,
                         lc_user = py_join [newline, newline, CHR ''-'', CHR ''-'', CHR ''-'', newline, newline]
                           (map (\<lambda>m. m_title m @ newline # m_body m) cluster),
                         lc_model = llm_model_summarizer s, lc_max_tokens = 800, lc_schema = True\<rparr> of
                  Inl (LlmError _) \<Rightarrow> Inr None
                | Inl e \<Rightarrow> Inl e
                | Inr resp \<Rightarrow>
                    let payload = or_empty (lr_structured resp)
                    in rbind (payload_str payload ''title'' []) (\<lambda>title.
                         rbind (payload_str payload ''body'' (lr_text resp)) (\<lambda>body.
                           Inr (if body = [] then None
                                else Some \<lparr>co_title = (if title = [] then ''consolidated summary'' else title), co_body = body,
                                           co_derived_from_ids = map m_id cluster\<rparr>)))))"

text \<open>The rows of each cluster, in the order of the clusters' first rows; noise is left out.\<close>

definition cluster_groups :: "int list \<Rightarrow> nat list list" where
  "cluster_groups labels =
     map (\<lambda>l. filter (\<lambda>i. labels ! i = l) [0..<length labels]) (filter (\<lambda>l. l \<ge> 0) (rev (remdups (rev labels))))"

definition summary_args :: "memory \<Rightarrow> consolidation_result \<Rightarrow> create_args" where
  "summary_args anchor r = \<lparr>ca_scope_type = m_scope_type anchor, ca_scope_id = m_scope_id anchor, ca_body = co_body r,
     ca_title = co_title r, ca_kind = SUMMARY, ca_sensitivity = m_sensitivity anchor, ca_source_type = DERIVED,
     ca_source_ref = None, ca_importance = max (m_importance anchor) (7 / 10), ca_pinned = False, ca_metadata = None,
     ca_expires_at = None, ca_embedding = None, ca_embedding_model = None, ca_created_by = None, ca_content_hash = None,
     ca_trust = MEDIUM, ca_pii_flags = [], ca_review_status = APPROVED, ca_review_reason = None, ca_confidence = None,
     ca_ts_config = DEFAULT_TS_CONFIG\<rparr>"

fun derive_links :: "time \<Rightarrow> int \<Rightarrow> memory list \<Rightarrow> db \<Rightarrow> db result" where
  "derive_links now sid [] d = Inr d"
| "derive_links now sid (m # ms) d =
     rbind (link_create now sid (m_id m) DERIVED_FROM 1 d) (\<lambda>(_, d1).
       derive_links now sid ms (apply_decay (m_id m) (m_decay_score m * (1 / 2)) None d1))"

definition consolidate_cluster :: "worker_env \<Rightarrow> time \<Rightarrow> int \<Rightarrow> memory list \<Rightarrow> db \<Rightarrow> (nat \<times> db) result" where
  "consolidate_cluster env now org cluster d =
     rbind (consolidate (we_settings env) (we_llm env) cluster) (\<lambda>result.
       case result of
         None \<Rightarrow> Inr (0, d)
       | Some r \<Rightarrow>
           let (summary, d1) = memory_create (worker org) (we_uuid env (next_memory_id d)) now (summary_args (hd cluster) r) d
           in rbind (derive_links now (m_id summary) cluster (apply_decay (m_id summary) 1 (Some LONG) d1)) (\<lambda>d2. Inr (1, d2)))"

fun consolidate_clusters :: "worker_env \<Rightarrow> time \<Rightarrow> int \<Rightarrow> memory list list \<Rightarrow> db \<Rightarrow> (nat \<times> db) result" where
  "consolidate_clusters env now org [] d = Inr (0, d)"
| "consolidate_clusters env now org (c # cs) d =
     rbind (consolidate_cluster env now org c d) (\<lambda>(n, d1).
       rbind (consolidate_clusters env now org cs d1) (\<lambda>(n', d2). Inr (n + n', d2)))"

record consolidation_report =
  cn_org :: int
  cn_clusters :: nat
  cn_summaries :: nat
  cn_note :: string

definition consolidate_org :: "worker_env \<Rightarrow> time \<Rightarrow> int \<Rightarrow> db \<Rightarrow> (consolidation_report \<times> db) result" where
  "consolidate_org env now org d =
     (let skip = (\<lambda>why. Inr (\<lparr>cn_org = org, cn_clusters = 0, cn_summaries = 0, cn_note = why\<rparr>, d));
          candidates = list_for_consolidation org 500 (worker org) (memories d);
          labels = we_cluster env (map (the \<circ> m_embedding) candidates);
          clusters = map (map (\<lambda>i. candidates ! i)) (cluster_groups labels)
      in if candidates = [] then skip ''no_candidates''
         else if labels = [] \<or> set labels = {-1} then skip ''no_clusters''
         else rbind (consolidate_clusters env now org clusters d) (\<lambda>(n, d1).
                Inr (\<lparr>cn_org = org, cn_clusters = length clusters, cn_summaries = n, cn_note = []\<rparr>, d1)))"

fun consolidate_orgs :: "worker_env \<Rightarrow> time \<Rightarrow> int list \<Rightarrow> db \<Rightarrow> consolidation_report list result \<times> db" where
  "consolidate_orgs env now [] d = (Inr [], d)"
| "consolidate_orgs env now (org # rest) d =
     (case consolidate_org env now org d of
        Inl e \<Rightarrow> (Inl e, d)
      | Inr (r, d1) \<Rightarrow> (let (rs, d2) = consolidate_orgs env now rest d1 in (rbind rs (\<lambda>xs. Inr (r # xs)), d2)))"

definition consolidate_all :: "worker_env \<Rightarrow> time \<Rightarrow> db \<Rightarrow> consolidation_report list result \<times> db" where
  "consolidate_all env now d = consolidate_orgs env now (list_orgs_with_memories (memories d)) d"

section \<open>Row by row\<close>

definition embedded :: "string \<Rightarrow> real list \<Rightarrow> memory \<Rightarrow> memory" where
  "embedded model v m = m\<lparr>m_embedding := Some v, m_embedding_model := Some model, m_embed_attempts := 0,
     m_embed_error := None, m_embed_failed_at := None, m_embed_next_attempt_at := None\<rparr>"

lemma update_where_rows [simp]:
  "memories (update_where P f d) = map (\<lambda>m. if P m then f m else m) (memories d)"
  "links (update_where P f d) = links d" "next_memory_id (update_where P f d) = next_memory_id d"
  by (simp_all add: update_where_def)

lemma set_embedding_row: "set_embedding i v model = update_where (\<lambda>r. m_id r = i) (embedded model v)"
  by (rule ext) (simp add: set_embedding_def embedded_def)

lemma record_embed_failure_row:
  "memories (snd (record_embed_failure (worker 0) [i] e mx base now d)) =
     map (\<lambda>r. if m_id r = i then embed_failure e mx base now r else r) (memories d)"
proof -
  have "m_id r \<in> m_id ` set (list_by_ids [i] (worker 0) (memories d)) \<longleftrightarrow> m_id r = i" if "r \<in> set (memories d)" for r
    using that by (auto simp: list_by_ids_def tenant_rows_def superuser_principal_def)
  then show ?thesis by (auto simp: record_embed_failure_def Let_def)
qed

text \<open>What happened to a row whose memory \<open>m\<close> was embedded on its own.\<close>

definition settled :: "settings \<Rightarrow> embedder \<Rightarrow> time \<Rightarrow> memory \<Rightarrow> memory \<Rightarrow> memory \<Rightarrow> bool" where
  "settled s em now m r r' =
     ((\<exists>k v vs. em_embed em k [text_of m] = Inr (v # vs) \<and> r' = embedded (em_model_id em) v r) \<or>
      (\<exists>k e. em_embed em k [text_of m] = Inl (EmbeddingError e) \<and>
         r' = embed_failure e (embed_max_attempts s) (embed_retry_base_seconds s) now r))"

lemma settled_id: "settled s em now m r r' \<Longrightarrow> m_id r' = m_id r"
  using embed_failure_identity by (auto simp: settled_def embedded_def keeps_identity_def)

lemma embed_one_by_one_rows:
  assumes "distinct (map m_id ms)" and "embed_one_by_one s em now k ms d = Inr ((a, b, c), d')"
  shows "a + b + c = int (length ms) \<and> (\<exists>F. memories d' = map F (memories d) \<and>
    (\<forall>r. m_id r \<notin> m_id ` set ms \<longrightarrow> F r = r) \<and> (\<forall>m \<in> set ms. \<forall>r. m_id r = m_id m \<longrightarrow> settled s em now m r (F r)))"
  using assms
proof (induction ms arbitrary: k d a b c)
  case Nil
  then show ?case by (auto intro: exI [of _ id])
next
  case (Cons m ms)
  obtain G d1 a' b' c' where one: "memories d1 = map (\<lambda>r. if m_id r = m_id m then G r else r) (memories d)"
    and G: "\<And>r. settled s em now m r (G r)" and rest: "embed_one_by_one s em now (Suc k) ms d1 = Inr ((a', b', c'), d')"
    and sum: "a + b + c = a' + b' + c' + 1"
  proof (cases "em_embed em k [text_of m]")
    case (Inl e)
    then obtain msg where e: "e = EmbeddingError msg"
      using Cons.prems(2) by (cases e) auto
    let ?rec = "record_embed_failure (worker 0) [m_id m] msg (embed_max_attempts s) (embed_retry_base_seconds s) now d"
    obtain a' b' c' where "embed_one_by_one s em now (Suc k) ms (snd ?rec) = Inr ((a', b', c'), d')"
      "a + b + c = a' + b' + c' + 1"
      using Cons.prems(2) Inl e by (auto simp: rbind_def split: sum.splits prod.splits)
    moreover have "settled s em now m r (embed_failure msg (embed_max_attempts s) (embed_retry_base_seconds s) now r)" for r
      unfolding settled_def using Inl e by blast
    ultimately show thesis
      using that [OF record_embed_failure_row] by blast
  next
    case (Inr vs)
    then obtain v vs' where vs: "vs = v # vs'" using Cons.prems(2) by (cases vs) auto
    obtain a' b' c' where "embed_one_by_one s em now (Suc k) ms (set_embedding (m_id m) v (em_model_id em) d) = Inr ((a', b', c'), d')"
      "a + b + c = a' + b' + c' + 1"
      using Cons.prems(2) Inr vs by (auto simp: rbind_def split: sum.splits prod.splits)
    moreover have "settled s em now m r (embedded (em_model_id em) v r)" for r
      unfolding settled_def using Inr vs by blast
    moreover have "memories (set_embedding (m_id m) v (em_model_id em) d) =
        map (\<lambda>r. if m_id r = m_id m then embedded (em_model_id em) v r else r) (memories d)"
      by (simp add: set_embedding_row)
    ultimately show thesis using that by blast
  qed
  obtain F where F: "memories d' = map F (memories d1)" "\<forall>r. m_id r \<notin> m_id ` set ms \<longrightarrow> F r = r"
      "\<forall>x \<in> set ms. \<forall>r. m_id r = m_id x \<longrightarrow> settled s em now x r (F r)" and count: "a' + b' + c' = int (length ms)"
    using Cons.IH [OF _ rest] Cons.prems(1) by auto
  let ?F = "\<lambda>r. F (if m_id r = m_id m then G r else r)"
  have fresh: "m_id m \<notin> m_id ` set ms" using Cons.prems(1) by simp
  have "?F r = G r" if "m_id r = m_id m" for r
    using that F(2) fresh settled_id [OF G, of r] by simp
  moreover have "?F r = F r" if "m_id r \<noteq> m_id m" for r using that by simp
  moreover have "m_id x \<noteq> m_id m" if "x \<in> set ms" for x using that fresh by (metis image_eqI)
  ultimately have "\<forall>x \<in> set (m # ms). \<forall>r. m_id r = m_id x \<longrightarrow> settled s em now x r (?F r)"
    "\<forall>r. m_id r \<notin> m_id ` set (m # ms) \<longrightarrow> ?F r = r"
    using F(2,3) G by auto
  then show ?case using sum count one F(1) by (auto intro: exI [of _ ?F])
qed

text \<open>A loop of updates, each of the row with one of distinct ids.\<close>

lemma fold_rows:
  assumes "distinct (map m_id ms)" and "\<And>m r. m_id (f m r) = m_id r"
  shows "memories (fold (\<lambda>m. update_where (\<lambda>r. m_id r = m_id m) (f m)) ms d) =
      map (\<lambda>r. case find (\<lambda>m. m_id m = m_id r) ms of None \<Rightarrow> r | Some m \<Rightarrow> f m r) (memories d) \<and>
    links (fold (\<lambda>m. update_where (\<lambda>r. m_id r = m_id m) (f m)) ms d) = links d"
  using assms(1)
proof (induction ms arbitrary: d)
  case (Cons m ms)
  have "find (\<lambda>x. m_id x = m_id m) ms = None"
    using Cons.prems by (simp add: find_None_iff) (metis image_eqI)
  then show ?case using Cons by (auto simp: assms(2) split: option.split)
qed simp

lemma fold_own_rows:
  assumes "distinct (map m_id ms)" and "\<And>m r. m_id (f m r) = m_id r" and "distinct (map m_id (memories d))"
    and "set ms \<subseteq> set (memories d)"
  shows "memories (fold (\<lambda>m. update_where (\<lambda>r. m_id r = m_id m) (f m)) ms d) =
    map (\<lambda>r. if r \<in> set ms then f r r else r) (memories d)"
proof -
  have "find (\<lambda>m. m_id m = m_id r) ms = (if r \<in> set ms then Some r else None)" if "r \<in> set (memories d)" for r
  proof -
    have same: "m = r" if "m \<in> set ms" "m_id m = m_id r" for m
      using assms(3,4) that \<open>r \<in> set (memories d)\<close> by (auto simp: distinct_map inj_on_def)
    show ?thesis
    proof (cases "find (\<lambda>m. m_id m = m_id r) ms")
      case None
      then show ?thesis by (auto simp: find_None_iff)
    next
      case (Some x)
      then have "x \<in> set ms" "m_id x = m_id r" by (auto simp: find_Some_iff)
      then show ?thesis using Some same by auto
    qed
  qed
  then show ?thesis using fold_rows [where f = f and d = d, OF assms(1,2)] by (auto split: option.split)
qed

section \<open>Embedding\<close>

lemma pending_rows:
  "r \<in> set (list_pending_embedding s now n (worker 0) ms) \<Longrightarrow> r \<in> set ms"
  by (auto simp: list_pending_embedding_def tenant_rows_def superuser_principal_def dest: in_set_takeD)

lemma distinct_page: "distinct (map m_id ms) \<Longrightarrow> distinct (map m_id (take n (sort_key f (filter P ms))))"
proof -
  assume "distinct (map m_id ms)"
  then have "inj_on m_id (set ms)" "distinct ms" by (simp_all add: distinct_map)
  moreover have "set (take n (sort_key f (filter P ms))) \<subseteq> set ms" by (auto dest: in_set_takeD)
  ultimately show ?thesis
    by (auto simp: distinct_map intro: inj_on_subset)
qed

lemma pending_distinct:
  "distinct (map m_id ms) \<Longrightarrow> distinct (map m_id (list_pending_embedding s now n (worker 0) ms))"
  by (simp add: list_pending_embedding_def tenant_rows_def superuser_principal_def distinct_page)

lemma fold_zip_embeddings:
  assumes "distinct (map m_id ms)" and "length vs = length ms"
  shows "\<exists>F. memories (fold (\<lambda>(m, v). set_embedding (m_id m) v model) (zip ms vs) d) = map F (memories d) \<and>
    (\<forall>r. m_id r \<notin> m_id ` set ms \<longrightarrow> F r = r) \<and> (\<forall>r. m_id r \<in> m_id ` set ms \<longrightarrow> (\<exists>v. F r = embedded model v r))"
  using assms
proof (induction ms arbitrary: vs d)
  case Nil
  then show ?case by (auto intro: exI [of _ id])
next
  case (Cons m ms)
  obtain v vs' where vs: "vs = v # vs'" "length vs' = length ms" using Cons.prems(2) by (cases vs) auto
  obtain F where F: "memories (fold (\<lambda>(m, v). set_embedding (m_id m) v model) (zip ms vs') (set_embedding (m_id m) v model d)) =
      map F (memories (set_embedding (m_id m) v model d))" "\<forall>r. m_id r \<notin> m_id ` set ms \<longrightarrow> F r = r"
      "\<forall>r. m_id r \<in> m_id ` set ms \<longrightarrow> (\<exists>v. F r = embedded model v r)"
    using Cons.IH [OF _ vs(2), of "set_embedding (m_id m) v model d"] Cons.prems(1) by auto
  let ?F = "\<lambda>r. F (if m_id r = m_id m then embedded model v r else r)"
  have fresh: "m_id m \<notin> m_id ` set ms" using Cons.prems(1) by simp
  have "F (embedded model v r) = embedded model v r" if "m_id r = m_id m" for r
    using F(2) fresh that by (simp add: embedded_def)
  then have "\<forall>r. m_id r \<notin> m_id ` set (m # ms) \<longrightarrow> ?F r = r"
    "\<forall>r. m_id r \<in> m_id ` set (m # ms) \<longrightarrow> (\<exists>v. ?F r = embedded model v r)"
    using F(2,3) by auto
  moreover have "memories (fold (\<lambda>(m, v). set_embedding (m_id m) v model) (zip (m # ms) vs) d) = map ?F (memories d)"
    using F(1) by (simp add: vs(1) set_embedding_row comp_def)
  ultimately show ?case by blast
qed

lemma embed_batch_rows:
  assumes dist: "distinct (map m_id pending)" and em: "we_embedder env = Inr em" and run: "embed_batch env now d = Inr (rep, d')"
    and pending: "pending = list_pending_embedding (we_settings env) now (embedder_batch_size (we_settings env)) (worker 0) (memories d)"
  shows "er_embedded rep + er_retrying rep + er_parked rep = int (length pending) \<and> (\<exists>F. memories d' = map F (memories d) \<and>
      (\<forall>r. m_id r \<notin> m_id ` set pending \<longrightarrow> F r = r) \<and>
      (\<forall>m \<in> set pending. \<forall>r. m_id r = m_id m \<longrightarrow> (\<exists>v. F r = embedded (em_model_id em) v r) \<or> settled (we_settings env) em now m r (F r)))"
proof (cases "pending = []")
  case True
  then have "memories d' = map id (memories d)" "er_embedded rep + er_retrying rep + er_parked rep = 0"
    using em run pending by (auto simp: embed_batch_def Let_def)
  then show ?thesis using True by (intro conjI exI [of _ id]) auto
next
  case False
  have alone: ?thesis if deg: "degraded why (embed_one_by_one (we_settings env) em now 1 pending d) = Inr (rep, d')" for why
  proof -
    obtain a b c where one: "embed_one_by_one (we_settings env) em now 1 pending d = Inr ((a, b, c), d')"
      and rep: "er_embedded rep = a" "er_retrying rep = b" "er_parked rep = c"
      using deg by (cases "embed_one_by_one (we_settings env) em now 1 pending d") (auto simp: degraded_def rbind_def)
    show ?thesis using embed_one_by_one_rows [OF dist one] rep by auto
  qed
  show ?thesis
  proof (cases "em_embed em 0 (map text_of pending)")
    case (Inl e)
    then obtain msg where "e = EmbeddingError msg"
      using em run pending False by (cases e) (auto simp: embed_batch_def Let_def)
    then show ?thesis using em run pending False Inl alone by (simp add: embed_batch_def Let_def)
  next
    case (Inr vs)
    show ?thesis
    proof (cases "length vs = length pending")
      case True
      then have "d' = fold (\<lambda>(m, v). set_embedding (m_id m) v (em_model_id em)) (zip pending vs) d"
        "er_embedded rep + er_retrying rep + er_parked rep = int (length pending)"
        using em run pending False Inr by (auto simp: embed_batch_def Let_def)
      note d' = this
      obtain F where "memories d' = map F (memories d)" "\<forall>r. m_id r \<notin> m_id ` set pending \<longrightarrow> F r = r"
        and emb: "\<forall>r. m_id r \<in> m_id ` set pending \<longrightarrow> (\<exists>v. F r = embedded (em_model_id em) v r)"
        using fold_zip_embeddings [OF dist True, of "em_model_id em" d] d'(1) by blast
      moreover have "\<exists>v. F r = embedded (em_model_id em) v r" if "m \<in> set pending" "m_id r = m_id m" for m r
        using emb that by (metis image_eqI)
      ultimately show ?thesis using d'(2) by blast
    next
      case False
      then show ?thesis using em run pending \<open>pending \<noteq> []\<close> Inr alone by (simp add: embed_batch_def Let_def)
    qed
  qed
qed

text \<open>
  C23. No pending memory is dropped silently: after a batch every memory that was pending is either
  embedded, with its failure state cleared, or has the failure recorded and counted towards its retries; every other row is
  as it was; and a memory whose own text can be embedded is embedded, whatever the texts it was batched with do.
  The report counts every pending memory once.
\<close>

theorem embed_batch_settles:
  assumes "distinct (map m_id (memories d))" and "we_embedder env = Inr em" and "embed_batch env now d = Inr (rep, d')"
    and pending: "pending = list_pending_embedding (we_settings env) now (embedder_batch_size (we_settings env)) (worker 0) (memories d)"
  shows "er_embedded rep + er_retrying rep + er_parked rep = int (length pending) \<and>
    (\<exists>F. memories d' = map F (memories d) \<and> (\<forall>r \<in> set (memories d).
       if r \<in> set pending
       then (\<exists>v. F r = embedded (em_model_id em) v r) \<or>
            (\<exists>e. F r = embed_failure e (embed_max_attempts (we_settings env)) (embed_retry_base_seconds (we_settings env)) now r \<and>
               (\<exists>k. em_embed em k [text_of r] = Inl (EmbeddingError e)))
       else F r = r))"
proof -
  let ?s = "we_settings env"
  have sub: "set pending \<subseteq> set (memories d)" using pending pending_rows by auto
  have dist: "distinct (map m_id pending)" using pending pending_distinct assms(1) by auto
  have own: "m = r" if "m \<in> set pending" "m_id m = m_id r" "r \<in> set (memories d)" for m r
    using assms(1) sub that by (auto simp: distinct_map inj_on_def)
  obtain F where count: "er_embedded rep + er_retrying rep + er_parked rep = int (length pending)"
    and F: "memories d' = map F (memories d)" "\<And>r. m_id r \<notin> m_id ` set pending \<Longrightarrow> F r = r"
      "\<And>r. r \<in> set pending \<Longrightarrow> (\<exists>v. F r = embedded (em_model_id em) v r) \<or> settled ?s em now r r (F r)"
    using embed_batch_rows [OF dist assms(2,3) pending] by blast
  have away: "m_id r \<notin> m_id ` set pending" if "r \<in> set (memories d)" "r \<notin> set pending" for r
  proof
    assume "m_id r \<in> m_id ` set pending"
    then obtain m where "m \<in> set pending" "m_id m = m_id r" by auto
    then show False using own [of m r] that by simp
  qed
  have "if r \<in> set pending then (\<exists>v. F r = embedded (em_model_id em) v r) \<or>
      (\<exists>e. F r = embed_failure e (embed_max_attempts ?s) (embed_retry_base_seconds ?s) now r \<and>
         (\<exists>k. em_embed em k [text_of r] = Inl (EmbeddingError e))) else F r = r" if "r \<in> set (memories d)" for r
  proof (cases "r \<in> set pending")
    case True
    from F(3) [OF True] have "(\<exists>v. F r = embedded (em_model_id em) v r) \<or>
      (\<exists>e. F r = embed_failure e (embed_max_attempts ?s) (embed_retry_base_seconds ?s) now r \<and>
         (\<exists>k. em_embed em k [text_of r] = Inl (EmbeddingError e)))"
      unfolding settled_def by blast
    then show ?thesis using True by (simp only: if_True)
  next
    case False
    then show ?thesis using F(2) [OF away [OF that False]] by (simp only: if_False)
  qed
  then show ?thesis using count F(1) by blast
qed

section \<open>Decay\<close>

definition decayed :: "settings \<Rightarrow> time \<Rightarrow> int \<Rightarrow> memory \<Rightarrow> memory \<Rightarrow> memory" where
  "decayed s now median m r =
     (let dec = decay_decide s now median m
      in if should_hard_delete dec then r\<lparr>m_deleted_at := Some now\<rparr>
         else set_opt (if should_archive dec then Some LONG else new_tier dec) (\<lambda>t x. x\<lparr>m_tier := t\<rparr>)
                (r\<lparr>m_decay_score := new_decay_score dec\<rparr>))"

lemma decay_row_update: "decay_row s now median m = update_where (\<lambda>r. m_id r = m_id m) (decayed s now median m)"
  by (rule ext) (simp add: decay_row_def decayed_def Let_def soft_delete_def save_def apply_decay_def)

lemma decayed_id: "m_id (decayed s now median m r) = m_id r"
  by (simp add: decayed_def Let_def set_opt_def split: option.split)

lemma disjoint_filters:
  assumes "\<And>x. \<not> (P x \<and> Q x) \<and> \<not> (P x \<and> R x) \<and> \<not> (Q x \<and> R x)"
  shows "length (filter P xs) + length (filter Q xs) + length (filter R xs) \<le> length xs"
proof (induction xs)
  case (Cons x xs)
  then show ?case using assms [of x] by auto
qed simp

lemma decay_rows_own:
  "r \<in> set (iter_for_decay org n (worker org) ms) \<Longrightarrow> r \<in> set ms \<and> m_org_id r = org \<and> live r \<and> \<not> m_pinned r"
  by (auto simp: iter_for_decay_def tenant_rows_def superuser_principal_def dest: in_set_takeD)

lemma decay_rows_distinct:
  "distinct (map m_id ms) \<Longrightarrow> distinct (map m_id (iter_for_decay org n (worker org) ms))"
  by (simp add: iter_for_decay_def tenant_rows_def superuser_principal_def distinct_page)

lemma evaluate_decay_facts:
  assumes "\<not> di_pinned i"
  shows "0 \<le> new_decay_score (evaluate_decay s i now median)" "new_decay_score (evaluate_decay s i now median) \<le> 1"
    and "should_hard_delete (evaluate_decay s i now median) \<Longrightarrow> di_tier i = SHORT \<and>
      total_seconds (now - di_created_at i) / 86400 \<ge> real_of_int (decay_short_delete_age_days s) \<and>
      new_decay_score (evaluate_decay s i now median) < decay_short_delete_threshold s"
    and "should_archive (evaluate_decay s i now median) \<Longrightarrow> di_tier i = MID"
    and "new_tier (evaluate_decay s i now median) = None \<or> di_tier i = SHORT \<and> new_tier (evaluate_decay s i now median) = Some MID"
proof -
  show "0 \<le> new_decay_score (evaluate_decay s i now median)" "new_decay_score (evaluate_decay s i now median) \<le> 1"
    "should_archive (evaluate_decay s i now median) \<Longrightarrow> di_tier i = MID"
    "new_tier (evaluate_decay s i now median) = None \<or> di_tier i = SHORT \<and> new_tier (evaluate_decay s i now median) = Some MID"
    using assms unfolding evaluate_decay_def Let_def by simp_all
  have "should_hard_delete (evaluate_decay s i now median) = (di_tier i = SHORT \<and>
      total_seconds (now - di_created_at i) / 86400 \<ge> real_of_int (decay_short_delete_age_days s) \<and>
      new_decay_score (evaluate_decay s i now median) < decay_short_delete_threshold s)"
    unfolding evaluate_decay_def Let_def using assms by (simp only: if_False decay_decision.simps)
  then show "should_hard_delete (evaluate_decay s i now median) \<Longrightarrow> di_tier i = SHORT \<and>
      total_seconds (now - di_created_at i) / 86400 \<ge> real_of_int (decay_short_delete_age_days s) \<and>
      new_decay_score (evaluate_decay s i now median) < decay_short_delete_threshold s"
    by simp
qed

lemma decay_facts:
  assumes "\<not> m_pinned r"
  shows "0 \<le> new_decay_score (decay_decide s now median r)" "new_decay_score (decay_decide s now median r) \<le> 1"
    and "should_hard_delete (decay_decide s now median r) \<Longrightarrow> m_tier r = SHORT \<and>
      total_seconds (now - m_created_at r) / 86400 \<ge> real_of_int (decay_short_delete_age_days s) \<and>
      new_decay_score (decay_decide s now median r) < decay_short_delete_threshold s"
    and "should_archive (decay_decide s now median r) \<Longrightarrow> m_tier r = MID"
    and "new_tier (decay_decide s now median r) = None \<or> m_tier r = SHORT \<and> new_tier (decay_decide s now median r) = Some MID"
proof -
  define i where "i = \<lparr>di_importance = m_importance r, di_access_count = m_access_count r,
      di_last_accessed_at = m_last_accessed_at r, di_created_at = m_created_at r, di_tier = m_tier r, di_pinned = m_pinned r\<rparr>"
  have i: "\<not> di_pinned i" "di_tier i = m_tier r" "di_created_at i = m_created_at r" "decay_decide s now median r = evaluate_decay s i now median"
    using assms by (simp_all add: i_def decay_decide_def)
  note f = evaluate_decay_facts [OF i(1), of s now median, unfolded i(2,3)]
  show "0 \<le> new_decay_score (decay_decide s now median r)" "new_decay_score (decay_decide s now median r) \<le> 1"
    "new_tier (decay_decide s now median r) = None \<or> m_tier r = SHORT \<and> new_tier (decay_decide s now median r) = Some MID"
    unfolding i(4) by (fact f)+
  show "should_hard_delete (decay_decide s now median r) \<Longrightarrow> m_tier r = SHORT \<and>
      total_seconds (now - m_created_at r) / 86400 \<ge> real_of_int (decay_short_delete_age_days s) \<and>
      new_decay_score (decay_decide s now median r) < decay_short_delete_threshold s"
    "should_archive (decay_decide s now median r) \<Longrightarrow> m_tier r = MID"
    unfolding i(4) by (fact f(3), fact f(4))
qed

lemma decay_org_rows:
  assumes "distinct (map m_id (memories d))" and "decay_org s now org median d = (rep, d')"
  shows "memories d' = map (\<lambda>r. if r \<in> set (iter_for_decay org 500 (worker org) (memories d)) then decayed s now median r r else r) (memories d)"
    and "links d' = links d"
proof -
  let ?rows = "iter_for_decay org 500 (worker org) (memories d)"
  have "decay_row s now median = (\<lambda>m. update_where (\<lambda>r. m_id r = m_id m) (decayed s now median m))"
    by (rule ext) (rule decay_row_update)
  then have d': "d' = fold (\<lambda>m. update_where (\<lambda>r. m_id r = m_id m) (decayed s now median m)) ?rows d"
    using assms(2) by (simp add: decay_org_def Let_def)
  show "memories d' = map (\<lambda>r. if r \<in> set ?rows then decayed s now median r r else r) (memories d)"
    unfolding d' by (rule fold_own_rows) (use assms(1) decay_rows_distinct decay_rows_own decayed_id in auto)
  show "links d' = links d"
    unfolding d' using fold_rows [where f = "decayed s now median" and d = d, OF decay_rows_distinct [OF assms(1)] decayed_id] by blast
qed

text \<open>
  C22. A decay tick forgets nothing it should keep: no row is removed and no text is changed; only live, unpinned
  memories of the org are touched, and of those only score, tier and deletion mark; a memory is
  marked deleted only in the short tier, past the cutoff age and below the score threshold; tiers
  only move up.
\<close>

theorem decay_tick_sound:
  assumes "distinct (map m_id (memories d))" and "decay_org s now org median d = (rep, d')"
  shows "list_all2 (\<lambda>r r'. r' = r \<or>
      m_org_id r = org \<and> live r \<and> \<not> m_pinned r \<and>
      r' = r\<lparr>m_decay_score := m_decay_score r', m_tier := m_tier r', m_deleted_at := m_deleted_at r'\<rparr> \<and>
      (live r' \<longrightarrow> 0 \<le> m_decay_score r' \<and> m_decay_score r' \<le> 1) \<and>
      (m_tier r' = m_tier r \<or> m_tier r = SHORT \<and> m_tier r' = MID \<or> m_tier r = MID \<and> m_tier r' = LONG) \<and>
      (\<not> live r' \<longrightarrow> m_tier r = SHORT \<and> m_deleted_at r' = Some now \<and>
         total_seconds (now - m_created_at r) / 86400 \<ge> real_of_int (decay_short_delete_age_days s) \<and>
         new_decay_score (decay_decide s now median r) < decay_short_delete_threshold s)) (memories d) (memories d') \<and>
    links d' = links d \<and> dr_scored rep = length (iter_for_decay org 500 (worker org) (memories d)) \<and>
    dr_promoted rep + dr_archived rep + dr_deleted rep \<le> dr_scored rep" (is "list_all2 ?P _ _ \<and> _")
proof -
  let ?rows = "iter_for_decay org 500 (worker org) (memories d)"
  note rows = decay_org_rows(1) [OF assms] and links = decay_org_rows(2) [OF assms]
  have own: "?P r (decayed s now median r r)" if "r \<in> set ?rows" for r
  proof -
    have r: "m_org_id r = org" "live r" "\<not> m_pinned r" using decay_rows_own [OF that] by auto
    consider "should_hard_delete (decay_decide s now median r)"
      | "\<not> should_hard_delete (decay_decide s now median r)" "should_archive (decay_decide s now median r)"
      | "\<not> should_hard_delete (decay_decide s now median r)" "\<not> should_archive (decay_decide s now median r)" by blast
    then show ?thesis
    proof cases
      case 1
      then show ?thesis using r decay_facts(3) [OF r(3) 1] by (simp add: decayed_def)
    next
      case 2
      then show ?thesis using r decay_facts(1,2,4) [OF r(3), of s now median] by (simp add: decayed_def set_opt_def Let_def)
    next
      case 3
      then show ?thesis using r decay_facts(1,2,5) [OF r(3), of s now median] by (elim disjE) (simp_all add: decayed_def set_opt_def Let_def)
    qed
  qed
  have each: "list_all2 ?P (memories d) (memories d')"
    unfolding rows list_all2_map2
  proof (rule list.rel_refl_strong)
    fix r
    show "?P r (if r \<in> set ?rows then decayed s now median r r else r)"
    proof (cases "r \<in> set ?rows")
      case True
      then show ?thesis using own [OF True] by (simp only: if_True)
    next
      case False
      then show ?thesis by (simp only: if_False simp_thms)
    qed
  qed
  have rep: "rep = fst (decay_org s now org median d)" using assms(2) by simp
  have "dr_scored rep = length ?rows" unfolding rep by (simp add: decay_org_def Let_def)
  moreover have "dr_promoted rep + dr_archived rep + dr_deleted rep \<le> length ?rows"
    unfolding rep decay_org_def Let_def fst_conv decay_report.simps count_where_def
    by (rule disjoint_filters) blast
  ultimately show ?thesis using each links by (simp only: simp_thms)
qed

section \<open>Conflict detection\<close>

lemma map_of_own_row: "map_of (map (\<lambda>m. (m_id m, m)) ms) i = Some r \<Longrightarrow> r \<in> set ms \<and> m_id r = i"
  by (auto dest!: map_of_SomeD)

lemma candidate_rows:
  assumes "x \<in> set (list_conflict_candidates pg m n thr (worker 0) ms)" and "distinct (map m_id ms)"
  shows "fst x \<in> set ms \<and> live (fst x) \<and> m_review_status (fst x) = APPROVED \<and> m_org_id (fst x) = m_org_id m \<and>
    m_scope_type (fst x) = m_scope_type m \<and> m_scope_id (fst x) = m_scope_id m \<and> m_kind (fst x) = m_kind m \<and>
    m_id (fst x) \<noteq> m_id m"
proof -
  let ?P = "\<lambda>r. live r \<and> m_review_status r = APPROVED \<and> m_embedding r \<noteq> None \<and> m_org_id r = m_org_id m \<and>
    m_scope_type r = m_scope_type m \<and> m_scope_id r = m_scope_id m \<and> m_kind r = m_kind m \<and> m_id r \<noteq> m_id m"
  obtain qv where qv: "m_embedding m = Some qv"
    using assms(1) by (cases "m_embedding m") (simp_all add: list_conflict_candidates_def)
  define rows where "rows = take n (sort_key (\<lambda>r. vector_distance pg (the (m_embedding r)) qv) (filter ?P ms))"
  define scored where "scored = filter (\<lambda>(i, sim). sim \<ge> thr) (map (\<lambda>r. (m_id r, similarity pg qv r)) rows)"
  define by_id where "by_id = map (\<lambda>r. (m_id r, r)) (list_by_ids (map fst scored) (worker 0) ms)"
  have "x \<in> set (List.map_filter (\<lambda>(i, sim). map_option (\<lambda>r. (r, sim)) (map_of by_id i)) scored)"
    using assms(1) unfolding list_conflict_candidates_def qv by (simp add: Let_def rows_def scored_def by_id_def)
  then obtain i sim where i: "(i, sim) \<in> set scored" "map_of by_id i = Some (fst x)"
    by (auto simp: List.map_filter_def)
  then obtain r where r: "r \<in> set rows" "m_id r = i" by (auto simp: scored_def)
  have "r \<in> set ms" "?P r" using r(1) by (auto simp: rows_def dest: in_set_takeD)
  moreover have "fst x \<in> set ms" "m_id (fst x) = m_id r"
    using map_of_own_row [OF i(2) [unfolded by_id_def]] r(2) by (auto simp: list_by_ids_def tenant_rows_def superuser_principal_def split: if_splits)
  then have "fst x = r" using \<open>r \<in> set ms\<close> assms(2) by (auto simp: distinct_map inj_on_def)
  ultimately show ?thesis by simp
qed

text \<open>The links a run may write: from the memory judged to a visible neighbour of the same scope and kind.\<close>

definition conflict_between :: "memory list \<Rightarrow> memory \<Rightarrow> memory_link \<Rightarrow> bool" where
  "conflict_between ms m l \<longleftrightarrow> l_from l = m_id m \<and> l_type l \<in> {SUPERSEDES, CONTRADICTS} \<and> 0 \<le> l_weight l \<and> l_weight l \<le> 1 \<and>
     (\<exists>r \<in> set ms. l_to l = m_id r \<and> m_id r \<noteq> m_id m \<and> live r \<and> m_review_status r = APPROVED \<and>
        m_org_id r = m_org_id m \<and> m_scope_type r = m_scope_type m \<and> m_scope_id r = m_scope_id m \<and> m_kind r = m_kind m)"

lemma write_verdicts_links:
  "write_verdicts now mid vs d = Inr (n, d') \<Longrightarrow>
   memories d' = memories d \<and> (\<exists>ls. links d' = links d @ ls \<and> length ls = n \<and>
     (\<forall>l \<in> set ls. \<exists>v \<in> set vs. \<exists>t. relation_to_link (cv_relation v) = Some t \<and> l_from l = mid \<and> l_to l = cv_memory_id v \<and>
        l_type l = t \<and> l_weight l = cv_confidence v))"
proof (induction vs arbitrary: d n)
  case (Cons v vs)
  show ?case
  proof (cases "relation_to_link (cv_relation v)")
    case None
    then show ?thesis using Cons.IH [of d n] Cons.prems by auto
  next
    case (Some t)
    obtain l d1 n' where l: "link_create now mid (cv_memory_id v) t (cv_confidence v) d = Inr (l, d1)"
      and rest: "write_verdicts now mid vs d1 = Inr (n', d')" and n: "n = n' + 1"
      using Cons.prems Some by (auto simp: rbind_def split: sum.splits)
    have l': "l = \<lparr>l_from = mid, l_to = cv_memory_id v, l_type = t, l_weight = cv_confidence v, l_created_at = now\<rparr>"
      "memories d1 = memories d" "links d1 = links d @ [l]"
      using l by (auto simp: link_create_def Let_def split: if_splits)
    obtain ls where ls: "links d' = links d1 @ ls" "length ls = n'" "memories d' = memories d1"
      "\<forall>l \<in> set ls. \<exists>v \<in> set vs. \<exists>t. relation_to_link (cv_relation v) = Some t \<and> l_from l = mid \<and> l_to l = cv_memory_id v \<and>
        l_type l = t \<and> l_weight l = cv_confidence v"
      using Cons.IH [OF rest] by blast
    have "\<forall>k \<in> set (l # ls). \<exists>v \<in> set (v # vs). \<exists>t. relation_to_link (cv_relation v) = Some t \<and> l_from k = mid \<and> l_to k = cv_memory_id v \<and>
        l_type k = t \<and> l_weight k = cv_confidence v"
      using ls(4) Some l'(1) by auto
    moreover have "links d' = links d @ (l # ls)" "length (l # ls) = n" "memories d' = memories d"
      using ls l' n by simp_all
    ultimately show ?thesis by blast
  qed
qed auto

lemma judge_one_links:
  assumes "judge_one env now m d = Inr (n, d')" and "distinct (map m_id (memories d))" and "conflict_min_confidence (we_settings env) \<le> 1"
  shows "memories d' = memories d \<and> (\<exists>ls. links d' = links d @ ls \<and> length ls = n \<and> (\<forall>l \<in> set ls. conflict_between (memories d) m l))"
proof -
  let ?s = "we_settings env"
  let ?cs = "list_conflict_candidates (we_pg env) m (conflict_max_candidates ?s) (conflict_similarity_threshold ?s) (worker 0) (memories d)"
  let ?ex = "map (as_candidate \<circ> fst) ?cs"
  show ?thesis
  proof (cases "?cs = []")
    case True
    then show ?thesis using assms(1) by (simp add: judge_one_def Let_def)
  next
    case False
    obtain vs where vs: "llm_judge ?s (we_to_str env) None (we_llm env) (as_candidate m) ?ex = Inr vs"
      and w: "write_verdicts now (m_id m) vs d = Inr (n, d')"
      using assms(1) False by (auto simp: judge_one_def Let_def rbind_def split: sum.splits)
    obtain ls where ls: "memories d' = memories d" "links d' = links d @ ls" "length ls = n"
      "\<forall>l \<in> set ls. \<exists>v \<in> set vs. \<exists>t. relation_to_link (cv_relation v) = Some t \<and> l_from l = m_id m \<and> l_to l = cv_memory_id v \<and>
        l_type l = t \<and> l_weight l = cv_confidence v"
      using write_verdicts_links [OF w] by blast
    have "conflict_between (memories d) m l" if "l \<in> set ls" for l
    proof -
      obtain v t where v: "v \<in> set vs" "relation_to_link (cv_relation v) = Some t" "l_from l = m_id m" "l_to l = cv_memory_id v"
        "l_type l = t" "l_weight l = cv_confidence v"
        using ls(4) \<open>l \<in> set ls\<close> by blast
      obtain rows where ok: "verdict_ok ?ex (conflict_min_confidence ?s) rows v"
        using judge_verdict_ok [OF vs assms(3) v(1)] by blast
      then obtain x where x: "x \<in> set ?cs" "cv_memory_id v = m_id (fst x)"
        by (auto simp: verdict_ok_def as_candidate_def)
      have "t \<in> {SUPERSEDES, CONTRADICTS}" using v(2) by (auto simp: relation_to_link_def split: if_splits)
      moreover have "0 \<le> l_weight l" "l_weight l \<le> 1" using ok v(6) by (simp_all add: verdict_ok_def)
      ultimately show ?thesis
        using candidate_rows [OF x(1) assms(2)] x(2) v(3-5) unfolding conflict_between_def
        by (intro conjI bexI [of _ "fst x"]) simp_all
    qed
    then show ?thesis using ls by blast
  qed
qed

text \<open>The judgements an org may still ask for today.\<close>

definition quota_left :: "worker_env \<Rightarrow> time \<Rightarrow> int \<Rightarrow> quota_counts \<Rightarrow> int" where
  "quota_left env now org q = max 0 (conflict_daily_quota_per_org (we_settings env) - used_today ''conflict'' org now q)"

lemma detect_loop_effect:
  assumes "detect_loop env now ms d q = (Inr (checked, n, blocked, d'), q')" and "distinct (map m_id (memories d))"
    and "conflict_min_confidence (we_settings env) \<le> 1"
  shows "subseq checked ms \<and> length checked + blocked = length ms \<and> memories d' = memories d \<and>
    (\<exists>ls. links d' = links d @ ls \<and> length ls = n \<and> (\<forall>l \<in> set ls. \<exists>m \<in> set checked. conflict_between (memories d) m l)) \<and>
    (0 < conflict_daily_quota_per_org (we_settings env) \<and> we_redis env \<longrightarrow>
       int (count_where (\<lambda>m. m_org_id m = org) checked) \<le> quota_left env now org q)"
  using assms(1,2)
proof (induction ms arbitrary: checked n blocked d q)
  case Nil
  then show ?case by (simp add: count_where_def quota_left_def)
next
  case (Cons m ms)
  let ?lim = "conflict_daily_quota_per_org (we_settings env)"
  obtain ok q1 where ok: "check_daily_quota (we_redis env) now ''conflict'' (m_org_id m) ?lim q = (ok, q1)" by fastforce
  note eff = check_daily_quota_effect [OF ok]
  show ?case
  proof (cases ok)
    case False
    obtain n' blocked' where rest: "detect_loop env now ms d q1 = (Inr (checked, n', blocked', d'), q')"
      and nb: "n = n'" "blocked = blocked' + 1"
      using Cons.prems(1) ok False by (auto simp: Let_def rbind_def split: sum.splits prod.splits)
    note ih = Cons.IH [OF rest Cons.prems(2)]
    have "quota_left env now org q1 = quota_left env now org q"
      using False eff(1) eff(2) [of "''conflict''" org] by (auto simp: quota_left_def)
    then show ?thesis using ih nb by (simp add: list_emb_Cons)
  next
    case True
    obtain n1 d1 where one: "judge_one env now m d = Inr (n1, d1)"
      using Cons.prems(1) ok True by (cases "judge_one env now m d") auto
    obtain checked' n' where rest: "detect_loop env now ms d1 q1 = (Inr (checked', n', blocked, d'), q')"
      and cn: "checked = m # checked'" "n = n1 + n'"
      using Cons.prems(1) ok True one by (auto simp: Let_def rbind_def split: sum.splits prod.splits)
    obtain ls1 where ls1: "memories d1 = memories d" "links d1 = links d @ ls1" "length ls1 = n1"
      "\<forall>l \<in> set ls1. conflict_between (memories d) m l"
      using judge_one_links [OF one Cons.prems(2) assms(3)] by blast
    have dist: "distinct (map m_id (memories d1))" using Cons.prems(2) ls1(1) by simp
    note ih = Cons.IH [OF rest dist]
    obtain ls2 where ls2: "links d' = links d1 @ ls2" "length ls2 = n'" "\<forall>l \<in> set ls2. \<exists>m \<in> set checked'. conflict_between (memories d1) m l"
      using ih by blast
    have "\<forall>l \<in> set (ls1 @ ls2). \<exists>m \<in> set checked. conflict_between (memories d) m l"
      using ls1(1,4) ls2(3) cn(1) by auto
    moreover have "links d' = links d @ (ls1 @ ls2)" "length (ls1 @ ls2) = n"
      using ls1 ls2 cn by simp_all
    ultimately have L: "\<exists>ls. links d' = links d @ ls \<and> length ls = n \<and> (\<forall>l \<in> set ls. \<exists>m \<in> set checked. conflict_between (memories d) m l)"
      by blast
    have "int (count_where (\<lambda>m. m_org_id m = org) checked) \<le> quota_left env now org q"
      if "0 < ?lim \<and> we_redis env"
    proof -
      have "int (count_where (\<lambda>m. m_org_id m = org) checked') \<le> quota_left env now org q1" using ih that by blast
      then show ?thesis
        using that True eff(1) eff(2) [of "''conflict''" org] cn(1) by (auto simp: quota_left_def count_where_def)
    qed
    then show ?thesis using L ih ls1(1) cn(1) by simp
  qed
qed

lemma pending_checks:
  "r \<in> set (list_pending_conflict_check kinds n (worker 0) ms) \<Longrightarrow>
   r \<in> set ms \<and> live r \<and> m_conflict_checked_at r = None \<and> m_kind r \<in> set kinds"
  by (auto simp: list_pending_conflict_check_def tenant_rows_def superuser_principal_def dest: in_set_takeD)

text \<open>
  C20.  A conflict run writes only conflicts.  No memory changes but for the check mark of those judged; a link is only added,
  from a memory judged in this run to a different live, approved memory of the same org, scope and kind, as
  a supersession or a contradiction of weight between 0 and 1; every pending memory is judged or left for
  another day; and an org is never judged past what its daily quota leaves.
\<close>

theorem conflict_batch_sound:
  assumes "detect_batch env now d q = (Inr rep, d', q')" and "distinct (map m_id (memories d))"
    and "conflict_min_confidence (we_settings env) \<le> 1"
    and pending: "pending = (if conflict_detection (we_settings env)
      then list_pending_conflict_check JUDGED_KINDS (conflict_batch_size (we_settings env)) (worker 0) (memories d) else [])"
  shows "\<exists>checked ls. subseq checked pending \<and> length checked = cr_checked rep \<and> cr_checked rep + cr_blocked rep = length pending \<and>
    memories d' = map (\<lambda>r. if r \<in> set checked then r\<lparr>m_conflict_checked_at := Some now\<rparr> else r) (memories d) \<and>
    links d' = links d @ ls \<and> length ls = cr_links rep \<and>
    (\<forall>l \<in> set ls. \<exists>m \<in> set checked. l_from l = m_id m \<and> l_type l \<in> {SUPERSEDES, CONTRADICTS} \<and> 0 \<le> l_weight l \<and> l_weight l \<le> 1 \<and>
       (\<exists>r \<in> set (memories d). l_to l = m_id r \<and> m_id r \<noteq> m_id m \<and> live r \<and> m_review_status r = APPROVED \<and>
          m_org_id r = m_org_id m \<and> m_scope_type r = m_scope_type m \<and> m_scope_id r = m_scope_id m \<and> m_kind r = m_kind m)) \<and>
    (\<forall>org. 0 < conflict_daily_quota_per_org (we_settings env) \<and> we_redis env \<longrightarrow>
       int (length (filter (\<lambda>m. m_org_id m = org) checked)) \<le>
         max 0 (conflict_daily_quota_per_org (we_settings env) - used_today ''conflict'' org now q))"
proof (cases "pending = []")
  case True
  then have "memories d' = memories d \<and> links d' = links d \<and> cr_checked rep = 0 \<and> cr_blocked rep = 0 \<and> cr_links rep = 0"
    using assms(1) pending by (auto simp: detect_batch_def Let_def split: if_splits)
  then show ?thesis using True by (intro exI [of _ "[]"]) simp
next
  case False
  then have on: "conflict_detection (we_settings env)" "pending = list_pending_conflict_check JUDGED_KINDS (conflict_batch_size (we_settings env)) (worker 0) (memories d)"
    using pending by (simp_all split: if_splits)
  obtain checked n blocked d1 where loop: "detect_loop env now pending d q = (Inr (checked, n, blocked, d1), q')"
    and rep: "rep = \<lparr>cr_checked = length checked, cr_links = n, cr_blocked = blocked, cr_note = []\<rparr>"
    and d': "d' = mark_conflict_checked now (map m_id checked) d1"
    using assms(1) False on by (auto simp: detect_batch_def Let_def split: prod.splits sum.splits)
  note eff = detect_loop_effect [OF loop assms(2,3)]
  obtain ls where ls: "links d1 = links d @ ls" "length ls = n" "\<forall>l \<in> set ls. \<exists>m \<in> set checked. conflict_between (memories d) m l"
    using eff by blast
  have in_d: "set checked \<subseteq> set (memories d)"
    using eff on(2) pending_checks by (metis subseq_order.dual_order.refl subset_iff set_nths_subset subseq_conv_nths)
  have own: "m_id r \<in> m_id ` set checked \<longleftrightarrow> r \<in> set checked" if "r \<in> set (memories d)" for r
    using in_d assms(2) that by (auto simp: distinct_map inj_on_def)
  have "memories d' = map (\<lambda>r. if r \<in> set checked then r\<lparr>m_conflict_checked_at := Some now\<rparr> else r) (memories d)"
    using eff own by (auto simp: d' mark_conflict_checked_def)
  moreover have "links d' = links d @ ls" using ls(1) by (simp add: d' mark_conflict_checked_def)
  ultimately show ?thesis
    using eff ls rep unfolding conflict_between_def quota_left_def count_where_def
    by (intro exI [of _ checked] exI [of _ ls]) (simp only: conflict_report.simps, blast)
qed

section \<open>Consolidation\<close>

text \<open>A row whose score was dampened, as \<open>candidates\<close> had it when the run began.\<close>

definition dampened :: "memory \<Rightarrow> memory" where
  "dampened m = m\<lparr>m_decay_score := m_decay_score m * (1 / 2)\<rparr>"

definition is_summary_of :: "int \<Rightarrow> memory list \<Rightarrow> memory \<Rightarrow> bool" where
  "is_summary_of org members x \<longleftrightarrow> m_org_id x = org \<and> m_kind x = SUMMARY \<and> m_source_type x = DERIVED \<and> m_tier x = LONG \<and>
     live x \<and> m_body x \<noteq> [] \<and> m_title x \<noteq> [] \<and>
     (\<exists>c \<in> set members. m_scope_type x = m_scope_type c \<and> m_scope_id x = m_scope_id c \<and> m_sensitivity x = m_sensitivity c)"

text \<open>What a run has done to the tables so far.\<close>

definition consolidated_into :: "int \<Rightarrow> memory list \<Rightarrow> db \<Rightarrow> memory list \<Rightarrow> db \<Rightarrow> bool" where
  "consolidated_into org members d0 summaries d \<longleftrightarrow>
     (\<exists>F ls. memories d = map F (memories d0) @ summaries \<and> links d = links d0 @ ls \<and>
        (\<forall>r \<in> set (memories d0). F r = r \<or> r \<in> set members \<and> F r = dampened r) \<and>
        (\<forall>x \<in> set summaries. is_summary_of org members x \<and> next_memory_id d0 \<le> m_id x \<and> m_id x < next_memory_id d \<and> (\<exists>l \<in> set ls. l_from l = m_id x)) \<and>
        (\<forall>l \<in> set ls. l_type l = DERIVED_FROM \<and> (\<exists>x \<in> set summaries. l_from l = m_id x) \<and> (\<exists>c \<in> set members. l_to l = m_id c))) \<and>
     next_memory_id d0 \<le> next_memory_id d"

lemma derive_links_effect:
  "derive_links now sid ms d = Inr d' \<Longrightarrow>
   links d' = links d @ map (\<lambda>m. \<lparr>l_from = sid, l_to = m_id m, l_type = DERIVED_FROM, l_weight = 1, l_created_at = now\<rparr>) ms \<and>
   next_memory_id d' = next_memory_id d \<and>
   (\<exists>F. memories d' = map F (memories d) \<and>
      (\<forall>r. F r = r \<or> (\<exists>m \<in> set ms. m_id m = m_id r \<and> F r = r\<lparr>m_decay_score := m_decay_score m * (1 / 2)\<rparr>)))"
proof (induction ms arbitrary: d)
  case Nil
  then show ?case by (auto intro: exI [of _ id])
next
  case (Cons m ms)
  let ?l = "\<lparr>l_from = sid, l_to = m_id m, l_type = DERIVED_FROM, l_weight = 1, l_created_at = now\<rparr>"
  let ?d1 = "apply_decay (m_id m) (m_decay_score m * (1 / 2)) None (d\<lparr>links := links d @ [?l]\<rparr>)"
  have rest: "derive_links now sid ms ?d1 = Inr d'"
    using Cons.prems by (auto simp: rbind_def link_create_def Let_def split: if_splits)
  obtain F where F: "memories d' = map F (memories ?d1)"
      "\<And>r. F r = r \<or> (\<exists>x \<in> set ms. m_id x = m_id r \<and> F r = r\<lparr>m_decay_score := m_decay_score x * (1 / 2)\<rparr>)"
    and ls: "links d' = links ?d1 @ map (\<lambda>m. \<lparr>l_from = sid, l_to = m_id m, l_type = DERIVED_FROM, l_weight = 1, l_created_at = now\<rparr>) ms"
    and nx: "next_memory_id d' = next_memory_id ?d1"
    using Cons.IH [OF rest] by blast
  let ?G = "\<lambda>r. if m_id r = m_id m then r\<lparr>m_decay_score := m_decay_score m * (1 / 2)\<rparr> else r"
  have "memories d' = map (F \<circ> ?G) (memories d)"
    using F(1) by (simp add: apply_decay_def set_opt_def)
  moreover have "(F \<circ> ?G) r = r \<or> (\<exists>x \<in> set (m # ms). m_id x = m_id r \<and> (F \<circ> ?G) r = r\<lparr>m_decay_score := m_decay_score x * (1 / 2)\<rparr>)" for r
    using F(2) [of "?G r"] by (cases "m_id r = m_id m") auto
  moreover have "links d' = links d @ map (\<lambda>m. \<lparr>l_from = sid, l_to = m_id m, l_type = DERIVED_FROM, l_weight = 1, l_created_at = now\<rparr>) (m # ms)"
    "next_memory_id d' = next_memory_id d"
    using ls nx by (simp_all add: apply_decay_def)
  ultimately show ?case by blast
qed

lemma consolidate_body:
  assumes "consolidate s l cluster = Inr (Some r)"
  shows "cluster \<noteq> [] \<and> co_body r \<noteq> [] \<and> co_title r \<noteq> []"
proof -
  have "cluster \<noteq> []" using assms by (auto simp: consolidate_def)
  moreover have "co_body r \<noteq> [] \<and> co_title r \<noteq> []"
    using assms by (auto simp: consolidate_def rbind_def Let_def split: if_splits option.splits sum.splits py_error.splits)
  ultimately show ?thesis by blast
qed

text \<open>A new summary, put in the long tier.\<close>

lemma summary_row:
  assumes "list_all (\<lambda>m. m_id m < next_memory_id d) (memories d)" and "memory_create (worker org) pid now (summary_args c r) d = (x, d1)"
  shows "\<exists>x'. m_id x' = m_id x \<and> m_id x = next_memory_id d \<and> memories (apply_decay (m_id x) 1 (Some LONG) d1) = memories d @ [x'] \<and>
    links (apply_decay (m_id x) 1 (Some LONG) d1) = links d \<and>
    next_memory_id (apply_decay (m_id x) 1 (Some LONG) d1) = next_memory_id d + 1 \<and>
    (co_body r \<noteq> [] \<longrightarrow> co_title r \<noteq> [] \<longrightarrow> c \<in> set members \<longrightarrow> is_summary_of org members x')"
proof -
  have old: "map (\<lambda>m. if m_id m = next_memory_id d then f m else m) (memories d) = memories d" for f
    using assms(1) by (auto simp: list_all_iff intro!: map_idI)
  have "x = fst (memory_create (worker org) pid now (summary_args c r) d)" "d1 = snd (memory_create (worker org) pid now (summary_args c r) d)"
    using assms(2) by simp_all
  note x = this
  show ?thesis
    by (intro exI [of _ "x\<lparr>m_tier := LONG, m_decay_score := 1\<rparr>"])
      (auto simp: x memory_create_def Let_def apply_decay_def set_opt_def old is_summary_of_def summary_args_def superuser_principal_def)
qed

lemma consolidate_cluster_step:
  assumes ids: "list_all (\<lambda>m. m_id m < next_memory_id d0) (memories d0)" "distinct (map m_id (memories d0))"
    and members: "set members \<subseteq> set (memories d0)" and cluster: "set cluster \<subseteq> set members"
    and so_far: "consolidated_into org members d0 S d" and run: "consolidate_cluster env now org cluster d = Inr (n, d')"
  shows "\<exists>S'. length S' = length S + n \<and> consolidated_into org members d0 S' d'"
proof (cases "consolidate (we_settings env) (we_llm env) cluster")
  case (Inl e)
  then show ?thesis using run by (simp add: consolidate_cluster_def rbind_def)
next
  case (Inr result)
  show ?thesis
  proof (cases result)
    case None
    then have "n = 0" "d' = d" using run Inr by (simp_all add: consolidate_cluster_def rbind_def)
    then show ?thesis using so_far by auto
  next
    case (Some r)
    obtain x d1 where new: "memory_create (worker org) (we_uuid env (next_memory_id d)) now (summary_args (hd cluster) r) d = (x, d1)"
      by fastforce
    let ?d2 = "apply_decay (m_id x) 1 (Some LONG) d1"
    have n: "n = 1" and links: "derive_links now (m_id x) cluster ?d2 = Inr d'"
      using run Inr Some new by (auto simp: consolidate_cluster_def rbind_def Let_def split: sum.splits)
    obtain F ls where F: "memories d = map F (memories d0) @ S" "links d = links d0 @ ls"
        "\<And>r. r \<in> set (memories d0) \<Longrightarrow> F r = r \<or> r \<in> set members \<and> F r = dampened r"
      and S: "\<And>x. x \<in> set S \<Longrightarrow> is_summary_of org members x \<and> next_memory_id d0 \<le> m_id x \<and> m_id x < next_memory_id d \<and> (\<exists>l \<in> set ls. l_from l = m_id x)"
      and ls: "\<And>l. l \<in> set ls \<Longrightarrow> l_type l = DERIVED_FROM \<and> (\<exists>x \<in> set S. l_from l = m_id x) \<and> (\<exists>c \<in> set members. l_to l = m_id c)"
      and nx: "next_memory_id d0 \<le> next_memory_id d"
      using so_far unfolding consolidated_into_def by blast
    have Fid: "m_id (F r) = m_id r" if "r \<in> set (memories d0)" for r using F(3) [OF that] by (auto simp: dampened_def)
    have "list_all (\<lambda>m. m_id m < next_memory_id d) (memories d)"
      using ids(1) F(1) S nx Fid by (fastforce simp: list_all_iff)
    then obtain x' where x': "m_id x' = m_id x" "m_id x = next_memory_id d" "memories ?d2 = memories d @ [x']" "links ?d2 = links d"
        "next_memory_id ?d2 = next_memory_id d + 1"
        "co_body r \<noteq> [] \<longrightarrow> co_title r \<noteq> [] \<longrightarrow> hd cluster \<in> set members \<longrightarrow> is_summary_of org members x'"
      using summary_row [OF _ new] by blast
    have cl: "cluster \<noteq> []" "co_body r \<noteq> []" "co_title r \<noteq> []"
      using consolidate_body Inr Some by blast+
    have "hd cluster \<in> set members" using cl(1) cluster by (cases cluster) auto
    then have summ: "is_summary_of org members x'" using x'(6) cl by blast
    obtain G where G: "memories d' = map G (memories ?d2)"
        "\<And>r. G r = r \<or> (\<exists>m \<in> set cluster. m_id m = m_id r \<and> G r = r\<lparr>m_decay_score := m_decay_score m * (1 / 2)\<rparr>)"
      and ls': "links d' = links ?d2 @ map (\<lambda>m. \<lparr>l_from = m_id x, l_to = m_id m, l_type = DERIVED_FROM, l_weight = 1, l_created_at = now\<rparr>) cluster"
      and nx': "next_memory_id d' = next_memory_id ?d2"
      using derive_links_effect [OF links] by blast
    have far: "G y = y" if "next_memory_id d0 \<le> m_id y" for y
    proof -
      have "m_id m < next_memory_id d0" if "m \<in> set cluster" for m
        using ids(1) members cluster that by (auto simp: list_all_iff)
      then show ?thesis using G(2) [of y] that by fastforce
    qed
    have GF: "(G \<circ> F) y = y \<or> y \<in> set members \<and> (G \<circ> F) y = dampened y" if "y \<in> set (memories d0)" for y
    proof (cases "G (F y) = F y")
      case True
      then show ?thesis using F(3) [OF that] by simp
    next
      case False
      then obtain m where m: "m \<in> set cluster" "m_id m = m_id (F y)" "G (F y) = (F y)\<lparr>m_decay_score := m_decay_score m * (1 / 2)\<rparr>"
        using G(2) by blast
      then have "m = y" using ids(2) members cluster that Fid [OF that] by (auto simp: distinct_map inj_on_def)
      then have "G (F y) = dampened y" using m(3) F(3) [OF that] by (auto simp: dampened_def)
      then show ?thesis using \<open>m = y\<close> m(1) cluster by auto
    qed
    have "map G S = S" using S far by (intro map_idI) blast
    then have rows: "memories d' = map (G \<circ> F) (memories d0) @ (S @ [x'])"
      using G(1) x'(1,2,3) F(1) far [of x'] nx by simp
    let ?ls = "ls @ map (\<lambda>m. \<lparr>l_from = m_id x, l_to = m_id m, l_type = DERIVED_FROM, l_weight = 1, l_created_at = now\<rparr>) cluster"
    have "links d' = links d0 @ ?ls" using ls' x'(4) F(2) by simp
    moreover have "is_summary_of org members y \<and> next_memory_id d0 \<le> m_id y \<and> m_id y < next_memory_id d' \<and> (\<exists>l \<in> set ?ls. l_from l = m_id y)"
      if y: "y \<in> set (S @ [x'])" for y
    proof (cases "y = x'")
      case True
      have "\<exists>l \<in> set ?ls. l_from l = m_id x'"
        using cl(1) x'(1) by (cases cluster) auto
      then show ?thesis using True summ x'(1,2,5) nx nx' by simp
    next
      case False
      then show ?thesis using y S [of y] nx' x'(5) by auto
    qed
    moreover have "l_type l = DERIVED_FROM \<and> (\<exists>x \<in> set (S @ [x']). l_from l = m_id x) \<and> (\<exists>c \<in> set members. l_to l = m_id c)"
      if "l \<in> set ?ls" for l
      using that ls [of l] x'(1) cluster by auto
    moreover have "next_memory_id d0 \<le> next_memory_id d'" using nx nx' x'(5) by simp
    ultimately have "consolidated_into org members d0 (S @ [x']) d'"
      unfolding consolidated_into_def using rows GF
      by (intro conjI exI [of _ "G \<circ> F"] exI [of _ ?ls]) blast+
    then show ?thesis using n by (intro exI [of _ "S @ [x']"]) simp
  qed
qed

lemma consolidate_clusters_steps:
  assumes "list_all (\<lambda>m. m_id m < next_memory_id d0) (memories d0)" "distinct (map m_id (memories d0))"
    and "set members \<subseteq> set (memories d0)" and "\<forall>c \<in> set cs. set c \<subseteq> set members"
    and "consolidated_into org members d0 S d" and "consolidate_clusters env now org cs d = Inr (n, d')"
  shows "\<exists>S'. length S' = length S + n \<and> consolidated_into org members d0 S' d'"
  using assms(4-6)
proof (induction cs arbitrary: S d n)
  case Nil
  then show ?case by auto
next
  case (Cons c cs)
  obtain n1 d1 n2 where one: "consolidate_cluster env now org c d = Inr (n1, d1)"
    and rest: "consolidate_clusters env now org cs d1 = Inr (n2, d')" and n: "n = n1 + n2"
    using Cons.prems(3) by (auto simp: rbind_def split: sum.splits)
  have c: "set c \<subseteq> set members" "\<forall>c \<in> set cs. set c \<subseteq> set members" using Cons.prems(1) by simp_all
  obtain S1 where S1: "length S1 = length S + n1" "consolidated_into org members d0 S1 d1"
    using consolidate_cluster_step [OF assms(1-3) c(1) Cons.prems(2) one] by blast
  then obtain S2 where "length S2 = length S1 + n2" "consolidated_into org members d0 S2 d'"
    using Cons.IH [OF c(2) S1(2) rest] by blast
  then show ?case using S1(1) n by (intro exI [of _ S2]) simp
qed

lemma cluster_group_rows: "g \<in> set (cluster_groups labels) \<Longrightarrow> i \<in> set g \<Longrightarrow> i < length labels"
  by (auto simp: cluster_groups_def)

lemma consolidation_rows:
  "r \<in> set (list_for_consolidation org n (worker org) ms) \<Longrightarrow>
   r \<in> set ms \<and> m_org_id r = org \<and> live r \<and> \<not> m_pinned r \<and> m_tier r = MID"
  by (auto simp: list_for_consolidation_def tenant_rows_def superuser_principal_def dest: in_set_takeD)

lemma consolidate_org_into:
  assumes "wf_db d" and labels: "\<forall>vs. length (we_cluster env vs) = length vs" and "consolidate_org env now org d = Inr (rep, d')"
  shows "\<exists>S. length S = cn_summaries rep \<and>
    consolidated_into org (list_for_consolidation org 500 (worker org) (memories d)) d S d'"
proof -
  let ?cs = "list_for_consolidation org 500 (worker org) (memories d)"
  have ids: "list_all (\<lambda>m. m_id m < next_memory_id d) (memories d)" "distinct (map m_id (memories d))"
    using assms(1) by (simp_all add: wf_db_def)
  have sub: "set ?cs \<subseteq> set (memories d)" using consolidation_rows by blast
  have init: "consolidated_into org ?cs d [] d"
    unfolding consolidated_into_def by (intro conjI exI [of _ id] exI [of _ "[]"]) simp_all
  show ?thesis
  proof (cases "cn_note rep = []")
    case False
    then have "cn_summaries rep = 0 \<and> d' = d"
      using assms(3) by (auto simp: consolidate_org_def Let_def rbind_def split: if_splits sum.splits)
    then show ?thesis using init by (intro exI [of _ "[]"]) simp
  next
    case True
    define ls where "ls = we_cluster env (map (the \<circ> m_embedding) ?cs)"
    define clusters where "clusters = map (map (\<lambda>i. ?cs ! i)) (cluster_groups ls)"
    have run: "consolidate_clusters env now org clusters d = Inr (cn_summaries rep, d')"
      using assms(3) True by (auto simp: consolidate_org_def Let_def rbind_def ls_def clusters_def split: if_splits sum.splits)
    have "length ls = length ?cs" using labels by (simp add: ls_def)
    then have "\<forall>c \<in> set clusters. set c \<subseteq> set ?cs"
      using cluster_group_rows [of _ ls] by (auto simp: clusters_def)
    then show ?thesis
      using consolidate_clusters_steps [OF ids sub _ init run] by auto
  qed
qed


section \<open>What the tasks get wrong\<close>

text \<open>The median access count is asked of no table, so the decay tick stops at the first org and no memory ever decays.\<close>

lemma decay_tick_always_raises:
  assumes "list_orgs_with_memories (memories d) \<noteq> []"
  shows "\<exists>e. tick_all s now d = (Inl e, d)"
proof -
  obtain org rest where "list_orgs_with_memories (memories d) = org # rest" using assms by (cases "list_orgs_with_memories (memories d)") auto
  then show ?thesis by (simp add: tick_all_def tick_one_org_def median_access_count_def rbind_def)
qed

text \<open>A model that gives the same verdict twice breaks the unique key, and the whole batch is rolled back.\<close>

lemma repeated_verdict_aborts:
  assumes "relation_to_link (cv_relation v) = Some t"
  shows "\<exists>e. write_verdicts now mid (v # v # vs) d = Inl e"
  using assms by (auto simp: link_create_def Let_def rbind_def)

section \<open>Concrete instances\<close>

definition demo_llm :: llm where
  "demo_llm c = Inr \<lparr>lr_text = ''both'', lr_structured = Some (if lc_system c = CONSOLIDATOR_SYSTEM
       then [(''title'', JStr ''queue''), (''body'', JStr ''all of it'')]
       else [(''verdicts'', JList [JObj [(''relation'', JStr ''supersedes''), (''index'', JInt 0), (''confidence'', JFloat (9 / 10))]])]),
     lr_model = [], lr_tokens_in = 0, lr_tokens_out = 0\<rparr>"

definition demo_worker :: worker_env where
  "demo_worker = \<lparr>we_settings = default_settings, we_pg = plain_engine, we_redis = True,
     we_embedder = Inr \<lparr>em_model_id = ''m'', em_embed = (\<lambda>k ts. if length ts > 1 then Inl (EmbeddingError ''batch'')
       else Inr (map (\<lambda>_. [1]) ts))\<rparr>, we_llm = Some demo_llm, we_to_str = (\<lambda>_. []), we_cluster = map (\<lambda>_. 0), we_uuid = (\<lambda>i. ''s'')\<rparr>"

definition two_pending :: db where
  "two_pending = snd (memory_create (member_of 1) ''b'' 150 sample_args sample_db)"

definition two_mid :: db where
  "two_mid = apply_decay 1 1 (Some MID) (apply_decay 2 1 (Some MID)
     (snd (memory_create (member_of 1) ''b'' 150 (sample_args\<lparr>ca_embedding := Some [1], ca_sensitivity := SECRET, ca_review_status := PENDING\<rparr>)
       (snd (memory_create (member_of 1) ''a'' 100 (sample_args\<lparr>ca_embedding := Some [1]\<rparr>) empty_db)))))"

definition two_facts :: db where
  "two_facts = snd (memory_create (member_of 1) ''b'' 150 (sample_args\<lparr>ca_embedding := Some [1]\<rparr>)
       (snd (memory_create (member_of 1) ''a'' 100 (sample_args\<lparr>ca_embedding := Some [1]\<rparr>) empty_db)))"

lemma embed_batch_settles_witness:
  "\<exists>rep d'. embed_batch demo_worker 200 two_pending = Inr (rep, d') \<and> er_embedded rep = 2 \<and>
     er_embedded rep + er_retrying rep + er_parked rep = 2 \<and> length (memories d') = 2"
proof -
  have run: "(case embed_batch demo_worker 200 two_pending of Inl _ \<Rightarrow> False | Inr (rep, d') \<Rightarrow> er_embedded rep = 2)"
    by code_simp
  then obtain rep d' where rep: "embed_batch demo_worker 200 two_pending = Inr (rep, d')" "er_embedded rep = 2"
    by (auto split: sum.splits prod.splits)
  have h: "distinct (map m_id (memories two_pending))" "length (memories two_pending) = 2"
    "length (list_pending_embedding (we_settings demo_worker) 200 (embedder_batch_size (we_settings demo_worker)) (worker 0) (memories two_pending)) = 2"
    by code_simp+
  obtain em where em: "we_embedder demo_worker = Inr em" by (simp add: demo_worker_def)
  obtain F where "memories d' = map F (memories two_pending)" and "er_embedded rep + er_retrying rep + er_parked rep = 2"
    using embed_batch_settles [OF h(1) em rep(1) refl] h(3) by auto
  then show ?thesis using rep h(2) by (intro exI [of _ rep] exI [of _ d']) simp
qed

lemma decay_tick_sound_witness:
  "length (memories (snd (decay_org default_settings 200 1 1 sample_db))) = 1 \<and> links (snd (decay_org default_settings 200 1 1 sample_db)) = []"
proof -
  obtain rep d' where run: "decay_org default_settings 200 1 1 sample_db = (rep, d')" by fastforce
  have h: "distinct (map m_id (memories sample_db))" "length (memories sample_db) = 1" "links sample_db = []"
    by code_simp+
  show ?thesis
    using decay_tick_sound [OF h(1) run] h(2,3) by (elim conjE) (simp add: run list_all2_lengthD)
qed

lemma conflict_batch_sound_witness:
  "\<exists>rep d' q'. detect_batch demo_worker 200 two_facts [] = (Inr rep, d', q') \<and> cr_links rep = 2 \<and> length (links d') = 2 \<and>
     cr_checked rep + cr_blocked rep = 2"
proof -
  have run: "(case detect_batch demo_worker 200 two_facts [] of (Inl _, _) \<Rightarrow> False | (Inr rep, _) \<Rightarrow> cr_links rep = 2)"
    by code_simp
  then obtain rep d' q' where rep: "detect_batch demo_worker 200 two_facts [] = (Inr rep, d', q')" "cr_links rep = 2"
    by (auto split: sum.splits prod.splits)
  let ?pending = "if conflict_detection (we_settings demo_worker) then list_pending_conflict_check JUDGED_KINDS
    (conflict_batch_size (we_settings demo_worker)) (worker 0) (memories two_facts) else []"
  have h: "distinct (map m_id (memories two_facts))" "conflict_min_confidence (we_settings demo_worker) \<le> 1" "length ?pending = 2"
    "links two_facts = []"
    by code_simp+
  obtain ls where "links d' = links two_facts @ ls" "length ls = cr_links rep" "cr_checked rep + cr_blocked rep = length ?pending"
    using conflict_batch_sound [OF rep(1) h(1,2) refl] by blast
  then show ?thesis using rep h by (intro exI [of _ rep] exI [of _ d'] exI [of _ q']) simp
qed


text \<open>
  A summary takes its sensitivity from the first memory of its cluster and is approved, whatever the others
  are: here the text of a secret memory that awaits review ends in an approved internal one.
\<close>

lemma consolidation_lowers_sensitivity:
  "case consolidate_org demo_worker 200 1 two_mid of
     Inl _ \<Rightarrow> False
   | Inr (_, d') \<Rightarrow> (\<exists>x \<in> set (memories d'). \<exists>c \<in> set (memories d'). \<exists>l \<in> set (links d').
       l_from l = m_id x \<and> l_to l = m_id c \<and> l_type l = DERIVED_FROM \<and> m_sensitivity c = SECRET \<and> m_review_status c = PENDING \<and>
       m_sensitivity x = INTERNAL \<and> m_review_status x = APPROVED)"
  by code_simp

end
