(* ===== verification/Attachments.thy ===== *)
theory Attachments
  imports Chunker Tenancy Workers
begin

text \<open>
  Uploaded files: the tables of \<^verbatim>\<open>models/attachment.py\<close> and \<^verbatim>\<open>repositories/attachment_repo.py\<close>, the service
  \<^verbatim>\<open>services/attachment_service.py\<close>, text extraction (\<^verbatim>\<open>attachments/extract.py\<close>), the object store on the file system
  (\<^verbatim>\<open>storage/fs.py\<close>), the worker task \<^verbatim>\<open>kortex_worker/tasks/attachments.py\<close>, the search endpoint of
  \<^verbatim>\<open>kortex_api/routers/attachments.py\<close> and the endpoint that changes a project's text analyser.

  Bytes are characters.  Parameters: UTF-8 decoding with replacement, the PDF and Word readers (absent when not
  installed), SHA-256, the embedder, Postgres, fresh identifiers and the clock.  The store is a map from bucket and key to the
  body; two keys name two files.  The column \<open>content_tokens\<close>, which nothing sets, is left out.
\<close>

section \<open>Definitions\<close>

subsection \<open>Tables\<close>

record attachment =
  at_id :: int
  at_public_id :: string
  at_org_id :: int
  at_scope_type :: scope_type
  at_scope_id :: int
  at_created_by :: "int option"
  at_filename :: string
  at_mime :: "string option"
  at_size_bytes :: int
  at_sha256 :: "string option"
  at_s3_bucket :: string
  at_s3_key :: string
  at_sensitivity :: sensitivity
  at_processing_status :: attachment_status
  at_processing_error :: "string option"
  at_processed_at :: "time option"
  at_metadata :: "(string \<times> json) list"
  at_created_at :: time
  at_deleted_at :: "time option"

record attachment_chunk =
  ac_id :: int
  ac_org_id :: int
  ac_attachment_id :: int
  ac_chunk_index :: nat
  ac_content :: string
  ac_embedding :: "real list option"
  ac_embedding_model :: "string option"
  ac_ts_config :: string

record att_db =
  attachments :: "attachment list"
  att_chunks :: "attachment_chunk list"
  next_attachment_id :: int
  next_chunk_id :: int

abbreviation att_live :: "attachment \<Rightarrow> bool" where
  "att_live x \<equiv> at_deleted_at x = None"

subsection \<open>Attachment repository\<close>

record att_args =
  aa_scope_type :: scope_type
  aa_scope_id :: int
  aa_filename :: string
  aa_mime :: "string option"
  aa_sensitivity :: sensitivity
  aa_size_hint :: "int option"
  aa_metadata :: "(string \<times> json) list option"

definition att_create ::
    "principal \<Rightarrow> string \<Rightarrow> time \<Rightarrow> string \<Rightarrow> string \<Rightarrow> int \<Rightarrow> int option \<Rightarrow> att_args \<Rightarrow> att_db \<Rightarrow> (attachment \<times> att_db) result" where
  "att_create p pid now bucket key nbytes by a d =
     (if key \<in> at_s3_key ` set (attachments d) then Inl (IntegrityError ''duplicate key value violates unique constraint'')
      else let x = \<lparr>at_id = next_attachment_id d, at_public_id = pid, at_org_id = p_org_id p,
             at_scope_type = aa_scope_type a, at_scope_id = aa_scope_id a, at_created_by = by,
             at_filename = aa_filename a, at_mime = aa_mime a, at_size_bytes = nbytes, at_sha256 = None,
             at_s3_bucket = bucket, at_s3_key = key, at_sensitivity = aa_sensitivity a,
             at_processing_status = ATT_PENDING, at_processing_error = None, at_processed_at = None,
             at_metadata = or_empty (aa_metadata a), at_created_at = now, at_deleted_at = None\<rparr>
           in Inr (x, d\<lparr>attachments := attachments d @ [x], next_attachment_id := next_attachment_id d + 1\<rparr>))"

definition att_get_by_id :: "int \<Rightarrow> principal \<Rightarrow> attachment list \<Rightarrow> attachment option" where
  "att_get_by_id i p xs = first_row (filter (\<lambda>x. at_id x = i \<and> att_live x) (tenant_rows at_org_id p xs))"

definition att_get_by_public_id :: "string \<Rightarrow> principal \<Rightarrow> attachment list \<Rightarrow> attachment option" where
  "att_get_by_public_id pid p xs = first_row (filter (\<lambda>x. at_public_id x = pid \<and> att_live x) (tenant_rows at_org_id p xs))"

definition att_list ::
    "scope_filter option \<Rightarrow> attachment_status option \<Rightarrow> nat \<Rightarrow> nat \<Rightarrow> sensitivity option
     \<Rightarrow> principal \<Rightarrow> attachment list \<Rightarrow> attachment list" where
  "att_list sc st limit offset mx p xs =
     take limit (drop offset (sort_key (\<lambda>x. - at_created_at x)
       (filter (\<lambda>x. att_live x \<and>
            opt_where sc (\<lambda>sf. at_scope_type x = sf_type sf \<and> at_scope_id x = sf_id sf) \<and>
            opt_where st (\<lambda>v. at_processing_status x = v) \<and>
            opt_where mx (\<lambda>v. at_sensitivity x \<in> set (sensitivities_up_to v))) (tenant_rows at_org_id p xs))))"

definition att_list_pending :: "nat \<Rightarrow> principal \<Rightarrow> attachment list \<Rightarrow> attachment list" where
  "att_list_pending limit p xs =
     take limit (sort_key at_created_at
       (filter (\<lambda>x. att_live x \<and> at_processing_status x \<in> {ATT_PENDING, PROCESSING}) (tenant_rows at_org_id p xs)))"

definition att_update :: "int \<Rightarrow> (attachment \<Rightarrow> attachment) \<Rightarrow> att_db \<Rightarrow> att_db" where
  "att_update i f d = d\<lparr>attachments := map (\<lambda>x. if at_id x = i then f x else x) (attachments d)\<rparr>"

definition marked ::
    "time \<Rightarrow> attachment_status \<Rightarrow> string option \<Rightarrow> string option \<Rightarrow> int option \<Rightarrow> string option \<Rightarrow> attachment \<Rightarrow> attachment" where
  "marked now st err sha nbytes mime x =
     x\<lparr>at_processing_status := st,
       at_processed_at := (if st = READY then Some now else at_processed_at x),
       at_processing_error := (if st = READY then None else if st = FAILED then err else at_processing_error x),
       at_sha256 := (case sha of None \<Rightarrow> at_sha256 x | Some v \<Rightarrow> Some v),
       at_size_bytes := (case nbytes of None \<Rightarrow> at_size_bytes x | Some v \<Rightarrow> v),
       at_mime := (case mime of None \<Rightarrow> at_mime x | Some v \<Rightarrow> Some v)\<rparr>"

definition mark_status ::
    "time \<Rightarrow> int \<Rightarrow> attachment_status \<Rightarrow> string option \<Rightarrow> string option \<Rightarrow> int option \<Rightarrow> string option \<Rightarrow> att_db \<Rightarrow> att_db" where
  "mark_status now i st err sha nbytes mime d = att_update i (marked now st err sha nbytes mime) d"

definition att_soft_delete :: "time \<Rightarrow> attachment \<Rightarrow> att_db \<Rightarrow> att_db" where
  "att_soft_delete now x d = att_update (at_id x) (\<lambda>x. x\<lparr>at_deleted_at := Some now\<rparr>) d"

subsection \<open>Chunk repository\<close>

text \<open>\<open>embeddings[i] if embeddings else None\<close>.\<close>

definition vector_at :: "real list list option \<Rightarrow> nat \<Rightarrow> real list option result" where
  "vector_at embeddings i =
     (case embeddings of
        None \<Rightarrow> Inr None
      | Some vs \<Rightarrow> if vs = [] then Inr None
                   else if i < length vs then Inr (Some (vs ! i)) else Inl (IndexError ''list index out of range''))"

fun chunk_rows ::
    "principal \<Rightarrow> int \<Rightarrow> real list list option \<Rightarrow> string option \<Rightarrow> string \<Rightarrow> int \<Rightarrow> nat \<Rightarrow> (nat \<times> string) list
     \<Rightarrow> attachment_chunk list result" where
  "chunk_rows p aid vs model cfg next_id i [] = Inr []"
| "chunk_rows p aid vs model cfg next_id i ((idx, content) # cs) =
     rbind (vector_at vs i) (\<lambda>vec.
       rbind (chunk_rows p aid vs model cfg (next_id + 1) (Suc i) cs) (\<lambda>rows.
         Inr (\<lparr>ac_id = next_id, ac_org_id = p_org_id p, ac_attachment_id = aid, ac_chunk_index = idx, ac_content = content,
               ac_embedding = vec, ac_embedding_model = (if vec \<noteq> None then model else None), ac_ts_config = cfg\<rparr> # rows)))"

definition chunk_key :: "attachment_chunk \<Rightarrow> int \<times> nat" where
  "chunk_key c = (ac_attachment_id c, ac_chunk_index c)"

definition insert_many ::
    "principal \<Rightarrow> int \<Rightarrow> (nat \<times> string) list \<Rightarrow> real list list option \<Rightarrow> string option \<Rightarrow> string \<Rightarrow> att_db \<Rightarrow> (nat \<times> att_db) result" where
  "insert_many p aid cs vs model cfg d =
     rbind (chunk_rows p aid vs model cfg (next_chunk_id d) 0 cs) (\<lambda>rows.
       if \<not> distinct (map chunk_key (att_chunks d @ rows))
       then Inl (IntegrityError ''duplicate key value violates unique constraint'')
       else Inr (length rows,
         d\<lparr>att_chunks := att_chunks d @ rows, next_chunk_id := next_chunk_id d + int (length rows)\<rparr>))"

definition delete_for_attachment :: "int \<Rightarrow> att_db \<Rightarrow> att_db" where
  "delete_for_attachment aid d = d\<lparr>att_chunks := filter (\<lambda>c. ac_attachment_id c \<noteq> aid) (att_chunks d)\<rparr>"

definition reanalyse_chunks :: "principal \<Rightarrow> scope_type \<Rightarrow> int \<Rightarrow> string \<Rightarrow> att_db \<Rightarrow> att_db" where
  "reanalyse_chunks p st sid cfg d =
     d\<lparr>att_chunks := map (\<lambda>c. if \<exists>x \<in> set (attachments d). at_id x = ac_attachment_id c \<and> at_org_id x = p_org_id p \<and>
            at_scope_type x = st \<and> at_scope_id x = sid then c\<lparr>ac_ts_config := cfg\<rparr> else c) (att_chunks d)\<rparr>"

record chunk_hit =
  ch_chunk_id :: int
  ch_attachment_id :: int
  ch_attachment_public_id :: string
  ch_filename :: string
  ch_chunk_index :: nat
  ch_content :: string
  ch_score :: real

definition att_join :: "att_db \<Rightarrow> (attachment_chunk \<times> attachment) list" where
  "att_join d = concat (map (\<lambda>c. map (Pair c) (filter (\<lambda>x. at_id x = ac_attachment_id c) (attachments d))) (att_chunks d))"

definition chunk_visible :: "scope_filter list \<Rightarrow> sensitivity \<Rightarrow> principal \<Rightarrow> attachment_chunk \<times> attachment \<Rightarrow> bool" where
  "chunk_visible scopes mx p = (\<lambda>(c, x). att_live x \<and> at_sensitivity x \<in> set (sensitivities_up_to mx) \<and>
     (is_superuser p \<or> at_org_id x = p_org_id p) \<and>
     (scopes = [] \<or> (\<exists>sf \<in> set scopes. at_scope_type x = sf_type sf \<and> at_scope_id x = sf_id sf)))"

definition chunk_hit_of :: "real \<Rightarrow> attachment_chunk \<times> attachment \<Rightarrow> chunk_hit" where
  "chunk_hit_of score = (\<lambda>(c, x). \<lparr>ch_chunk_id = ac_id c, ch_attachment_id = ac_attachment_id c,
     ch_attachment_public_id = at_public_id x, ch_filename = at_filename x, ch_chunk_index = ac_chunk_index c,
     ch_content = ac_content c, ch_score = score\<rparr>)"

definition chunk_vector_ids :: "pg_engine \<Rightarrow> settings \<Rightarrow> real list option \<Rightarrow> (attachment_chunk \<times> attachment) list \<Rightarrow> int list" where
  "chunk_vector_ids pg s qvec seen =
     (case qvec of
        None \<Rightarrow> []
      | Some qv \<Rightarrow>
          map (ac_id \<circ> fst) (take (retrieval_top_k_vector s)
            (sort_key (\<lambda>r. vector_distance pg (the (ac_embedding (fst r))) qv)
              (filter (\<lambda>r. ac_embedding (fst r) \<noteq> None) seen))))"

definition chunk_bm25_ids :: "pg_engine \<Rightarrow> settings \<Rightarrow> string \<Rightarrow> string \<Rightarrow> (attachment_chunk \<times> attachment) list \<Rightarrow> int list" where
  "chunk_bm25_ids pg s cfg query seen =
     map (ac_id \<circ> fst) (take (retrieval_top_k_bm25 s)
       (sorted_desc (\<lambda>r. ts_rank_cd pg (ac_ts_config (fst r)) (ac_content (fst r)) cfg query)
         (filter (\<lambda>r. ts_matches pg (ac_ts_config (fst r)) (ac_content (fst r)) cfg query) seen)))"

text \<open>Rows fetched by identifier in ranked order.\<close>

definition fetch_chunks :: "(int \<times> real) list \<Rightarrow> int set \<Rightarrow> (attachment_chunk \<times> attachment) list \<Rightarrow> int list \<Rightarrow> chunk_hit list" where
  "fetch_chunks scores keep rows ordered =
     (let by_id = map (\<lambda>r. (ac_id (fst r), r)) (filter (\<lambda>r. ac_id (fst r) \<in> keep) rows)
      in List.map_filter (\<lambda>i. map_option (chunk_hit_of (the (map_of scores i))) (map_of by_id i)) ordered)"

definition chunk_search ::
    "pg_engine \<Rightarrow> settings \<Rightarrow> project list \<Rightarrow> string \<Rightarrow> real list option \<Rightarrow> scope_filter list \<Rightarrow> sensitivity \<Rightarrow> nat
     \<Rightarrow> principal \<Rightarrow> att_db \<Rightarrow> chunk_hit list" where
  "chunk_search pg s prs query qvec scopes mx limit p d =
     (let rows = att_join d;
          seen = filter (chunk_visible scopes mx p) rows;
          vs = chunk_vector_ids pg s qvec seen;
          bs = chunk_bm25_ids pg s (config_for_scopes prs p scopes) query seen
      in if vs = [] \<and> bs = [] then []
         else
           let scores = rrf_fuse (retrieval_rrf_k s) {} 0 (filter (\<lambda>r. r \<noteq> []) [vs, bs]);
               ordered = map fst (sorted_desc snd scores);
               keep = take (max (limit * 2) limit) ordered
           in if keep = [] then []
              else take limit (sorted_desc ch_score (fetch_chunks scores (set keep) rows ordered)))"

subsection \<open>The object store\<close>

record blob_metadata =
  bm_size_bytes :: int
  bm_content_type :: "string option"
  bm_sha256 :: "string option"

type_synonym blobs = "((string \<times> string) \<times> string) list"

definition fs_head :: "(string \<Rightarrow> string) \<Rightarrow> string \<Rightarrow> string \<Rightarrow> blobs \<Rightarrow> blob_metadata option" where
  "fs_head sha bucket key st =
     map_option (\<lambda>body. \<lparr>bm_size_bytes = int (length body), bm_content_type = None, bm_sha256 = Some (sha body)\<rparr>)
       (map_of st (bucket, key))"

definition fs_get_bytes :: "string \<Rightarrow> string \<Rightarrow> blobs \<Rightarrow> string result" where
  "fs_get_bytes bucket key st =
     (case map_of st (bucket, key) of
        None \<Rightarrow> Inl (StorageError (''object not found: '' @ bucket @ ''/'' @ key))
      | Some body \<Rightarrow> Inr body)"

definition fs_put_bytes :: "(string \<Rightarrow> string) \<Rightarrow> string \<Rightarrow> string \<Rightarrow> string \<Rightarrow> string option \<Rightarrow> blobs \<Rightarrow> blob_metadata \<times> blobs" where
  "fs_put_bytes sha bucket key body content_type st =
     (\<lparr>bm_size_bytes = int (length body), bm_content_type = content_type, bm_sha256 = Some (sha body)\<rparr>,
      AList.update (bucket, key) body st)"

definition fs_delete :: "string \<Rightarrow> string \<Rightarrow> blobs \<Rightarrow> bool \<times> blobs" where
  "fs_delete bucket key st =
     (case map_of st (bucket, key) of None \<Rightarrow> (False, st) | Some _ \<Rightarrow> (True, AList.delete (bucket, key) st))"

subsection \<open>Text extraction\<close>

record extractors =
  ex_utf8 :: "string \<Rightarrow> string"
  ex_pdf :: "(string \<Rightarrow> string + string list) option"
  ex_docx :: "(string \<Rightarrow> string + string list) option"

definition MIME_PLAIN :: "string list" where
  "MIME_PLAIN = [''text/plain'', ''text/markdown'', ''text/x-markdown'', ''text/csv'', ''application/json'']"

definition extract_pdf :: "extractors \<Rightarrow> string \<Rightarrow> string result" where
  "extract_pdf ex body =
     (case ex_pdf ex of
        None \<Rightarrow> Inl (ExtractionError ''PyMuPDF not installed; install kortex-core[attachments]'')
      | Some rd \<Rightarrow> (case rd body of
            Inl e \<Rightarrow> Inl (ExtractionError (''pdf extraction failed: '' @ e))
          | Inr pages \<Rightarrow> Inr (py_join [newline] pages)))"

definition extract_docx :: "extractors \<Rightarrow> string \<Rightarrow> string result" where
  "extract_docx ex body =
     (case ex_docx ex of
        None \<Rightarrow> Inl (ExtractionError ''python-docx not installed; install kortex-core[attachments]'')
      | Some rd \<Rightarrow> (case rd body of
            Inl e \<Rightarrow> Inl (ExtractionError (''docx extraction failed: '' @ e))
          | Inr paragraphs \<Rightarrow> Inr (py_join [newline] paragraphs)))"

text \<open>The branch for plain text and the fallback decode alike: with replacement, decoding never fails.\<close>

definition extract_text :: "extractors \<Rightarrow> string option \<Rightarrow> string \<Rightarrow> string \<Rightarrow> string result" where
  "extract_text ex mime filename body =
     (let m = py_lower (case mime of None \<Rightarrow> [] | Some v \<Rightarrow> v); name = py_lower filename
      in if m = ''application/pdf'' \<or> endswith name ''.pdf'' then extract_pdf ex body
         else if m = ''application/vnd.openxmlformats-officedocument.wordprocessingml.document'' \<or> endswith name ''.docx''
         then extract_docx ex body
         else if m \<in> set MIME_PLAIN \<or> (\<exists>e \<in> {''.txt'', ''.md'', ''.markdown'', ''.csv'', ''.json''}. endswith name e)
         then Inr (ex_utf8 ex body)
         else Inr (ex_utf8 ex body))"

subsection \<open>The service\<close>

definition att_scope :: "attachment \<Rightarrow> scope_ref" where
  "att_scope x = \<lparr>ref_type = at_scope_type x, ref_id = at_scope_id x\<rparr>"

definition att_resource :: "attachment \<Rightarrow> resource_ref" where
  "att_resource x = \<lparr>res_scope = att_scope x, res_sensitivity = at_sensitivity x\<rparr>"

definition build_key :: "int \<Rightarrow> scope_type \<Rightarrow> int \<Rightarrow> string \<Rightarrow> string \<Rightarrow> string" where
  "build_key org st sid uuid filename =
     (let safe = take 200 (map (\<lambda>c. if c = CHR ''/'' \<or> c = CHR 0x5C then CHR ''_'' else c) filename)
      in ''orgs/'' @ show_int org @ ''/'' @ scope_type_value st @ ''/'' @ show_int sid @ ''/'' @ uuid @ ''/'' @ safe)"

definition too_large :: "int \<Rightarrow> settings \<Rightarrow> string" where
  "too_large n s = ''attachment exceeds max size ('' @ show_int n @ '' > '' @ show_int (attachment_max_bytes s) @ '')''"

definition presign_upload ::
    "settings \<Rightarrow> principal \<Rightarrow> time \<Rightarrow> string \<Rightarrow> string \<Rightarrow> att_args \<Rightarrow> att_db \<Rightarrow> (attachment \<times> att_db) result" where
  "presign_upload s p now pid uuid a d =
     rbind (require_scope p ''write:attachment'') (\<lambda>_.
       let sc = \<lparr>ref_type = aa_scope_type a, ref_id = aa_scope_id a\<rparr>;
           hint = (case aa_size_hint a of None \<Rightarrow> 0 | Some n \<Rightarrow> n)
       in if \<not> can_write p \<lparr>res_scope = sc, res_sensitivity = aa_sensitivity a\<rparr>
          then Inl (AccessDeniedError (''cannot write '' @ sensitivity_value (aa_sensitivity a) @
                 '' attachment in '' @ show_scope_ref sc))
          else if hint \<noteq> 0 \<and> hint > attachment_max_bytes s then Inl (AttachmentError (too_large hint s))
          else att_create p pid now (s3_bucket s)
                 (build_key (p_org_id p) (aa_scope_type a) (aa_scope_id a) uuid (aa_filename a)) hint
                 (if actor_kind p = USER then Some (actor_id p) else None) a d)"

text \<open>\<open>x or y\<close> on optional texts and numbers.\<close>

definition or_str :: "string option \<Rightarrow> string option \<Rightarrow> string option" where
  "or_str x y = (if x = None \<or> x = Some [] then y else x)"

definition or_int :: "int option \<Rightarrow> int \<Rightarrow> int" where
  "or_int x y = (case x of None \<Rightarrow> y | Some n \<Rightarrow> if n = 0 then y else n)"

text \<open>
  The object deleted as too large stays deleted although the exception rolls the database back; the last component
  is the task sent to the broker.
\<close>

definition finalize ::
    "settings \<Rightarrow> (string \<Rightarrow> string) \<Rightarrow> principal \<Rightarrow> time \<Rightarrow> string \<Rightarrow> string option \<Rightarrow> int option \<Rightarrow> string option
     \<Rightarrow> att_db \<times> blobs \<Rightarrow> (attachment option \<times> att_db) result \<times> blobs \<times> int list" where
  "finalize s sha p now pid sha256 nbytes mime = (\<lambda>(d, st).
     case require_scope p ''write:attachment'' of
       Inl e \<Rightarrow> (Inl e, st, [])
     | Inr _ \<Rightarrow>
         case att_get_by_public_id pid p (attachments d) of
           None \<Rightarrow> (Inr (None, d), st, [])
         | Some x \<Rightarrow>
             if at_processing_status x \<notin> {ATT_PENDING, FAILED} then (Inr (Some x, d), st, [])
             else case fs_head sha (at_s3_bucket x) (at_s3_key x) st of
                    None \<Rightarrow> (Inl (AttachmentError ''object not found in blob store -- finalize called before upload''), st, [])
                  | Some meta \<Rightarrow>
                      if bm_size_bytes meta > attachment_max_bytes s
                      then (Inl (AttachmentError (too_large (bm_size_bytes meta) s)),
                            snd (fs_delete (at_s3_bucket x) (at_s3_key x) st), [])
                      else
                        let d1 = mark_status now (at_id x) PROCESSING None (or_str sha256 (bm_sha256 meta))
                              (Some (or_int nbytes (bm_size_bytes meta)))
                              (or_str mime (or_str (bm_content_type meta) (at_mime x))) d
                        in case att_get_by_id (at_id x) p (attachments d1) of
                             None \<Rightarrow> (Inl (RuntimeError ''assertion failed''), st, [])
                           | Some y \<Rightarrow> (Inr (Some y, d1), st, [at_id y]))"

definition att_get :: "principal \<Rightarrow> string \<Rightarrow> att_db \<Rightarrow> attachment option result" where
  "att_get p pid d =
     rbind (require_scope p ''read:attachment'') (\<lambda>_.
       Inr (case att_get_by_public_id pid p (attachments d) of
              None \<Rightarrow> None
            | Some x \<Rightarrow> if can_read p (att_resource x) then Some x else None))"

definition att_service_list ::
    "principal \<Rightarrow> scope_filter option \<Rightarrow> attachment_status option \<Rightarrow> nat \<Rightarrow> nat \<Rightarrow> att_db \<Rightarrow> attachment list result" where
  "att_service_list p sc st limit offset d =
     rbind (require_scope p ''read:attachment'') (\<lambda>_.
       Inr (att_list sc st limit offset (if is_superuser p then None else Some (max_sensitivity p)) p (attachments d)))"

definition att_delete :: "principal \<Rightarrow> time \<Rightarrow> string \<Rightarrow> att_db \<Rightarrow> (bool \<times> att_db) result" where
  "att_delete p now pid d =
     rbind (require_scope p ''write:attachment'') (\<lambda>_.
       case att_get_by_public_id pid p (attachments d) of
         None \<Rightarrow> Inr (False, d)
       | Some x \<Rightarrow>
           if \<not> can_write p (att_resource x)
           then Inl (AccessDeniedError (''cannot delete '' @ sensitivity_value (at_sensitivity x) @ '' attachment''))
           else Inr (True, att_soft_delete now x d))"

subsection \<open>The worker\<close>

record process_env =
  pe_settings :: settings
  pe_extractors :: extractors
  pe_embedder :: "embedder result"

text \<open>\<open>str(e)\<close> of the two exceptions that reading and extracting raise.\<close>

definition read_error :: "py_error \<Rightarrow> string" where
  "read_error e = (case e of StorageError m \<Rightarrow> m | ExtractionError m \<Rightarrow> m | _ \<Rightarrow> [])"

definition store_chunks ::
    "principal \<Rightarrow> embedder result \<Rightarrow> int \<Rightarrow> time \<Rightarrow> string \<Rightarrow> (nat \<times> string) list \<Rightarrow> att_db \<Rightarrow> (string \<times> att_db) result" where
  "store_chunks p get_embedder aid now cfg cs d =
     (let plain = rbind (insert_many p aid cs None None cfg d) (\<lambda>(_, d1).
             Inr (''ready_no_embeddings'', mark_status now aid READY None None None None d1))
      in case get_embedder of
           Inl (KeyError _) \<Rightarrow> plain
         | Inl (EmbeddingError _) \<Rightarrow> plain
         | Inl e \<Rightarrow> Inl e
         | Inr em \<Rightarrow>
             if cs = [] then plain
             else case em_embed em 0 (map snd cs) of
                    Inl (EmbeddingError _) \<Rightarrow> plain
                  | Inl e \<Rightarrow> Inl e
                  | Inr vs \<Rightarrow> rbind (insert_many p aid cs (Some vs) (Some (em_model_id em)) cfg d) (\<lambda>(_, d1).
                      Inr (''ready'', mark_status now aid READY None None None None d1)))"

definition process_one ::
    "process_env \<Rightarrow> project list \<Rightarrow> blobs \<Rightarrow> time \<Rightarrow> int \<Rightarrow> att_db \<Rightarrow> (string \<times> att_db) result" where
  "process_one env prs st now aid d =
     (case att_get_by_id aid (superuser_principal 0) (attachments d) of
        None \<Rightarrow> Inr (''missing'', d)
      | Some x \<Rightarrow>
          let scoped = superuser_principal (at_org_id x); s = pe_settings env
          in case rbind (fs_get_bytes (at_s3_bucket x) (at_s3_key x) st)
                    (extract_text (pe_extractors env) (at_mime x) (at_filename x)) of
               Inl e \<Rightarrow> Inr (''failed'', mark_status now aid FAILED (Some (read_error e)) None None None d)
             | Inr body \<Rightarrow>
                 if py_strip body = []
                 then Inr (''empty'', mark_status now aid FAILED (Some ''no extractable text'') None None None d)
                 else rbind (chunk_text (attachment_chunk_tokens s) (attachment_chunk_overlap s) body) (\<lambda>cs.
                   store_chunks scoped (pe_embedder env) aid now
                     (config_for_scope prs scoped (Some (at_scope_type x)) (Some (at_scope_id x))) cs
                     (delete_for_attachment aid d)))"

subsection \<open>The endpoints\<close>

text \<open>The answer 400 is the error \<open>ValidationError\<close>.\<close>

definition search_attachments ::
    "pg_engine \<Rightarrow> settings \<Rightarrow> project list \<Rightarrow> embedder result \<Rightarrow> principal \<Rightarrow> string \<Rightarrow> scope_filter list \<Rightarrow> bool \<Rightarrow> nat
     \<Rightarrow> att_db \<Rightarrow> (bool \<times> chunk_hit list) result" where
  "search_attachments pg s prs get_embedder p query scopes embed_query limit d =
     rbind (if \<not> embed_query then Inr None
            else case rbind get_embedder (\<lambda>em. em_embed em 0 [query]) of
                   Inl (EmbeddingError _) \<Rightarrow> Inr None
                 | Inl (KeyError _) \<Rightarrow> Inr None
                 | Inl (RuntimeError _) \<Rightarrow> Inr None
                 | Inl e \<Rightarrow> Inl e
                 | Inr [] \<Rightarrow> Inl (IndexError ''list index out of range'')
                 | Inr (v # _) \<Rightarrow> Inr (Some v))
       (\<lambda>qvec. Inr (qvec \<noteq> None, chunk_search pg s prs query qvec scopes (max_sensitivity p) limit p d))"

definition set_text_search_config ::
    "string set \<Rightarrow> principal \<Rightarrow> string \<Rightarrow> string \<Rightarrow> db \<times> att_db \<Rightarrow> (project \<times> db \<times> att_db) result" where
  "set_text_search_config supported p pid cfg = (\<lambda>(d, a).
     if cfg \<notin> supported then Inl (ValidationError (''unknown text search configuration '' @ py_repr_str cfg))
     else case project_by_public_id pid p (projects d) of
            None \<Rightarrow> Inl (NotFoundError ''project not found'')
          | Some r \<Rightarrow>
              Inr (r\<lparr>pr_text_search_config := cfg\<rparr>,
                reanalyse_scope p PROJECT (pr_id r) cfg
                  (d\<lparr>projects := map (\<lambda>x. if pr_id x = pr_id r then x\<lparr>pr_text_search_config := cfg\<rparr> else x) (projects d)\<rparr>),
                reanalyse_chunks p PROJECT (pr_id r) cfg a))"

section \<open>Tenant reads\<close>

interpretation att_named: tenant_reader at_org_id "\<lambda>p xs. opt_list (att_get_by_public_id pid p xs)" for pid
  by unfold_locales (auto simp: att_get_by_public_id_def dest!: set_opt_list [THEN subsetD])

interpretation att_numbered: tenant_reader at_org_id "\<lambda>p xs. opt_list (att_get_by_id i p xs)" for i
  by unfold_locales (auto simp: att_get_by_id_def dest!: set_opt_list [THEN subsetD])

interpretation att_listing: tenant_reader at_org_id "att_list sc st limit offset mx" for sc st limit offset mx
  by unfold_locales (auto simp: att_list_def dest!: in_set_takeD in_set_dropD)

interpretation att_waiting: tenant_reader at_org_id "att_list_pending limit" for limit
  by unfold_locales (auto simp: att_list_pending_def dest!: in_set_takeD)

lemma att_get_row:
  assumes "att_get_by_public_id pid p xs = Some x"
  shows "x \<in> set xs \<and> at_public_id x = pid \<and> att_live x \<and> (is_superuser p \<or> at_org_id x = p_org_id p)"
  using first_row_in [OF assms [unfolded att_get_by_public_id_def]] by (auto simp: tenant_rows_def split: if_splits)

lemma att_get_id_row:
  assumes "att_get_by_id i p xs = Some x"
  shows "x \<in> set xs \<and> at_id x = i \<and> att_live x"
  using first_row_in [OF assms [unfolded att_get_by_id_def]] by (auto simp: tenant_rows_def split: if_splits)

section \<open>The store as an interface\<close>

text \<open>What the service and the worker rely on: what was put is read back and sized, deleted objects are gone, and other objects stay.\<close>

locale blob_store =
  fixes head :: "string \<Rightarrow> string \<Rightarrow> 's \<Rightarrow> blob_metadata option"
    and get_bytes :: "string \<Rightarrow> string \<Rightarrow> 's \<Rightarrow> string result"
    and put_bytes :: "string \<Rightarrow> string \<Rightarrow> string \<Rightarrow> string option \<Rightarrow> 's \<Rightarrow> blob_metadata \<times> 's"
    and remove :: "string \<Rightarrow> string \<Rightarrow> 's \<Rightarrow> bool \<times> 's"
  assumes get_put: "get_bytes b k (snd (put_bytes b k body ct st)) = Inr body"
    and put_other: "(b', k') \<noteq> (b, k) \<Longrightarrow> get_bytes b' k' (snd (put_bytes b k body ct st)) = get_bytes b' k' st"
    and head_get: "head b k st = Some m \<Longrightarrow> \<exists>body. get_bytes b k st = Inr body \<and> bm_size_bytes m = int (length body)"
    and get_head: "get_bytes b k st = Inr body \<Longrightarrow> head b k st \<noteq> None"
    and get_removed: "\<exists>e. get_bytes b k (snd (remove b k st)) = Inl e"
    and remove_other: "(b', k') \<noteq> (b, k) \<Longrightarrow> get_bytes b' k' (snd (remove b k st)) = get_bytes b' k' st"
begin

lemma head_put: "\<exists>m. head b k (snd (put_bytes b k body ct st)) = Some m \<and> bm_size_bytes m = int (length body)"
proof -
  obtain m where m: "head b k (snd (put_bytes b k body ct st)) = Some m" using get_head [OF get_put] by blast
  then show ?thesis using head_get [OF m] by (auto simp: get_put)
qed

lemma head_removed: "head b k (snd (remove b k st)) = None"
proof (rule ccontr)
  assume "head b k (snd (remove b k st)) \<noteq> None"
  then obtain m where "head b k (snd (remove b k st)) = Some m" by blast
  from head_get [OF this] get_removed [of b k st] show False by auto
qed

end

interpretation fs: blob_store "fs_head sha" fs_get_bytes "fs_put_bytes sha" fs_delete for sha
proof (unfold_locales, goal_cases)
  case (6 b' k' b k st)
  then show ?case by (auto simp: fs_get_bytes_def fs_delete_def delete_conv split: option.split)
qed (auto simp: fs_get_bytes_def fs_put_bytes_def fs_head_def fs_delete_def update_conv delete_conv split: option.splits)

section \<open>The life of an attachment\<close>

abbreviation chunks_of :: "att_db \<Rightarrow> int \<Rightarrow> attachment_chunk list" where
  "chunks_of d i \<equiv> filter (\<lambda>c. ac_attachment_id c = i) (att_chunks d)"

definition numbered_text :: "attachment_chunk list \<Rightarrow> (nat \<times> string) list" where
  "numbered_text cs = map (\<lambda>c. (ac_chunk_index c, ac_content c)) cs"

definition file_ok :: "settings \<Rightarrow> attachment_chunk list \<Rightarrow> attachment \<Rightarrow> bool" where
  "file_ok s cs x \<longleftrightarrow>
     (case at_processed_at x of
        None \<Rightarrow> cs = []
      | Some _ \<Rightarrow> \<exists>t. py_strip t \<noteq> [] \<and>
          chunk_text (attachment_chunk_tokens s) (attachment_chunk_overlap s) t = Inr (numbered_text cs)) \<and>
     (at_processing_status x = READY \<longrightarrow> at_processed_at x \<noteq> None \<and> at_processing_error x = None) \<and>
     (at_processing_status x = FAILED \<longrightarrow> at_processing_error x \<noteq> None) \<and>
     (\<forall>c \<in> set cs. ac_org_id c = at_org_id x)"

definition att_ok :: "settings \<Rightarrow> att_db \<Rightarrow> bool" where
  "att_ok s d \<longleftrightarrow>
     (\<forall>x \<in> set (attachments d). at_id x < next_attachment_id d \<and> file_ok s (chunks_of d (at_id x)) x) \<and>
     (\<forall>c \<in> set (att_chunks d). ac_attachment_id c \<in> at_id ` set (attachments d)) \<and>
     distinct (map at_id (attachments d))"

lemma att_update_ok:
  assumes "att_ok s d"
    and "\<And>x. x \<in> set (attachments d) \<Longrightarrow> at_id x = i \<Longrightarrow> file_ok s (chunks_of d i) x \<Longrightarrow>
      at_id (f x) = i \<and> file_ok s (chunks_of d i) (f x)"
  shows "att_ok s (att_update i f d)"
proof -
  have "at_id (f x) = i" if "x \<in> set (attachments d)" and "at_id x = i" for x
  proof -
    have "file_ok s (chunks_of d i) x" using assms(1) that by (auto simp: att_ok_def)
    then show ?thesis using assms(2) [OF that] by blast
  qed
  then have ids: "map at_id (attachments (att_update i f d)) = map at_id (attachments d)"
    by (simp add: att_update_def)
  then have set_ids: "at_id ` set (attachments (att_update i f d)) = at_id ` set (attachments d)"
    by (metis list.set_map)
  have "at_id y < next_attachment_id d \<and> file_ok s (chunks_of d (at_id y)) y" if "y \<in> set (attachments (att_update i f d))" for y
  proof -
    obtain x where x: "x \<in> set (attachments d)" "y = (if at_id x = i then f x else x)"
      using \<open>y \<in> _\<close> by (auto simp: att_update_def)
    have "at_id x < next_attachment_id d \<and> file_ok s (chunks_of d (at_id x)) x" using assms(1) x(1) by (simp add: att_ok_def)
    then show ?thesis using assms(2) [OF x(1)] x(2) by auto
  qed
  moreover have "att_chunks (att_update i f d) = att_chunks d" "next_attachment_id (att_update i f d) = next_attachment_id d"
    by (simp_all add: att_update_def)
  ultimately show ?thesis using assms(1) by (simp add: att_ok_def ids set_ids)
qed

lemma marked_simps [simp]:
  "at_id (marked now st err sha n mime x) = at_id x" "at_org_id (marked now st err sha n mime x) = at_org_id x"
  "at_processing_status (marked now st err sha n mime x) = st" "at_deleted_at (marked now st err sha n mime x) = at_deleted_at x"
  by (simp_all add: marked_def)

lemma mark_waiting_ok:
  "att_ok s d \<Longrightarrow> att_ok s (mark_status now i PROCESSING err sha n mime d)"
  unfolding mark_status_def by (rule att_update_ok) (simp_all add: file_ok_def marked_def)

lemma mark_failed_ok:
  "att_ok s d \<Longrightarrow> att_ok s (mark_status now i FAILED (Some err) sha n mime d)"
  unfolding mark_status_def by (rule att_update_ok) (simp_all add: file_ok_def marked_def)

lemma delete_ok: "att_ok s d \<Longrightarrow> att_ok s (att_soft_delete now x d)"
  unfolding att_soft_delete_def by (rule att_update_ok) (simp_all add: file_ok_def)

lemma create_ok:
  assumes "att_ok s d" and "att_create p pid now bucket key n by a d = Inr (x, d')"
  shows "att_ok s d'"
proof -
  have "d' = d\<lparr>attachments := attachments d @ [x], next_attachment_id := next_attachment_id d + 1\<rparr>" and
    x: "at_id x = next_attachment_id d" "at_processed_at x = None" "at_processing_status x = ATT_PENDING"
    using assms(2) by (auto simp: att_create_def Let_def split: if_splits)
  moreover have none: "chunks_of d (at_id x) = []"
    using assms(1) x(1) by (fastforce simp: att_ok_def filter_empty_conv)
  ultimately show ?thesis
    using assms(1) by (fastforce simp: att_ok_def file_ok_def)
qed

lemma file_ok_map:
  assumes "\<And>c. ac_org_id (f c) = ac_org_id c" and "\<And>c. ac_chunk_index (f c) = ac_chunk_index c"
    and "\<And>c. ac_content (f c) = ac_content c"
  shows "file_ok s (map f cs) x = file_ok s cs x"
  by (cases "at_processed_at x") (simp_all add: file_ok_def numbered_text_def comp_def assms)

lemma chunk_map_ok:
  assumes "att_ok s d" and "\<And>c. ac_attachment_id (f c) = ac_attachment_id c" and "\<And>c. ac_org_id (f c) = ac_org_id c"
    and "\<And>c. ac_chunk_index (f c) = ac_chunk_index c" and "\<And>c. ac_content (f c) = ac_content c"
  shows "att_ok s (d\<lparr>att_chunks := map f (att_chunks d)\<rparr>)"
proof -
  have "filter (\<lambda>c. ac_attachment_id c = i) (map f cs) = map f (filter (\<lambda>c. ac_attachment_id c = i) cs)" for i cs
    by (simp add: filter_map comp_def assms(2))
  then show ?thesis
    using assms(1) by (simp add: att_ok_def file_ok_map assms(2-5))
qed

lemma reanalyse_ok: "att_ok s d \<Longrightarrow> att_ok s (reanalyse_chunks p st sid cfg d)"
  unfolding reanalyse_chunks_def by (rule chunk_map_ok) simp_all

text \<open>Processing replaces the chunks of one attachment by those of its text.\<close>

lemma chunk_rows_shape:
  "chunk_rows p aid vs model cfg n i cs = Inr rows \<Longrightarrow>
     numbered_text rows = cs \<and> (\<forall>c \<in> set rows. ac_org_id c = p_org_id p \<and> ac_attachment_id c = aid \<and> ac_ts_config c = cfg)"
proof (induction p aid vs model cfg n i cs arbitrary: rows rule: chunk_rows.induct)
  case (2 p aid vs model cfg n i idx content cs)
  then show ?case
    by (auto simp: rbind_def numbered_text_def split: sum.splits)
qed (simp add: numbered_text_def)

lemma insert_many_rows:
  assumes "insert_many p aid cs vs model cfg d = Inr (n, d')"
  shows "\<exists>rows k. d' = d\<lparr>att_chunks := att_chunks d @ rows, next_chunk_id := k\<rparr> \<and> numbered_text rows = cs \<and>
    (\<forall>c \<in> set rows. ac_org_id c = p_org_id p \<and> ac_attachment_id c = aid)"
proof -
  obtain rows where rows: "chunk_rows p aid vs model cfg (next_chunk_id d) 0 cs = Inr rows"
    "d' = d\<lparr>att_chunks := att_chunks d @ rows, next_chunk_id := next_chunk_id d + int (length rows)\<rparr>"
    using assms by (auto simp: insert_many_def rbind_def split: sum.splits if_splits)
  then show ?thesis using chunk_rows_shape [OF rows(1)] by blast
qed

lemma store_chunks_effect:
  assumes "store_chunks p em aid now cfg cs d = Inr (note, d')"
  shows "note \<in> {''ready'', ''ready_no_embeddings''} \<and> (\<exists>rows k. d' = mark_status now aid READY None None None None (d\<lparr>att_chunks := att_chunks d @ rows, next_chunk_id := k\<rparr>) \<and>
    numbered_text rows = cs \<and> (\<forall>c \<in> set rows. ac_org_id c = p_org_id p \<and> ac_attachment_id c = aid))"
proof -
  obtain vs model n d1 where "insert_many p aid cs vs model cfg d = Inr (n, d1)"
    and d': "note \<in> {''ready'', ''ready_no_embeddings''}" "d' = mark_status now aid READY None None None None d1"
    using assms by (auto simp: store_chunks_def Let_def rbind_def split: sum.splits py_error.splits if_splits)
  from insert_many_rows [OF this(1)] show ?thesis using d' by blast
qed

text \<open>The four ways a run of the task ends.\<close>

lemma process_one_cases:
  assumes "process_one env prs st now aid d = Inr (note, d')"
  obtains (missing) "note = ''missing''" and "d' = d"
  | (failed) err where "note \<in> {''failed'', ''empty''}" and "d' = mark_status now aid FAILED (Some err) None None None d"
  | (stored) x body cs rows k where "note \<in> {''ready'', ''ready_no_embeddings''}" and "att_get_by_id aid (superuser_principal 0) (attachments d) = Some x"
      and "rbind (fs_get_bytes (at_s3_bucket x) (at_s3_key x) st)
             (extract_text (pe_extractors env) (at_mime x) (at_filename x)) = Inr body"
      and "py_strip body \<noteq> []"
      and "chunk_text (attachment_chunk_tokens (pe_settings env)) (attachment_chunk_overlap (pe_settings env)) body = Inr cs"
      and "numbered_text rows = cs"
      and "\<forall>c \<in> set rows. ac_org_id c = at_org_id x \<and> ac_attachment_id c = aid"
      and "d' = mark_status now aid READY None None None None
             ((delete_for_attachment aid d)\<lparr>att_chunks := att_chunks (delete_for_attachment aid d) @ rows, next_chunk_id := k\<rparr>)"
proof (cases "att_get_by_id aid (superuser_principal 0) (attachments d)")
  case None
  then show ?thesis using assms missing by (simp add: process_one_def)
next
  case (Some x)
  let ?read = "rbind (fs_get_bytes (at_s3_bucket x) (at_s3_key x) st)
             (extract_text (pe_extractors env) (at_mime x) (at_filename x))"
  show ?thesis
  proof (cases ?read)
    case (Inl e)
    then show ?thesis using assms Some failed [of "read_error e"] by (simp add: process_one_def Let_def)
  next
    case (Inr body)
    show ?thesis
    proof (cases "py_strip body = []")
      case True
      then show ?thesis using assms Some Inr failed [of "''no extractable text''"] by (simp add: process_one_def Let_def)
    next
      case False
      then obtain cs em cfg where
        cs: "chunk_text (attachment_chunk_tokens (pe_settings env)) (attachment_chunk_overlap (pe_settings env)) body = Inr cs"
        and run: "store_chunks (superuser_principal (at_org_id x)) em aid now cfg cs (delete_for_attachment aid d) = Inr (note, d')"
        using assms Some Inr by (auto simp: process_one_def Let_def rbind_def split: sum.splits)
      from store_chunks_effect [OF run] show ?thesis
        using stored [OF _ Some Inr False cs] by (auto simp: superuser_principal_def)
    qed
  qed
qed

lemma process_ok:
  assumes "att_ok s d" and "process_one env prs st now aid d = Inr (note, d')" and "pe_settings env = s"
  shows "att_ok s d'"
  using assms(2)
proof (cases rule: process_one_cases)
  case missing
  then show ?thesis using assms(1) by simp
next
  case failed
  then show ?thesis using assms(1) mark_failed_ok by simp
next
  case (stored x body cs rows k)
  note row = att_get_id_row [OF stored(2)]
  let ?d1 = "(delete_for_attachment aid d)\<lparr>att_chunks := att_chunks (delete_for_attachment aid d) @ rows, next_chunk_id := k\<rparr>"
  have mine: "filter (\<lambda>c. ac_attachment_id c = i) rows = (if i = aid then rows else [])" for i
    using stored(7) by (auto simp: filter_empty_conv filter_id_conv)
  have chunks: "chunks_of d' i = (if i = aid then rows else chunks_of d i)" for i
    by (auto simp: stored(8) mark_status_def att_update_def delete_for_attachment_def mine intro!: filter_cong)
  have atts: "attachments d' = map (\<lambda>y. if at_id y = aid then marked now READY None None None None y else y) (attachments d)"
    by (simp add: stored(8) mark_status_def att_update_def delete_for_attachment_def)
  have ids: "map at_id (attachments d') = map at_id (attachments d)" by (simp add: atts comp_def if_distrib cong: if_cong)
  then have set_ids: "at_id ` set (attachments d') = at_id ` set (attachments d)" by (metis list.set_map)
  have one: "y = x" if "y \<in> set (attachments d)" "at_id y = aid" for y
    using that row assms(1) unfolding att_ok_def by (auto dest!: distinct_map [THEN iffD1] inj_onD)
  have "at_id y < next_attachment_id d' \<and> file_ok s (chunks_of d' (at_id y)) y" if "y \<in> set (attachments d')" for y
  proof -
    obtain z where z: "z \<in> set (attachments d)" "y = (if at_id z = aid then marked now READY None None None None z else z)"
      using \<open>y \<in> _\<close> by (auto simp: atts)
    have old: "at_id z < next_attachment_id d \<and> file_ok s (chunks_of d (at_id z)) z" using assms(1) z(1) by (simp add: att_ok_def)
    have nxt: "next_attachment_id d' = next_attachment_id d"
      by (simp add: stored(8) mark_status_def att_update_def delete_for_attachment_def)
    show ?thesis
    proof (cases "at_id z = aid")
      case True
      then have "z = x" using one z(1) by blast
      have "file_ok s rows (marked now READY None None None None x)"
        using stored(4,5,6,7) assms(3) by (auto simp: file_ok_def marked_def)
      then show ?thesis using old True z(2) \<open>z = x\<close> nxt by (simp add: chunks)
    next
      case False
      then show ?thesis using old z(2) nxt by (simp add: chunks)
    qed
  qed
  moreover have "ac_attachment_id c \<in> at_id ` set (attachments d)" if "c \<in> set (att_chunks d')" for c
  proof -
    have "c \<in> set (att_chunks d) \<or> c \<in> set rows"
      using that by (auto simp: stored(8) mark_status_def att_update_def delete_for_attachment_def)
    then show ?thesis using assms(1) stored(7) row by (auto simp: att_ok_def)
  qed
  ultimately show ?thesis using assms(1) by (simp add: att_ok_def ids set_ids)
qed

section \<open>Reachable states\<close>

text \<open>What happens to the tables and the store: uploads by clients, calls of the service, runs of the worker.\<close>

inductive att_step :: "process_env \<Rightarrow> (string \<Rightarrow> string) \<Rightarrow> att_db \<times> blobs \<Rightarrow> att_db \<times> blobs \<Rightarrow> bool" for env sha where
  uploaded: "att_step env sha (d, st) (d, snd (fs_put_bytes sha b k body ct st))"
| presigned: "presign_upload (pe_settings env) p now pid uuid a d = Inr (x, d') \<Longrightarrow> att_step env sha (d, st) (d', st)"
| finalized: "finalize (pe_settings env) sha p now pid sh n mime (d, st) = (Inr (r, d'), st', tasks) \<Longrightarrow>
     att_step env sha (d, st) (d', st')"
| refused: "finalize (pe_settings env) sha p now pid sh n mime (d, st) = (Inl e, st', tasks) \<Longrightarrow> att_step env sha (d, st) (d, st')"
| deleted: "att_delete p now pid d = Inr (r, d') \<Longrightarrow> att_step env sha (d, st) (d', st)"
| processed: "process_one env prs st now aid d = Inr (note, d') \<Longrightarrow> att_step env sha (d, st) (d', st)"
| reanalysed: "set_text_search_config supported p pid cfg (db, d) = Inr (pr, db', d') \<Longrightarrow> att_step env sha (d, st) (d', st)"

inductive att_reach :: "process_env \<Rightarrow> (string \<Rightarrow> string) \<Rightarrow> att_db \<times> blobs \<Rightarrow> bool" for env sha where
  start: "att_reach env sha (\<lparr>attachments = [], att_chunks = [], next_attachment_id = 1, next_chunk_id = 1\<rparr>, [])"
| more: "att_reach env sha v \<Longrightarrow> att_step env sha v w \<Longrightarrow> att_reach env sha w"

lemma finalize_effect:
  assumes "finalize s sha p now pid sh n mime (d, st) = (Inr (r, d'), st', tasks)"
  obtains "d' = d" and "st' = st" and "tasks = []"
  | x meta where "att_get_by_public_id pid p (attachments d) = Some x" and "at_processing_status x \<in> {ATT_PENDING, FAILED}"
      and "has_key_scope p ''write:attachment''"
      and "fs_head sha (at_s3_bucket x) (at_s3_key x) st = Some meta" and "bm_size_bytes meta \<le> attachment_max_bytes s"
      and "d' = mark_status now (at_id x) PROCESSING None (or_str sh (bm_sha256 meta)) (Some (or_int n (bm_size_bytes meta)))
                  (or_str mime (or_str (bm_content_type meta) (at_mime x))) d"
      and "st' = st" and "tasks = [at_id x]"
proof -
  have scope: "has_key_scope p ''write:attachment''"
    using assms by (cases "has_key_scope p ''write:attachment''") (simp_all add: finalize_def require_scope_def)
  then have ok: "require_scope p ''write:attachment'' = Inr ()" by (simp add: require_scope_def)
  show ?thesis
  proof (cases "att_get_by_public_id pid p (attachments d)")
    case None
    then show ?thesis using assms ok that(1) by (simp add: finalize_def)
  next
    case (Some x)
    show ?thesis
    proof (cases "at_processing_status x \<in> {ATT_PENDING, FAILED}")
      case False
      then show ?thesis using assms ok Some that(1) by (simp add: finalize_def)
    next
      case waiting: True
      then have w: "(at_processing_status x \<noteq> ATT_PENDING \<and> at_processing_status x \<noteq> FAILED) = False" by simp
      obtain meta where meta: "fs_head sha (at_s3_bucket x) (at_s3_key x) st = Some meta"
        using assms ok Some by (cases "fs_head sha (at_s3_bucket x) (at_s3_key x) st") (simp_all add: finalize_def w)
      have fits: "bm_size_bytes meta \<le> attachment_max_bytes s"
      proof (rule ccontr)
        assume "\<not> ?thesis"
        then show False using assms ok Some meta by (simp add: finalize_def w)
      qed
      let ?d = "mark_status now (at_id x) PROCESSING None (or_str sh (bm_sha256 meta)) (Some (or_int n (bm_size_bytes meta)))
                  (or_str mime (or_str (bm_content_type meta) (at_mime x))) d"
      obtain y where y: "att_get_by_id (at_id x) p (attachments ?d) = Some y"
        using assms ok Some meta fits
        by (cases "att_get_by_id (at_id x) p (attachments ?d)") (simp_all add: finalize_def w Let_def)
      have "d' = ?d" "st' = st" "tasks = [at_id y]"
        using assms ok Some meta fits y by (simp_all add: finalize_def w Let_def)
      then show ?thesis using that(2) [OF Some waiting scope meta fits] att_get_id_row [OF y] by simp
    qed
  qed
qed

lemma att_delete_effect:
  assumes "att_delete p now pid d = Inr (r, d')"
  obtains "r = False" and "d' = d"
  | x where "r = True" and "att_get_by_public_id pid p (attachments d) = Some x" and "can_write p (att_resource x)"
      and "has_key_scope p ''write:attachment''" and "d' = att_soft_delete now x d"
  using assms by (auto simp: att_delete_def require_scope_def rbind_def split: option.splits if_splits)

lemma presign_effect:
  assumes "presign_upload s p now pid uuid a d = Inr (x, d')"
  shows "has_key_scope p ''write:attachment'' \<and>
    can_write p \<lparr>res_scope = \<lparr>ref_type = aa_scope_type a, ref_id = aa_scope_id a\<rparr>, res_sensitivity = aa_sensitivity a\<rparr> \<and>
    (\<exists>bucket key n by. att_create p pid now bucket key n by a d = Inr (x, d'))"
  using assms by (auto simp: presign_upload_def require_scope_def rbind_def Let_def split: if_splits)

lemma att_step_ok:
  assumes "att_step env sha v w" and "att_ok (pe_settings env) (fst v)"
  shows "att_ok (pe_settings env) (fst w)"
  using assms
proof (cases rule: att_step.cases)
  case (presigned p now pid uuid a d x d' st)
  then show ?thesis using presign_effect [OF presigned(3)] create_ok assms(2) by auto
next
  case (finalized p now pid sh n mime d st r d' st' tasks)
  have ok: "att_ok (pe_settings env) d" using assms(2) finalized(1) by simp
  from finalized(3) have "att_ok (pe_settings env) d'"
    by (cases rule: finalize_effect) (simp_all add: ok mark_waiting_ok)
  then show ?thesis using finalized(2) by simp
next
  case (deleted p now pid d r d' st)
  have ok: "att_ok (pe_settings env) d" using assms(2) deleted(1) by simp
  from deleted(3) have "att_ok (pe_settings env) d'"
    by (cases rule: att_delete_effect) (simp_all add: ok delete_ok)
  then show ?thesis using deleted(2) by simp
next
  case (processed prs st now aid d why d')
  then show ?thesis using process_ok assms(2) by fastforce
next
  case (reanalysed supported p pid cfg db d prj db' d' st)
  then show ?thesis using assms(2) reanalyse_ok
    by (auto simp: set_text_search_config_def split: if_splits option.splits)
qed simp_all

lemma att_reach_ok: "att_reach env sha v \<Longrightarrow> att_ok (pe_settings env) (fst v)"
proof (induction rule: att_reach.induct)
  case start
  show ?case by (simp add: att_ok_def)
next
  case (more v w)
  from att_step_ok [OF more(2) more.IH] show ?case .
qed

text \<open>
  C17.  The life of a file.  In every state that uploads, calls of the service by anyone, worker runs and
  changes of the text analyser can reach: a file never processed has no chunks; one that
  was processed has exactly the chunks of some text that is not blank, in order and under its own organisation; a ready file was processed
  and shows no error; a failed one shows its error; and no chunk belongs to a file that does not exist.
\<close>

theorem attachment_lifecycle:
  assumes "att_reach env sha (d, st)" and "x \<in> set (attachments d)"
  shows "(at_processed_at x = None \<longrightarrow> filter (\<lambda>c. ac_attachment_id c = at_id x) (att_chunks d) = []) \<and>
    (at_processed_at x \<noteq> None \<longrightarrow> (\<exists>t. py_strip t \<noteq> [] \<and>
       chunk_text (attachment_chunk_tokens (pe_settings env)) (attachment_chunk_overlap (pe_settings env)) t =
         Inr (map (\<lambda>c. (ac_chunk_index c, ac_content c)) (filter (\<lambda>c. ac_attachment_id c = at_id x) (att_chunks d))))) \<and>
    (at_processing_status x = READY \<longrightarrow> at_processed_at x \<noteq> None \<and> at_processing_error x = None) \<and>
    (at_processing_status x = FAILED \<longrightarrow> at_processing_error x \<noteq> None) \<and>
    (\<forall>c \<in> set (att_chunks d). ac_attachment_id c = at_id x \<longrightarrow> ac_org_id c = at_org_id x) \<and>
    (\<forall>c \<in> set (att_chunks d). ac_attachment_id c \<in> at_id ` set (attachments d))"
proof -
  have ok: "att_ok (pe_settings env) d" using att_reach_ok [OF assms(1)] by simp
  then have "file_ok (pe_settings env) (chunks_of d (at_id x)) x" using assms(2) by (simp add: att_ok_def)
  moreover have "\<forall>c \<in> set (att_chunks d). ac_attachment_id c \<in> at_id ` set (attachments d)"
    using ok by (simp add: att_ok_def)
  ultimately show ?thesis by (auto simp: file_ok_def numbered_text_def split: option.splits)
qed

lemma process_frame:
  assumes "process_one env prs st now aid d = Inr (outcome, d1)"
  shows "\<forall>i. i \<noteq> aid \<longrightarrow> chunks_of d1 i = chunks_of d i"
    and "filter (\<lambda>y. at_id y \<noteq> aid) (attachments d1) = filter (\<lambda>y. at_id y \<noteq> aid) (attachments d)"
    and "outcome \<notin> {''ready'', ''ready_no_embeddings''} \<Longrightarrow> att_chunks d1 = att_chunks d"
proof -
  have others: "filter (\<lambda>y. at_id y \<noteq> aid) (map (\<lambda>x. if at_id x = aid then marked now s e sh n m x else x) xs) =
      filter (\<lambda>y. at_id y \<noteq> aid) xs" for s e sh n m xs
    by (induction xs) simp_all
  show "\<forall>i. i \<noteq> aid \<longrightarrow> chunks_of d1 i = chunks_of d i"
    using assms
  proof (cases rule: process_one_cases)
    case (stored x body cs rows k)
    then have "filter (\<lambda>c. ac_attachment_id c = i) rows = []" if "i \<noteq> aid" for i using that by (auto simp: filter_empty_conv)
    then show ?thesis
      by (auto simp: stored(8) mark_status_def att_update_def delete_for_attachment_def intro!: filter_cong)
  qed (simp_all add: mark_status_def att_update_def)
  show "filter (\<lambda>y. at_id y \<noteq> aid) (attachments d1) = filter (\<lambda>y. at_id y \<noteq> aid) (attachments d)"
    using assms by (cases rule: process_one_cases)
      (simp_all add: mark_status_def att_update_def delete_for_attachment_def others)
  show "att_chunks d1 = att_chunks d" if "outcome \<notin> {''ready'', ''ready_no_embeddings''}"
    using assms that by (cases rule: process_one_cases) (simp_all add: mark_status_def att_update_def)
qed

text \<open>A row keeps what the worker reads of it.\<close>

lemma process_source:
  assumes "process_one env prs st now aid d = Inr (outcome, d1)" and "att_get_by_id aid (superuser_principal 0) (attachments d) = Some x"
  shows "\<exists>y. att_get_by_id aid (superuser_principal 0) (attachments d1) = Some y \<and> at_s3_bucket y = at_s3_bucket x \<and>
    at_s3_key y = at_s3_key x \<and> at_mime y = at_mime x \<and> at_filename y = at_filename x"
proof -
  have same: "first_row (filter (\<lambda>x. at_id x = aid \<and> att_live x) (map (\<lambda>x. if at_id x = aid then marked now s e None None None x else x) xs)) =
      map_option (marked now s e None None None) (first_row (filter (\<lambda>x. at_id x = aid \<and> att_live x) xs))" for s e xs
    by (induction xs) (auto simp: first_row_def)
  have keep: "\<exists>y. att_get_by_id aid (superuser_principal 0) (attachments (mark_status now aid s e None None None d')) = Some y \<and>
      at_s3_bucket y = at_s3_bucket x \<and> at_s3_key y = at_s3_key x \<and> at_mime y = at_mime x \<and> at_filename y = at_filename x"
    if "attachments d' = attachments d" for s e d'
    using assms(2) by (simp add: att_get_by_id_def tenant_rows_def superuser_principal_def mark_status_def att_update_def same that)
      (auto simp: marked_def)
  from assms(1) show ?thesis
  proof (cases rule: process_one_cases)
    case missing
    then show ?thesis using assms(2) by auto
  next
    case (failed err)
    then show ?thesis using keep [of d] by simp
  next
    case (stored z body cs rows k)
    then show ?thesis using keep [of "(delete_for_attachment aid d)\<lparr>att_chunks := att_chunks (delete_for_attachment aid d) @ rows, next_chunk_id := k\<rparr>"]
      by (simp add: delete_for_attachment_def)
  qed
qed

lemma process_result:
  assumes "process_one env prs st now aid d = Inr (outcome, d1)" and "outcome \<in> {''ready'', ''ready_no_embeddings''}"
  shows "\<exists>x body. att_get_by_id aid (superuser_principal 0) (attachments d) = Some x \<and>
    rbind (fs_get_bytes (at_s3_bucket x) (at_s3_key x) st) (extract_text (pe_extractors env) (at_mime x) (at_filename x)) = Inr body \<and>
    chunk_text (attachment_chunk_tokens (pe_settings env)) (attachment_chunk_overlap (pe_settings env)) body =
      Inr (numbered_text (chunks_of d1 aid))"
  using assms(1)
proof (cases rule: process_one_cases)
  case (stored x body cs rows k)
  then have "filter (\<lambda>c. ac_attachment_id c = aid) rows = rows" by (simp add: filter_id_conv)
  then have "chunks_of d1 aid = rows"
    by (simp add: stored(8) mark_status_def att_update_def delete_for_attachment_def)
  then show ?thesis using stored by auto
qed (use assms(2) in auto)

text \<open>
  C18.  Processing a file.  A run changes nothing of any other file.  When it reports the file ready, the file's chunks are
  those of the text extracted from the stored object, and processing it again, at any time and with the same object, gives the same chunks:
  the old ones are replaced, not added to.  When it reports anything else, no chunk changes.
\<close>

theorem processing_exact:
  assumes "process_one env prs st now aid d = Inr (outcome, d1)"
  shows "(\<forall>i. i \<noteq> aid \<longrightarrow> filter (\<lambda>c. ac_attachment_id c = i) (att_chunks d1) = filter (\<lambda>c. ac_attachment_id c = i) (att_chunks d)) \<and>
    filter (\<lambda>y. at_id y \<noteq> aid) (attachments d1) = filter (\<lambda>y. at_id y \<noteq> aid) (attachments d) \<and>
    (outcome \<notin> {''ready'', ''ready_no_embeddings''} \<longrightarrow> att_chunks d1 = att_chunks d) \<and>
    (outcome \<in> {''ready'', ''ready_no_embeddings''} \<longrightarrow>
      (\<exists>x body. att_get_by_id aid (superuser_principal 0) (attachments d) = Some x \<and>
        rbind (fs_get_bytes (at_s3_bucket x) (at_s3_key x) st) (extract_text (pe_extractors env) (at_mime x) (at_filename x)) = Inr body \<and>
        chunk_text (attachment_chunk_tokens (pe_settings env)) (attachment_chunk_overlap (pe_settings env)) body =
          Inr (numbered_text (filter (\<lambda>c. ac_attachment_id c = aid) (att_chunks d1)))) \<and>
      (\<forall>later outcome2 d2. process_one env prs2 st later aid d1 = Inr (outcome2, d2) \<longrightarrow>
        numbered_text (filter (\<lambda>c. ac_attachment_id c = aid) (att_chunks d2)) =
          numbered_text (filter (\<lambda>c. ac_attachment_id c = aid) (att_chunks d1))))"
proof -
  have again: "numbered_text (chunks_of d2 aid) = numbered_text (chunks_of d1 aid)"
    if ready: "outcome \<in> {''ready'', ''ready_no_embeddings''}" and run2: "process_one env prs2 st later aid d1 = Inr (outcome2, d2)"
    for later outcome2 d2
  proof (cases "outcome2 \<in> {''ready'', ''ready_no_embeddings''}")
    case False
    then show ?thesis using process_frame(3) [OF run2 False] by simp
  next
    case True
    obtain x body where x: "att_get_by_id aid (superuser_principal 0) (attachments d) = Some x"
      "rbind (fs_get_bytes (at_s3_bucket x) (at_s3_key x) st) (extract_text (pe_extractors env) (at_mime x) (at_filename x)) = Inr body"
      "chunk_text (attachment_chunk_tokens (pe_settings env)) (attachment_chunk_overlap (pe_settings env)) body =
        Inr (numbered_text (chunks_of d1 aid))" using process_result [OF assms ready] by blast
    from process_source [OF assms x(1)] process_result [OF run2 True] show ?thesis using x(2,3) by auto
  qed
  show ?thesis using process_frame [OF assms] process_result [OF assms] again by blast
qed

section \<open>Who may do what\<close>

text \<open>
  Attachments are guarded.  An upload is recorded only for a caller with the key scope who may write at that
  sensitivity in the scope: one pending row of the caller's organisation and nothing else.  The worker is asked to process only
  a live file of the caller's organisation that was pending or failed, whose object exists and is not too large, and only
  its status fields change.  A file is read only when the caller may read it and deleted only when the caller may write it,
  and deleting marks that one row.
\<close>

theorem attachments_guarded:
  assumes "\<not> is_superuser p"
  shows "(presign_upload s p now pid uuid a d = Inr (x, d') \<longrightarrow>
      has_key_scope p ''write:attachment'' \<and>
      can_write p \<lparr>res_scope = \<lparr>ref_type = aa_scope_type a, ref_id = aa_scope_id a\<rparr>, res_sensitivity = aa_sensitivity a\<rparr> \<and>
      d' = d\<lparr>attachments := attachments d @ [x], next_attachment_id := next_attachment_id d + 1\<rparr> \<and>
      at_org_id x = p_org_id p \<and> at_processing_status x = ATT_PENDING) \<and>
    (finalize s sha p now pid sh n mime (d, st) = (Inr (r, d'), st', tasks) \<and> tasks \<noteq> [] \<longrightarrow>
      has_key_scope p ''write:attachment'' \<and>
      (\<exists>y \<in> set (attachments d). \<exists>body sh n m. tasks = [at_id y] \<and> at_public_id y = pid \<and> att_live y \<and> at_org_id y = p_org_id p \<and>
         at_processing_status y \<in> {ATT_PENDING, FAILED} \<and> fs_get_bytes (at_s3_bucket y) (at_s3_key y) st = Inr body \<and>
         int (length body) \<le> attachment_max_bytes s \<and> d' = mark_status now (at_id y) PROCESSING None sh n m d)) \<and>
    (att_get p pid d = Inr (Some y) \<longrightarrow>
      has_key_scope p ''read:attachment'' \<and> y \<in> set (attachments d) \<and> att_live y \<and> at_org_id y = p_org_id p \<and> can_read p (att_resource y)) \<and>
    (att_delete p now pid d = Inr (deleted, d') \<longrightarrow>
      has_key_scope p ''write:attachment'' \<and>
      (d' = d \<or> (\<exists>y \<in> set (attachments d). at_org_id y = p_org_id p \<and> can_write p (att_resource y) \<and> d' = att_soft_delete now y d)))"
proof -
  have presign: "has_key_scope p ''write:attachment'' \<and>
      can_write p \<lparr>res_scope = \<lparr>ref_type = aa_scope_type a, ref_id = aa_scope_id a\<rparr>, res_sensitivity = aa_sensitivity a\<rparr> \<and>
      d' = d\<lparr>attachments := attachments d @ [x], next_attachment_id := next_attachment_id d + 1\<rparr> \<and>
      at_org_id x = p_org_id p \<and> at_processing_status x = ATT_PENDING"
    if "presign_upload s p now pid uuid a d = Inr (x, d')"
    using presign_effect [OF that] by (auto simp: att_create_def Let_def split: if_splits)
  have finalize: "has_key_scope p ''write:attachment'' \<and>
      (\<exists>y \<in> set (attachments d). \<exists>body sh n m. tasks = [at_id y] \<and> at_public_id y = pid \<and> att_live y \<and> at_org_id y = p_org_id p \<and>
         at_processing_status y \<in> {ATT_PENDING, FAILED} \<and> fs_get_bytes (at_s3_bucket y) (at_s3_key y) st = Inr body \<and>
         int (length body) \<le> attachment_max_bytes s \<and> d' = mark_status now (at_id y) PROCESSING None sh n m d)"
    if run: "finalize s sha p now pid sh n mime (d, st) = (Inr (r, d'), st', tasks) \<and> tasks \<noteq> []"
    using run [THEN conjunct1]
  proof (cases rule: finalize_effect)
    case (2 y meta)
    from fs.head_get [OF 2(4)] obtain body where body: "fs_get_bytes (at_s3_bucket y) (at_s3_key y) st = Inr body"
      "bm_size_bytes meta = int (length body)" by blast
    show ?thesis
      using att_get_row [OF 2(1)] assms 2 body
      by (intro conjI bexI [of _ y] exI [of _ body] exI) auto
  qed (use run in simp)
  have get: "has_key_scope p ''read:attachment'' \<and> y \<in> set (attachments d) \<and> att_live y \<and> at_org_id y = p_org_id p \<and>
      can_read p (att_resource y)" if "att_get p pid d = Inr (Some y)"
  proof -
    have g: "att_get_by_public_id pid p (attachments d) = Some y" "has_key_scope p ''read:attachment''" "can_read p (att_resource y)"
      using that by (auto simp: att_get_def require_scope_def rbind_def split: if_splits option.splits)
    then show ?thesis using att_get_row [OF g(1)] assms by blast
  qed
  have delete: "has_key_scope p ''write:attachment'' \<and>
      (d' = d \<or> (\<exists>y \<in> set (attachments d). at_org_id y = p_org_id p \<and> can_write p (att_resource y) \<and> d' = att_soft_delete now y d))"
    if "att_delete p now pid d = Inr (deleted, d')"
  proof -
    have "has_key_scope p ''write:attachment''" using that by (auto simp: att_delete_def require_scope_def rbind_def split: if_splits)
    from that this show ?thesis
      by (cases rule: att_delete_effect) (use att_get_row assms in blast)+
  qed
  show ?thesis using presign finalize get delete by blast
qed

section \<open>Search over chunks\<close>

lemma att_join_rows: "(c, x) \<in> set (att_join d) \<longleftrightarrow> c \<in> set (att_chunks d) \<and> x \<in> set (attachments d) \<and> at_id x = ac_attachment_id c"
  by (auto simp: att_join_def)

lemma att_join_unique:
  assumes "distinct (map at_id (attachments d))" and "distinct (map ac_id (att_chunks d))"
    and "r \<in> set (att_join d)" and "r' \<in> set (att_join d)" and "ac_id (fst r) = ac_id (fst r')"
  shows "r = r'"
proof -
  obtain c x c' x' where r: "r = (c, x)" "r' = (c', x')" by (cases r, cases r')
  have "c = c'" using assms(2-5) by (auto simp: r att_join_rows distinct_map dest: inj_onD)
  moreover have "at_id x = at_id x'" using assms(3,4) calculation by (simp add: r att_join_rows)
  then have "x = x'" using assms(1,3,4) inj_onD [of at_id "set (attachments d)" x x'] by (simp add: r att_join_rows distinct_map)
  ultimately show ?thesis by (simp add: r)
qed

lemma fetched_row:
  assumes "h \<in> set (fetch_chunks scores keep rows ordered)"
  shows "\<exists>r \<in> set rows. ac_id (fst r) \<in> set ordered \<and> h = chunk_hit_of (the (map_of scores (ac_id (fst r)))) r"
proof -
  let ?rows = "map (\<lambda>r. (ac_id (fst r), r)) (filter (\<lambda>r. ac_id (fst r) \<in> keep) rows)"
  obtain i r where i: "i \<in> set ordered" "map_of ?rows i = Some r" "h = chunk_hit_of (the (map_of scores i)) r"
    using assms by (auto simp: fetch_chunks_def set_map_filter)
  have "r \<in> set rows \<and> ac_id (fst r) = i" using map_of_SomeD [OF i(2)] by auto
  then show ?thesis using i by auto
qed

lemma hit_chunk_id: "ch_chunk_id (chunk_hit_of sc r) = ac_id (fst r)"
  by (cases r) (simp add: chunk_hit_of_def)

lemma fetched_distinct:
  "distinct ordered \<Longrightarrow> distinct (map ch_chunk_id (fetch_chunks scores keep rows ordered))"
proof (induction ordered)
  case Nil
  then show ?case by (simp add: fetch_chunks_def map_filter_simps)
next
  case (Cons i js)
  let ?rows = "map (\<lambda>r. (ac_id (fst r), r)) (filter (\<lambda>r. ac_id (fst r) \<in> keep) rows)"
  have tl: "distinct (map ch_chunk_id (fetch_chunks scores keep rows js))" using Cons by simp
  have no: "ch_chunk_id h \<noteq> i" if "h \<in> set (fetch_chunks scores keep rows js)" for h
    using fetched_row [OF that] Cons.prems by (auto simp: hit_chunk_id)
  have split: "fetch_chunks scores keep rows (i # js) =
      (case map_of ?rows i of None \<Rightarrow> [] | Some r \<Rightarrow> [chunk_hit_of (the (map_of scores i)) r]) @ fetch_chunks scores keep rows js"
    by (simp add: fetch_chunks_def map_filter_simps split: option.split)
  show ?case
  proof (cases "map_of ?rows i")
    case None
    then show ?thesis using tl by (simp add: split)
  next
    case (Some r)
    have "ch_chunk_id (chunk_hit_of sc r) = i" for sc
      using map_of_SomeD [OF Some] by (auto simp: hit_chunk_id)
    then show ?thesis using tl no by (auto simp: split Some)
  qed
qed

lemma fused_ids:
  "i \<in> set (map fst (sorted_desc snd (rrf_fuse k pinned fl (filter (\<lambda>r. r \<noteq> []) [vs, bs])))) \<Longrightarrow> i \<in> set vs \<union> set bs"
proof -
  assume "i \<in> set (map fst (sorted_desc snd (rrf_fuse k pinned fl (filter (\<lambda>r. r \<noteq> []) [vs, bs]))))"
  then have "i \<in> fst ` set (rrf_fuse k pinned fl (filter (\<lambda>r. r \<noteq> []) [vs, bs]))" by simp
  then show ?thesis unfolding keys_rrf_fuse_set by (auto split: if_splits)
qed

lemma chunk_vector_ids_seen: "set (chunk_vector_ids pg s qvec seen) \<subseteq> (ac_id \<circ> fst) ` set seen"
  by (auto simp: chunk_vector_ids_def split: option.splits dest!: in_set_takeD)

lemma chunk_bm25_ids_seen: "set (chunk_bm25_ids pg s cfg query seen) \<subseteq> (ac_id \<circ> fst) ` set seen"
  by (auto simp: chunk_bm25_ids_def dest!: in_set_takeD)

lemma chunk_visible_facts:
  assumes "chunk_visible scopes mx p (c, x)"
  shows "at_deleted_at x = None \<and> at_sensitivity x \<le> mx \<and> (is_superuser p \<or> at_org_id x = p_org_id p) \<and>
    (scopes = [] \<or> (at_scope_type x, at_scope_id x) \<in> (\<lambda>sf. (sf_type sf, sf_id sf)) ` set scopes)"
proof -
  have "v \<in> set (sensitivities_up_to y) \<Longrightarrow> v \<le> y" for v y
    unfolding sensitivities_up_to_def less_eq_sensitivity_def by (simp only: set_filter mem_Collect_eq)
  then show ?thesis using assms by (auto simp: chunk_visible_def)
qed

text \<open>
  Chunk search stays inside what it was asked for.  It returns at most \<open>limit\<close> hits, best first and without
  repeats; every hit is a chunk of a live file of the caller's organisation (of any, for a superuser), at or below the given
  sensitivity and in one of the given scopes.
\<close>

theorem chunk_search_sound:
  assumes "distinct (map at_id (attachments d))" and "distinct (map ac_id (att_chunks d))"
  shows "length (chunk_search pg s prs query qvec scopes mx limit p d) \<le> limit \<and>
    sorted_wrt (\<lambda>x y. ch_score y \<le> ch_score x) (chunk_search pg s prs query qvec scopes mx limit p d) \<and>
    distinct (map ch_chunk_id (chunk_search pg s prs query qvec scopes mx limit p d)) \<and>
    (\<forall>h \<in> set (chunk_search pg s prs query qvec scopes mx limit p d).
      \<exists>c \<in> set (att_chunks d). \<exists>x \<in> set (attachments d). (\<exists>sc. h = chunk_hit_of sc (c, x)) \<and> ac_attachment_id c = at_id x \<and>
        at_deleted_at x = None \<and> at_sensitivity x \<le> mx \<and> (is_superuser p \<or> at_org_id x = p_org_id p) \<and>
        (scopes = [] \<or> (at_scope_type x, at_scope_id x) \<in> (\<lambda>sf. (sf_type sf, sf_id sf)) ` set scopes))"
proof (cases "chunk_search pg s prs query qvec scopes mx limit p d = []")
  case True
  then show ?thesis by simp
next
  case False
  let ?seen = "filter (chunk_visible scopes mx p) (att_join d)"
  let ?vs = "chunk_vector_ids pg s qvec ?seen" and ?bs = "chunk_bm25_ids pg s (config_for_scopes prs p scopes) query ?seen"
  have seen: "set ?vs \<union> set ?bs \<subseteq> (ac_id \<circ> fst) ` set ?seen"
    using chunk_vector_ids_seen chunk_bm25_ids_seen by fast
  obtain k scores ordered keep where
    ordered: "ordered = map fst (sorted_desc snd (rrf_fuse k {} 0 (filter (\<lambda>r. r \<noteq> []) [?vs, ?bs])))"
    and hits: "chunk_search pg s prs query qvec scopes mx limit p d =
      take limit (sorted_desc ch_score (fetch_chunks scores keep (att_join d) ordered))"
    using False unfolding chunk_search_def Let_def by (auto split: if_splits)
  have "\<exists>c \<in> set (att_chunks d). \<exists>x \<in> set (attachments d). (\<exists>sc. h = chunk_hit_of sc (c, x)) \<and> ac_attachment_id c = at_id x \<and>
        chunk_visible scopes mx p (c, x)"
    if hin: "h \<in> set (chunk_search pg s prs query qvec scopes mx limit p d)" for h
  proof -
    have "h \<in> set (fetch_chunks scores keep (att_join d) ordered)" using hin unfolding hits by (auto dest: in_set_takeD)
    then obtain r where r: "r \<in> set (att_join d)" "ac_id (fst r) \<in> set ordered" "h = chunk_hit_of (the (map_of scores (ac_id (fst r)))) r"
      using fetched_row by blast
    have "ac_id (fst r) \<in> set ?vs \<union> set ?bs" using fused_ids r(2) unfolding ordered by blast
    then obtain r' where r': "r' \<in> set ?seen" "ac_id (fst r') = ac_id (fst r)" using seen by auto
    have "r = r'" using att_join_unique [OF assms r(1)] r' by simp
    then have vis: "chunk_visible scopes mx p r" using r' by simp
    obtain c x where cx: "r = (c, x)" by (cases r)
    show ?thesis using r(1) r(3) vis unfolding cx att_join_rows by metis
  qed
  then have "\<forall>h \<in> set (chunk_search pg s prs query qvec scopes mx limit p d).
      \<exists>c \<in> set (att_chunks d). \<exists>x \<in> set (attachments d). (\<exists>sc. h = chunk_hit_of sc (c, x)) \<and> ac_attachment_id c = at_id x \<and>
        at_deleted_at x = None \<and> at_sensitivity x \<le> mx \<and> (is_superuser p \<or> at_org_id x = p_org_id p) \<and>
        (scopes = [] \<or> (at_scope_type x, at_scope_id x) \<in> (\<lambda>sf. (sf_type sf, sf_id sf)) ` set scopes)"
    using chunk_visible_facts by fast
  moreover have "distinct (map ch_chunk_id (fetch_chunks scores keep (att_join d) ordered))"
    by (rule fetched_distinct) (simp only: ordered distinct_ordered)
  then have "distinct (map ch_chunk_id (chunk_search pg s prs query qvec scopes mx limit p d))"
    unfolding hits by (simp add: distinct_map take_map [symmetric] inj_on_subset [OF _ set_take_sub(1)])
  moreover have "sorted_wrt (\<lambda>x y. ch_score y \<le> ch_score x) (chunk_search pg s prs query qvec scopes mx limit p d)"
    unfolding hits by (rule sorted_wrt_take [OF sorted_desc_sorted])
  ultimately show ?thesis by (simp add: hits)
qed

section \<open>Concrete instances\<close>

definition demo_process :: process_env where
  "demo_process = \<lparr>pe_settings = default_settings,
     pe_extractors = \<lparr>ex_utf8 = (\<lambda>b. b), ex_pdf = None, ex_docx = None\<rparr>, pe_embedder = Inl (KeyError ''none'')\<rparr>"

definition demo_args :: att_args where
  "demo_args = \<lparr>aa_scope_type = PROJECT, aa_scope_id = 5, aa_filename = ''a.md'', aa_mime = None,
     aa_sensitivity = INTERNAL, aa_size_hint = None, aa_metadata = None\<rparr>"

definition no_files :: att_db where
  "no_files = \<lparr>attachments = [], att_chunks = [], next_attachment_id = 1, next_chunk_id = 1\<rparr>"

definition demo_file :: attachment where
  "demo_file = \<lparr>at_id = 1, at_public_id = ''f1'', at_org_id = 1, at_scope_type = PROJECT, at_scope_id = 5,
     at_created_by = Some 7, at_filename = ''a.md'', at_mime = None, at_size_bytes = 0, at_sha256 = None,
     at_s3_bucket = ''kortex-attachments'', at_s3_key = ''orgs/1/project/5/u1/a.md'', at_sensitivity = INTERNAL,
     at_processing_status = ATT_PENDING, at_processing_error = None, at_processed_at = None, at_metadata = [],
     at_created_at = 5, at_deleted_at = None\<rparr>"

definition demo_blobs :: blobs where
  "demo_blobs = [((''kortex-attachments'', ''orgs/1/project/5/u1/a.md''), ''One two.'')]"

definition demo_chunk :: attachment_chunk where
  "demo_chunk = \<lparr>ac_id = 1, ac_org_id = 1, ac_attachment_id = 1, ac_chunk_index = 0, ac_content = ''One two.'',
     ac_embedding = None, ac_embedding_model = None, ac_ts_config = ''english''\<rparr>"

definition demo_waiting :: att_db where
  "demo_waiting = no_files\<lparr>attachments := [demo_file\<lparr>at_processing_status := PROCESSING, at_sha256 := Some ''h'', at_size_bytes := 8\<rparr>],
     next_attachment_id := 2\<rparr>"

definition demo_ready :: att_db where
  "demo_ready = demo_waiting\<lparr>attachments := map (\<lambda>x. x\<lparr>at_processing_status := READY, at_processed_at := Some 8\<rparr>) (attachments demo_waiting),
     att_chunks := [demo_chunk], next_chunk_id := 2\<rparr>"

lemma demo_presigned:
  "presign_upload default_settings (member_of 1) 5 ''f1'' ''u1'' demo_args no_files =
     Inr (demo_file, no_files\<lparr>attachments := [demo_file], next_attachment_id := 2\<rparr>)"
  by code_simp

lemma demo_finalized:
  "finalize default_settings (\<lambda>b. ''h'') (member_of 1) 7 ''f1'' None None None
     (no_files\<lparr>attachments := [demo_file], next_attachment_id := 2\<rparr>, demo_blobs) =
   (Inr (Some (hd (attachments demo_waiting)), demo_waiting), demo_blobs, [1])"
  by code_simp

lemma demo_processed:
  "process_one demo_process [] demo_blobs 8 1 demo_waiting = Inr (''ready_no_embeddings'', demo_ready)"
  by code_simp

lemma demo_reached: "att_reach demo_process (\<lambda>b. ''h'') (demo_ready, demo_blobs)"
proof -
  let ?d = "no_files\<lparr>attachments := [demo_file], next_attachment_id := 2\<rparr>"
  have pe: "pe_settings demo_process = default_settings" by (simp add: demo_process_def)
  have up: "snd (fs_put_bytes (\<lambda>b. ''h'') ''kortex-attachments'' ''orgs/1/project/5/u1/a.md'' ''One two.'' None []) = demo_blobs"
    by (simp add: fs_put_bytes_def demo_blobs_def)
  have 1: "att_reach demo_process (\<lambda>b. ''h'') (?d, [])"
    using att_reach.more [OF att_reach.start att_step.presigned] demo_presigned pe by (metis no_files_def)
  have 2: "att_reach demo_process (\<lambda>b. ''h'') (?d, demo_blobs)"
    using att_reach.more [OF 1 att_step.uploaded] up by metis
  have 3: "att_reach demo_process (\<lambda>b. ''h'') (demo_waiting, demo_blobs)"
    by (rule att_reach.more [OF 2]) (rule att_step.finalized, simp only: pe, rule demo_finalized)
  show ?thesis
    by (rule att_reach.more [OF 3]) (rule att_step.processed, rule demo_processed)
qed

lemma attachment_lifecycle_witness:
  "\<exists>x \<in> set (attachments demo_ready). at_processing_status x = READY \<and> (\<exists>t. py_strip t \<noteq> [] \<and>
     chunk_text 512 64 t = Inr (map (\<lambda>c. (ac_chunk_index c, ac_content c)) (att_chunks demo_ready)))"
proof -
  let ?x = "hd (attachments demo_ready)"
  have x: "?x \<in> set (attachments demo_ready)" "at_processing_status ?x = READY" "at_processed_at ?x \<noteq> None"
    "filter (\<lambda>c. ac_attachment_id c = at_id ?x) (att_chunks demo_ready) = att_chunks demo_ready"
    "attachment_chunk_tokens (pe_settings demo_process) = 512" "attachment_chunk_overlap (pe_settings demo_process) = 64"
    by code_simp+
  from attachment_lifecycle [OF demo_reached x(1)] have "\<exists>t. py_strip t \<noteq> [] \<and>
     chunk_text 512 64 t = Inr (map (\<lambda>c. (ac_chunk_index c, ac_content c)) (att_chunks demo_ready))"
    unfolding x(4-6) using x(3) by blast
  then show ?thesis using x(1,2) by blast
qed

lemma processing_exact_witness:
  "\<exists>body. chunk_text 512 64 body = Inr (numbered_text (filter (\<lambda>c. ac_attachment_id c = 1) (att_chunks demo_ready)))"
proof -
  have s: "attachment_chunk_tokens (pe_settings demo_process) = 512" "attachment_chunk_overlap (pe_settings demo_process) = 64"
    by code_simp+
  show ?thesis using processing_exact [OF demo_processed, of "[]"] unfolding s by auto
qed

lemma attachments_guarded_witness:
  "can_write (member_of 1) \<lparr>res_scope = \<lparr>ref_type = PROJECT, ref_id = 5\<rparr>, res_sensitivity = INTERNAL\<rparr> \<and> at_org_id demo_file = 1"
proof -
  have m: "\<not> is_superuser (member_of 1)" "p_org_id (member_of 1) = 1" by code_simp+
  show ?thesis
    using attachments_guarded [OF m(1), of default_settings 5 "''f1''" "''u1''" demo_args no_files demo_file] demo_presigned
    by (simp add: m(2) demo_args_def)
qed

lemma chunk_search_sound_witness:
  "\<exists>h. chunk_search plain_engine default_settings [] ''two'' None [] INTERNAL 5 (member_of 1) demo_ready = [h] \<and> ch_content h = ''One two.'' \<and>
     (\<exists>x \<in> set (attachments demo_ready). at_org_id x = 1 \<and> at_sensitivity x \<le> INTERNAL)"
proof -
  have d: "distinct (map at_id (attachments demo_ready))" "distinct (map ac_id (att_chunks demo_ready))"
    "\<not> is_superuser (member_of 1)" "p_org_id (member_of 1) = 1" by code_simp+
  have "map ch_content (chunk_search plain_engine default_settings [] ''two'' None [] INTERNAL 5 (member_of 1) demo_ready) = [''One two.'']"
    by code_simp
  then obtain h where h: "chunk_search plain_engine default_settings [] ''two'' None [] INTERNAL 5 (member_of 1) demo_ready = [h]"
    "ch_content h = ''One two.''" by (auto simp: Cons_eq_map_conv map_eq_Cons_conv)
  then show ?thesis
    using chunk_search_sound [OF d(1,2), of plain_engine default_settings "[]" "''two''" None "[]" INTERNAL 5 "member_of 1"] d(3,4) by auto
qed

section \<open>What the code leaves open\<close>

text \<open>The endpoint that searches chunks asks for no key scope and no role: it shows what \<open>get\<close> refuses.\<close>

lemma search_shows_what_get_denies:
  "let p = (member_of 1)\<lparr>roles := [], key_scopes := {''read:memory''}\<rparr> in
     att_get p ''f1'' demo_ready = Inl (AccessDeniedError (''api key missing required scope '' @ [CHR 0x27] @ ''read:attachment'' @ [CHR 0x27])) \<and>
     att_get (p\<lparr>key_scopes := {}\<rparr>) ''f1'' demo_ready = Inr None \<and>
     map_sum id (\<lambda>(v, hs). map ch_content hs)
       (search_attachments plain_engine default_settings [] (Inl (KeyError ''none'')) p ''two'' [] True 5 demo_ready) = Inr [''One two.'']"
  by code_simp

text \<open>Finalising needs no right to write, and the stored size is the one the caller names, whatever the object holds.\<close>

lemma finalize_unguarded:
  "let p = (member_of 1)\<lparr>roles := []\<rparr> in
     \<not> can_write p (att_resource demo_file) \<and>
     (case finalize default_settings (\<lambda>b. ''h'') p 7 ''f1'' None (Some 1) None
        (no_files\<lparr>attachments := [demo_file], next_attachment_id := 2\<rparr>, demo_blobs) of
        (Inr (Some x, d), st, tasks) \<Rightarrow> at_size_bytes x = 1 \<and> tasks = [1] | _ \<Rightarrow> False)"
  by code_simp

text \<open>An upload that is too large is deleted, but the exception takes the status \<open>failed\<close> back with the transaction.\<close>

lemma oversize_status_lost:
  "finalize (default_settings\<lparr>attachment_max_bytes := 4\<rparr>) (\<lambda>b. ''h'') (member_of 1) 7 ''f1'' None None None
     (no_files\<lparr>attachments := [demo_file], next_attachment_id := 2\<rparr>, demo_blobs) =
   (Inl (AttachmentError ''attachment exceeds max size (8 > 4)''), [], [])"
  by code_simp

end
