(* ===== verification/Sessions.thy ===== *)
theory Sessions
  imports Tenancy Workers
begin

text \<open>
  Agent sessions, their conversations and messages (\<^verbatim>\<open>models/session.py\<close>, \<^verbatim>\<open>repositories/session_repo.py\<close>,
  \<^verbatim>\<open>services/session_service.py\<close>), the ingestion of transcripts, documents and git logs (\<^verbatim>\<open>services/ingestion_service.py\<close>), and
  the summaries of idle conversations (\<^verbatim>\<open>skills/summarizer.py\<close>, \<^verbatim>\<open>kortex_worker/tasks/summary.py\<close>).

  Public identifiers are a function of the row, the clock is an argument.  The summariser's system prompt is a constant; a
  registered model is a parameter.  The column \<open>summary_embedding\<close>, which nothing sets, and \<open>content_tokens\<close> are left out.
\<close>

section \<open>Definitions\<close>

subsection \<open>Tables\<close>

record session_row =
  se_id :: int
  se_public_id :: string
  se_org_id :: int
  se_project_id :: int
  se_agent_kind :: agent_kind
  se_title :: string
  se_client_metadata :: "(string \<times> json) list"
  se_started_at :: time
  se_ended_at :: "time option"

record conversation =
  co_id :: int
  co_public_id :: string
  co_org_id :: int
  co_session_id :: int
  co_title :: string
  co_summary :: "string option"
  co_created_at :: time

record chat_message =
  me_id :: int
  me_public_id :: string
  me_org_id :: int
  me_conversation_id :: int
  me_role :: message_role
  me_content :: string
  me_tool_name :: "string option"
  me_tool_input :: "(string \<times> json) list option"
  me_tool_output :: "(string \<times> json) list option"
  me_created_at :: time

record session_db =
  sessions :: "session_row list"
  conversations :: "conversation list"
  messages :: "chat_message list"
  next_session_id :: int
  next_conversation_id :: int
  next_message_id :: int

type_synonym uuids = "int \<Rightarrow> string"

subsection \<open>Sessions\<close>

definition session_create ::
    "principal \<Rightarrow> uuids \<Rightarrow> time \<Rightarrow> int \<Rightarrow> agent_kind \<Rightarrow> string \<Rightarrow> (string \<times> json) list option \<Rightarrow> session_db \<Rightarrow> session_row \<times> session_db" where
  "session_create p uid now pid kind title meta d =
     (let x = \<lparr>se_id = next_session_id d, se_public_id = uid (next_session_id d), se_org_id = p_org_id p, se_project_id = pid,
            se_agent_kind = kind, se_title = title, se_client_metadata = or_empty meta, se_started_at = now, se_ended_at = None\<rparr>
      in (x, d\<lparr>sessions := sessions d @ [x], next_session_id := next_session_id d + 1\<rparr>))"

definition session_by_public_id :: "string \<Rightarrow> principal \<Rightarrow> session_row list \<Rightarrow> session_row option" where
  "session_by_public_id pid p xs = first_row (filter (\<lambda>x. se_public_id x = pid) (tenant_rows se_org_id p xs))"

definition session_by_id :: "int \<Rightarrow> principal \<Rightarrow> session_row list \<Rightarrow> session_row option" where
  "session_by_id i p xs = first_row (filter (\<lambda>x. se_id x = i) (tenant_rows se_org_id p xs))"

definition sessions_for_project :: "int \<Rightarrow> nat \<Rightarrow> principal \<Rightarrow> session_row list \<Rightarrow> session_row list" where
  "sessions_for_project pid limit p xs =
     take limit (sort_key (\<lambda>x. - se_started_at x) (filter (\<lambda>x. se_project_id x = pid) (tenant_rows se_org_id p xs)))"

definition session_end :: "time \<Rightarrow> session_row \<Rightarrow> session_db \<Rightarrow> session_row \<times> session_db" where
  "session_end now x d =
     (x\<lparr>se_ended_at := Some now\<rparr>,
      d\<lparr>sessions := map (\<lambda>y. if se_id y = se_id x then y\<lparr>se_ended_at := Some now\<rparr> else y) (sessions d)\<rparr>)"

subsection \<open>Conversations\<close>

definition convo_create :: "principal \<Rightarrow> uuids \<Rightarrow> time \<Rightarrow> int \<Rightarrow> string \<Rightarrow> session_db \<Rightarrow> conversation \<times> session_db" where
  "convo_create p uid now sid title d =
     (let c = \<lparr>co_id = next_conversation_id d, co_public_id = uid (next_conversation_id d), co_org_id = p_org_id p,
            co_session_id = sid, co_title = title, co_summary = None, co_created_at = now\<rparr>
      in (c, d\<lparr>conversations := conversations d @ [c], next_conversation_id := next_conversation_id d + 1\<rparr>))"

definition first_convo :: "int \<Rightarrow> principal \<Rightarrow> conversation list \<Rightarrow> conversation option" where
  "first_convo sid p cs = first_row (take 1 (sort_key co_id (filter (\<lambda>c. co_session_id c = sid) (tenant_rows co_org_id p cs))))"

definition get_or_create_default :: "principal \<Rightarrow> uuids \<Rightarrow> time \<Rightarrow> int \<Rightarrow> session_db \<Rightarrow> conversation \<times> session_db" where
  "get_or_create_default p uid now sid d =
     (case first_convo sid p (conversations d) of Some c \<Rightarrow> (c, d) | None \<Rightarrow> convo_create p uid now sid [] d)"

definition convo_by_public_id :: "string \<Rightarrow> principal \<Rightarrow> conversation list \<Rightarrow> conversation option" where
  "convo_by_public_id pid p cs = first_row (filter (\<lambda>c. co_public_id c = pid) (tenant_rows co_org_id p cs))"

definition convos_for_session :: "int \<Rightarrow> principal \<Rightarrow> conversation list \<Rightarrow> conversation list" where
  "convos_for_session sid p cs = sort_key co_created_at (filter (\<lambda>c. co_session_id c = sid) (tenant_rows co_org_id p cs))"

subsection \<open>Messages\<close>

record ingest_item =
  im_role :: message_role
  im_content :: string
  im_created_at :: "time option"
  im_tool_name :: "string option"
  im_tool_input :: "(string \<times> json) list option"
  im_tool_output :: "(string \<times> json) list option"

definition message_row :: "principal \<Rightarrow> uuids \<Rightarrow> time \<Rightarrow> int \<Rightarrow> int \<Rightarrow> ingest_item \<Rightarrow> chat_message" where
  "message_row p uid now cid i x =
     \<lparr>me_id = i, me_public_id = uid i, me_org_id = p_org_id p, me_conversation_id = cid, me_role = im_role x,
      me_content = im_content x, me_tool_name = im_tool_name x, me_tool_input = im_tool_input x,
      me_tool_output = im_tool_output x, me_created_at = (case im_created_at x of None \<Rightarrow> now | Some t \<Rightarrow> t)\<rparr>"

definition message_append :: "principal \<Rightarrow> uuids \<Rightarrow> time \<Rightarrow> int \<Rightarrow> ingest_item \<Rightarrow> session_db \<Rightarrow> chat_message \<times> session_db" where
  "message_append p uid now cid x d =
     (let m = message_row p uid now cid (next_message_id d) x
      in (m, d\<lparr>messages := messages d @ [m], next_message_id := next_message_id d + 1\<rparr>))"

text \<open>The clock is read again for every row that has no instant of its own.\<close>

definition append_bulk :: "principal \<Rightarrow> uuids \<Rightarrow> (nat \<Rightarrow> time) \<Rightarrow> int \<Rightarrow> ingest_item list \<Rightarrow> session_db \<Rightarrow> nat \<times> session_db" where
  "append_bulk p uid clock cid items d =
     (if items = [] then (0, d)
      else let rows = map (\<lambda>(k, x). message_row p uid (clock k) cid (next_message_id d + int k) x) (List.enumerate 0 items)
           in (length rows, d\<lparr>messages := messages d @ rows, next_message_id := next_message_id d + int (length rows)\<rparr>))"

definition messages_for_conversation :: "int \<Rightarrow> nat \<Rightarrow> principal \<Rightarrow> chat_message list \<Rightarrow> chat_message list" where
  "messages_for_conversation cid limit p ms =
     take limit (sort_key me_created_at (filter (\<lambda>m. me_conversation_id m = cid) (tenant_rows me_org_id p ms)))"

subsection \<open>Session service\<close>

definition session_service_start ::
    "principal \<Rightarrow> uuids \<Rightarrow> time \<Rightarrow> string \<Rightarrow> agent_kind \<Rightarrow> string \<Rightarrow> (string \<times> json) list option \<Rightarrow> project list \<Rightarrow> session_db
     \<Rightarrow> session_row option \<times> session_db" where
  "session_service_start p uid now ppid kind title meta prs d =
     (case project_by_public_id ppid p prs of
        None \<Rightarrow> (None, d)
      | Some pr \<Rightarrow> (let (x, d1) = session_create p uid now (pr_id pr) kind title meta d in (Some x, d1)))"

definition session_service_list :: "principal \<Rightarrow> string \<Rightarrow> nat \<Rightarrow> project list \<Rightarrow> session_db \<Rightarrow> session_row list" where
  "session_service_list p ppid limit prs d =
     (case project_by_public_id ppid p prs of None \<Rightarrow> [] | Some pr \<Rightarrow> sessions_for_project (pr_id pr) limit p (sessions d))"

definition session_service_end :: "principal \<Rightarrow> time \<Rightarrow> string \<Rightarrow> session_db \<Rightarrow> session_row option \<times> session_db" where
  "session_service_end p now pid d =
     (case session_by_public_id pid p (sessions d) of
        None \<Rightarrow> (None, d)
      | Some x \<Rightarrow> (let (y, d1) = session_end now x d in (Some y, d1)))"

definition create_for_session :: "principal \<Rightarrow> uuids \<Rightarrow> time \<Rightarrow> string \<Rightarrow> string \<Rightarrow> session_db \<Rightarrow> conversation option \<times> session_db" where
  "create_for_session p uid now spid title d =
     (case session_by_public_id spid p (sessions d) of
        None \<Rightarrow> (None, d)
      | Some x \<Rightarrow> (let (c, d1) = convo_create p uid now (se_id x) title d in (Some c, d1)))"

definition list_for_session :: "principal \<Rightarrow> string \<Rightarrow> session_db \<Rightarrow> conversation list" where
  "list_for_session p spid d =
     (case session_by_public_id spid p (sessions d) of None \<Rightarrow> [] | Some x \<Rightarrow> convos_for_session (se_id x) p (conversations d))"

definition append_message :: "principal \<Rightarrow> uuids \<Rightarrow> time \<Rightarrow> string \<Rightarrow> ingest_item \<Rightarrow> session_db \<Rightarrow> chat_message option \<times> session_db" where
  "append_message p uid now cpid x d =
     (case convo_by_public_id cpid p (conversations d) of
        None \<Rightarrow> (None, d)
      | Some c \<Rightarrow> (let (m, d1) = message_append p uid now (co_id c) (x\<lparr>im_created_at := None\<rparr>) d in (Some m, d1)))"

definition list_messages :: "principal \<Rightarrow> string \<Rightarrow> nat \<Rightarrow> session_db \<Rightarrow> chat_message list" where
  "list_messages p cpid limit d =
     (case convo_by_public_id cpid p (conversations d) of
        None \<Rightarrow> [] | Some c \<Rightarrow> messages_for_conversation (co_id c) limit p (messages d))"

subsection \<open>Ingestion\<close>

record ingest_summary =
  is_session_public_id :: string
  is_conversation_public_id :: string
  is_messages_inserted :: nat
  is_memories_created :: nat

definition ingest_messages ::
    "principal \<Rightarrow> uuids \<Rightarrow> time \<Rightarrow> (nat \<Rightarrow> time) \<Rightarrow> string \<Rightarrow> ingest_item list \<Rightarrow> session_db \<Rightarrow> ingest_summary option \<times> session_db" where
  "ingest_messages p uid now clock spid items d =
     (case session_by_public_id spid p (sessions d) of
        None \<Rightarrow> (None, d)
      | Some x \<Rightarrow>
          (let (c, d1) = get_or_create_default p uid now (se_id x) d;
               (n, d2) = append_bulk p uid clock (co_id c) items d1
           in (Some \<lparr>is_session_public_id = se_public_id x, is_conversation_public_id = co_public_id c,
                     is_messages_inserted = n, is_memories_created = 0\<rparr>, d2)))"

definition blank_input :: "scope_type \<Rightarrow> int \<Rightarrow> create_memory_input" where
  "blank_input st sid = \<lparr>cm_scope_type = st, cm_scope_id = sid, cm_body = [], cm_title = [], cm_kind = FACT,
     cm_sensitivity = INTERNAL, cm_source_type = MANUAL, cm_source_ref = None, cm_importance = 1 / 2, cm_pinned = False,
     cm_metadata = None, cm_expires_at = None, cm_confidence = None\<rparr>"

definition ingest_document ::
    "service_env \<Rightarrow> principal \<Rightarrow> scope_type \<Rightarrow> int \<Rightarrow> string \<Rightarrow> string \<Rightarrow> sensitivity \<Rightarrow> (string \<times> json) list option
     \<Rightarrow> service_cache \<Rightarrow> db \<Rightarrow> (memory \<times> service_cache \<times> db) result" where
  "ingest_document env p st sid title body sens ref sv d =
     rbind (service_write env p ((blank_input st sid)\<lparr>cm_title := title, cm_body := body, cm_kind := PROCEDURE,
          cm_sensitivity := sens, cm_source_type := DOCUMENT, cm_source_ref := ref\<rparr>) False False sv d)
       (\<lambda>(w, sv1, d1). Inr (mw_memory w, sv1, d1))"

text \<open>A commit as the endpoint's schema types it; \<open>str.splitlines\<close> up to its first line.\<close>

record git_commit =
  gc_sha :: string
  gc_message :: string
  gc_author :: json
  gc_date :: json
  gc_files :: json

definition line_break :: "char \<Rightarrow> bool" where
  "line_break c = ((10 \<le> code c \<and> code c \<le> 13) \<or> (28 \<le> code c \<and> code c \<le> 30))"

definition first_line :: "string \<Rightarrow> string" where
  "first_line s = takeWhile (\<lambda>c. \<not> line_break c) s"

definition commit_input :: "scope_type \<Rightarrow> int \<Rightarrow> sensitivity \<Rightarrow> string \<Rightarrow> string \<Rightarrow> git_commit \<Rightarrow> create_memory_input" where
  "commit_input st sid sens sha msg c = (blank_input st sid)\<lparr>cm_title := take 200 (first_line msg), cm_body := msg,
     cm_kind := EVENT, cm_sensitivity := sens, cm_source_type := TOOL_OUTPUT,
     cm_source_ref := Some [(''sha'', JStr sha), (''author'', gc_author c), (''date'', gc_date c), (''files'', gc_files c)]\<rparr>"

fun ingest_git_log ::
    "service_env \<Rightarrow> uuids \<Rightarrow> principal \<Rightarrow> scope_type \<Rightarrow> int \<Rightarrow> sensitivity \<Rightarrow> git_commit list
     \<Rightarrow> service_cache \<Rightarrow> db \<Rightarrow> (nat \<times> service_cache \<times> db) result" where
  "ingest_git_log env uid p st sid sens [] sv d = Inr (0, sv, d)"
| "ingest_git_log env uid p st sid sens (c # cs) sv d =
     (let sha = py_strip (gc_sha c); msg = py_strip (gc_message c)
      in if sha = [] \<or> msg = [] then ingest_git_log env uid p st sid sens cs sv d
         else rbind (service_write (env\<lparr>e_public_id := uid (next_memory_id d)\<rparr>) p (commit_input st sid sens sha msg c) False False sv d)
                (\<lambda>(_, sv1, d1). rbind (ingest_git_log env uid p st sid sens cs sv1 d1) (\<lambda>(n, sv2, d2). Inr (n + 1, sv2, d2))))"

subsection \<open>Summaries\<close>

fun message_role_value :: "message_role \<Rightarrow> string" where
  "message_role_value MSG_USER = ''user''"
| "message_role_value ASSISTANT = ''assistant''"
| "message_role_value MSG_SYSTEM = ''system''"
| "message_role_value TOOL = ''tool''"

text \<open>The configured model answers; an error of the model is the empty summary.\<close>

definition llm_summarize :: "settings \<Rightarrow> llm result \<Rightarrow> (string \<times> string) list \<Rightarrow> string result" where
  "llm_summarize s get_llm ms =
     (if ms = [] then Inr []
      else rbind get_llm (\<lambda>llm.
        case llm \<lparr>lc_system = CONVERSATION_SYSTEM 120,
                  lc_user = py_join [newline] (map (\<lambda>(role, content). role @ '': '' @ content) ms),
                  lc_model = llm_model_summarizer s, lc_max_tokens = max 200 (120 * 4), lc_schema = False\<rparr> of
          Inl (LlmError _) \<Rightarrow> Inr []
        | Inl e \<Rightarrow> Inl e
        | Inr resp \<Rightarrow> Inr (py_strip (lr_text resp))))"

definition idle_since :: time where
  "idle_since = 30 * 60 * 1000000"

definition last_message_at :: "int \<Rightarrow> chat_message list \<Rightarrow> time option" where
  "last_message_at cid ms =
     (let ts = map me_created_at (filter (\<lambda>m. me_conversation_id m = cid) ms) in if ts = [] then None else Some (Max (set ts)))"

definition is_idle :: "time \<Rightarrow> chat_message list \<Rightarrow> conversation \<Rightarrow> bool" where
  "is_idle now ms c = (co_summary c = None \<and>
     (case last_message_at (co_id c) ms of None \<Rightarrow> False | Some t \<Rightarrow> t < now - idle_since))"

definition find_idle :: "time \<Rightarrow> nat \<Rightarrow> session_db \<Rightarrow> (int \<times> int) list" where
  "find_idle now limit d =
     map (\<lambda>c. (co_id c, co_org_id c)) (take limit (sort_key co_id (filter (is_idle now (messages d)) (conversations d))))"

definition recent_transcript :: "int \<Rightarrow> chat_message list \<Rightarrow> (string \<times> string) list" where
  "recent_transcript cid ms =
     rev (map (\<lambda>m. (message_role_value (me_role m), me_content m))
       (take 50 (sort_key (\<lambda>m. - me_created_at m) (filter (\<lambda>m. me_conversation_id m = cid) ms))))"

definition summarise_conversation ::
    "((string \<times> string) list \<Rightarrow> string result) \<Rightarrow> int \<Rightarrow> session_db \<Rightarrow> bool \<times> session_db" where
  "summarise_conversation summarizer cid d =
     (let rendered = recent_transcript cid (messages d)
      in if rendered = [] then (False, d)
         else case summarizer rendered of
                Inl e \<Rightarrow> (False, d)
              | Inr summary \<Rightarrow>
                  if py_strip summary = [] then (False, d)
                  else (True, d\<lparr>conversations := map (\<lambda>c. if co_id c = cid then c\<lparr>co_summary := Some summary\<rparr> else c) (conversations d)\<rparr>))"

fun summarise_all ::
    "((string \<times> string) list \<Rightarrow> string result) \<Rightarrow> (int \<times> int) list \<Rightarrow> session_db \<Rightarrow> nat \<times> session_db" where
  "summarise_all summarizer [] d = (0, d)"
| "summarise_all summarizer ((cid, org) # idle) d =
     (let (ok, d1) = summarise_conversation summarizer cid d; (n, d2) = summarise_all summarizer idle d1
      in ((if ok then 1 else 0) + n, d2))"

definition generate_summaries ::
    "((string \<times> string) list \<Rightarrow> string result) \<Rightarrow> time \<Rightarrow> session_db \<Rightarrow> (nat \<times> nat) \<times> session_db" where
  "generate_summaries summarizer now d =
     (let idle = find_idle now 16 d; (n, d1) = summarise_all summarizer idle d in ((length idle, n), d1))"

section \<open>Tenant reads\<close>

interpretation session_named: tenant_reader se_org_id "\<lambda>p xs. opt_list (session_by_public_id pid p xs)" for pid
  by unfold_locales (auto simp: session_by_public_id_def dest!: set_opt_list [THEN subsetD])

interpretation session_numbered: tenant_reader se_org_id "\<lambda>p xs. opt_list (session_by_id i p xs)" for i
  by unfold_locales (auto simp: session_by_id_def dest!: set_opt_list [THEN subsetD])

interpretation session_listing: tenant_reader se_org_id "sessions_for_project pid limit" for pid limit
  by unfold_locales (auto simp: sessions_for_project_def dest!: in_set_takeD)

interpretation convo_first: tenant_reader co_org_id "\<lambda>p cs. opt_list (first_convo sid p cs)" for sid
  by unfold_locales (auto simp: first_convo_def dest!: set_opt_list [THEN subsetD] in_set_takeD)

interpretation convo_named: tenant_reader co_org_id "\<lambda>p cs. opt_list (convo_by_public_id pid p cs)" for pid
  by unfold_locales (auto simp: convo_by_public_id_def dest!: set_opt_list [THEN subsetD])

interpretation convo_listing: tenant_reader co_org_id "convos_for_session sid" for sid
  by unfold_locales (auto simp: convos_for_session_def)

interpretation message_listing: tenant_reader me_org_id "messages_for_conversation cid limit" for cid limit
  by unfold_locales (auto simp: messages_for_conversation_def dest!: in_set_takeD)

text \<open>
  Transcripts of other tenants show nowhere: for a principal that is not a superuser, sessions, conversations and
  messages of other organisations change nothing that listing or reading one of its own returns.
\<close>

theorem transcripts_ignore_other_tenants:
  assumes "\<not> is_superuser p" and "\<forall>x \<in> set xs. se_org_id x \<noteq> p_org_id p" and "\<forall>c \<in> set cs. co_org_id c \<noteq> p_org_id p"
    and "\<forall>m \<in> set ms. me_org_id m \<noteq> p_org_id p"
    and "d' = d\<lparr>sessions := sessions d @ xs, conversations := conversations d @ cs, messages := messages d @ ms\<rparr>"
  shows "session_service_list p ppid limit prs d' = session_service_list p ppid limit prs d \<and>
    list_for_session p spid d' = list_for_session p spid d \<and> list_messages p cpid limit d' = list_messages p cpid limit d"
  using session_named.foreign_rows_invisible [OF assms(1,2)] convo_named.foreign_rows_invisible [OF assms(1,3)]
  by (simp add: assms(5) opt_list_inject session_service_list_def list_for_session_def list_messages_def
      session_listing.foreign_rows_invisible [OF assms(1,2)] convo_listing.foreign_rows_invisible [OF assms(1,3)]
      message_listing.foreign_rows_invisible [OF assms(1,4)] split: option.split)

section \<open>Ingestion\<close>

definition item_of :: "chat_message \<Rightarrow> message_role \<times> string \<times> string option \<times> (string \<times> json) list option \<times> (string \<times> json) list option" where
  "item_of m = (me_role m, me_content m, me_tool_name m, me_tool_input m, me_tool_output m)"

definition item_content :: "ingest_item \<Rightarrow> message_role \<times> string \<times> string option \<times> (string \<times> json) list option \<times> (string \<times> json) list option" where
  "item_content x = (im_role x, im_content x, im_tool_name x, im_tool_input x, im_tool_output x)"

lemma append_bulk_rows:
  "\<exists>rows. append_bulk p uid clock cid items d = (length items, d\<lparr>messages := messages d @ rows, next_message_id := next_message_id d + int (length items)\<rparr>) \<and>
     map item_of rows = map item_content items \<and> (\<forall>m \<in> set rows. me_org_id m = p_org_id p \<and> me_conversation_id m = cid) \<and>
     map me_created_at rows = map (\<lambda>(k, x). case im_created_at x of None \<Rightarrow> clock k | Some t \<Rightarrow> t) (List.enumerate 0 items) \<and>
     map me_id rows = map (\<lambda>k. next_message_id d + int k) [0..<length items]"
proof -
  let ?rows = "map (\<lambda>(k, x). message_row p uid (clock k) cid (next_message_id d + int k) x) (List.enumerate 0 items)"
  have "map item_of ?rows = map item_content items"
    by (rule nth_equalityI) (auto simp: nth_enumerate_eq message_row_def item_of_def item_content_def)
  moreover have "map me_id ?rows = map (\<lambda>k. next_message_id d + int k) [0..<length items]"
    by (rule nth_equalityI) (auto simp: nth_enumerate_eq message_row_def)
  moreover have "map me_created_at ?rows = map (\<lambda>(k, x). case im_created_at x of None \<Rightarrow> clock k | Some t \<Rightarrow> t) (List.enumerate 0 items)"
    by (rule nth_equalityI) (auto simp: nth_enumerate_eq message_row_def)
  moreover have "append_bulk p uid clock cid items d =
      (length items, d\<lparr>messages := messages d @ ?rows, next_message_id := next_message_id d + int (length items)\<rparr>)"
    by (simp add: append_bulk_def)
  moreover have "\<forall>m \<in> set ?rows. me_org_id m = p_org_id p \<and> me_conversation_id m = cid"
    by (auto simp: message_row_def)
  ultimately show ?thesis by blast
qed

lemma insort_append: "\<forall>y \<in> set zs. f a \<le> f y \<Longrightarrow> insort_key f a (ys @ zs) = insort_key f a ys @ zs"
  by (induction ys) (auto, cases zs, auto)

lemma sort_key_append:
  assumes "\<forall>a \<in> set xs. \<forall>y \<in> set ys. f a \<le> f y" and "sorted (map f ys)"
  shows "sort_key f (xs @ ys) = sort_key f xs @ ys"
  using assms(1)
proof (induction xs)
  case Nil
  then show ?case using assms(2) by (simp add: sort_key_id_if_sorted)
next
  case (Cons a xs)
  then have "sort_key f (xs @ ys) = sort_key f xs @ ys" and "\<forall>y \<in> set ys. f a \<le> f y" by simp_all
  then show ?case using insort_append by simp
qed

lemma first_row_single: "distinct (map f xs) \<Longrightarrow> c \<in> set xs \<Longrightarrow> P c \<Longrightarrow> first_row (filter (\<lambda>x. f x = f c) (filter P xs)) = Some c"
proof -
  assume xs: "distinct (map f xs)" "c \<in> set xs" "P c"
  then have "filter (\<lambda>x. f x = f c) (filter P xs) \<noteq> []" by (auto simp: filter_empty_conv)
  then obtain y where y: "first_row (filter (\<lambda>x. f x = f c) (filter P xs)) = Some y"
    by (cases "filter (\<lambda>x. f x = f c) (filter P xs)") (simp_all add: first_row_def)
  have "y \<in> set xs \<and> f y = f c" using first_row_in [OF y] by simp
  then show ?thesis using y xs by (auto simp: distinct_map dest: inj_onD)
qed

lemma convo_found:
  assumes "distinct (map co_public_id cs)" and "c \<in> set cs" and "is_superuser p \<or> co_org_id c = p_org_id p"
  shows "convo_by_public_id (co_public_id c) p cs = Some c"
  using first_row_single [OF assms(1,2), of "\<lambda>x. is_superuser p \<or> co_org_id x = p_org_id p"] assms(3)
  by (cases "is_superuser p") (simp_all add: convo_by_public_id_def tenant_rows_def)

lemma default_convo:
  assumes "get_or_create_default p uid now sid d = (c, d1)"
  shows "co_session_id c = sid \<and> c \<in> set (conversations d1) \<and> (is_superuser p \<or> co_org_id c = p_org_id p) \<and>
    (d1 = d \<or> d1 = d\<lparr>conversations := conversations d @ [c], next_conversation_id := next_conversation_id d + 1\<rparr> \<and>
       co_public_id c = uid (next_conversation_id d))"
proof (cases "first_convo sid p (conversations d)")
  case None
  then show ?thesis using assms by (auto simp: get_or_create_default_def convo_create_def Let_def)
next
  case (Some c')
  then have "c' = c" "d1 = d" using assms by (auto simp: get_or_create_default_def)
  moreover have "c' \<in> set (tenant_rows co_org_id p (conversations d)) \<and> co_session_id c' = sid"
    using first_row_in [OF Some [unfolded first_convo_def]] by (auto dest: in_set_takeD)
  ultimately show ?thesis by (auto simp: tenant_rows_def split: if_splits)
qed


section \<open>Summaries\<close>

definition summarised ::
    "((string \<times> string) list \<Rightarrow> string result) \<Rightarrow> int set \<Rightarrow> chat_message list \<Rightarrow> conversation \<Rightarrow> conversation \<Rightarrow> bool" where
  "summarised f ids ms c c' \<longleftrightarrow> c' = c \<or> co_id c \<in> ids \<and>
     (\<exists>s. f (recent_transcript (co_id c) ms) = Inr s \<and> py_strip s \<noteq> [] \<and> c' = c\<lparr>co_summary := Some s\<rparr>)"

lemma summarise_one:
  assumes "summarise_conversation f cid d = (ok, d1)"
  shows "d1 = d\<lparr>conversations := conversations d1\<rparr> \<and>
    list_all2 (summarised f {cid} (messages d)) (conversations d) (conversations d1)"
proof -
  have refl: "list_all2 (summarised f {cid} (messages d)) (conversations d) (conversations d)"
    by (simp add: summarised_def list_all2_refl)
  have "list_all2 (summarised f {cid} (messages d)) (conversations d)
      (map (\<lambda>c. if co_id c = cid then c\<lparr>co_summary := Some s\<rparr> else c) (conversations d))"
    if "f (recent_transcript cid (messages d)) = Inr s" and "py_strip s \<noteq> []" for s
    using that by (auto simp: list_all2_map2 summarised_def intro: list_all2_refl)
  then show ?thesis using assms refl
    by (auto simp: summarise_conversation_def Let_def split: if_splits sum.splits)
qed

lemma summarise_all_effect:
  "summarise_all f idle d = (n, d1) \<Longrightarrow> n \<le> length idle \<and> d1 = d\<lparr>conversations := conversations d1\<rparr> \<and>
     list_all2 (summarised f (fst ` set idle) (messages d)) (conversations d) (conversations d1)"
proof (induction f idle d arbitrary: n d1 rule: summarise_all.induct)
  case (1 f d)
  then show ?case by (simp add: summarised_def list_all2_refl)
next
  case (2 f cid org idle d)
  obtain ok d2 m where one: "summarise_conversation f cid d = (ok, d2)" and rest: "summarise_all f idle d2 = (m, d1)"
    and n: "n = (if ok then 1 else 0) + m"
    using 2(2) by (auto simp: Let_def split: prod.splits)
  note a = summarise_one [OF one] and b = 2(1) [OF one [symmetric] refl rest]
  from a have d2: "d2 = d\<lparr>conversations := conversations d2\<rparr>" by blast
  have ms: "messages d2 = messages d" by (subst d2) simp
  from b have "d1 = d2\<lparr>conversations := conversations d1\<rparr>" by blast
  then have d1: "d1 = d\<lparr>conversations := conversations d1\<rparr>" by (subst (asm) d2) simp
  have "list_all2 (summarised f (fst ` set ((cid, org) # idle)) (messages d)) (conversations d) (conversations d1)"
  proof (rule list_all2_trans [of _ _ _ _ "conversations d2"])
    show "list_all2 (summarised f {cid} (messages d)) (conversations d) (conversations d2)" using a by simp
    show "list_all2 (summarised f (fst ` set idle) (messages d)) (conversations d2) (conversations d1)" using b ms by simp
  qed (auto simp: summarised_def)
  then show ?case using b n d1 by auto
qed

lemma last_message_some: "last_message_at cid ms = Some t \<Longrightarrow> \<exists>m \<in> set ms. me_conversation_id m = cid"
  by (auto simp: last_message_at_def Let_def filter_empty_conv split: if_splits)

lemma idle_in:
  assumes "distinct (map co_id (conversations d))" and "c \<in> set (conversations d)" and "co_id c \<in> fst ` set (find_idle now limit d)"
  shows "is_idle now (messages d) c"
proof -
  obtain c' where c': "c' \<in> set (conversations d)" "is_idle now (messages d) c'" "co_id c' = co_id c"
    using assms(3) by (auto simp: find_idle_def dest!: in_set_takeD)
  then have "c' = c" using assms(1,2) by (auto simp: distinct_map dest: inj_onD)
  then show ?thesis using c' by simp
qed


section \<open>What the code leaves open\<close>

text \<open>
  Sixteen conversations the summariser fails on are asked for again in every run and keep the others from being
  looked at.
\<close>

lemma failing_summaries_starve:
  assumes "\<forall>(cid, org) \<in> set (find_idle now 16 d). \<exists>e. f (recent_transcript cid (messages d)) = Inl e"
  shows "snd (generate_summaries f now d) = d"
proof -
  have "snd (summarise_all f idle d) = d" if "\<forall>(cid, org) \<in> set idle. \<exists>e. f (recent_transcript cid (messages d)) = Inl e" for idle
    using that
  proof (induction f idle d rule: summarise_all.induct)
    case (2 f cid org idle d)
    then have "summarise_conversation f cid d = (False, d)" by (auto simp: summarise_conversation_def Let_def)
    then show ?case using 2 by (auto simp: Let_def split: prod.split)
  qed simp
  then show ?thesis using assms by (simp add: generate_summaries_def Let_def split: prod.split) (metis snd_conv)
qed

text \<open>Reading a transcript asks for neither a role nor a key scope: every principal of the organisation reads the same.\<close>

lemma transcripts_unguarded:
  assumes "\<not> is_superuser p" and "\<not> is_superuser q" and "p_org_id p = p_org_id q"
  shows "list_messages p cpid limit d = list_messages q cpid limit d"
proof -
  have "tenant_rows f p rows = tenant_rows f q rows" for f and rows :: "chat_message list" using assms by (simp add: tenant_rows_def)
  moreover have "tenant_rows f p rows = tenant_rows f q rows" for f and rows :: "conversation list" using assms by (simp add: tenant_rows_def)
  ultimately show ?thesis by (simp only: list_messages_def convo_by_public_id_def messages_for_conversation_def)
qed

text \<open>
  The number of memories a git log is said to create counts every commit that is not blank, also those whose text
  was stored before and only folded into the memory that is there.
\<close>

lemma git_log_counts_repeats:
  "ingest_git_log env uid p st sid sens cs sv d = Inr (n, sv', d') \<Longrightarrow>
     n = length (filter (\<lambda>c. py_strip (gc_sha c) \<noteq> [] \<and> py_strip (gc_message c) \<noteq> []) cs)"
  by (induction env uid p st sid sens cs sv d arbitrary: n sv' d' rule: ingest_git_log.induct)
    (fastforce simp: Let_def rbind_def split: if_splits sum.splits prod.splits)+

section \<open>Concrete instances\<close>

definition demo_uuid :: uuids where
  "demo_uuid i = ''id-'' @ show_int i"

definition demo_item :: "message_role \<Rightarrow> string \<Rightarrow> ingest_item" where
  "demo_item r t = \<lparr>im_role = r, im_content = t, im_created_at = None, im_tool_name = None, im_tool_input = None, im_tool_output = None\<rparr>"

definition started :: session_db where
  "started = snd (session_create (member_of 1) demo_uuid 10 3 CODEX ''run'' None
     \<lparr>sessions = [], conversations = [], messages = [], next_session_id = 1, next_conversation_id = 1, next_message_id = 1\<rparr>)"

definition talked :: "ingest_summary option \<times> session_db" where
  "talked = ingest_messages (member_of 1) demo_uuid 20 (\<lambda>k. 20 + int k) ''id-1'' [demo_item MSG_USER ''hi'', demo_item ASSISTANT ''hello''] started"

lemma started_simps: "conversations started = []" "messages started = []"
  by code_simp+


lemma transcripts_ignore_other_tenants_witness:
  "list_messages (member_of 1) ''id-1'' 10 ((snd talked)\<lparr>messages := messages (snd talked) @
     [(hd (messages (snd talked)))\<lparr>me_org_id := 2, me_content := ''other''\<rparr>]\<rparr>) = list_messages (member_of 1) ''id-1'' 10 (snd talked)"
proof -
  have p: "\<not> is_superuser (member_of 1)" "p_org_id (member_of 1) = 1" by code_simp+
  show ?thesis
    using transcripts_ignore_other_tenants [OF p(1), of "[]" "[]" "[(hd (messages (snd talked)))\<lparr>me_org_id := 2, me_content := ''other''\<rparr>]"
        _ "snd talked" _ 10 "[]" _ "''id-1''"] p(2) by simp
qed


end
