(* ===== verification/Importers.thy ===== *)
theory Importers
  imports Sessions
begin

text \<open>
  Imports from other memory tools: the parsers of \<^verbatim>\<open>kortex_cli/importers.py\<close>, the command of
  \<^verbatim>\<open>kortex_cli/cmds/import_.py\<close> that sends what they found, and the endpoint \<^verbatim>\<open>POST /v1/memories\<close>
  (\<^verbatim>\<open>kortex_api/routers/memories.py\<close>) that receives it, over \<^const>\<open>service_write\<close>.

  \<open>json.loads\<close> is a parameter, a function to a decoded value or to the text of its \<open>JSONDecodeError\<close>.  The ellipsis a shortened
  title ends with and the dash of a message are each one character outside ASCII.  What the command prints is left out, and so
  is a connection that breaks, which ends the command.
\<close>

section \<open>Definitions\<close>

subsection \<open>Shapes\<close>

type_synonym row = "(string \<times> json) list"

type_synonym loads = "string \<Rightarrow> string + json"

record source_memory =
  sm_body :: string
  sm_title :: string
  sm_kind :: string
  sm_source_id :: string
  sm_metadata :: row

fun first_some :: "('k \<Rightarrow> 'a option) \<Rightarrow> 'k list \<Rightarrow> 'a option" where
  "first_some f [] = None"
| "first_some f (k # ks) = (case f k of Some x \<Rightarrow> Some x | None \<Rightarrow> first_some f ks)"

text \<open>The dicts of a list, in order.\<close>

definition as_object :: "json \<Rightarrow> row option" where
  "as_object j = (case j of JObj d \<Rightarrow> Some d | _ \<Rightarrow> None)"

definition objects :: "json list \<Rightarrow> row list" where
  "objects xs = List.map_filter as_object xs"

definition held_records :: "row \<Rightarrow> string \<Rightarrow> row list option" where
  "held_records d key = (case dict_get d key of
     Some (JList xs) \<Rightarrow> Some (objects xs)
   | Some (JObj e) \<Rightarrow> Some (objects (map snd e))
   | _ \<Rightarrow> None)"

definition find_records :: "json \<Rightarrow> string list \<Rightarrow> row list result" where
  "find_records doc keys = (case doc of
     JList xs \<Rightarrow> Inr (objects xs)
   | JObj d \<Rightarrow> (case first_some (held_records d) keys of
       Some rs \<Rightarrow> Inr rs
     | None \<Rightarrow> Inl (UnreadableExportError (''found none of '' @ py_join '', '' keys @
         '' in the file, and it is not a bare array. Check --from matches the tool that produced it.'')))
   | _ \<Rightarrow> Inl (UnreadableExportError ''expected a JSON object or array at the top level''))"

fun first_text :: "row \<Rightarrow> string list \<Rightarrow> string" where
  "first_text r [] = []"
| "first_text r (n # ns) = (case dict_get r n of
     Some (JStr v) \<Rightarrow> if py_strip v \<noteq> [] then py_strip v else first_text r ns
   | _ \<Rightarrow> first_text r ns)"

definition max_title :: nat where
  "max_title = 200"

definition ellipsis :: char where
  "ellipsis = CHR 0x85"

definition em_dash :: char where
  "em_dash = CHR 0x97"

text \<open>\<open>s.rsplit(" ", 1)[0]\<close>.\<close>

definition before_last_space :: "string \<Rightarrow> string" where
  "before_last_space s =
     (if CHR '' '' \<in> set s then rev (tl (dropWhile (\<lambda>c. c \<noteq> CHR '' '') (rev s))) else s)"

definition title_from :: "string \<Rightarrow> string" where
  "title_from body =
     (let head = py_strip (hd (split_max 1 newline (py_strip body)))
      in if max_title < length head then before_last_space (take (max_title - 1) head) @ [ellipsis] else head)"

definition empty_value :: "json \<Rightarrow> bool" where
  "empty_value v = (v = JNull \<or> v = JStr [] \<or> v = JList [] \<or> v = JObj [])"

definition leftovers :: "row \<Rightarrow> string list \<Rightarrow> row" where
  "leftovers r consumed = filter (\<lambda>(k, v). k \<notin> set consumed \<and> \<not> empty_value v) r"

definition import_stamp :: "string \<Rightarrow> row \<Rightarrow> string list \<Rightarrow> row" where
  "import_stamp src r consumed =
     (''imported_from'', JStr src) # (if leftovers r consumed = [] then [] else [(src, JObj (leftovers r consumed))])"

definition text_or :: "string \<Rightarrow> string \<Rightarrow> string" where
  "text_or a b = (if a = [] then b else a)"

subsection \<open>The parsers\<close>

definition mem0_keys :: "string list" where
  "mem0_keys = [''results'', ''memories'', ''data'']"

definition mem0_record :: "row \<Rightarrow> source_memory option" where
  "mem0_record r =
     (let body = first_text r [''memory'', ''text'', ''content'', ''data'']
      in if body = [] then None
         else Some \<lparr>sm_body = body, sm_title = title_from body, sm_kind = ''fact'',
                sm_source_id = first_text r [''id'', ''memory_id'', ''hash''],
                sm_metadata = import_stamp ''mem0'' r [''memory'', ''text'', ''content'', ''data'', ''id'', ''memory_id'']\<rparr>)"

definition parse_mem0 :: "json \<Rightarrow> source_memory list result" where
  "parse_mem0 doc = rbind (find_records doc mem0_keys) (\<lambda>rs. Inr (List.map_filter mem0_record rs))"

fun json_truthy :: "json \<Rightarrow> bool" where
  "json_truthy JNull = False"
| "json_truthy (JBool b) = b"
| "json_truthy (JInt i) = (i \<noteq> 0)"
| "json_truthy (JFloat x) = (x \<noteq> 0)"
| "json_truthy (JStr s) = (s \<noteq> [])"
| "json_truthy (JList xs) = (xs \<noteq> [])"
| "json_truthy (JObj d) = (d \<noteq> [])"

definition has_truthy :: "row \<Rightarrow> string \<Rightarrow> bool" where
  "has_truthy r k = (case dict_get r k of None \<Rightarrow> False | Some v \<Rightarrow> json_truthy v)"

definition zep_keys :: "string list" where
  "zep_keys = [''facts'', ''edges'', ''relevant_facts'', ''results'', ''memories'']"

definition zep_record :: "row \<Rightarrow> source_memory option" where
  "zep_record r =
     (if has_truthy r ''invalid_at'' \<or> has_truthy r ''expired_at'' then None
      else let body = first_text r [''fact'', ''content'', ''summary'', ''name'']
           in if body = [] then None
              else Some \<lparr>sm_body = body, sm_title = text_or (first_text r [''name'']) (title_from body), sm_kind = ''fact'',
                     sm_source_id = first_text r [''uuid'', ''uuid_'', ''id'', ''edge_uuid''],
                     sm_metadata = import_stamp ''zep'' r [''fact'', ''content'', ''summary'', ''uuid'', ''uuid_'', ''id'']\<rparr>)"

definition parse_zep :: "json \<Rightarrow> source_memory list result" where
  "parse_zep doc = rbind (find_records doc zep_keys) (\<lambda>rs. Inr (List.map_filter zep_record rs))"

text \<open>Letta keeps blocks and passages in the document or, nested, in its agents.\<close>

definition labelled_text :: "string \<times> json \<Rightarrow> row option" where
  "labelled_text p = (case snd p of JStr t \<Rightarrow> Some [(''label'', JStr (fst p)), (''value'', JStr t)] | _ \<Rightarrow> None)"

definition held_blocks :: "row \<Rightarrow> string \<Rightarrow> row list option" where
  "held_blocks d key = (case dict_get d key of
     Some (JList xs) \<Rightarrow> Some (objects xs)
   | Some (JObj e) \<Rightarrow> Some (List.map_filter labelled_text e)
   | _ \<Rightarrow> None)"

definition held_passages :: "row \<Rightarrow> string \<Rightarrow> row list option" where
  "held_passages d key = (case dict_get d key of Some (JList xs) \<Rightarrow> Some (objects xs) | _ \<Rightarrow> None)"

definition agents_of :: "row \<Rightarrow> row list" where
  "agents_of d = (case dict_get d ''agents'' of Some (JList xs) \<Rightarrow> objects xs | _ \<Rightarrow> [])"

lemma size_dict_get: "map_of d k = Some v \<Longrightarrow> size v < size (JObj d)"
  by (induction d) (auto split: if_splits)

lemma size_objects: "e \<in> set (objects xs) \<Longrightarrow> size (JObj e) < size (JList xs)"
  by (induction xs) (auto simp: objects_def as_object_def map_filter_simps split: option.splits json.splits)

lemma size_agents: "a \<in> set (agents_of d) \<Longrightarrow> size (JObj a) < size (JObj d)"
proof -
  assume a: "a \<in> set (agents_of d)"
  then obtain xs where xs: "map_of d ''agents'' = Some (JList xs)" "a \<in> set (objects xs)"
    by (cases "map_of d ''agents''") (auto simp: agents_of_def dict_get_def split: json.splits)
  show ?thesis using size_objects [OF xs(2)] size_dict_get [OF xs(1)] by simp
qed

function blocks_of :: "row \<Rightarrow> row list" where
  "blocks_of d = (case first_some (held_blocks d) [''blocks'', ''core_memory'', ''memory_blocks''] of
     Some bs \<Rightarrow> bs
   | None \<Rightarrow> concat (map blocks_of (agents_of d)))"
  by pat_completeness auto
termination
  by (relation "measure (\<lambda>d. size (JObj d))") (auto dest: size_agents)

declare blocks_of.simps [simp del]

function passages_of :: "row \<Rightarrow> row list" where
  "passages_of d = (case first_some (held_passages d) [''archival_passages'', ''archival_memory'', ''passages''] of
     Some ps \<Rightarrow> ps
   | None \<Rightarrow> concat (map passages_of (agents_of d)))"
  by pat_completeness auto
termination
  by (relation "measure (\<lambda>d. size (JObj d))") (auto dest: size_agents)

declare passages_of.simps [simp del]

definition letta_blocks :: "json \<Rightarrow> row list" where
  "letta_blocks doc = (case doc of JObj d \<Rightarrow> blocks_of d | _ \<Rightarrow> [])"

definition letta_passages :: "json \<Rightarrow> row list" where
  "letta_passages doc = (case doc of JList xs \<Rightarrow> objects xs | JObj d \<Rightarrow> passages_of d | _ \<Rightarrow> [])"

definition block_kind :: "string \<Rightarrow> string" where
  "block_kind label = (if label = ''persona'' \<or> label = ''human'' then ''preference'' else ''fact'')"

definition block_record :: "row \<Rightarrow> source_memory option" where
  "block_record r =
     (let body = first_text r [''value'', ''text'', ''content'']; label = text_or (first_text r [''label'', ''name'']) ''block''
      in if body = [] then None
         else Some \<lparr>sm_body = body, sm_title = ''letta:'' @ label, sm_kind = block_kind label,
                sm_source_id = first_text r [''id'', ''block_id''],
                sm_metadata = import_stamp ''letta'' r [''value'', ''text'', ''content'', ''id'', ''block_id''] @
                  [(''letta_block'', JStr label), (''pinned_hint'', JBool True)]\<rparr>)"

definition passage_record :: "row \<Rightarrow> source_memory option" where
  "passage_record r =
     (let body = first_text r [''text'', ''content'', ''value'']
      in if body = [] then None
         else Some \<lparr>sm_body = body, sm_title = title_from body, sm_kind = ''fact'',
                sm_source_id = first_text r [''id'', ''passage_id''],
                sm_metadata = import_stamp ''letta'' r [''text'', ''content'', ''value'', ''id'']\<rparr>)"

definition parse_letta :: "json \<Rightarrow> source_memory list result" where
  "parse_letta doc =
     (let out = List.map_filter block_record (letta_blocks doc) @ List.map_filter passage_record (letta_passages doc)
      in if out = [] then Inl (UnreadableExportError (''no core memory blocks or archival passages found. A Letta agent file '' @
             ''keeps them under 'blocks'/'core_memory' and 'archival_passages'.''))
         else Inr out)"

definition json_keys :: "string list" where
  "json_keys = [''memories'', ''results'', ''items'', ''data'', ''records'']"

definition json_record :: "row \<Rightarrow> source_memory option" where
  "json_record r =
     (let body = first_text r [''body'', ''text'', ''content'', ''memory'', ''value'']
      in if body = [] then None
         else Some \<lparr>sm_body = body, sm_title = text_or (first_text r [''title'', ''name'']) (title_from body),
                sm_kind = text_or (first_text r [''kind'', ''type'']) ''fact'',
                sm_source_id = first_text r [''id'', ''public_id'', ''uuid''],
                sm_metadata = import_stamp ''json'' r
                  [''body'', ''text'', ''content'', ''memory'', ''value'', ''title'', ''name'', ''kind'', ''id'']\<rparr>)"

definition parse_json :: "json \<Rightarrow> source_memory list result" where
  "parse_json doc = rbind (find_records doc json_keys) (\<lambda>rs.
     let out = List.map_filter json_record rs
     in if out = [] then Inl (UnreadableExportError ''no records with a text field (body/text/content/memory) were found'')
        else Inr out)"

definition parsers :: "(string \<times> (json \<Rightarrow> source_memory list result)) list" where
  "parsers = [(''mem0'', parse_mem0), (''zep'', parse_zep), (''letta'', parse_letta), (''json'', parse_json)]"

subsection \<open>Files\<close>

text \<open>\<open>str.splitlines\<close>; a carriage return and the line feed after it end one line.\<close>

function py_splitlines :: "string \<Rightarrow> string list" where
  "py_splitlines s =
     (if s = [] then []
      else takeWhile (\<lambda>c. \<not> line_break c) s #
        (case dropWhile (\<lambda>c. \<not> line_break c) s of
           [] \<Rightarrow> []
         | c # r \<Rightarrow> py_splitlines (if code c = 13 \<and> r \<noteq> [] \<and> hd r = newline then tl r else r)))"
  by pat_completeness auto
termination
proof (relation "measure length", simp)
  fix s c r
  assume "dropWhile (\<lambda>c. \<not> line_break c) s = c # r"
  then have "Suc (length r) \<le> length s"
    by (metis length_dropWhile_le length_Cons)
  then show "(if code c = 13 \<and> r \<noteq> [] \<and> hd r = newline then tl r else r, s) \<in> measure length" by auto
qed

declare py_splitlines.simps [simp del]

fun load_lines :: "loads \<Rightarrow> nat \<Rightarrow> string list \<Rightarrow> json list result" where
  "load_lines loads number [] = Inr []"
| "load_lines loads number (l # ls) =
     (if py_strip l = [] then load_lines loads (number + 1) ls
      else case loads (py_strip l) of
          Inl e \<Rightarrow> Inl (UnreadableExportError (''line '' @ show_nat number @ '' is neither valid JSON nor part of a JSON file: '' @ e))
        | Inr v \<Rightarrow> rbind (load_lines loads (number + 1) ls) (\<lambda>vs. Inr (v # vs)))"

definition load_jsonl :: "loads \<Rightarrow> string \<Rightarrow> json list result" where
  "load_jsonl loads raw = rbind (load_lines loads 1 (py_splitlines raw)) (\<lambda>rows.
     if rows = [] then Inl (UnreadableExportError ''the file is empty, or is not JSON or JSONL'') else Inr rows)"

definition parse_file :: "loads \<Rightarrow> string \<Rightarrow> string \<Rightarrow> source_memory list result" where
  "parse_file loads src raw = (case dict_get parsers src of
     None \<Rightarrow> Inl (UnreadableExportError (''unknown source '' @ py_repr_str src @ ''; expected one of '' @
               py_join '', '' (map fst parsers)))
   | Some parse \<Rightarrow> (case loads raw of
       Inr doc \<Rightarrow> parse doc
     | Inl _ \<Rightarrow> rbind (load_jsonl loads raw) (\<lambda>rows. parse (JList rows))))"

subsection \<open>The endpoint\<close>

fun memory_kind_value :: "memory_kind \<Rightarrow> string" where
  "memory_kind_value FACT = ''fact''"
| "memory_kind_value PREFERENCE = ''preference''"
| "memory_kind_value DECISION = ''decision''"
| "memory_kind_value PROCEDURE = ''procedure''"
| "memory_kind_value CODE_ARTIFACT = ''code_artifact''"
| "memory_kind_value EVENT = ''event''"
| "memory_kind_value SUMMARY = ''summary''"

fun memory_source_value :: "memory_source \<Rightarrow> string" where
  "memory_source_value MESSAGE = ''message''"
| "memory_source_value DOCUMENT = ''document''"
| "memory_source_value DERIVED = ''derived''"
| "memory_source_value MANUAL = ''manual''"
| "memory_source_value TOOL_OUTPUT = ''tool_output''"

definition memory_kind_parse :: "string \<Rightarrow> memory_kind option" where
  "memory_kind_parse s =
     find (\<lambda>k. memory_kind_value k = s) [FACT, PREFERENCE, DECISION, PROCEDURE, CODE_ARTIFACT, EVENT, SUMMARY]"

definition memory_source_parse :: "string \<Rightarrow> memory_source option" where
  "memory_source_parse s = find (\<lambda>k. memory_source_value k = s) [MESSAGE, DOCUMENT, DERIVED, MANUAL, TOOL_OUTPUT]"

definition sensitivity_parse :: "string \<Rightarrow> sensitivity option" where
  "sensitivity_parse s = find (\<lambda>k. sensitivity_value k = s) [PUBLIC, INTERNAL, CONFIDENTIAL, SECRET]"

text \<open>
  The schema \<open>MemoryIn\<close> on the fields the importer sends, each of the type it sends; the others keep their defaults.
\<close>

definition text_field :: "row \<Rightarrow> string \<Rightarrow> string option" where
  "text_field r k = (case dict_get r k of Some (JStr s) \<Rightarrow> Some s | _ \<Rightarrow> None)"

definition int_field :: "row \<Rightarrow> string \<Rightarrow> int option" where
  "int_field r k = (case dict_get r k of Some (JInt i) \<Rightarrow> Some i | _ \<Rightarrow> None)"

definition object_field :: "row \<Rightarrow> string \<Rightarrow> row option" where
  "object_field r k = (case dict_get r k of Some (JObj d) \<Rightarrow> Some d | _ \<Rightarrow> None)"

definition memory_in :: "row \<Rightarrow> create_memory_input option" where
  "memory_in r =
     Option.bind (Option.bind (text_field r ''scope_type'') scope_type_parse) (\<lambda>st.
     Option.bind (int_field r ''scope_id'') (\<lambda>sid.
     Option.bind (text_field r ''body'') (\<lambda>body.
     Option.bind (text_field r ''title'') (\<lambda>title.
     Option.bind (Option.bind (text_field r ''kind'') memory_kind_parse) (\<lambda>kind.
     Option.bind (Option.bind (text_field r ''sensitivity'') sensitivity_parse) (\<lambda>sens.
     Option.bind (Option.bind (text_field r ''source_type'') memory_source_parse) (\<lambda>src.
     Option.bind (object_field r ''source_ref'') (\<lambda>ref.
     Option.bind (object_field r ''metadata'') (\<lambda>meta.
       if body = [] \<or> 100000 < int (length body) \<or> 1000 < int (length title) then None
       else Some ((blank_input st sid)\<lparr>cm_body := body, cm_title := title, cm_kind := kind, cm_sensitivity := sens,
              cm_source_type := src, cm_source_ref := Some ref, cm_metadata := Some meta\<rparr>))))))))))"

text \<open>The handlers the application installs; an exception without one is an internal error.\<close>

fun http_status :: "py_error \<Rightarrow> nat" where
  "http_status (AccessDeniedError _) = 403"
| "http_status (QuotaExceededError _) = 402"
| "http_status _ = 500"

definition memory_out :: "memory_write \<Rightarrow> json" where
  "memory_out w = JObj [(''public_id'', JStr (m_public_id (mw_memory w))), (''deduped'', JBool (mw_deduped w))]"

text \<open>
  A server: the number of requests so far, which names the environment of the next, and the database.  A
  request that fails is rolled back.
\<close>

type_synonym server = "nat \<times> db"

definition memory_post :: "(nat \<Rightarrow> service_env) \<Rightarrow> principal \<Rightarrow> row \<Rightarrow> server \<Rightarrow> (nat + json) \<times> server" where
  "memory_post envs p r s = (case s of (k, d) \<Rightarrow>
     (case memory_in r of
        None \<Rightarrow> (Inl 422, (Suc k, d))
      | Some payload \<Rightarrow> (case service_write (envs k) p payload False False fresh_cache d of
            Inl e \<Rightarrow> (Inl (http_status e), (Suc k, d))
          | Inr (w, _, d1) \<Rightarrow> (Inr (memory_out w), (Suc k, d1)))))"

subsection \<open>The command\<close>

definition import_payload :: "string \<Rightarrow> int \<Rightarrow> string \<Rightarrow> source_memory \<Rightarrow> row" where
  "import_payload st sid sens m =
     [(''scope_type'', JStr st), (''scope_id'', JInt sid), (''body'', JStr (sm_body m)), (''title'', JStr (sm_title m)),
      (''kind'', JStr (sm_kind m)), (''sensitivity'', JStr sens), (''source_type'', JStr ''derived''),
      (''source_ref'', JObj ((''importer'', case dict_get (sm_metadata m) ''imported_from'' of None \<Rightarrow> JStr ''json'' | Some v \<Rightarrow> v) #
          (if sm_source_id m = [] then [] else [(''source_id'', JStr (sm_source_id m))]))),
      (''metadata'', JObj (sm_metadata m))]"

definition reply_deduped :: "json \<Rightarrow> bool" where
  "reply_deduped v = (case v of JObj d \<Rightarrow> has_truthy d ''deduped'' | _ \<Rightarrow> False)"

text \<open>How many records were written, folded into existing memories, and refused.\<close>

fun import_write ::
    "(row \<Rightarrow> 's \<Rightarrow> (nat + json) \<times> 's) \<Rightarrow> string \<Rightarrow> int \<Rightarrow> string \<Rightarrow> source_memory list \<Rightarrow> 's \<Rightarrow> (nat \<times> nat \<times> nat) \<times> 's" where
  "import_write post st sid sens [] s = ((0, 0, 0), s)"
| "import_write post st sid sens (m # ms) s =
     (let (reply, s1) = post (import_payload st sid sens m) s;
          ((w, dd, f), s2) = import_write post st sid sens ms s1
      in (case reply of
            Inl _ \<Rightarrow> (w, dd, f + 1)
          | Inr v \<Rightarrow> if reply_deduped v then (w, dd + 1, f) else (w + 1, dd, f), s2))"

datatype file_read = MISSING | NOT_UTF8 | CONTENT string

datatype import_outcome = IMPORT_FAILED string | IMPORT_RAISED py_error | PREVIEWED nat | IMPORTED nat nat nat nat

definition import_limit :: "int \<Rightarrow> source_memory list \<Rightarrow> source_memory list" where
  "import_limit limit ms = (if 0 < limit then take (nat limit) ms else ms)"

definition import_command ::
    "loads \<Rightarrow> (row \<Rightarrow> 's \<Rightarrow> (nat + json) \<times> 's) \<Rightarrow> string \<Rightarrow> file_read \<Rightarrow> string \<Rightarrow> string \<Rightarrow> int \<Rightarrow> string \<Rightarrow> bool \<Rightarrow> int
     \<Rightarrow> 's \<Rightarrow> import_outcome \<times> 's" where
  "import_command loads post path file src st sid sens dry_run limit s = (case file of
     MISSING \<Rightarrow> (IMPORT_FAILED (''file not found: '' @ path), s)
   | NOT_UTF8 \<Rightarrow> (IMPORT_FAILED (path @ '' is not UTF-8 text '' @ [em_dash] @ '' is it an archive rather than an export?''), s)
   | CONTENT raw \<Rightarrow> (case parse_file loads src raw of
       Inl (UnreadableExportError msg) \<Rightarrow> (IMPORT_FAILED msg, s)
     | Inl e \<Rightarrow> (IMPORT_RAISED e, s)
     | Inr all \<Rightarrow>
         (let records = import_limit limit all
          in if records = [] then (IMPORT_FAILED (''no importable memories found in '' @ path), s)
             else if dry_run then (PREVIEWED (length records), s)
             else let ((w, dd, f), s1) = import_write post st sid sens records s
                  in (IMPORTED (length records) w dd f, s1))))"

definition exit_code :: "import_outcome \<Rightarrow> nat" where
  "exit_code x = (case x of IMPORT_FAILED _ \<Rightarrow> 1 | IMPORT_RAISED _ \<Rightarrow> 1 | PREVIEWED _ \<Rightarrow> 0 | IMPORTED _ _ _ f \<Rightarrow> if f = 0 then 0 else 1)"

section \<open>What the parsers keep\<close>

lemma map_filter_list_all2:
  "(\<And>x y. f x = Some y \<Longrightarrow> P x \<and> R x y) \<Longrightarrow> (\<And>x. f x = None \<Longrightarrow> \<not> P x) \<Longrightarrow>
     list_all2 R (filter P xs) (List.map_filter f xs)"
proof (induction xs)
  case Nil
  then show ?case by (simp add: map_filter_simps)
next
  case (Cons x xs)
  then show ?case by (cases "f x") (auto simp: map_filter_simps)
qed

lemma first_text_ne: "first_text r ns \<noteq> [] \<longleftrightarrow> (\<exists>n \<in> set ns. \<exists>v. dict_get r n = Some (JStr v) \<and> py_strip v \<noteq> [])"
  by (induction ns) (auto split: option.splits json.splits)

lemma first_text_some:
  "first_text r ns \<noteq> [] \<Longrightarrow> \<exists>n \<in> set ns. \<exists>v. dict_get r n = Some (JStr v) \<and> first_text r ns = py_strip v"
  by (induction ns) (auto split: option.splits json.splits if_splits)

lemma leftovers_keep:
  "dict_get r k = Some v \<Longrightarrow> k \<notin> set consumed \<Longrightarrow> \<not> empty_value v \<Longrightarrow> dict_get (leftovers r consumed) k = Some v"
  by (induction r) (auto simp: dict_get_def leftovers_def split: if_splits)

lemma stamp_keeps:
  assumes "dict_get r k = Some v" "k \<notin> set consumed" "\<not> empty_value v" "src \<noteq> ''imported_from''"
  shows "dict_get (import_stamp src r consumed @ rest) src = Some (JObj (leftovers r consumed))"
    and "dict_get (leftovers r consumed) k = Some v"
proof -
  show l: "dict_get (leftovers r consumed) k = Some v" by (rule leftovers_keep) fact+
  then have "leftovers r consumed \<noteq> []" by (auto simp: dict_get_def)
  then show "dict_get (import_stamp src r consumed @ rest) src = Some (JObj (leftovers r consumed))"
    using assms(4) by (simp add: import_stamp_def dict_get_def)
qed

text \<open>What a reader of the file expects: which records a source lists, which fields hold the text, which are placed.\<close>

definition export_records :: "string \<Rightarrow> json \<Rightarrow> row list" where
  "export_records src doc =
     (if src = ''letta'' then letta_blocks doc @ letta_passages doc
      else case find_records doc (if src = ''mem0'' then mem0_keys else if src = ''zep'' then zep_keys else json_keys) of
        Inl _ \<Rightarrow> [] | Inr rs \<Rightarrow> rs)"

definition text_names :: "string \<Rightarrow> string set" where
  "text_names src =
     (if src = ''mem0'' then {''memory'', ''text'', ''content'', ''data''}
      else if src = ''zep'' then {''fact'', ''content'', ''summary'', ''name''}
      else if src = ''letta'' then {''value'', ''text'', ''content''}
      else {''body'', ''text'', ''content'', ''memory'', ''value''})"

definition placed_names :: "string \<Rightarrow> string set" where
  "placed_names src =
     (if src = ''mem0'' then {''memory'', ''text'', ''content'', ''data'', ''id'', ''memory_id''}
      else if src = ''zep'' then {''fact'', ''content'', ''summary'', ''uuid'', ''uuid_'', ''id''}
      else if src = ''letta'' then {''value'', ''text'', ''content'', ''id'', ''block_id''}
      else {''body'', ''text'', ''content'', ''memory'', ''value'', ''title'', ''name'', ''kind'', ''id''})"

definition importable :: "string \<Rightarrow> row \<Rightarrow> bool" where
  "importable src r \<longleftrightarrow> (\<exists>n \<in> text_names src. \<exists>v. dict_get r n = Some (JStr v) \<and> py_strip v \<noteq> []) \<and>
     \<not> (src = ''zep'' \<and> (has_truthy r ''invalid_at'' \<or> has_truthy r ''expired_at''))"

definition kept_as :: "string \<Rightarrow> row \<Rightarrow> source_memory \<Rightarrow> bool" where
  "kept_as src r m \<longleftrightarrow> (\<exists>n \<in> text_names src. \<exists>v. dict_get r n = Some (JStr v) \<and> sm_body m = py_strip v) \<and>
     dict_get (sm_metadata m) ''imported_from'' = Some (JStr src) \<and>
     (\<forall>k v. dict_get r k = Some v \<and> k \<notin> placed_names src \<and> \<not> empty_value v \<longrightarrow>
        (\<exists>extra. dict_get (sm_metadata m) src = Some (JObj extra) \<and> dict_get extra k = Some v))"

lemma kept_asI:
  assumes "sm_body m = first_text r ns" "first_text r ns \<noteq> []" "set ns = text_names src"
    and "sm_metadata m = import_stamp src r consumed @ rest" "set consumed \<subseteq> placed_names src" "src \<noteq> ''imported_from''"
  shows "kept_as src r m"
  unfolding kept_as_def
proof (intro conjI allI impI)
  show "\<exists>n \<in> text_names src. \<exists>v. dict_get r n = Some (JStr v) \<and> sm_body m = py_strip v"
    using first_text_some [OF assms(2)] assms(1,3) by auto
  show "dict_get (sm_metadata m) ''imported_from'' = Some (JStr src)"
    by (simp add: assms(4) import_stamp_def dict_get_def)
  fix k v assume "dict_get r k = Some v \<and> k \<notin> placed_names src \<and> \<not> empty_value v"
  then show "\<exists>extra. dict_get (sm_metadata m) src = Some (JObj extra) \<and> dict_get extra k = Some v"
    using stamp_keeps(1) [of r k v consumed src rest] stamp_keeps(2) [of r k v consumed src] assms(4-6) by auto
qed

lemma importable_iff:
  "set ns = text_names src \<Longrightarrow> importable src r \<longleftrightarrow>
     first_text r ns \<noteq> [] \<and> \<not> (src = ''zep'' \<and> (has_truthy r ''invalid_at'' \<or> has_truthy r ''expired_at''))"
  by (simp add: importable_def first_text_ne)

declare first_text.simps [simp del]

lemma parser_keeps:
  assumes "set ns = text_names src" and "set consumed \<subseteq> placed_names src" and "src \<noteq> ''imported_from''"
    and "\<And>r. f r = None \<longleftrightarrow> \<not> (first_text r ns \<noteq> [] \<and>
      \<not> (src = ''zep'' \<and> (has_truthy r ''invalid_at'' \<or> has_truthy r ''expired_at'')))"
    and "\<And>r m. f r = Some m \<Longrightarrow> first_text r ns \<noteq> [] \<and> sm_body m = first_text r ns \<and>
      (\<exists>rest. sm_metadata m = import_stamp src r consumed @ rest)"
  shows "list_all2 (kept_as src) (filter (importable src) rs) (List.map_filter f rs)"
proof (rule map_filter_list_all2)
  fix r m
  show "\<not> importable src r" if "f r = None" using that assms(4) importable_iff [OF assms(1)] by blast
  assume m: "f r = Some m"
  from assms(5) [OF m] obtain rest where b: "first_text r ns \<noteq> []" "sm_body m = first_text r ns"
      "sm_metadata m = import_stamp src r consumed @ rest" by blast
  have "importable src r" using assms(4) [of r] m importable_iff [OF assms(1)] by auto
  then show "importable src r \<and> kept_as src r m"
    using kept_asI [OF b(2,1) assms(1) b(3) assms(2,3)] by blast
qed

lemma records_kept:
  "list_all2 (kept_as ''mem0'') (filter (importable ''mem0'') rs) (List.map_filter mem0_record rs)"
  "list_all2 (kept_as ''zep'') (filter (importable ''zep'') rs) (List.map_filter zep_record rs)"
  "list_all2 (kept_as ''letta'') (filter (importable ''letta'') rs) (List.map_filter block_record rs)"
  "list_all2 (kept_as ''letta'') (filter (importable ''letta'') rs) (List.map_filter passage_record rs)"
  "list_all2 (kept_as ''json'') (filter (importable ''json'') rs) (List.map_filter json_record rs)"
proof -
  show "list_all2 (kept_as ''mem0'') (filter (importable ''mem0'') rs) (List.map_filter mem0_record rs)"
    by (rule parser_keeps [where ns = "[''memory'', ''text'', ''content'', ''data'']"
          and consumed = "[''memory'', ''text'', ''content'', ''data'', ''id'', ''memory_id'']"])
      (auto simp: text_names_def placed_names_def mem0_record_def Let_def split: if_splits)
  show "list_all2 (kept_as ''zep'') (filter (importable ''zep'') rs) (List.map_filter zep_record rs)"
    by (rule parser_keeps [where ns = "[''fact'', ''content'', ''summary'', ''name'']"
          and consumed = "[''fact'', ''content'', ''summary'', ''uuid'', ''uuid_'', ''id'']"])
      (auto simp: text_names_def placed_names_def zep_record_def Let_def split: if_splits)
  show "list_all2 (kept_as ''letta'') (filter (importable ''letta'') rs) (List.map_filter block_record rs)"
    by (rule parser_keeps [where ns = "[''value'', ''text'', ''content'']"
          and consumed = "[''value'', ''text'', ''content'', ''id'', ''block_id'']"])
      (auto simp: text_names_def placed_names_def block_record_def Let_def split: if_splits)
  show "list_all2 (kept_as ''letta'') (filter (importable ''letta'') rs) (List.map_filter passage_record rs)"
    by (rule parser_keeps [where ns = "[''text'', ''content'', ''value'']" and consumed = "[''text'', ''content'', ''value'', ''id'']"])
      (auto simp: text_names_def placed_names_def passage_record_def Let_def split: if_splits)
  show "list_all2 (kept_as ''json'') (filter (importable ''json'') rs) (List.map_filter json_record rs)"
    by (rule parser_keeps [where ns = "[''body'', ''text'', ''content'', ''memory'', ''value'']"
          and consumed = "[''body'', ''text'', ''content'', ''memory'', ''value'', ''title'', ''name'', ''kind'', ''id'']"])
      (auto simp: text_names_def placed_names_def json_record_def Let_def split: if_splits)
qed

text \<open>The decoded document of a file: the whole of it, or the list of its lines.\<close>

definition document_of :: "loads \<Rightarrow> string \<Rightarrow> json result" where
  "document_of loads raw =
     (case loads raw of Inr doc \<Rightarrow> Inr doc | Inl _ \<Rightarrow> rbind (load_jsonl loads raw) (\<lambda>rows. Inr (JList rows)))"

lemma parse_file_parser:
  assumes "parse_file loads src raw = Inr out"
  shows "\<exists>doc parse. document_of loads raw = Inr doc \<and> (src, parse) \<in> set parsers \<and> parse doc = Inr out"
proof -
  obtain parse where p: "map_of parsers src = Some parse"
    using assms by (auto simp: parse_file_def dict_get_def split: option.splits)
  show ?thesis
  proof (cases "loads raw")
    case (Inl e)
    obtain rows where "load_jsonl loads raw = Inr rows" "parse (JList rows) = Inr out"
      using assms p Inl by (auto simp: parse_file_def dict_get_def rbind_Inr)
    then show ?thesis using map_of_SomeD [OF p] Inl by (auto simp: document_of_def)
  next
    case (Inr doc)
    then show ?thesis using assms map_of_SomeD [OF p] p by (auto simp: parse_file_def dict_get_def document_of_def)
  qed
qed

lemma parse_keeps:
  assumes "(src, parse) \<in> set parsers" and "parse doc = Inr out"
  shows "list_all2 (kept_as src) (filter (importable src) (export_records src doc)) out"
proof -
  have letta: "list_all2 (kept_as ''letta'') (filter (importable ''letta'') (letta_blocks doc @ letta_passages doc))
      (List.map_filter block_record (letta_blocks doc) @ List.map_filter passage_record (letta_passages doc))"
    by (simp add: list_all2_appendI records_kept)
  consider "src = ''mem0''" "parse = parse_mem0" | "src = ''zep''" "parse = parse_zep" | "src = ''letta''" "parse = parse_letta"
    | "src = ''json''" "parse = parse_json"
    using assms(1) by (auto simp: parsers_def)
  then show ?thesis
    using assms(2) records_kept letta
    by cases (auto simp: export_records_def parse_mem0_def parse_zep_def parse_letta_def parse_json_def rbind_Inr Let_def
        split: if_splits sum.splits)
qed


section \<open>Shape of what is read\<close>

lemma strip_split: "\<exists>ys. dropWhile py_isspace s = py_strip s @ ys \<and> (\<forall>y \<in> set ys. py_isspace y)"
proof -
  let ?t = "dropWhile py_isspace s"
  have "?t = rev (dropWhile py_isspace (rev ?t)) @ rev (takeWhile py_isspace (rev ?t))"
    by (metis rev_append rev_rev_ident takeWhile_dropWhile_id)
  then show ?thesis
    by (intro exI [of _ "rev (takeWhile py_isspace (rev ?t))"]) (auto simp: py_strip_def rstrip_by_def lstrip_by_def dest: set_takeWhileD)
qed

lemma strip_ends:
  assumes "py_strip s \<noteq> []"
  shows "\<not> py_isspace (hd (py_strip s))" and "\<not> py_isspace (last (py_strip s))"
proof -
  obtain ys where ys: "dropWhile py_isspace s = py_strip s @ ys" using strip_split by blast
  then have "\<not> py_isspace (hd (dropWhile py_isspace s))" by (intro hd_dropWhile) (use assms in auto)
  then show "\<not> py_isspace (hd (py_strip s))" using ys assms by simp
  have "dropWhile py_isspace (rev (dropWhile py_isspace s)) \<noteq> []"
    using assms by (auto simp: py_strip_def rstrip_by_def lstrip_by_def)
  from hd_dropWhile [OF this] show "\<not> py_isspace (last (py_strip s))"
    by (simp add: py_strip_def rstrip_by_def lstrip_by_def last_rev)
qed

lemma strip_same: "s \<noteq> [] \<Longrightarrow> \<not> py_isspace (hd s) \<Longrightarrow> \<not> py_isspace (last s) \<Longrightarrow> py_strip s = s"
  by (simp add: py_strip_def rstrip_by_def lstrip_by_def dropWhile_eq_self_iff [THEN iffD2] hd_rev)

lemma strip_Nil [simp]: "py_strip [] = []"
  by code_simp

lemma strip_strip [simp]: "py_strip (py_strip s) = py_strip s"
proof (cases "py_strip s = []")
  case True
  then show ?thesis by simp
next
  case False
  then show ?thesis by (intro strip_same strip_ends)
qed

lemma strip_ne: "c \<in> set s \<Longrightarrow> \<not> py_isspace c \<Longrightarrow> py_strip s \<noteq> []"
proof
  assume c: "c \<in> set s" "\<not> py_isspace c" and "py_strip s = []"
  then have "\<forall>y \<in> set (dropWhile py_isspace s). py_isspace y" using strip_split [of s] by auto
  then have "\<forall>y \<in> set s. py_isspace y" by (metis hd_dropWhile hd_in_set dropWhile_eq_Nil_conv)
  then show False using c by blast
qed

lemma newline_is_space: "py_isspace newline"
  by code_simp

lemma hd_split_max: "hd (split_max (Suc 0) c s) = takeWhile (\<lambda>x. x \<noteq> c) s"
  by (simp add: Let_def split: list.split)

declare split_max.simps [simp del]

lemma title_from_ne: "py_strip s \<noteq> [] \<Longrightarrow> title_from s \<noteq> []"
proof -
  assume s: "py_strip s \<noteq> []"
  then obtain c t where c: "py_strip s = c # t" by (cases "py_strip s") auto
  have sp: "\<not> py_isspace c" using strip_ends(1) [OF s] c by simp
  then have "c \<noteq> newline" using newline_is_space by metis
  then have "c \<in> set (hd (split_max (Suc 0) newline (py_strip s)))" by (simp add: hd_split_max c)
  from strip_ne [OF this sp] show ?thesis by (simp add: title_from_def Let_def)
qed

lemma length_before_space: "length (before_last_space s) \<le> length s"
  using length_dropWhile_le [of "\<lambda>c. c \<noteq> CHR '' ''" "rev s"]
  by (cases "CHR '' '' \<in> set s") (simp_all add: before_last_space_def)

lemma length_title_from: "length (title_from s) \<le> max_title"
  using length_before_space [of "take (max_title - 1) x" for x]
  by (auto simp: title_from_def Let_def max_title_def intro: order.trans le_SucI)

lemma first_text_stripped: "py_strip (first_text r ns) = first_text r ns"
proof (cases "first_text r ns = []")
  case False
  then obtain v where "first_text r ns = py_strip v" using first_text_some by blast
  then show ?thesis by simp
qed simp

lemma list_all_map_filter: "(\<And>x y. x \<in> set xs \<Longrightarrow> f x = Some y \<Longrightarrow> P y) \<Longrightarrow> list_all P (List.map_filter f xs)"
  by (auto simp: list_all_iff List.map_filter_def)

definition well_read :: "string \<Rightarrow> source_memory \<Rightarrow> bool" where
  "well_read src m \<longleftrightarrow> sm_body m \<noteq> [] \<and> py_strip (sm_body m) = sm_body m \<and> sm_title m \<noteq> [] \<and> sm_kind m \<noteq> [] \<and>
     dict_get (sm_metadata m) ''imported_from'' = Some (JStr src)"

lemma text_or_ne: "b \<noteq> [] \<Longrightarrow> text_or a b \<noteq> []"
  by (simp add: text_or_def)

lemma stamp_source: "dict_get (import_stamp src r consumed @ rest) ''imported_from'' = Some (JStr src)"
  by (simp add: import_stamp_def dict_get_def)

lemma title_of_text: "first_text r ns \<noteq> [] \<Longrightarrow> title_from (first_text r ns) \<noteq> []"
  by (rule title_from_ne) (simp add: first_text_stripped)

lemma block_kind_ne: "block_kind l \<noteq> []"
  by (simp add: block_kind_def)

lemmas well_read_facts = well_read_def text_or_ne title_of_text first_text_stripped block_kind_ne
  stamp_source stamp_source [where rest = "[]", simplified]

lemma records_well_read:
  "mem0_record r = Some m \<Longrightarrow> well_read ''mem0'' m"
  "zep_record r = Some m \<Longrightarrow> well_read ''zep'' m"
  "block_record r = Some m \<Longrightarrow> well_read ''letta'' m"
  "passage_record r = Some m \<Longrightarrow> well_read ''letta'' m"
  "json_record r = Some m \<Longrightarrow> well_read ''json'' m"
  by (auto simp: mem0_record_def zep_record_def block_record_def passage_record_def json_record_def Let_def well_read_facts
      split: if_splits)

lemma lists_well_read:
  "list_all (well_read ''mem0'') (List.map_filter mem0_record rs)"
  "list_all (well_read ''zep'') (List.map_filter zep_record rs)"
  "list_all (well_read ''letta'') (List.map_filter block_record rs)"
  "list_all (well_read ''letta'') (List.map_filter passage_record rs)"
  "list_all (well_read ''json'') (List.map_filter json_record rs)"
  by (rule list_all_map_filter, erule records_well_read)+

lemma find_records_error: "find_records doc keys = Inl e \<Longrightarrow> \<exists>msg. e = UnreadableExportError msg"
  by (auto simp: find_records_def split: json.splits option.splits)

lemma load_lines_error: "load_lines loads n ls = Inl e \<Longrightarrow> \<exists>msg. e = UnreadableExportError msg"
  by (induction ls arbitrary: n) (auto simp: rbind_def split: if_splits sum.splits)

lemma load_jsonl_error: "load_jsonl loads raw = Inl e \<Longrightarrow> \<exists>msg. e = UnreadableExportError msg"
  by (auto simp: load_jsonl_def rbind_def load_lines_error split: sum.splits if_splits)

lemma parser_error: "(src, parse) \<in> set parsers \<Longrightarrow> parse doc = Inl e \<Longrightarrow> \<exists>msg. e = UnreadableExportError msg"
  by (auto simp: parsers_def parse_mem0_def parse_zep_def parse_letta_def parse_json_def rbind_def Let_def
      dest: find_records_error split: sum.splits if_splits)

lemma parser_well_read: "(src, parse) \<in> set parsers \<Longrightarrow> parse doc = Inr out \<Longrightarrow> list_all (well_read src) out"
  by (auto simp: parsers_def parse_mem0_def parse_zep_def parse_letta_def parse_json_def rbind_Inr Let_def
      lists_well_read split: if_splits)


section \<open>Importing twice\<close>

lemma write_memories:
  assumes "service_write env p payload ei force sv d = Inr (w, sv1, d1)"
  shows "mw_deduped w \<and> (\<exists>i now meta. memories d1 = map (\<lambda>r. if m_id r = i then folded now meta r else r) (memories d)) \<or>
    \<not> mw_deduped w \<and> memories d1 = memories d @ [mw_memory w]"
proof (cases "write_target env p payload force d")
  case (Some m)
  have "mw_deduped w" "d1 = update_where (\<lambda>r. m_id r = m_id m) (folded (e_now env) (cm_metadata payload)) d"
    using assms write_dedup [OF _ _ Some, of ei sv] write_guards [OF assms] by (auto simp: record_duplicate_eq)
  then show ?thesis by (auto simp: update_where_def)
next
  case None
  obtain mode cfg sv2 where pc: "project_config p payload sv d = ((mode, cfg), sv2)" by (metis prod.collapse)
  from write_insert [OF _ _ None pc, of ei] write_guards [OF assms] assms
  have ins: "insert_memory env p payload ei (govern (e_settings env) payload)
       (review_of (e_settings env) mode payload (govern (e_settings env) payload)) cfg
       (if dedup_on_write (e_settings env) then Some (governed_hash env payload) else None) sv2 d = Inr (w, sv1, d1)" by simp
  from insert_memory_eq [OF this] show ?thesis by (auto simp: memory_create_row)
qed

lemma found_iff:
  "find_by_content_hash st sid h p ms \<noteq> None \<longleftrightarrow>
     (\<exists>m \<in> set (tenant_query p ms). live m \<and> m_scope_type m = st \<and> m_scope_id m = sid \<and> m_content_hash m = Some h)"
  by (auto simp: find_by_content_hash_def first_row_None filter_empty_conv simp flip: set_empty)

lemma found_persists:
  assumes "service_write env p payload ei force sv d = Inr (w, sv1, d1)"
    and "find_by_content_hash st sid h p (memories d) \<noteq> None"
  shows "find_by_content_hash st sid h p (memories d1) \<noteq> None"
  using write_memories [OF assms(1)] assms(2) unfolding found_iff
proof (elim disjE conjE exE bexE)
  fix m i now meta
  assume m: "m \<in> set (tenant_query p (memories d))" "live m" "m_scope_type m = st" "m_scope_id m = sid" "m_content_hash m = Some h"
    and map: "memories d1 = map (\<lambda>r. if m_id r = i then folded now meta r else r) (memories d)"
  let ?m = "if m_id m = i then folded now meta m else m"
  have same: "m_org_id ?m = m_org_id m" "live ?m = live m" "m_scope_type ?m = m_scope_type m" "m_scope_id ?m = m_scope_id m"
    "m_content_hash ?m = m_content_hash m"
    by (simp_all add: folded_def)
  have "m \<in> set (memories d)" using m(1) by (auto simp: tenant_rows_def split: if_splits)
  then have "?m \<in> set (memories d1)" unfolding map by simp
  then have "?m \<in> set (tenant_query p (memories d1))" using m(1) same(1) by (simp add: tenant_rows_def split: if_splits)
  moreover have "live ?m \<and> m_scope_type ?m = st \<and> m_scope_id ?m = sid \<and> m_content_hash ?m = Some h"
    using m(2-5) by (simp only: same)
  ultimately show "\<exists>m \<in> set (tenant_query p (memories d1)). live m \<and> m_scope_type m = st \<and> m_scope_id m = sid \<and> m_content_hash m = Some h"
    by blast
qed (auto simp: tenant_rows_def split: if_splits)

lemma target_persists:
  assumes "service_write env p payload ei force sv d = Inr (w, sv1, d1)" and "write_target env2 p payload2 False d \<noteq> None"
  shows "write_target env2 p payload2 False d1 \<noteq> None"
  using found_persists [OF assms(1)] assms(2) by (simp add: write_target_def split: if_splits)

lemma post_cases:
  assumes "memory_post envs p r (k, d) = (reply, (k', d'))"
  shows "k' = Suc k" and "(\<exists>n. reply = Inl n) \<and> d' = d \<or>
    (\<exists>payload w sv. memory_in r = Some payload \<and> service_write (envs k) p payload False False fresh_cache d = Inr (w, sv, d') \<and>
       reply = Inr (memory_out w))"
  using assms by (auto simp: memory_post_def split: option.splits sum.splits)

lemma reply_memory_out [simp]: "reply_deduped (memory_out w) = mw_deduped w"
  by (simp add: reply_deduped_def memory_out_def has_truthy_def dict_get_def)

definition stored :: "(nat \<Rightarrow> service_env) \<Rightarrow> principal \<Rightarrow> db \<Rightarrow> row \<Rightarrow> bool" where
  "stored envs p d r \<longleftrightarrow> (\<exists>payload. memory_in r = Some payload \<and> has_key_scope p ''write:memory'' \<and>
     can_write p (payload_resource payload) \<and> (\<forall>k. write_target (envs k) p payload False d \<noteq> None))"

definition same_fingerprints :: "(nat \<Rightarrow> service_env) \<Rightarrow> bool" where
  "same_fingerprints envs \<longleftrightarrow> (\<forall>k. dedup_on_write (e_settings (envs k)) \<and> e_settings (envs k) = e_settings (envs 0) \<and>
     e_sha256 (envs k) = e_sha256 (envs 0) \<and> e_nfkc (envs k) = e_nfkc (envs 0))"

lemma same_target: "same_fingerprints envs \<Longrightarrow> write_target (envs k) p payload False d = write_target (envs 0) p payload False d"
  unfolding same_fingerprints_def write_target_def governed_hash_def by metis

lemma post_stores:
  assumes "same_fingerprints envs" and "memory_post envs p r (k, d) = (Inr v, (k', d'))"
  shows "stored envs p d' r"
proof -
  obtain payload w sv where r: "memory_in r = Some payload"
      "service_write (envs k) p payload False False fresh_cache d = Inr (w, sv, d')"
    using post_cases(2) [OF assms(2)] by blast
  have "dedup_on_write (e_settings (envs k))" using assms(1) unfolding same_fingerprints_def by blast
  then have "write_target (envs k) p payload False d' = Some (mw_memory w)" by (rule write_then_found [OF r(2)])
  then have "write_target (envs j) p payload False d' \<noteq> None" for j
    using same_target [OF assms(1)] by (metis option.distinct(1))
  then show ?thesis using r(1) write_guards [OF r(2)] by (auto simp: stored_def)
qed

lemma post_keeps_stored:
  assumes "memory_post envs p r (k, d) = (reply, (k', d'))" and "stored envs p d r'"
  shows "stored envs p d' r'"
proof (cases "d' = d")
  case False
  obtain payload w sv where r: "service_write (envs k) p payload False False fresh_cache d = Inr (w, sv, d')"
    using post_cases(2) [OF assms(1)] False by blast
  show ?thesis
    using assms(2) target_persists [OF r] unfolding stored_def by blast
qed (use assms in simp)

lemma import_write_counts:
  "import_write (memory_post envs p) st sid sens ms (k, d) = ((w, dd, f), (k1, d1)) \<Longrightarrow>
     w + dd + f = length ms \<and> length (memories d1) = length (memories d) + w"
proof (induction ms arbitrary: k d w dd f k1 d1)
  case Nil
  then show ?case by simp
next
  case (Cons m ms)
  obtain reply k2 d2 where p: "memory_post envs p (import_payload st sid sens m) (k, d) = (reply, (k2, d2))"
    by (metis prod.collapse)
  obtain w' dd' f' where r: "import_write (memory_post envs p) st sid sens ms (k2, d2) = ((w', dd', f'), (k1, d1))"
    using Cons.prems p by (auto simp: Let_def split: prod.splits)
  have ih: "w' + dd' + f' = length ms" "length (memories d1) = length (memories d2) + w'" using Cons.IH [OF r] by simp_all
  from post_cases(2) [OF p] show ?case
  proof (elim disjE conjE exE)
    fix n assume "reply = Inl n" "d2 = d"
    then show ?thesis using Cons.prems p r ih by auto
  next
    fix payload x sv
    assume "service_write (envs k) p payload False False fresh_cache d = Inr (x, sv, d2)" "reply = Inr (memory_out x)"
    then show ?thesis using Cons.prems p r ih by (auto split: if_splits dest: write_memories)
  qed
qed

lemma import_write_keeps_stored:
  "import_write (memory_post envs p) st sid sens ms (k, d) = (c, (k1, d1)) \<Longrightarrow> stored envs p d r \<Longrightarrow> stored envs p d1 r"
proof (induction ms arbitrary: k d c)
  case Nil
  then show ?case by simp
next
  case (Cons m ms)
  obtain reply k2 d2 where p: "memory_post envs p (import_payload st sid sens m) (k, d) = (reply, (k2, d2))"
    by (metis prod.collapse)
  obtain c' where "import_write (memory_post envs p) st sid sens ms (k2, d2) = (c', (k1, d1))"
    using Cons.prems(1) p by (auto simp: Let_def split: prod.splits)
  then show ?case using Cons.IH post_keeps_stored [OF p Cons.prems(2)] by blast
qed

lemma import_write_stores:
  assumes "same_fingerprints envs"
  shows "import_write (memory_post envs p) st sid sens ms (k, d) = ((w, dd, 0), (k1, d1)) \<Longrightarrow>
    list_all (\<lambda>m. stored envs p d1 (import_payload st sid sens m)) ms"
proof (induction ms arbitrary: k d w dd)
  case Nil
  then show ?case by simp
next
  case (Cons m ms)
  obtain reply k2 d2 where p: "memory_post envs p (import_payload st sid sens m) (k, d) = (reply, (k2, d2))"
    by (metis prod.collapse)
  obtain w' dd' f' where r: "import_write (memory_post envs p) st sid sens ms (k2, d2) = ((w', dd', f'), (k1, d1))"
    using Cons.prems p by (auto simp: Let_def split: prod.splits)
  have "f' = 0 \<and> (\<exists>v. reply = Inr v)" using Cons.prems p r by (cases reply) (auto split: if_splits)
  then obtain v where v: "reply = Inr v" "f' = 0" by blast
  have "stored envs p d1 (import_payload st sid sens m)"
    using import_write_keeps_stored [OF r] post_stores [OF assms] p v by blast
  then show ?case using Cons.IH r v by auto
qed

text \<open>What a second write leaves as it was.\<close>

definition shelf :: "db \<Rightarrow> (int \<times> string \<times> string \<times> string) list" where
  "shelf d = map (\<lambda>m. (m_id m, m_public_id m, m_title m, m_body m)) (memories d)"

lemma shelf_map: "memories d1 = map (\<lambda>r. if m_id r = i then folded now meta r else r) (memories d) \<Longrightarrow> shelf d1 = shelf d"
  by (auto simp: shelf_def folded_def)

lemma post_again:
  assumes "stored envs p d r"
  shows "\<exists>w d'. memory_post envs p r (k, d) = (Inr (memory_out w), (Suc k, d')) \<and> mw_deduped w \<and> shelf d' = shelf d"
proof -
  obtain payload m where r: "memory_in r = Some payload" "has_key_scope p ''write:memory''" "can_write p (payload_resource payload)"
      "write_target (envs k) p payload False d = Some m"
    using assms unfolding stored_def by blast
  from write_dedup [OF r(2-4), of False fresh_cache]
  obtain w sv d' where w: "service_write (envs k) p payload False False fresh_cache d = Inr (w, sv, d')" "mw_deduped w"
    by (auto simp: record_duplicate_eq)
  moreover have "shelf d' = shelf d" using write_memories [OF w(1)] w(2) shelf_map by blast
  ultimately show ?thesis using r(1) by (auto simp: memory_post_def)
qed

lemma import_write_again:
  assumes "list_all (\<lambda>m. stored envs p d (import_payload st sid sens m)) ms"
  shows "\<exists>k2 d2. import_write (memory_post envs p) st sid sens ms (k, d) = ((0, length ms, 0), (k2, d2)) \<and> shelf d2 = shelf d"
  using assms
proof (induction ms arbitrary: k d)
  case Nil
  then show ?case by simp
next
  case (Cons m ms)
  obtain w d' where p: "memory_post envs p (import_payload st sid sens m) (k, d) = (Inr (memory_out w), (Suc k, d'))"
      "mw_deduped w" "shelf d' = shelf d"
    using post_again [of envs p d "import_payload st sid sens m" k] Cons.prems by auto
  have "list_all (\<lambda>m. stored envs p d' (import_payload st sid sens m)) ms"
    using Cons.prems post_keeps_stored [OF p(1)] by (auto simp: list_all_iff)
  from Cons.IH [OF this, of "Suc k"] show ?case using p by auto
qed

text \<open>
  C28.  An import may be repeated.  A run of the command that sends its records accounts for each of them as created, folded or
  refused, and adds exactly the created ones to the table.  If none was refused and the server deduplicates, running the command
  again on the database it left refuses nothing, creates nothing and leaves identifier, title and body of every memory as they were.
\<close>

theorem import_repeatable:
  assumes "import_command loads (memory_post envs p) path file src st sid sens False limit (k, d) = (IMPORTED n w dd f, (k1, d1))"
  shows "n = w + dd + f \<and> length (memories d1) = length (memories d) + w \<and>
    (f = 0 \<and> same_fingerprints envs \<longrightarrow>
      (\<exists>k2 d2. import_command loads (memory_post envs p) path file src st sid sens False limit (k1, d1) =
           (IMPORTED n 0 n 0, (k2, d2)) \<and>
         map (\<lambda>m. (m_id m, m_public_id m, m_title m, m_body m)) (memories d2) =
         map (\<lambda>m. (m_id m, m_public_id m, m_title m, m_body m)) (memories d1)))"
proof -
  obtain raw all where raw: "file = CONTENT raw" "parse_file loads src raw = Inr all"
    using assms by (auto simp: import_command_def split: file_read.splits sum.splits py_error.splits)
  let ?ms = "import_limit limit all"
  have run: "import_write (memory_post envs p) st sid sens ?ms (k, d) = ((w, dd, f), (k1, d1))" "?ms \<noteq> []" "n = length ?ms"
    using assms raw by (auto simp: import_command_def Let_def split: if_splits prod.splits)
  have again: "\<exists>k2 d2. import_write (memory_post envs p) st sid sens ?ms (k1, d1) = ((0, n, 0), (k2, d2)) \<and> shelf d2 = shelf d1"
    if "f = 0" "same_fingerprints envs"
    using import_write_again import_write_stores [OF that(2)] run that(1) by metis
  show ?thesis
    using import_write_counts [OF run(1)] run again raw
    by (auto simp: import_command_def Let_def shelf_def)
qed

section \<open>Runs\<close>

definition demo_record :: "string \<Rightarrow> json \<Rightarrow> row" where
  "demo_record body i = [(''memory'', JStr body), (''id'', i), (''score'', JInt 0), (''user'', JStr ''ada''), (''tags'', JList [])]"

text \<open>A decoder that knows three texts: a list of records, and the two lines of a file that has one record per line.\<close>

definition demo_loads :: loads where
  "demo_loads s =
     (if s = ''[]'' then Inr (JList [JObj (demo_record ''likes tea '' (JStr ''m1'')), JNull, JObj (demo_record ''lives in Rome'' (JInt 42))])
      else if s = ''1'' then Inr (JObj (demo_record ''likes tea'' (JStr ''m1'')))
      else if s = ''2'' then Inr (JObj (demo_record ''lives in Rome'' (JInt 42)))
      else Inl ''Expecting value'')"

definition demo_raw :: string where
  "demo_raw = ''1'' @ [newline, newline] @ ''2'' @ [newline]"


definition demo_server :: "nat \<Rightarrow> service_env" where
  "demo_server k = lean_env (100 + int k) (''m'' @ show_nat k)"

definition demo_import :: "server \<Rightarrow> import_outcome \<times> server" where
  "demo_import = import_command demo_loads (memory_post demo_server (member_of 1)) ''m.json'' (CONTENT ''[]'') ''mem0''
     ''project'' 5 ''internal'' False 0"

lemma import_repeatable_witness:
  "\<exists>k1 d1 k2 d2. demo_import (0, empty_db) = (IMPORTED 2 2 0 0, (k1, d1)) \<and> length (memories d1) = 2 \<and>
     demo_import (k1, d1) = (IMPORTED 2 0 2 0, (k2, d2)) \<and> length (memories d2) = 2"
proof -
  have "fst (demo_import (0, empty_db)) = IMPORTED 2 2 0 0" by code_simp
  then obtain k1 d1 where one: "demo_import (0, empty_db) = (IMPORTED 2 2 0 0, (k1, d1))" by (metis prod.collapse)
  have env: "same_fingerprints demo_server"
    by (simp add: same_fingerprints_def demo_server_def lean_env_def default_settings_def)
  have "memories empty_db = []" by code_simp
  with import_repeatable [OF one [unfolded demo_import_def]] env have d1: "length (memories d1) = 2"
    and "\<exists>k2 d2. demo_import (k1, d1) = (IMPORTED 2 0 2 0, (k2, d2)) \<and>
       map (\<lambda>m. (m_id m, m_public_id m, m_title m, m_body m)) (memories d2) =
       map (\<lambda>m. (m_id m, m_public_id m, m_title m, m_body m)) (memories d1)"
    by (simp_all add: demo_import_def)
  then obtain k2 d2 where two: "demo_import (k1, d1) = (IMPORTED 2 0 2 0, (k2, d2))"
      "map (\<lambda>m. (m_id m, m_public_id m, m_title m, m_body m)) (memories d2) =
       map (\<lambda>m. (m_id m, m_public_id m, m_title m, m_body m)) (memories d1)" by blast
  have "length (memories d2) = 2" using arg_cong [OF two(2), of length] d1 by simp
  then show ?thesis using one d1 two(1) by blast
qed

section \<open>Where the code departs from its intent\<close>

text \<open>
  An identifier that is a number reaches neither the source id nor the metadata, and so does the second of two aliases of
  the text.
\<close>

lemma consumed_fields_lost:
  "map_option (\<lambda>m. (sm_source_id m, sm_metadata m)) (mem0_record [(''memory'', JStr ''a''), (''text'', JStr ''b''), (''id'', JInt 42)]) =
     Some ([], [(''imported_from'', JStr ''mem0'')])"
  by code_simp

text \<open>A file of one record per line is refused when it has one line, which decodes as a document.\<close>

lemma one_line_rejected:
  "(case parse_file demo_loads ''mem0'' ''1'' of Inl _ \<Rightarrow> True | Inr _ \<Rightarrow> False)"
  "(case parse_file demo_loads ''mem0'' demo_raw of Inl _ \<Rightarrow> False | Inr out \<Rightarrow> length out = 2)"
  by code_simp+

text \<open>The hint that a core memory block is pinned stays in its metadata: no request of the importer asks to pin.\<close>

lemma blocks_not_pinned: "memory_in (import_payload st sid sens m) = Some payload \<Longrightarrow> \<not> cm_pinned payload"
  by (auto simp: memory_in_def blank_input_def Option.bind_eq_Some_conv split: if_splits)

end
