(* ===== verification/Export.thy ===== *)
theory Export
  imports Attachments Importers
begin

text \<open>
  Export and import of a scope (\<^verbatim>\<open>services/export_service.py\<close> and \<^verbatim>\<open>kortex_api/routers/export.py\<close>).  An
  archive is the list of its members, a name and a body each, in order; bytes are characters.

  Parameters: \<open>json.dumps\<close> and \<open>json.loads\<close>, the tar format of the library \<open>tarfile\<close>, fresh identifiers.
  A field of an imported row that has another JSON type than the exporter writes is refused with \<open>TypeError\<close>, where the code
  would fail later or store it as it is.  The content type that is handed to the store with a body is not kept by it.
\<close>

section \<open>Definitions\<close>

subsection \<open>Archives\<close>

type_synonym archive = "(string \<times> string) list"

record codec =
  cd_dumps :: "json \<Rightarrow> string"
  cd_loads :: loads
  cd_tar :: "archive \<Rightarrow> string"
  cd_untar :: "string \<Rightarrow> archive result"

definition jsonl_body :: "codec \<Rightarrow> row list \<Rightarrow> string" where
  "jsonl_body c rows = py_join [newline] (map (\<lambda>r. cd_dumps c (JObj r)) rows)"

definition add_jsonl :: "codec \<Rightarrow> string \<Rightarrow> row list \<Rightarrow> archive \<Rightarrow> archive" where
  "add_jsonl c name rows t = t @ [(name, jsonl_body c rows)]"

definition add_bytes :: "string \<Rightarrow> string \<Rightarrow> archive \<Rightarrow> archive" where
  "add_bytes name body t = t @ [(name, body)]"

text \<open>Of several members of one name \<open>getmember\<close> takes the last.\<close>

definition tar_member :: "archive \<Rightarrow> string \<Rightarrow> string option" where
  "tar_member t name = map_of (rev t) name"

fun read_rows :: "loads \<Rightarrow> string list \<Rightarrow> json list result" where
  "read_rows loads [] = Inr []"
| "read_rows loads (l # ls) =
     (if py_strip l = [] then read_rows loads ls
      else case loads (py_strip l) of
          Inl e \<Rightarrow> Inl (JSONDecodeError e)
        | Inr v \<Rightarrow> rbind (read_rows loads ls) (\<lambda>vs. Inr (v # vs)))"

definition read_jsonl :: "codec \<Rightarrow> archive \<Rightarrow> string \<Rightarrow> json list result" where
  "read_jsonl c t name = (case tar_member t name of
     None \<Rightarrow> Inr [] | Some body \<Rightarrow> read_rows (cd_loads c) (py_splitlines body))"

subsection \<open>Exported rows\<close>

fun tier_value :: "memory_tier \<Rightarrow> string" where
  "tier_value SHORT = ''short''"
| "tier_value MID = ''mid''"
| "tier_value LONG = ''long''"

fun attachment_status_value :: "attachment_status \<Rightarrow> string" where
  "attachment_status_value ATT_PENDING = ''pending''"
| "attachment_status_value PROCESSING = ''processing''"
| "attachment_status_value READY = ''ready''"
| "attachment_status_value FAILED = ''failed''"

definition opt_object :: "row option \<Rightarrow> json" where
  "opt_object x = (case x of None \<Rightarrow> JNull | Some d \<Rightarrow> JObj d)"

definition memory_export_row :: "memory \<Rightarrow> row" where
  "memory_export_row m =
     [(''public_id'', JStr (m_public_id m)), (''scope_type'', JStr (scope_type_value (m_scope_type m))),
      (''scope_id'', JInt (m_scope_id m)), (''title'', JStr (m_title m)), (''body'', JStr (m_body m)),
      (''kind'', JStr (memory_kind_value (m_kind m))), (''sensitivity'', JStr (sensitivity_value (m_sensitivity m))),
      (''tier'', JStr (tier_value (m_tier m))), (''importance'', JFloat (m_importance m)), (''pinned'', JBool (m_pinned m)),
      (''metadata'', JObj (m_metadata m)), (''source_type'', JStr (memory_source_value (m_source_type m))),
      (''source_ref'', opt_object (m_source_ref m))]"

text \<open>Links with an end among the exported memories are read, those with both ends there are kept.\<close>

definition link_export_row :: "(int \<times> string) list \<Rightarrow> memory_link \<Rightarrow> row option" where
  "link_export_row ids l = (case (map_of ids (l_from l), map_of ids (l_to l)) of
     (Some a, Some b) \<Rightarrow> Some [(''from_public_id'', JStr a), (''to_public_id'', JStr b),
       (''link_type'', JStr (link_type_value (l_type l))), (''weight'', JFloat (l_weight l))]
   | _ \<Rightarrow> None)"

definition export_links :: "(int \<times> string) list \<Rightarrow> memory_link list \<Rightarrow> row list" where
  "export_links ids ls =
     (if ids = [] then []
      else List.map_filter (link_export_row ids) (filter (\<lambda>l. l_from l \<in> fst ` set ids \<or> l_to l \<in> fst ` set ids) ls))"

definition attachment_export_row :: "attachment \<Rightarrow> row" where
  "attachment_export_row x =
     [(''public_id'', JStr (at_public_id x)), (''filename'', JStr (at_filename x)), (''mime'', opt_str (at_mime x)),
      (''size_bytes'', JInt (at_size_bytes x)), (''sha256'', opt_str (at_sha256 x)),
      (''sensitivity'', JStr (sensitivity_value (at_sensitivity x))),
      (''processing_status'', JStr (attachment_status_value (at_processing_status x))), (''metadata'', JObj (at_metadata x))]"

definition blob_name :: "string \<Rightarrow> string \<Rightarrow> string" where
  "blob_name pid filename = ''blobs/'' @ pid @ ''/'' @ filename"

definition export_blob :: "blobs \<Rightarrow> attachment \<Rightarrow> string \<times> string" where
  "export_blob st x = (blob_name (at_public_id x) (at_filename x),
     case fs_get_bytes (at_s3_bucket x) (at_s3_key x) st of Inl _ \<Rightarrow> [] | Inr body \<Rightarrow> body)"

definition chunk_export_rows :: "attachment_chunk list \<Rightarrow> attachment \<Rightarrow> row list" where
  "chunk_export_rows cs x =
     map (\<lambda>c. [(''attachment_public_id'', JStr (at_public_id x)), (''chunk_index'', JInt (int (ac_chunk_index c))),
          (''content'', JStr (ac_content c))])
       (sort_key ac_chunk_index (filter (\<lambda>c. ac_attachment_id c = at_id x) cs))"

definition export_limit :: nat where
  "export_limit = 10000"

record export_counts =
  ec_memories :: nat
  ec_links :: nat
  ec_attachments :: nat
  ec_chunks :: nat

definition counts_json :: "export_counts \<Rightarrow> json" where
  "counts_json n = JObj [(''memories'', JInt (int (ec_memories n))), (''memory_links'', JInt (int (ec_links n))),
     (''attachments'', JInt (int (ec_attachments n))), (''attachment_chunks'', JInt (int (ec_chunks n)))]"

definition manifest_row :: "principal \<Rightarrow> scope_type \<Rightarrow> int \<Rightarrow> export_counts \<Rightarrow> row" where
  "manifest_row p st sid n =
     [(''version'', JInt 1), (''source_org_id'', JInt (p_org_id p)), (''source_scope_type'', JStr (scope_type_value st)),
      (''source_scope_id'', JInt sid), (''counts'', counts_json n)]"

definition audit_transfer :: "service_env \<Rightarrow> principal \<Rightarrow> audit_action \<Rightarrow> scope_type \<Rightarrow> int \<Rightarrow> row \<Rightarrow> db \<Rightarrow> db result" where
  "audit_transfer env p action st sid meta d =
     rbind (audit_append (e_audit_hash env) (Some p) (e_origin env) (e_now env)
        \<lparr>ar_actor_kind = actor_kind p, ar_actor_id = Some (actor_id p), ar_action = audit_action_value action,
         ar_target_type = Some (scope_type_value st), ar_target_id = Some sid, ar_metadata = meta,
         ar_ip = None, ar_user_agent = None, ar_org_id = None\<rparr> (audit_rows d))
       (\<lambda>(_, rows). Inr (d\<lparr>audit_rows := rows\<rparr>))"

definition stream_export ::
    "service_env \<Rightarrow> codec \<Rightarrow> principal \<Rightarrow> scope_type \<Rightarrow> int \<Rightarrow> bool \<Rightarrow> att_db \<Rightarrow> blobs \<Rightarrow> db \<Rightarrow> (archive \<times> db) result" where
  "stream_export env c p st sid include_attachments a store d =
     (let scope = \<lparr>sf_type = st, sf_id = sid\<rparr>;
          ms = repo_list (Some scope) None None export_limit 0 None p (memories d);
          ids = map (\<lambda>m. (m_id m, m_public_id m)) ms;
          link_rows = export_links ids (links d);
          xs = (if include_attachments then att_list (Some scope) None export_limit 0 None p (attachments a) else []);
          chunk_rows = concat (map (chunk_export_rows (att_chunks a)) xs);
          n = \<lparr>ec_memories = length ms, ec_links = length link_rows, ec_attachments = length xs, ec_chunks = length chunk_rows\<rparr>;
          t1 = add_jsonl c ''memory_links.jsonl'' link_rows (add_jsonl c ''memories.jsonl'' (map memory_export_row ms) []);
          t2 = fold (\<lambda>x. add_bytes (fst (export_blob store x)) (snd (export_blob store x))) xs t1;
          t3 = add_jsonl c ''attachment_chunks.jsonl'' chunk_rows (add_jsonl c ''attachments.jsonl'' (map attachment_export_row xs) t2);
          t4 = add_jsonl c ''manifest.json'' [manifest_row p st sid n] t3
      in rbind (audit_transfer env p SCOPE_EXPORTED st sid [(''counts'', counts_json n), (''attachments'', JBool include_attachments)] d)
           (\<lambda>d1. Inr (t4, d1)))"

definition export_to_tar ::
    "service_env \<Rightarrow> codec \<Rightarrow> principal \<Rightarrow> scope_type \<Rightarrow> int \<Rightarrow> bool \<Rightarrow> att_db \<Rightarrow> blobs \<Rightarrow> db \<Rightarrow> (string \<times> db) result" where
  "export_to_tar env c p st sid include_attachments a store d =
     rbind (stream_export env c p st sid include_attachments a store d) (\<lambda>(t, d1). Inr (cd_tar c t, d1))"

text \<open>The endpoint does not commit, and the session of a request is closed without one.\<close>

definition export_scope ::
    "service_env \<Rightarrow> codec \<Rightarrow> principal \<Rightarrow> scope_type \<Rightarrow> int \<Rightarrow> bool \<Rightarrow> att_db \<Rightarrow> blobs \<Rightarrow> db \<Rightarrow> string result \<times> db" where
  "export_scope env c p st sid include_attachments a store d =
     (rbind (export_to_tar env c p st sid include_attachments a store d) (\<lambda>(body, _). Inr body), d)"

subsection \<open>Imported rows\<close>

definition row_of :: "json \<Rightarrow> row result" where
  "row_of j = (case j of JObj r \<Rightarrow> Inr r | _ \<Rightarrow> Inl (TypeError ''row is no object''))"

definition needed_text :: "row \<Rightarrow> string \<Rightarrow> string result" where
  "needed_text r k = (case dict_get r k of
     None \<Rightarrow> Inl (KeyError k) | Some (JStr s) \<Rightarrow> Inr s | Some _ \<Rightarrow> Inl (TypeError k))"

definition text_field_or :: "string \<Rightarrow> row \<Rightarrow> string \<Rightarrow> string result" where
  "text_field_or dflt r k = (case dict_get r k of
     None \<Rightarrow> Inr dflt | Some (JStr s) \<Rightarrow> Inr s | Some _ \<Rightarrow> Inl (TypeError k))"

definition opt_text_field :: "row \<Rightarrow> string \<Rightarrow> string option result" where
  "opt_text_field r k = (case dict_get r k of
     None \<Rightarrow> Inr None | Some JNull \<Rightarrow> Inr None | Some (JStr s) \<Rightarrow> Inr (Some s) | Some _ \<Rightarrow> Inl (TypeError k))"

definition opt_object_field :: "row \<Rightarrow> string \<Rightarrow> row option result" where
  "opt_object_field r k = (case dict_get r k of
     None \<Rightarrow> Inr None | Some JNull \<Rightarrow> Inr None | Some (JObj d) \<Rightarrow> Inr (Some d) | Some _ \<Rightarrow> Inl (TypeError k))"

text \<open>An enumeration's constructor on \<open>row.get(k, default)\<close>.\<close>

definition enum_field :: "(string \<Rightarrow> 'e option) \<Rightarrow> string \<Rightarrow> string \<Rightarrow> row \<Rightarrow> string \<Rightarrow> 'e result" where
  "enum_field parse cls dflt r k =
     (let bad = Inl (ValueError (''not a valid '' @ cls))
      in case dict_get r k of
           None \<Rightarrow> (case parse dflt of Some x \<Rightarrow> Inr x | None \<Rightarrow> bad)
         | Some (JStr v) \<Rightarrow> (case parse v of Some x \<Rightarrow> Inr x | None \<Rightarrow> bad)
         | Some _ \<Rightarrow> bad)"

definition real_field :: "real \<Rightarrow> row \<Rightarrow> string \<Rightarrow> real result" where
  "real_field dflt r k = (case dict_get r k of
     None \<Rightarrow> Inr dflt
   | Some v \<Rightarrow> rbind (py_to_float v) (\<lambda>x. case x of Finite y \<Rightarrow> Inr y | _ \<Rightarrow> Inl (TypeError k)))"

definition link_type_parse :: "string \<Rightarrow> memory_link_type option" where
  "link_type_parse s = find (\<lambda>t. link_type_value t = s) [RELATED, DERIVED_FROM, SUPERSEDES, CONTRADICTS, PART_OF]"

definition import_input :: "scope_type \<Rightarrow> int \<Rightarrow> row \<Rightarrow> create_memory_input result" where
  "import_input st sid r =
     rbind (needed_text r ''body'') (\<lambda>body.
     rbind (text_field_or [] r ''title'') (\<lambda>title.
     rbind (enum_field memory_kind_parse ''MemoryKind'' ''fact'' r ''kind'') (\<lambda>kind.
     rbind (enum_field sensitivity_parse ''Sensitivity'' ''internal'' r ''sensitivity'') (\<lambda>sens.
     rbind (needed_text r ''public_id'') (\<lambda>pid.
     rbind (real_field (1 / 2) r ''importance'') (\<lambda>importance.
     rbind (opt_object_field r ''metadata'') (\<lambda>meta.
       Inr ((blank_input st sid)\<lparr>cm_body := body, cm_title := title, cm_kind := kind, cm_sensitivity := sens,
              cm_source_type := DERIVED, cm_source_ref := Some [(''imported_from'', JStr pid)], cm_importance := importance,
              cm_pinned := has_truthy r ''pinned'', cm_metadata := meta\<rparr>))))))))"

text \<open>The environment of a request, and the identifiers that rows get: of memories, of attachments, of upload keys.\<close>

record import_env =
  ie_service :: service_env
  ie_codec :: codec
  ie_memory_id :: uuids
  ie_attachment_id :: uuids
  ie_upload_id :: uuids

fun import_memories ::
    "import_env \<Rightarrow> principal \<Rightarrow> scope_type \<Rightarrow> int \<Rightarrow> json list \<Rightarrow> (string \<times> string) list \<Rightarrow> service_cache \<Rightarrow> db
     \<Rightarrow> ((string \<times> string) list \<times> db) result" where
  "import_memories env p st sid [] seen sv d = Inr (seen, d)"
| "import_memories env p st sid (j # js) seen sv d =
     rbind (row_of j) (\<lambda>r.
     rbind (import_input st sid r) (\<lambda>payload.
     rbind (needed_text r ''public_id'') (\<lambda>old.
     rbind (service_write ((ie_service env)\<lparr>e_public_id := ie_memory_id env (next_memory_id d)\<rparr>) p payload False False sv d) (\<lambda>(w, sv1, d1).
       import_memories env p st sid js (AList.update old (m_public_id (mw_memory w)) seen) sv1 d1))))"

fun import_links :: "import_env \<Rightarrow> principal \<Rightarrow> (string \<times> string) list \<Rightarrow> json list \<Rightarrow> db \<Rightarrow> (nat \<times> db) result" where
  "import_links env p seen [] d = Inr (0, d)"
| "import_links env p seen (j # js) d =
     rbind (row_of j) (\<lambda>r.
     rbind (needed_text r ''from_public_id'') (\<lambda>a.
     rbind (needed_text r ''to_public_id'') (\<lambda>b.
       case (truthy_str (dict_get seen a), truthy_str (dict_get seen b)) of
         (Some x, Some y) \<Rightarrow>
           rbind (enum_field link_type_parse ''MemoryLinkType'' ''related'' r ''link_type'') (\<lambda>t.
           rbind (real_field 1 r ''weight'') (\<lambda>wt.
           rbind (service_link (ie_service env) p x y t wt d) (\<lambda>(_, d1).
           rbind (import_links env p seen js d1) (\<lambda>(n, d2). Inr (n + 1, d2)))))
       | _ \<Rightarrow> import_links env p seen js d)))"

definition file_args :: "scope_type \<Rightarrow> int \<Rightarrow> row \<Rightarrow> string \<Rightarrow> att_args result" where
  "file_args st sid r body =
     rbind (needed_text r ''filename'') (\<lambda>name.
     rbind (opt_text_field r ''mime'') (\<lambda>mime.
     rbind (enum_field sensitivity_parse ''Sensitivity'' ''internal'' r ''sensitivity'') (\<lambda>sens.
     rbind (opt_object_field r ''metadata'') (\<lambda>meta.
     rbind (needed_text r ''public_id'') (\<lambda>pid.
       Inr \<lparr>aa_scope_type = st, aa_scope_id = sid, aa_filename = name, aa_mime = mime, aa_sensitivity = sens,
            aa_size_hint = Some (int (length body)),
            aa_metadata = Some (AList.update ''imported_from'' (JStr pid) (or_empty meta))\<rparr>)))))"

text \<open>
  One file: its row, then its body into the store and to the worker.  A body that is missing or empty leaves the row waiting.
  The store and the broker keep what an exception rolls back in the tables.
\<close>

definition import_file ::
    "import_env \<Rightarrow> principal \<Rightarrow> scope_type \<Rightarrow> int \<Rightarrow> archive \<Rightarrow> row \<Rightarrow> att_db \<Rightarrow> blobs \<Rightarrow> att_db result \<times> blobs \<times> int list" where
  "import_file env p st sid t r a store =
     (let s = e_settings (ie_service env); sha = e_sha256 (ie_service env); now = e_now (ie_service env); k = next_attachment_id a;
          placed = rbind (needed_text r ''public_id'') (\<lambda>pid. rbind (needed_text r ''filename'') (\<lambda>name.
            let body = (case tar_member t (blob_name pid name) of None \<Rightarrow> [] | Some b \<Rightarrow> b)
            in rbind (file_args st sid r body) (\<lambda>args.
               rbind (presign_upload s p now (ie_attachment_id env k) (ie_upload_id env k) args a) (\<lambda>(x, a1). Inr (body, args, x, a1)))))
      in case placed of
           Inl e \<Rightarrow> (Inl e, store, [])
         | Inr (body, args, x, a1) \<Rightarrow>
             if body = [] then (Inr a1, store, [])
             else case finalize s sha p now (at_public_id x) None None None
                    (a1, snd (fs_put_bytes sha (at_s3_bucket x) (at_s3_key x) body (aa_mime args) store)) of
                    (fin, store1, tasks) \<Rightarrow> (rbind fin (\<lambda>(_, a2). Inr a2), store1, tasks))"

fun import_files ::
    "import_env \<Rightarrow> principal \<Rightarrow> scope_type \<Rightarrow> int \<Rightarrow> archive \<Rightarrow> json list \<Rightarrow> att_db \<Rightarrow> blobs \<Rightarrow> att_db result \<times> blobs \<times> int list" where
  "import_files env p st sid t [] a store = (Inr a, store, [])"
| "import_files env p st sid t (j # js) a store =
     (case row_of j of
        Inl e \<Rightarrow> (Inl e, store, [])
      | Inr r \<Rightarrow> (case import_file env p st sid t r a store of
            (Inl e, store1, tasks) \<Rightarrow> (Inl e, store1, tasks)
          | (Inr a1, store1, tasks) \<Rightarrow>
              (let (res, store2, more_tasks) = import_files env p st sid t js a1 store1 in (res, store2, tasks @ more_tasks))))"

record import_result =
  ir_memories :: nat
  ir_links :: nat
  ir_attachments :: nat

definition result_json :: "import_result \<Rightarrow> row" where
  "result_json n = [(''memories'', JInt (int (ir_memories n))), (''links'', JInt (int (ir_links n))),
     (''attachments'', JInt (int (ir_attachments n)))]"

text \<open>The rows of the archive, read before anything is written.\<close>

definition archive_rows :: "codec \<Rightarrow> string \<Rightarrow> (archive \<times> json list \<times> json list \<times> json list) result" where
  "archive_rows c body =
     rbind (cd_untar c body) (\<lambda>t.
     rbind (read_jsonl c t ''memories.jsonl'') (\<lambda>ms.
     rbind (read_jsonl c t ''memory_links.jsonl'') (\<lambda>ls.
     rbind (read_jsonl c t ''attachments.jsonl'') (\<lambda>xs. Inr (t, ms, ls, xs)))))"

definition import_from_tar ::
    "import_env \<Rightarrow> principal \<Rightarrow> string \<Rightarrow> scope_type \<Rightarrow> int \<Rightarrow> db \<times> att_db \<Rightarrow> blobs
     \<Rightarrow> (import_result \<times> db \<times> att_db) result \<times> blobs \<times> int list" where
  "import_from_tar env p body st sid = (\<lambda>(d, a) store.
     case rbind (archive_rows (ie_codec env) body) (\<lambda>(t, ms, ls, xs).
            rbind (import_memories env p st sid ms [] fresh_cache d) (\<lambda>(seen, d1).
            rbind (import_links env p seen ls d1) (\<lambda>(n, d2). Inr (t, ms, n, xs, d2)))) of
       Inl e \<Rightarrow> (Inl e, store, [])
     | Inr (t, ms, n, xs, d2) \<Rightarrow>
         (case import_files env p st sid t xs a store of
            (res, store1, tasks) \<Rightarrow>
              (rbind res (\<lambda>a1.
                 let total = \<lparr>ir_memories = length ms, ir_links = n, ir_attachments = length xs\<rparr>
                 in rbind (audit_transfer (ie_service env) p SCOPE_IMPORTED st sid (result_json total) d2) (\<lambda>d3. Inr (total, d3, a1))),
               store1, tasks)))"

text \<open>The endpoint commits what succeeded; the answer 400 is the error \<open>ValidationError\<close>.\<close>

definition import_scope ::
    "import_env \<Rightarrow> principal \<Rightarrow> string \<Rightarrow> scope_type \<Rightarrow> int \<Rightarrow> db \<times> att_db \<Rightarrow> blobs
     \<Rightarrow> import_result result \<times> (db \<times> att_db) \<times> blobs \<times> int list" where
  "import_scope env p body st sid s store =
     (if body = [] then (Inl (ValidationError ''empty upload''), s, store, [])
      else case import_from_tar env p body st sid s store of
             (Inl e, store1, tasks) \<Rightarrow> (Inl e, s, store1, tasks)
           | (Inr (n, d1, a1), store1, tasks) \<Rightarrow> (Inr n, (d1, a1), store1, tasks))"

section \<open>What an export holds\<close>

definition memory_exported :: "principal \<Rightarrow> scope_type \<Rightarrow> int \<Rightarrow> memory \<Rightarrow> bool" where
  "memory_exported p st sid m \<longleftrightarrow> live m \<and> m_review_status m = APPROVED \<and> m_scope_type m = st \<and> m_scope_id m = sid \<and>
     (is_superuser p \<or> m_org_id m = p_org_id p)"

definition file_exported :: "principal \<Rightarrow> scope_type \<Rightarrow> int \<Rightarrow> attachment \<Rightarrow> bool" where
  "file_exported p st sid x \<longleftrightarrow> att_live x \<and> at_scope_type x = st \<and> at_scope_id x = sid \<and> (is_superuser p \<or> at_org_id x = p_org_id p)"

definition exported_memories :: "principal \<Rightarrow> scope_type \<Rightarrow> int \<Rightarrow> db \<Rightarrow> memory list" where
  "exported_memories p st sid d = repo_list (Some \<lparr>sf_type = st, sf_id = sid\<rparr>) None None export_limit 0 None p (memories d)"

definition exported_files :: "bool \<Rightarrow> principal \<Rightarrow> scope_type \<Rightarrow> int \<Rightarrow> att_db \<Rightarrow> attachment list" where
  "exported_files incl p st sid a =
     (if incl then att_list (Some \<lparr>sf_type = st, sf_id = sid\<rparr>) None export_limit 0 None p (attachments a) else [])"

definition exported_links :: "memory list \<Rightarrow> db \<Rightarrow> row list" where
  "exported_links ms d = export_links (map (\<lambda>m. (m_id m, m_public_id m)) ms) (links d)"

definition exported_chunks :: "attachment list \<Rightarrow> att_db \<Rightarrow> row list" where
  "exported_chunks xs a = concat (map (chunk_export_rows (att_chunks a)) xs)"

definition manifest_of :: "principal \<Rightarrow> scope_type \<Rightarrow> int \<Rightarrow> memory list \<Rightarrow> attachment list \<Rightarrow> db \<Rightarrow> att_db \<Rightarrow> row" where
  "manifest_of p st sid ms xs d a = manifest_row p st sid \<lparr>ec_memories = length ms, ec_links = length (exported_links ms d),
     ec_attachments = length xs, ec_chunks = length (exported_chunks xs a)\<rparr>"

lemma fold_add_bytes: "fold (\<lambda>x. add_bytes (fst (f x)) (snd (f x))) xs t = t @ map f xs"
  by (induction xs arbitrary: t) (auto simp: add_bytes_def)

lemma audit_transfer_rows:
  assumes "audit_transfer env p action st sid meta d = Inr d1"
  shows "\<exists>e. d1 = d\<lparr>audit_rows := audit_rows d @ [e]\<rparr> \<and> a_action e = audit_action_value action"
proof -
  obtain req e rows where r: "audit_append (e_audit_hash env) (Some p) (e_origin env) (e_now env) req (audit_rows d) = Inr (e, rows)"
      "ar_action req = audit_action_value action" "d1 = d\<lparr>audit_rows := rows\<rparr>"
    using assms by (auto simp: audit_transfer_def rbind_Inr)
  then show ?thesis using audit_append_cases(1,5) [OF r(1)] by auto
qed

lemma stream_export_members:
  assumes "stream_export env c p st sid incl a store d = Inr (t, d1)"
  shows "\<exists>ms xs e. ms = exported_memories p st sid d \<and> xs = exported_files incl p st sid a \<and>
    t = [(''memories.jsonl'', jsonl_body c (map memory_export_row ms)), (''memory_links.jsonl'', jsonl_body c (exported_links ms d))] @
      map (export_blob store) xs @
      [(''attachments.jsonl'', jsonl_body c (map attachment_export_row xs)), (''attachment_chunks.jsonl'', jsonl_body c (exported_chunks xs a)),
       (''manifest.json'', jsonl_body c [manifest_of p st sid ms xs d a])] \<and>
    d1 = d\<lparr>audit_rows := audit_rows d @ [e]\<rparr> \<and> a_action e = ''scope.exported''"
proof -
  let ?ms = "exported_memories p st sid d" and ?xs = "exported_files incl p st sid a"
  have t: "t = [(''memories.jsonl'', jsonl_body c (map memory_export_row ?ms)), (''memory_links.jsonl'', jsonl_body c (exported_links ?ms d))] @
      map (export_blob store) ?xs @
      [(''attachments.jsonl'', jsonl_body c (map attachment_export_row ?xs)), (''attachment_chunks.jsonl'', jsonl_body c (exported_chunks ?xs a)),
       (''manifest.json'', jsonl_body c [manifest_of p st sid ?ms ?xs d a])]"
    using assms
    by (auto simp: stream_export_def Let_def rbind_Inr fold_add_bytes add_jsonl_def exported_memories_def exported_files_def
        exported_links_def exported_chunks_def manifest_of_def)
  obtain meta where "audit_transfer env p SCOPE_EXPORTED st sid meta d = Inr d1"
    using assms by (auto simp: stream_export_def Let_def rbind_Inr)
  from audit_transfer_rows [OF this] t show ?thesis by auto
qed

lemma exported_memories_set:
  "set (exported_memories p st sid d) \<subseteq> {m \<in> set (memories d). memory_exported p st sid m}"
  "length (filter (memory_exported p st sid) (memories d)) \<le> 10000 \<Longrightarrow>
     set (exported_memories p st sid d) = {m \<in> set (memories d). memory_exported p st sid m}"
proof -
  let ?rows = "filter (\<lambda>m. live m \<and> m_review_status m = APPROVED \<and> m_scope_type m = st \<and> m_scope_id m = sid) (tenant_query p (memories d))"
  have e: "exported_memories p st sid d = take 10000 (sort_key (\<lambda>m. - m_created_at m) ?rows)"
    by (simp add: exported_memories_def repo_list_def export_limit_def in_scope_def opt_where_def)
  have f: "?rows = filter (memory_exported p st sid) (memories d)"
    by (auto simp: tenant_rows_def memory_exported_def conj_commute intro!: filter_cong)
  show "set (exported_memories p st sid d) \<subseteq> {m \<in> set (memories d). memory_exported p st sid m}"
    unfolding e f by (auto dest: in_set_takeD)
  assume "length (filter (memory_exported p st sid) (memories d)) \<le> 10000"
  then show "set (exported_memories p st sid d) = {m \<in> set (memories d). memory_exported p st sid m}"
    unfolding e f by simp
qed

lemma exported_files_set: "set (exported_files incl p st sid a) \<subseteq> {x \<in> set (attachments a). incl \<and> file_exported p st sid x}"
  by (auto simp: exported_files_def att_list_def tenant_rows_def file_exported_def opt_where_def split: if_splits dest!: in_set_takeD)

lemma exported_links_set:
  "set (exported_links ms d) \<subseteq>
     {[(''from_public_id'', JStr (m_public_id m)), (''to_public_id'', JStr (m_public_id m')), (''link_type'', JStr (link_type_value (l_type l))),
       (''weight'', JFloat (l_weight l))] | l m m'. l \<in> set (links d) \<and> m \<in> set ms \<and> m' \<in> set ms \<and> m_id m = l_from l \<and> m_id m' = l_to l}"
proof
  fix r assume "r \<in> set (exported_links ms d)"
  then obtain l where l: "l \<in> set (links d)" "link_export_row (map (\<lambda>m. (m_id m, m_public_id m)) ms) l = Some r"
    by (auto simp: exported_links_def export_links_def List.map_filter_def split: if_splits)
  then obtain x y where xy: "map_of (map (\<lambda>m. (m_id m, m_public_id m)) ms) (l_from l) = Some x"
      "map_of (map (\<lambda>m. (m_id m, m_public_id m)) ms) (l_to l) = Some y"
    by (auto simp: link_export_row_def split: option.splits)
  from xy [THEN map_of_SomeD] obtain m m' where "m \<in> set ms" "m_id m = l_from l" "x = m_public_id m"
      "m' \<in> set ms" "m_id m' = l_to l" "y = m_public_id m'" by auto
  with l xy show "r \<in> {[(''from_public_id'', JStr (m_public_id m)), (''to_public_id'', JStr (m_public_id m')),
       (''link_type'', JStr (link_type_value (l_type l))), (''weight'', JFloat (l_weight l))] | l m m'.
       l \<in> set (links d) \<and> m \<in> set ms \<and> m' \<in> set ms \<and> m_id m = l_from l \<and> m_id m' = l_to l}"
    by (auto simp: link_export_row_def)
qed


section \<open>Reading an archive back\<close>

text \<open>What is relied on for rows written one per line: decoding inverts encoding, and an encoded object is one trimmed line.\<close>

definition encodes :: "codec \<Rightarrow> row \<Rightarrow> bool" where
  "encodes c r \<longleftrightarrow> cd_loads c (cd_dumps c (JObj r)) = Inr (JObj r) \<and> cd_dumps c (JObj r) \<noteq> [] \<and>
     py_strip (cd_dumps c (JObj r)) = cd_dumps c (JObj r) \<and> list_all (\<lambda>k. \<not> line_break k) (cd_dumps c (JObj r))"

lemma newline_breaks: "line_break newline" "code newline \<noteq> 13"
  by code_simp+

lemma splitlines_one: "s \<noteq> [] \<Longrightarrow> list_all (\<lambda>k. \<not> line_break k) s \<Longrightarrow> py_splitlines s = [s]"
  by (subst py_splitlines.simps) (simp add: list_all_iff dropWhile_eq_Nil_conv [THEN iffD2] takeWhile_eq_all_conv [THEN iffD2])

lemma splitlines_more:
  assumes "list_all (\<lambda>k. \<not> line_break k) s"
  shows "py_splitlines (s @ newline # r) = s # py_splitlines r"
proof -
  have "takeWhile (\<lambda>k. \<not> line_break k) (s @ newline # r) = s" "dropWhile (\<lambda>k. \<not> line_break k) (s @ newline # r) = newline # r"
    using assms newline_breaks(1) by (auto simp: list_all_iff takeWhile_append dropWhile_append)
  then show ?thesis by (subst py_splitlines.simps) (simp add: newline_breaks(2))
qed

lemma splitlines_join:
  "list_all (\<lambda>s. s \<noteq> [] \<and> list_all (\<lambda>k. \<not> line_break k) s) ls \<Longrightarrow> py_splitlines (py_join [newline] ls) = ls"
proof (induction "[newline]" ls rule: py_join.induct)
  case 1
  then show ?case by (simp add: py_splitlines.simps)
next
  case (2 x)
  then show ?case by (simp add: splitlines_one)
next
  case (3 x y zs)
  then show ?case by (simp add: splitlines_more)
qed

lemma read_rows_encoded:
  "list_all (encodes c) rs \<Longrightarrow> read_rows (cd_loads c) (map (\<lambda>r. cd_dumps c (JObj r)) rs) = Inr (map JObj rs)"
  by (induction rs) (auto simp: encodes_def)

lemma read_encoded:
  "list_all (encodes c) rs \<Longrightarrow> tar_member t name = Some (jsonl_body c rs) \<Longrightarrow> read_jsonl c t name = Inr (map JObj rs)"
  using read_rows_encoded [of c rs] splitlines_join [of "map (\<lambda>r. cd_dumps c (JObj r)) rs"]
  by (simp add: read_jsonl_def jsonl_body_def list_all_iff encodes_def)

lemma parse_values [simp]:
  "memory_kind_parse (memory_kind_value k) = Some k"
  "sensitivity_parse (sensitivity_value v) = Some v"
  "link_type_parse (link_type_value t) = Some t"
  by ((cases k; simp add: memory_kind_parse_def), (cases v; simp add: sensitivity_parse_def), (cases t; simp add: link_type_parse_def))

definition imported_input :: "scope_type \<Rightarrow> int \<Rightarrow> memory \<Rightarrow> create_memory_input" where
  "imported_input st sid m = (blank_input st sid)\<lparr>cm_body := m_body m, cm_title := m_title m, cm_kind := m_kind m,
     cm_sensitivity := m_sensitivity m, cm_source_type := DERIVED, cm_source_ref := Some [(''imported_from'', JStr (m_public_id m))],
     cm_importance := m_importance m, cm_pinned := m_pinned m, cm_metadata := Some (m_metadata m)\<rparr>"

lemma import_exported: "import_input st sid (memory_export_row m) = Inr (imported_input st sid m)"
  by (simp add: import_input_def memory_export_row_def imported_input_def needed_text_def text_field_or_def enum_field_def
      real_field_def py_to_float_def opt_object_field_def has_truthy_def dict_get_def)

lemma blob_name_differs: "hd name \<noteq> CHR ''b'' \<Longrightarrow> blob_name pid f \<noteq> name"
  by (auto simp: blob_name_def)

lemma tar_member_table:
  assumes "hd name \<noteq> CHR ''b''"
  shows "tar_member (pre @ map (export_blob store) xs @ post) name = (case map_of (rev post) name of
     Some b \<Rightarrow> Some b | None \<Rightarrow> map_of (rev pre) name)"
proof -
  have "map_of (rev (map (export_blob store) xs)) name = None"
    using blob_name_differs [OF assms] by (fastforce simp: map_of_eq_None_iff export_blob_def)
  then show ?thesis by (auto simp: tar_member_def map_add_def split: option.split)
qed

lemma tar_member_blob:
  assumes "distinct (map (\<lambda>x. fst (export_blob store x)) xs)" and "x \<in> set xs"
    and "list_all (\<lambda>(n, b). hd n \<noteq> CHR ''b'') post"
  shows "tar_member (pre @ map (export_blob store) xs @ post) (fst (export_blob store x)) = Some (snd (export_blob store x))"
proof -
  have "map_of (rev post) (fst (export_blob store x)) = None"
    using assms(3) blob_name_differs by (fastforce simp: map_of_eq_None_iff export_blob_def list_all_iff)
  moreover have "map_of (rev (map (export_blob store) xs)) (fst (export_blob store x)) = Some (snd (export_blob store x))"
  proof (rule map_of_is_SomeI)
    show "distinct (map fst (rev (map (export_blob store) xs)))"
      using assms(1) by (simp add: rev_map comp_def distinct_map [symmetric] flip: rev_map)
    show "(fst (export_blob store x), snd (export_blob store x)) \<in> set (rev (map (export_blob store) xs))" using assms(2) by simp
  qed
  ultimately show ?thesis by (simp add: tar_member_def map_add_def)
qed


section \<open>What an import does\<close>

text \<open>What of a memory, and of a file, the import leaves as it is.\<close>

definition row_ident :: "memory \<Rightarrow> int \<times> string \<times> (int \<times> scope_type \<times> int \<times> memory_source) \<times> string \<times> string" where
  "row_ident m = (m_id m, m_public_id m, (m_org_id m, m_scope_type m, m_scope_id m, m_source_type m), m_title m, m_body m)"

definition placed_in :: "int \<times> scope_type \<times> int \<times> memory_source \<Rightarrow> int \<times> string \<times> (int \<times> scope_type \<times> int \<times> memory_source) \<times> string \<times> string \<Rightarrow> bool" where
  "placed_in place x = (fst (snd (snd x)) = place)"

definition file_ident :: "attachment \<Rightarrow> int \<times> string \<times> (int \<times> scope_type \<times> int) \<times> string \<times> sensitivity" where
  "file_ident x = (at_id x, at_public_id x, (at_org_id x, at_scope_type x, at_scope_id x), at_filename x, at_sensitivity x)"

lemma write_idents:
  assumes "service_write env p payload ei force sv d = Inr (w, sv1, d1)"
  shows "\<exists>new. map row_ident (memories d1) = map row_ident (memories d) @ new \<and> length new \<le> 1 \<and>
    list_all (placed_in (p_org_id p, cm_scope_type payload, cm_scope_id payload, cm_source_type payload)) new \<and>
    links d1 = links d \<and> audit_rows d1 = audit_rows d"
proof (cases "write_target env p payload force d")
  case (Some m)
  have "d1 = update_where (\<lambda>r. m_id r = m_id m) (folded (e_now env) (cm_metadata payload)) d"
    using assms write_dedup [OF _ _ Some, of ei sv] write_guards [OF assms] by (auto simp: record_duplicate_eq)
  then have "map row_ident (memories d1) = map row_ident (memories d)" "links d1 = links d" "audit_rows d1 = audit_rows d"
    by (auto simp: update_where_def row_ident_def folded_def)
  then show ?thesis by simp
next
  case None
  obtain mode cfg sv2 where pc: "project_config p payload sv d = ((mode, cfg), sv2)" by (metis prod.collapse)
  from write_insert [OF _ _ None pc, of ei] write_guards [OF assms] assms
  obtain g rv dg emb where d1: "d1 = snd (memory_create p (e_public_id env) (e_now env) (create_args_of p payload g rv cfg dg emb) d)"
    by (metis insert_memory_eq)
  let ?m = "fst (memory_create p (e_public_id env) (e_now env) (create_args_of p payload g rv cfg dg emb) d)"
  have "memories d1 = memories d @ [?m]" "links d1 = links d" "audit_rows d1 = audit_rows d"
    unfolding d1 by (simp_all add: memory_create_def Let_def)
  moreover have "placed_in (p_org_id p, cm_scope_type payload, cm_scope_id payload, cm_source_type payload) (row_ident ?m)"
    by (simp add: placed_in_def row_ident_def memory_create_def create_args_of_def Let_def)
  ultimately show ?thesis by (intro exI [of _ "[row_ident ?m]"]) simp
qed

lemma import_input_place:
  "import_input st sid r = Inr payload \<Longrightarrow> cm_scope_type payload = st \<and> cm_scope_id payload = sid \<and> cm_source_type payload = DERIVED"
  by (auto simp: import_input_def rbind_Inr blank_input_def)

definition may_import :: "principal \<Rightarrow> scope_type \<Rightarrow> int \<Rightarrow> json \<Rightarrow> bool" where
  "may_import p st sid j \<longleftrightarrow> has_key_scope p ''write:memory'' \<and>
     (\<exists>r payload. j = JObj r \<and> import_input st sid r = Inr payload \<and>
        can_write p \<lparr>res_scope = \<lparr>ref_type = st, ref_id = sid\<rparr>, res_sensitivity = cm_sensitivity payload\<rparr>)"

lemma import_memories_effect:
  "import_memories env p st sid js seen sv d = Inr (seen1, d1) \<Longrightarrow>
     list_all (may_import p st sid) js \<and> links d1 = links d \<and> audit_rows d1 = audit_rows d \<and>
     (\<exists>new. map row_ident (memories d1) = map row_ident (memories d) @ new \<and> length new \<le> length js \<and>
        list_all (placed_in (p_org_id p, st, sid, DERIVED)) new)"
proof (induction js arbitrary: seen sv d)
  case Nil
  then show ?case by simp
next
  case (Cons j js)
  obtain r payload old w sv2 d2 where r: "row_of j = Inr r" "import_input st sid r = Inr payload"
      "service_write ((ie_service env)\<lparr>e_public_id := ie_memory_id env (next_memory_id d)\<rparr>) p payload False False sv d = Inr (w, sv2, d2)"
      "import_memories env p st sid js (AList.update old (m_public_id (mw_memory w)) seen) sv2 d2 = Inr (seen1, d1)"
    using Cons.prems by (auto simp: rbind_Inr)
  note place = import_input_place [OF r(2)]
  obtain new1 where new1: "map row_ident (memories d2) = map row_ident (memories d) @ new1" "length new1 \<le> 1"
      "list_all (placed_in (p_org_id p, st, sid, DERIVED)) new1" "links d2 = links d" "audit_rows d2 = audit_rows d"
    using write_idents [OF r(3)] place by auto
  obtain new2 where new2: "map row_ident (memories d1) = map row_ident (memories d2) @ new2" "length new2 \<le> length js"
      "list_all (placed_in (p_org_id p, st, sid, DERIVED)) new2" "list_all (may_import p st sid) js" "links d1 = links d2"
      "audit_rows d1 = audit_rows d2"
    using Cons.IH [OF r(4)] by blast
  have "j = JObj r" using r(1) by (auto simp: row_of_def split: json.splits)
  then have "may_import p st sid j" using write_guards [OF r(3)] r(2) place by (auto simp: may_import_def)
  moreover have "map row_ident (memories d1) = map row_ident (memories d) @ (new1 @ new2)" using new1(1) new2(1) by simp
  moreover have "length (new1 @ new2) \<le> length (j # js)" using new1(2) new2(2) by simp
  moreover have "list_all (placed_in (p_org_id p, st, sid, DERIVED)) (new1 @ new2)" using new1(3) new2(3) by simp
  ultimately show ?case using new1(4,5) new2(4-6) by (intro conjI exI [of _ "new1 @ new2"]) simp_all
qed

lemma service_link_effect:
  "service_link env p x y t w d = Inr (r, d1) \<Longrightarrow> \<exists>nl. d1 = d\<lparr>links := links d @ nl\<rparr> \<and> length nl \<le> 1"
proof -
  assume "service_link env p x y t w d = Inr (r, d1)"
  then have "d1 = d \<or> (\<exists>l. d1 = d\<lparr>links := links d @ [l]\<rparr>)"
    by (auto simp: service_link_def link_create_def rbind_Inr Let_def split: option.splits if_splits)
  then show ?thesis
  proof
    assume "d1 = d"
    then show ?thesis by (intro exI [of _ "[]"]) simp
  next
    assume "\<exists>l. d1 = d\<lparr>links := links d @ [l]\<rparr>"
    then show ?thesis by (metis length_Cons list.size(3) One_nat_def order_refl)
  qed
qed

lemma import_links_effect:
  "import_links env p seen js d = Inr (n, d1) \<Longrightarrow>
     n \<le> length js \<and> (\<exists>nl. d1 = d\<lparr>links := links d @ nl\<rparr> \<and> length nl \<le> n)"
proof (induction js arbitrary: n d)
  case Nil
  then show ?case by simp
next
  case (Cons j js)
  consider "import_links env p seen js d = Inr (n, d1)"
    | x y t wt r d2 n' where "service_link (ie_service env) p x y t wt d = Inr (r, d2)"
        "import_links env p seen js d2 = Inr (n', d1)" "n = n' + 1"
  proof -
    obtain r a b where r: "row_of j = Inr r" "needed_text r ''from_public_id'' = Inr a" "needed_text r ''to_public_id'' = Inr b"
      using Cons.prems by (auto simp: rbind_Inr)
    show thesis
    proof (cases "truthy_str (dict_get seen a)")
      case None
      then show ?thesis using that(1) Cons.prems r by simp
    next
      case x: (Some x)
      show ?thesis
      proof (cases "truthy_str (dict_get seen b)")
        case None
        then show ?thesis using that(1) Cons.prems r x by simp
      next
        case (Some y)
        then show ?thesis using that(2) Cons.prems r x by (auto simp: rbind_Inr)
      qed
    qed
  qed
  then show ?case
  proof cases
    case 1
    then show ?thesis using Cons.IH [OF 1] by auto
  next
    case 2
    obtain l1 where l1: "d2 = d\<lparr>links := links d @ l1\<rparr>" "length l1 \<le> 1" using service_link_effect [OF 2(1)] by blast
    obtain l2 where l2: "d1 = d2\<lparr>links := links d2 @ l2\<rparr>" "length l2 \<le> n'" "n' \<le> length js" using Cons.IH [OF 2(2)] by blast
    have "d1 = d\<lparr>links := links d @ (l1 @ l2)\<rparr>" using l1(1) l2(1) by simp
    then show ?thesis using l1(2) l2(2,3) 2(3) by (intro conjI exI [of _ "l1 @ l2"]) auto
  qed
qed

lemma import_file_effect:
  assumes "import_file env p st sid t r a store = (Inr a1, store1, tasks)"
  shows "\<exists>new. map file_ident (attachments a1) = map file_ident (attachments a) @ [new] \<and>
    fst (snd (snd new)) = (p_org_id p, st, sid) \<and> att_chunks a1 = att_chunks a \<and> has_key_scope p ''write:attachment'' \<and>
    can_write p \<lparr>res_scope = \<lparr>ref_type = st, ref_id = sid\<rparr>, res_sensitivity = snd (snd (snd (snd new)))\<rparr>"
proof -
  let ?s = "e_settings (ie_service env)" and ?now = "e_now (ie_service env)" and ?k = "next_attachment_id a"
  obtain body args x a2 where x: "file_args st sid r body = Inr args"
      "presign_upload ?s p ?now (ie_attachment_id env ?k) (ie_upload_id env ?k) args a = Inr (x, a2)"
    and fin: "body = [] \<and> a1 = a2 \<or> (\<exists>sha store2 y store3 tasks3.
      finalize ?s sha p ?now (at_public_id x) None None None (a2, store2) = (Inr (y, a1), store3, tasks3))"
  proof -
    obtain pid name where n: "needed_text r ''public_id'' = Inr pid" "needed_text r ''filename'' = Inr name"
      using assms by (auto simp: import_file_def Let_def rbind_Inr split: sum.splits)
    define body where "body = (case tar_member t (blob_name pid name) of None \<Rightarrow> [] | Some b \<Rightarrow> b)"
    obtain args x a2 where x: "file_args st sid r body = Inr args"
        "presign_upload ?s p ?now (ie_attachment_id env ?k) (ie_upload_id env ?k) args a = Inr (x, a2)"
      using assms n by (auto simp: import_file_def Let_def rbind_Inr body_def [symmetric] split: sum.splits)
    show thesis
    proof (cases "body = []")
      case True
      then show ?thesis using that [OF x] assms n x by (simp add: import_file_def Let_def body_def [symmetric])
    next
      case False
      let ?store = "snd (fs_put_bytes (e_sha256 (ie_service env)) (at_s3_bucket x) (at_s3_key x) body (aa_mime args) store)"
      obtain res store3 tasks3 where f: "finalize ?s (e_sha256 (ie_service env)) p ?now (at_public_id x) None None None (a2, ?store) =
          (res, store3, tasks3)" by (metis prod.collapse)
      then obtain y where "res = Inr (y, a1)"
        using assms n x False by (auto simp: import_file_def Let_def rbind_Inr body_def [symmetric])
      then show ?thesis using that [OF x] f by blast
    qed
  qed
  have args: "aa_scope_type args = st" "aa_scope_id args = sid"
    using x(1) by (auto simp: file_args_def rbind_Inr)
  have att: "has_key_scope p ''write:attachment''"
      "can_write p \<lparr>res_scope = \<lparr>ref_type = st, ref_id = sid\<rparr>, res_sensitivity = aa_sensitivity args\<rparr>"
    using presign_effect [OF x(2)] args by simp_all
  have new: "attachments a2 = attachments a @ [x]" "att_chunks a2 = att_chunks a" "at_org_id x = p_org_id p"
      "at_scope_type x = st" "at_scope_id x = sid" "at_sensitivity x = aa_sensitivity args"
    using presign_effect [OF x(2)] args by (auto simp: att_create_def Let_def split: if_splits)
  have same: "map file_ident (attachments a1) = map file_ident (attachments a2) \<and> att_chunks a1 = att_chunks a2"
    using fin
  proof (elim disjE conjE exE)
    fix sha store2 y store3 tasks3
    assume "finalize ?s sha p ?now (at_public_id x) None None None (a2, store2) = (Inr (y, a1), store3, tasks3)"
    then show ?thesis
      by (rule finalize_effect) (auto simp: mark_status_def att_update_def marked_def file_ident_def)
  qed simp
  show ?thesis using same new att by (intro exI [of _ "file_ident x"]) (simp add: file_ident_def)
qed

lemma import_files_effect:
  "import_files env p st sid t js a store = (Inr a1, store1, tasks) \<Longrightarrow>
     \<exists>new. map file_ident (attachments a1) = map file_ident (attachments a) @ new \<and> length new = length js \<and>
       list_all (\<lambda>x. fst (snd (snd x)) = (p_org_id p, st, sid) \<and> has_key_scope p ''write:attachment'' \<and>
         can_write p \<lparr>res_scope = \<lparr>ref_type = st, ref_id = sid\<rparr>, res_sensitivity = snd (snd (snd (snd x)))\<rparr>) new \<and>
       att_chunks a1 = att_chunks a"
proof (induction js arbitrary: a store store1 tasks)
  case Nil
  then show ?case by simp
next
  case (Cons j js)
  obtain r a2 store2 tasks2 store3 tasks3 where r: "import_file env p st sid t r a store = (Inr a2, store2, tasks2)"
      "import_files env p st sid t js a2 store2 = (Inr a1, store3, tasks3)"
    using Cons.prems by (auto simp: Let_def split: sum.splits prod.splits)
  obtain new1 where "map file_ident (attachments a2) = map file_ident (attachments a) @ [new1]"
      "fst (snd (snd new1)) = (p_org_id p, st, sid)" "att_chunks a2 = att_chunks a" "has_key_scope p ''write:attachment''"
      "can_write p \<lparr>res_scope = \<lparr>ref_type = st, ref_id = sid\<rparr>, res_sensitivity = snd (snd (snd (snd new1)))\<rparr>"
    using import_file_effect [OF r(1)] by blast
  then show ?case using Cons.IH [OF r(2)] by (elim exE) (rule_tac x = "new1 # new" in exI, simp)
qed

text \<open>
  C31.  An import stays within the caller's rights and the target scope.  When it succeeds, every memory row of the archive was writable
  by the caller there, with the key scope asked for, and so was every file.  Identifier, place, title and body of the memories and files
  that were there are as before; the rows added belong to the target scope of the caller's organisation, the memories among
  them are derived and no more than the archive has, the files as many; links are only added, one audit entry names the
  import, and the numbers reported are those of the archive's rows.
\<close>

theorem import_confined:
  assumes "import_from_tar env p body st sid (d, a) store = (Inr (n, d1, a1), store1, tasks)"
  shows "\<exists>t ms ls xs memories_added links_added files_added e.
    archive_rows (ie_codec env) body = Inr (t, ms, ls, xs) \<and>
    ir_memories n = length ms \<and> ir_links n \<le> length ls \<and> ir_attachments n = length xs \<and>
    list_all (may_import p st sid) ms \<and>
    map row_ident (memories d1) = map row_ident (memories d) @ memories_added \<and> length memories_added \<le> length ms \<and>
    list_all (placed_in (p_org_id p, st, sid, DERIVED)) memories_added \<and>
    links d1 = links d @ links_added \<and> length links_added \<le> ir_links n \<and>
    map file_ident (attachments a1) = map file_ident (attachments a) @ files_added \<and> length files_added = length xs \<and>
    list_all (\<lambda>x. fst (snd (snd x)) = (p_org_id p, st, sid) \<and> has_key_scope p ''write:attachment'' \<and>
      can_write p \<lparr>res_scope = \<lparr>ref_type = st, ref_id = sid\<rparr>, res_sensitivity = snd (snd (snd (snd x)))\<rparr>) files_added \<and>
    att_chunks a1 = att_chunks a \<and> audit_rows d1 = audit_rows d @ [e] \<and> a_action e = ''scope.imported''"
proof -
  obtain t ms ls xs seen d2 k d3 where r: "archive_rows (ie_codec env) body = Inr (t, ms, ls, xs)"
      "import_memories env p st sid ms [] fresh_cache d = Inr (seen, d2)" "import_links env p seen ls d2 = Inr (k, d3)"
    and rest: "(case import_files env p st sid t xs a store of (res, store1, tasks) \<Rightarrow>
        (rbind res (\<lambda>a1. let total = \<lparr>ir_memories = length ms, ir_links = k, ir_attachments = length xs\<rparr>
           in rbind (audit_transfer (ie_service env) p SCOPE_IMPORTED st sid (result_json total) d3) (\<lambda>d4. Inr (total, d4, a1))),
         store1, tasks)) = (Inr (n, d1, a1), store1, tasks)"
    using assms by (auto simp: import_from_tar_def rbind_Inr split: sum.splits)
  obtain store2 tasks2 where files: "import_files env p st sid t xs a store = (Inr a1, store2, tasks2)"
    and n: "n = \<lparr>ir_memories = length ms, ir_links = k, ir_attachments = length xs\<rparr>"
    and audit: "audit_transfer (ie_service env) p SCOPE_IMPORTED st sid (result_json n) d3 = Inr d1"
    using rest by (auto simp: Let_def rbind_Inr split: prod.splits)
  obtain new where new: "list_all (may_import p st sid) ms" "links d2 = links d" "audit_rows d2 = audit_rows d"
      "map row_ident (memories d2) = map row_ident (memories d) @ new" "length new \<le> length ms"
      "list_all (placed_in (p_org_id p, st, sid, DERIVED)) new"
    using import_memories_effect [OF r(2)] by blast
  obtain nl where nl: "k \<le> length ls" "d3 = d2\<lparr>links := links d2 @ nl\<rparr>" "length nl \<le> k"
    using import_links_effect [OF r(3)] by blast
  obtain e where e: "d1 = d3\<lparr>audit_rows := audit_rows d3 @ [e]\<rparr>" "a_action e = ''scope.imported''"
    using audit_transfer_rows [OF audit] by auto
  have tables: "memories d1 = memories d2" "links d1 = links d @ nl" "audit_rows d1 = audit_rows d @ [e]"
    using e(1) nl(2) new(2,3) by simp_all
  obtain fs where fs: "map file_ident (attachments a1) = map file_ident (attachments a) @ fs" "length fs = length xs"
      "list_all (\<lambda>x. fst (snd (snd x)) = (p_org_id p, st, sid) \<and> has_key_scope p ''write:attachment'' \<and>
        can_write p \<lparr>res_scope = \<lparr>ref_type = st, ref_id = sid\<rparr>, res_sensitivity = snd (snd (snd (snd x)))\<rparr>) fs"
      "att_chunks a1 = att_chunks a"
    using import_files_effect [OF files] by blast
  show ?thesis
    by (rule exI [of _ t], rule exI [of _ ms], rule exI [of _ ls], rule exI [of _ xs], rule exI [of _ new], rule exI [of _ nl],
        rule exI [of _ fs], rule exI [of _ e])
      (use r(1) n new nl(1,3) tables fs e(2) in simp)
qed

section \<open>Runs\<close>

definition two_db :: db where
  "two_db = (snd (memory_create (member_of 1) ''b'' 101 (sample_args\<lparr>ca_body := ''lunch at noon''\<rparr>) sample_db))
     \<lparr>links := [\<lparr>l_from = 1, l_to = 2, l_type = RELATED, l_weight = 1, l_created_at = 102\<rparr>]\<rparr>"

definition demo_rows :: "row list" where
  "demo_rows = map memory_export_row (memories two_db) @
     export_links (map (\<lambda>m. (m_id m, m_public_id m)) (memories two_db)) (links two_db) @ [attachment_export_row demo_file]"

text \<open>An encoding that is faithful on the rows of the run: a row is written as its first field.\<close>

definition demo_dumps :: "json \<Rightarrow> string" where
  "demo_dumps j = (case j of JObj ((k, JStr v) # _) \<Rightarrow> ''{'' @ k @ v @ ''}'' | _ \<Rightarrow> ''{}'')"

definition demo_codec :: "archive \<Rightarrow> codec" where
  "demo_codec t = \<lparr>cd_dumps = demo_dumps,
     cd_loads = (\<lambda>s. case map_of (map (\<lambda>r. (demo_dumps (JObj r), r)) demo_rows) s of
       Some r \<Rightarrow> Inr (JObj r) | None \<Rightarrow> Inl ''Expecting value''),
     cd_tar = (\<lambda>_. ''t''), cd_untar = (\<lambda>_. Inr t)\<rparr>"

definition demo_files :: att_db where
  "demo_files = no_files\<lparr>attachments := [demo_file], next_attachment_id := 2\<rparr>"

definition demo_export :: "(archive \<times> db) result" where
  "demo_export = stream_export (lean_env 200 ''c'') (demo_codec []) (member_of 1) PROJECT 5 True demo_files demo_blobs two_db"

definition demo_archive :: archive where
  "demo_archive = (case demo_export of Inl _ \<Rightarrow> [] | Inr (t, _) \<Rightarrow> t)"

lemma demo_export_done: "map fst demo_archive = [''memories.jsonl'', ''memory_links.jsonl'', ''blobs/f1/a.md'', ''attachments.jsonl'',
    ''attachment_chunks.jsonl'', ''manifest.json'']"
  by code_simp

lemma demo_codec_export:
  "stream_export env (demo_codec t) p st sid incl a store d = stream_export env (demo_codec u) p st sid incl a store d"
  by (simp add: stream_export_def add_jsonl_def jsonl_body_def demo_codec_def)

lemma demo_exported: "\<exists>d1. demo_export = Inr (demo_archive, d1)"
proof -
  have ok: "\<not> isl demo_export" by code_simp
  then obtain t d1 where r: "demo_export = Inr (t, d1)" by (metis sum.collapse(2) prod.collapse)
  have "demo_archive = t" unfolding demo_archive_def r by simp
  then show ?thesis using r by blast
qed


lemma demo_encodes: "list_all (encodes (demo_codec t)) demo_rows"
proof -
  have "list_all (encodes (demo_codec [])) demo_rows" by code_simp
  then show ?thesis by (simp add: encodes_def [abs_def] demo_codec_def)
qed


text \<open>An archive of two memories, a link and a file, its lines abbreviated.\<close>

definition short_archive :: archive where
  "short_archive = [(''memories.jsonl'', ''A'' @ [newline] @ ''B''), (''memory_links.jsonl'', ''L''), (''blobs/f1/a.md'', ''One two.''),
     (''attachments.jsonl'', ''F'')]"

definition short_loads :: loads where
  "short_loads s =
     (if s = ''A'' then Inr (JObj [(''public_id'', JStr ''a''), (''title'', JStr ''drinks''), (''body'', JStr ''likes tea'')])
      else if s = ''B'' then Inr (JObj [(''public_id'', JStr ''b''), (''title'', JStr ''home''), (''body'', JStr ''lives in Rome'')])
      else if s = ''L'' then Inr (JObj [(''from_public_id'', JStr ''a''), (''to_public_id'', JStr ''b'')])
      else if s = ''F'' then Inr (JObj [(''public_id'', JStr ''f1''), (''filename'', JStr ''a.md'')])
      else Inl ''Expecting value'')"

definition demo_import_env :: import_env where
  "demo_import_env = \<lparr>ie_service = lean_env 300 ''x'',
     ie_codec = \<lparr>cd_dumps = (\<lambda>_. []), cd_loads = short_loads, cd_tar = (\<lambda>_. []), cd_untar = (\<lambda>_. Inr short_archive)\<rparr>,
     ie_memory_id = (\<lambda>i. ''n'' @ show_int i), ie_attachment_id = (\<lambda>i. ''g'' @ show_int i), ie_upload_id = (\<lambda>i. ''u'' @ show_int i)\<rparr>"

definition demo_transfer :: "(import_result \<times> db \<times> att_db) result \<times> blobs \<times> int list" where
  "demo_transfer = import_from_tar demo_import_env (member_of 1) ''t'' PROJECT 5 (empty_db, no_files) []"

lemma import_confined_witness:
  "\<exists>n d1 a1 store1. demo_transfer = (Inr (n, d1, a1), store1, [1]) \<and> n = \<lparr>ir_memories = 2, ir_links = 1, ir_attachments = 1\<rparr> \<and>
     (\<exists>new. map row_ident (memories d1) = new \<and> list_all (placed_in (1, PROJECT, 5, DERIVED)) new) \<and> length (attachments a1) = 1"
proof -
  have run: "(case fst demo_transfer of Inl _ \<Rightarrow> False | Inr (n, _) \<Rightarrow> n = \<lparr>ir_memories = 2, ir_links = 1, ir_attachments = 1\<rparr>)"
    "snd (snd demo_transfer) = [1]" by code_simp+
  obtain res store1 tasks where t: "demo_transfer = (res, store1, tasks)" by (metis prod.collapse)
  obtain n d1 a1 where n: "res = Inr (n, d1, a1)" "n = \<lparr>ir_memories = 2, ir_links = 1, ir_attachments = 1\<rparr>" "tasks = [1]"
    using run unfolding t by (cases res) auto
  have r: "demo_transfer = (Inr (n, d1, a1), store1, [1])" using t n by simp
  have e: "memories empty_db = []" "attachments no_files = []" "p_org_id (member_of 1) = 1" by code_simp+
  obtain new files xs where i: "map row_ident (memories d1) = map row_ident (memories empty_db) @ new"
      "list_all (placed_in (p_org_id (member_of 1), PROJECT, 5, DERIVED)) new" "ir_attachments n = length (xs :: json list)"
      "map file_ident (attachments a1) = map file_ident (attachments no_files) @ files" "length files = length xs"
    using import_confined [OF r [unfolded demo_transfer_def]] by blast
  have "length (attachments a1) = 1" using arg_cong [OF i(4), of length] i(3,5) n(2) e(2) by simp
  then show ?thesis using r n(2) i(1,2) e(1,3) by (intro exI conjI) auto
qed

section \<open>Where the code departs from its intent\<close>

text \<open>
  An export asks for no key scope, no role and no sensitivity: whoever is of the organisation exports the same memories and
  files, a guest with a key that may read nothing as well as an owner.
\<close>

lemma export_asks_no_right:
  assumes "p_org_id p = p_org_id q" and "is_superuser p = is_superuser q"
  shows "exported_memories p st sid d = exported_memories q st sid d \<and> exported_files incl p st sid a = exported_files incl q st sid a"
  using assms by (simp add: exported_memories_def exported_files_def repo_list_def att_list_def tenant_rows_def)

text \<open>The entry an export appends to the audit log is in the session's log and not in the log that the endpoint leaves.\<close>

lemma export_not_audited:
  assumes "export_scope env c p st sid incl a store d = (Inr body, d1)"
  shows "\<exists>t d2 e. stream_export env c p st sid incl a store d = Inr (t, d2) \<and> audit_rows d2 = audit_rows d @ [e] \<and>
    a_action e = ''scope.exported'' \<and> audit_rows d1 = audit_rows d"
proof -
  obtain t d2 where t: "stream_export env c p st sid incl a store d = Inr (t, d2)" "d1 = d"
    using assms unfolding export_scope_def export_to_tar_def
    by (cases "stream_export env c p st sid incl a store d") auto
  show ?thesis using stream_export_members [OF t(1)] t by auto
qed

text \<open>
  Importing the same archive again: its memories fold into those of the first import, so the link between them is there already,
  the unique key is violated and the whole import fails.
\<close>

lemma second_import_fails:
  "(case import_scope demo_import_env (member_of 1) ''t'' PROJECT 5 (empty_db, no_files) [] of
      (r1, s1, store1, _) \<Rightarrow> \<not> isl r1 \<and>
        (case fst (import_scope demo_import_env (member_of 1) ''t'' PROJECT 5 s1 store1) of Inl (IntegrityError _) \<Rightarrow> True | _ \<Rightarrow> False))"
  by code_simp

text \<open>An import does not keep the tier, the sensitivity default apart, nor the review of what it folds: a long-term memory comes back short-term.\<close>

lemma tier_lost:
  "import_input st sid (memory_export_row (m\<lparr>m_tier := LONG\<rparr>)) = import_input st sid (memory_export_row (m\<lparr>m_tier := SHORT\<rparr>))"
  by (simp add: import_exported imported_input_def)

end
